(* ===== verification/Conrt_Prelude.thy ===== *)
theory Conrt_Prelude
  imports Main "HOL-Library.Word" "HOL-Library.Monad_Syntax"
begin

unbundle bit_operations_syntax

text \<open>
  Shared vocabulary of the development.

  \<^item> Machine types: bytes and the fixed-width unsigned integers are words; file descriptors,
    process ids and errno values are the signed integers of the C interface.
  \<^item> Failure: a Rust panic (a failed \<^verbatim>\<open>assert!\<close>, an out-of-range index, an arithmetic
    underflow, an \<^verbatim>\<open>expect\<close> on \<^verbatim>\<open>None\<close>) is \<^term>\<open>None\<close>, so the option monad carries it
    and \<^theory_text>\<open>do\<close> blocks read like the source. An \<^verbatim>\<open>io::Result\<close> is a sum with the error
    on the left.
  \<^item> Checked accesses: \<open>idx\<close>, \<open>slice_of\<close>, \<open>checked_sub\<close> are the panicking
    operations of the standard library.
  \<^item> Lemma collections: \<open>panic_simps\<close> unfolds the checked operations.
\<close>

named_theorems panic_simps "unfolding rules for the checked (panicking) operations"

type_synonym byte = "8 word"
type_synonym bytes = "8 word list"
type_synonym u8 = "8 word"
type_synonym u16 = "16 word"
type_synonym u32 = "32 word"
type_synonym u64 = "64 word"
type_synonym fd = int
type_synonym pid = int
type_synonym errno = int

text \<open>The errors an \<^verbatim>\<open>io::Error\<close> of the sources carries: a raw errno, or a kind.\<close>

datatype io_error = Os errno | Interrupted | UnexpectedEof | WriteZero

type_synonym 'a io_result = "io_error + 'a"

abbreviation NL :: byte where "NL \<equiv> 10"

section \<open>Checked operations\<close>

text \<open>\<^verbatim>\<open>assert!(b)\<close>.\<close>

definition ensure :: "bool \<Rightarrow> unit option" where
  "ensure b = (if b then Some () else None)"

text \<open>\<^verbatim>\<open>xs[i]\<close> on a slice or vector.\<close>

definition idx :: "'a list \<Rightarrow> nat \<Rightarrow> 'a option" where
  "idx xs i = (if i < length xs then Some (xs ! i) else None)"

text \<open>\<^verbatim>\<open>&xs[a..b]\<close>.\<close>

definition slice_of :: "'a list \<Rightarrow> nat \<Rightarrow> nat \<Rightarrow> 'a list option" where
  "slice_of xs a b = (if a \<le> b \<and> b \<le> length xs then Some (take (b - a) (drop a xs)) else None)"

text \<open>\<^verbatim>\<open>a - b\<close> on an unsigned integer, with overflow checks on.\<close>

definition checked_sub :: "nat \<Rightarrow> nat \<Rightarrow> nat option" where
  "checked_sub a b = (if b \<le> a then Some (a - b) else None)"

lemma ensure_Some [simp]: "ensure b = Some u \<longleftrightarrow> b"
  by (simp add: ensure_def)

lemma ensure_None [simp]: "ensure b = None \<longleftrightarrow> \<not> b"
  by (simp add: ensure_def)

lemma ensure_True [simp]: "ensure True = Some ()"
  by (simp add: ensure_def)

lemma ensure_False [simp]: "ensure False = None"
  by (simp add: ensure_def)

lemma bind_ensure [panic_simps]: "Option.bind (ensure b) f = (if b then f () else None)"
  by (simp add: ensure_def)

lemma idx_Some [simp]: "idx xs i = Some x \<longleftrightarrow> i < length xs \<and> xs ! i = x"
  by (auto simp: idx_def)

lemma idx_None [simp]: "idx xs i = None \<longleftrightarrow> length xs \<le> i"
  by (simp add: idx_def not_less)

lemma idx_in_range: "i < length xs \<Longrightarrow> idx xs i = Some (xs ! i)"
  by (simp add: idx_def)

lemma checked_sub_Some [simp]: "checked_sub a b = Some c \<longleftrightarrow> b \<le> a \<and> c = a - b"
  by (auto simp: checked_sub_def)

lemma checked_sub_None [simp]: "checked_sub a b = None \<longleftrightarrow> a < b"
  by (auto simp: checked_sub_def)

lemma checked_sub_in_range: "b \<le> a \<Longrightarrow> checked_sub a b = Some (a - b)"
  by simp

lemma slice_of_Some [simp]:
  "slice_of xs a b = Some ys \<longleftrightarrow> a \<le> b \<and> b \<le> length xs \<and> ys = take (b - a) (drop a xs)"
  by (auto simp: slice_of_def)

lemma slice_of_in_range:
  "a \<le> b \<Longrightarrow> b \<le> length xs \<Longrightarrow> slice_of xs a b = Some (take (b - a) (drop a xs))"
  by simp

lemmas panic_defs = ensure_def idx_def slice_of_def checked_sub_def

section \<open>Lists\<close>

lemma take_drop_nth: "i < length xs \<Longrightarrow> take 1 (drop i xs) = [xs ! i]"
  by (simp add: take_Suc hd_drop_conv_nth)

lemma mod_add_once: "a < n \<Longrightarrow> b \<le> n \<Longrightarrow> (a + b) mod n = (if a + b < n then a + b else a + b - (n::nat))"
  by (auto simp: mod_if)

lemma mod_add_inj:
  fixes h :: nat
  assumes "j < c" "n < c" "(h + j) mod c = (h + n) mod c" shows "j = n"
proof -
  have le: "a = b" if "a \<le> b" "b < c" "(h + b) mod c = (h + a) mod c" for a b
  proof -
    have "c dvd (h + b) - (h + a)" using that(1,3) by (subst mod_eq_dvd_iff_nat [symmetric]) auto
    then have "c dvd b - a" by simp
    then show ?thesis using that by (meson dvd_imp_le le_antisym less_imp_diff_less not_le zero_less_diff)
  qed
  show ?thesis using le [of j n] le [of n j] assms by (cases "j \<le> n") auto
qed

lemma list_split_nth: "i < length xs \<Longrightarrow> xs = take i xs @ xs ! i # drop (Suc i) xs"
  by (simp add: id_take_nth_drop)

text \<open>\<^verbatim>\<open>Vec::swap_remove(i)\<close>: the last element takes the place of the removed one.\<close>

definition swap_remove :: "nat \<Rightarrow> 'a list \<Rightarrow> 'a list option" where
  "swap_remove i xs = (if i < length xs then Some (butlast (xs[i := last xs])) else None)"

lemma swap_remove_snoc:
  "i < Suc (length ys) \<Longrightarrow>
   swap_remove i (ys @ [y]) = Some (if i = length ys then ys else ys[i := y])"
  by (auto simp: swap_remove_def list_update_append less_Suc_eq butlast_append)

lemma set_swap_remove:
  assumes "swap_remove i xs = Some zs" and "distinct xs"
  shows "set zs = set xs - {xs ! i} \<and> distinct zs"
proof -
  from assms(1) have i: "i < length xs" by (auto simp: swap_remove_def split: if_splits)
  then obtain ys y where xs: "xs = ys @ [y]" by (cases xs rule: rev_cases) auto
  have d: "distinct ys" "y \<notin> set ys" using assms(2) xs by auto
  have zs: "zs = (if i = length ys then ys else ys[i := y])"
    using assms(1) i xs swap_remove_snoc [of i ys y] by simp
  show ?thesis
  proof (cases "i = length ys")
    case True
    then show ?thesis using zs xs d by auto
  next
    case False
    then have i': "i < length ys" using i xs by simp
    have "set (ys[i := y]) = insert y (set ys - {ys ! i})"
      using i' d(1) by (simp add: set_update_distinct)
    moreover have "distinct (ys[i := y])"
      using d i' by (simp add: distinct_list_update)
    moreover have "(ys @ [y]) ! i = ys ! i" using i' by (simp add: nth_append)
    moreover have "y \<noteq> ys ! i" using d i' by auto
    ultimately show ?thesis using False zs xs d by auto
  qed
qed

text \<open>\<^verbatim>\<open>iter().position(p)\<close>.\<close>

fun position :: "('a \<Rightarrow> bool) \<Rightarrow> 'a list \<Rightarrow> nat option" where
  "position p [] = None"
| "position p (x # xs) = (if p x then Some 0 else map_option Suc (position p xs))"

lemma position_Some:
  "position p xs = Some i \<longleftrightarrow> i < length xs \<and> p (xs ! i) \<and> (\<forall>j < i. \<not> p (xs ! j))"
proof (induction xs arbitrary: i)
  case Nil
  then show ?case by simp
next
  case (Cons x xs)
  then show ?case by (cases i) (auto simp: less_Suc_eq_0_disj)
qed

lemma position_None: "position p xs = None \<longleftrightarrow> (\<forall>x \<in> set xs. \<not> p x)"
  by (induction xs) auto

lemma position_SomeD: "position p xs = Some i \<Longrightarrow> i < length xs \<and> p (xs ! i)"
  by (simp add: position_Some)

section \<open>Words\<close>

lemma word_bits_below:
  fixes w :: "'a::len word"
  assumes "unat w < 2 ^ k" "bit w n" shows "n < k"
proof -
  have "bit (unat w) n" using assms(2) by (simp add: bit_unsigned_iff)
  moreover have "take_bit k (unat w) = unat w" using assms(1) by (simp add: take_bit_nat_eq_self_iff)
  ultimately show ?thesis by (metis bit_take_bit_iff)
qed

section \<open>Little-endian 16-bit lengths\<close>

text \<open>\<^verbatim>\<open>(n as u16).to_le_bytes()\<close> and \<^verbatim>\<open>u16::from_le_bytes([a, b]) as usize\<close>.\<close>

definition u16_to_le_bytes :: "nat \<Rightarrow> bytes" where
  "u16_to_le_bytes n = [word_of_nat (n mod 2 ^ 16 mod 256), word_of_nat (n mod 2 ^ 16 div 256)]"

definition u16_from_le_bytes :: "byte \<Rightarrow> byte \<Rightarrow> nat" where
  "u16_from_le_bytes a b = unat a + 256 * unat b"

lemma unat_byte_of_nat: "n < 256 \<Longrightarrow> unat (word_of_nat n :: byte) = n"
  by (simp add: unat_of_nat)

lemma length_u16_to_le_bytes [simp]: "length (u16_to_le_bytes n) = 2"
  by (simp add: u16_to_le_bytes_def)

lemma u16_le_bytes_roundtrip:
  "u16_from_le_bytes (u16_to_le_bytes n ! 0) (u16_to_le_bytes n ! 1) = n mod 2 ^ 16"
proof -
  have "n mod 65536 mod 256 < 256" "n mod 65536 div 256 < 256"
    by (auto intro: div_less_dividend simp: less_mult_imp_div_less)
  then show ?thesis
    by (simp add: u16_to_le_bytes_def u16_from_le_bytes_def unat_byte_of_nat)
qed

lemma u16_from_le_bytes_less: "u16_from_le_bytes a b < 2 ^ 16"
proof -
  have "unat a < 256" "unat b < 256" using unsigned_less [of a] unsigned_less [of b] by simp_all
  then show ?thesis by (simp add: u16_from_le_bytes_def)
qed

end
