(* ===== verification/Size_Classes.thy ===== *)
theory Size_Classes
  imports Conrt_Prelude "HOL-Library.Multiset"
begin

text \<open>
  Buffer size classes and the packed buffer id (\<^verbatim>\<open>libs/coio-uring/src/classes.rs\<close>): the class
  table, the validation and layout of a table over one slab, and the 32-bit \<^verbatim>\<open>bid\<close> that names a
  slot. Sizes, counts and offsets are naturals: the source computes them in 64 bits from 32-bit
  inputs after bounding the counts by 24 bits, so they cannot wrap; the final cast of the base
  offset to 32 bits is written out. A failed \<^verbatim>\<open>assert!\<close> is \<^term>\<open>None\<close>.
\<close>

section \<open>The class table\<close>

record size_class =
  sc_size :: nat
  sc_count :: nat

definition DEFAULT_SIZE_CLASSES :: "size_class list" where
  "DEFAULT_SIZE_CLASSES =
     [\<lparr>sc_size = 64, sc_count = 1024\<rparr>, \<lparr>sc_size = 256, sc_count = 1024\<rparr>,
      \<lparr>sc_size = 1024, sc_count = 256\<rparr>, \<lparr>sc_size = 4096, sc_count = 64\<rparr>,
      \<lparr>sc_size = 16384, sc_count = 8\<rparr>, \<lparr>sc_size = 65536, sc_count = 1\<rparr>]"

definition BUFFER_MAX_ALIGN :: nat where
  "BUFFER_MAX_ALIGN = 4096"

section \<open>The packed buffer id\<close>

definition BID_CLASS_SHIFT :: nat where
  "BID_CLASS_SHIFT = 24"

definition BID_PROVIDED_FLAG :: u32 where
  "BID_PROVIDED_FLAG = push_bit 31 1"

definition BID_CLASS_MASK :: u32 where
  "BID_CLASS_MASK = 0x7F"

definition BID_LOCAL_MASK :: u32 where
  "BID_LOCAL_MASK = 0x00FFFFFF"

definition pack_bid :: "bool \<Rightarrow> u8 \<Rightarrow> u32 \<Rightarrow> u32" where
  "pack_bid provided cls slot =
     (let provided = if provided then BID_PROVIDED_FLAG else 0 in
      (provided OR push_bit BID_CLASS_SHIFT (ucast cls AND BID_CLASS_MASK))
        OR (slot AND BID_LOCAL_MASK))"

definition bid_provided :: "u32 \<Rightarrow> bool" where
  "bid_provided bid \<longleftrightarrow> bid AND BID_PROVIDED_FLAG \<noteq> 0"

definition bid_class :: "u32 \<Rightarrow> u8" where
  "bid_class bid = ucast (drop_bit BID_CLASS_SHIFT bid AND BID_CLASS_MASK)"

definition bid_local :: "u32 \<Rightarrow> u32" where
  "bid_local bid = bid AND BID_LOCAL_MASK"

section \<open>Choosing a class\<close>

definition class_for :: "size_class list \<Rightarrow> nat \<Rightarrow> nat option" where
  "class_for classes n =
     map_option (\<lambda>index. index mod 256) (position (\<lambda>c. n \<le> sc_size c) classes)"

section \<open>Laying out a table\<close>

record size_class_layout =
  cl_size :: nat
  cl_count :: nat
  cl_base_offset :: nat
  cl_total :: nat

text \<open>\<^verbatim>\<open>u32::is_power_of_two\<close>.\<close>

fun is_power_of_two :: "nat \<Rightarrow> bool" where
  "is_power_of_two n = (if n \<le> 1 then n = 1 else even n \<and> is_power_of_two (n div 2))"

declare is_power_of_two.simps [simp del]

definition div_ceil :: "nat \<Rightarrow> nat \<Rightarrow> nat" where
  "div_ceil a b = (a + b - 1) div b"

fun strictly_increasing :: "size_class list \<Rightarrow> bool" where
  "strictly_increasing (a # b # cs) \<longleftrightarrow> sc_size a < sc_size b \<and> strictly_increasing (b # cs)"
| "strictly_increasing cs \<longleftrightarrow> True"

text \<open>The body of the layout loop for one class, at the running end \<open>base\<close> of the slab.\<close>

definition layout_class :: "bool \<Rightarrow> nat \<Rightarrow> size_class \<Rightarrow> size_class_layout option" where
  "layout_class power_of_two_counts base c = do {
     ensure (0 < sc_size c);
     ensure (is_power_of_two (sc_size c));
     ensure (0 < sc_count c);
     ensure (sc_count c \<le> unat BID_LOCAL_MASK);
     ensure (power_of_two_counts \<longrightarrow> is_power_of_two (sc_count c) \<and> sc_count c \<le> 32768);
     let align = min (sc_size c) BUFFER_MAX_ALIGN;
     let base_offset = div_ceil base align * align;
     let total = base_offset + sc_size c * sc_count c;
     ensure (total \<le> 2 ^ 32 - 1);
     Some \<lparr>cl_size = sc_size c, cl_count = sc_count c,
           cl_base_offset = base_offset mod 2 ^ 32, cl_total = total\<rparr>
   }"

fun layout_loop :: "bool \<Rightarrow> nat \<Rightarrow> size_class list \<Rightarrow> size_class_layout list option" where
  "layout_loop p base [] = Some []"
| "layout_loop p base (c # cs) = do {
     l \<leftarrow> layout_class p base c;
     ls \<leftarrow> layout_loop p (cl_total l) cs;
     Some (l # ls)
   }"

definition layout_classes :: "size_class list \<Rightarrow> bool \<Rightarrow> size_class_layout list option" where
  "layout_classes classes power_of_two_counts = do {
     ensure (classes \<noteq> []);
     ensure (length classes \<le> 128);
     let sorted = sort_key sc_size classes;
     ensure (strictly_increasing sorted);
     layout_loop power_of_two_counts 0 sorted
   }"

section \<open>The layout\<close>

definition slot_align :: "nat \<Rightarrow> nat" where
  "slot_align n = min n BUFFER_MAX_ALIGN"

text \<open>The first byte after, and the byte range of, slot \<open>i\<close> of a class.\<close>

definition slot_start :: "size_class_layout \<Rightarrow> nat \<Rightarrow> nat" where
  "slot_start l i = cl_base_offset l + i * cl_size l"

definition slot_bytes :: "size_class_layout \<Rightarrow> nat \<Rightarrow> nat set" where
  "slot_bytes l i = {slot_start l i ..< slot_start l i + cl_size l}"

lemma is_power_of_two_exp: "is_power_of_two n \<Longrightarrow> \<exists>k. n = 2 ^ k"
proof (induction n rule: is_power_of_two.induct)
  case (1 n)
  show ?case
  proof (cases "n = 1")
    case True
    then show ?thesis by (intro exI [of _ 0]) simp
  next
    case False
    then have n: "\<not> n \<le> 1" "even n" "is_power_of_two (n div 2)"
      using "1.prems" is_power_of_two.simps [of n] by (simp_all split: if_splits)
    obtain k where "n div 2 = 2 ^ k" using "1.IH" n by blast
    then have "n = 2 ^ Suc k" using n(2) by auto
    then show ?thesis by blast
  qed
qed

lemma slot_align_dvd: "is_power_of_two n \<Longrightarrow> slot_align n dvd n"
proof -
  assume "is_power_of_two n"
  then obtain k where k: "n = 2 ^ k" using is_power_of_two_exp by blast
  show ?thesis
  proof (cases "k \<le> 12")
    case True
    then have "n \<le> 2 ^ 12" using k power_increasing [of k 12 "2::nat"] by simp
    then show ?thesis by (simp add: slot_align_def BUFFER_MAX_ALIGN_def)
  next
    case False
    then have "(2::nat) ^ 12 dvd n" using k le_imp_power_dvd [of 12 k "2::nat"] False by auto
    then have "(4096::nat) dvd n" by simp
    then show ?thesis by (auto simp: slot_align_def BUFFER_MAX_ALIGN_def min_def)
  qed
qed

lemma div_ceil_bound: "0 < b \<Longrightarrow> a \<le> div_ceil a b * b"
proof -
  assume b: "0 < b"
  have "(a + b - 1) mod b < b" using b by simp
  then show ?thesis
    using div_mult_mod_eq [of "a + b - 1" b] b unfolding div_ceil_def by linarith
qed

text \<open>What the checks of the loop body guarantee about one class.\<close>

definition class_ok :: "bool \<Rightarrow> nat \<Rightarrow> size_class_layout \<Rightarrow> bool" where
  "class_ok p base l \<longleftrightarrow>
     is_power_of_two (cl_size l) \<and> 0 < cl_count l \<and> cl_count l \<le> 0xFFFFFF \<and>
     (p \<longrightarrow> is_power_of_two (cl_count l) \<and> cl_count l \<le> 32768) \<and>
     base \<le> cl_base_offset l \<and> slot_align (cl_size l) dvd cl_base_offset l \<and>
     cl_total l = cl_base_offset l + cl_size l * cl_count l \<and> cl_total l \<le> 2 ^ 32 - 1"

lemma layout_class_ok:
  assumes "layout_class p base c = Some l"
  shows "class_ok p base l" and "cl_size l = sc_size c" and "cl_count l = sc_count c"
proof -
  let ?al = "min (sc_size c) BUFFER_MAX_ALIGN"
  let ?off = "div_ceil base ?al * ?al"
  have c: "0 < sc_size c" "is_power_of_two (sc_size c)" "0 < sc_count c"
    "sc_count c \<le> unat BID_LOCAL_MASK"
    "p \<longrightarrow> is_power_of_two (sc_count c) \<and> sc_count c \<le> 32768"
    "?off + sc_size c * sc_count c \<le> 2 ^ 32 - 1"
    and l: "l = \<lparr>cl_size = sc_size c, cl_count = sc_count c, cl_base_offset = ?off mod 2 ^ 32,
                 cl_total = ?off + sc_size c * sc_count c\<rparr>"
    using assms by (auto simp: layout_class_def panic_simps Let_def split: if_splits)
  have off: "?off mod 2 ^ 32 = ?off" using c(6) by auto
  have "0 < ?al" using c(1) by (simp add: BUFFER_MAX_ALIGN_def)
  then have "base \<le> ?off" by (rule div_ceil_bound)
  moreover have "sc_count c \<le> 0xFFFFFF" using c(4) by (simp add: BID_LOCAL_MASK_def)
  ultimately show "class_ok p base l"
    using c off by (simp add: class_ok_def l slot_align_def)
  show "cl_size l = sc_size c" "cl_count l = sc_count c" by (simp_all add: l)
qed

lemma layout_loop_ok:
  "layout_loop p base cs = Some ls \<Longrightarrow>
   map (\<lambda>l. (cl_size l, cl_count l)) ls = map (\<lambda>c. (sc_size c, sc_count c)) cs \<and>
   (\<forall>l \<in> set ls. class_ok p base l) \<and>
   sorted_wrt (\<lambda>k l. cl_total k \<le> cl_base_offset l) ls \<and>
   (ls \<noteq> [] \<longrightarrow> (\<forall>l \<in> set ls. cl_total l \<le> cl_total (last ls)))"
proof (induction cs arbitrary: base ls)
  case Nil
  then show ?case by simp
next
  case (Cons c cs)
  then obtain l ks where l: "layout_class p base c = Some l"
    and ks: "layout_loop p (cl_total l) cs = Some ks" and ls: "ls = l # ks"
    by (auto simp: bind_eq_Some_conv)
  note ok = layout_class_ok [OF l]
  note rest = Cons.IH [OF ks]
  have "base \<le> cl_total l" using ok(1) by (simp add: class_ok_def)
  then have "\<forall>k \<in> set ks. class_ok p base k" using rest by (auto simp: class_ok_def)
  moreover have "\<forall>k \<in> set ks. cl_total l \<le> cl_base_offset k"
    using rest by (auto simp: class_ok_def)
  moreover from this have "\<forall>k \<in> set ks. cl_total l \<le> cl_total k"
    using rest by (fastforce simp: class_ok_def)
  ultimately show ?case using rest ok ls by auto
qed

lemma slot_bytes_class:
  assumes "class_ok p base l" "i < cl_count l"
  shows "slot_bytes l i \<subseteq> {cl_base_offset l ..< cl_total l}"
proof -
  have "i * cl_size l + cl_size l \<le> cl_count l * cl_size l"
    using assms(2) mult_le_mono1 [of "Suc i" "cl_count l" "cl_size l"] by simp
  then show ?thesis
    using assms(1) by (auto simp: slot_bytes_def slot_start_def class_ok_def mult.commute)
qed

lemma slot_bytes_same_class:
  assumes "i \<noteq> j" shows "slot_bytes l i \<inter> slot_bytes l j = {}"
proof -
  have "k * cl_size l + cl_size l \<le> m * cl_size l" if "k < m" for k m
    using that mult_le_mono1 [of "Suc k" m "cl_size l"] by simp
  from this [of i j] this [of j i] show ?thesis
    using assms by (fastforce simp: slot_bytes_def slot_start_def neq_iff)
qed

lemma layout_classes_Some:
  "layout_classes cs p = Some ls \<longleftrightarrow>
     cs \<noteq> [] \<and> length cs \<le> 128 \<and> strictly_increasing (sort_key sc_size cs) \<and>
     layout_loop p 0 (sort_key sc_size cs) = Some ls"
  by (auto simp: layout_classes_def panic_simps Let_def)

lemma strictly_increasing_sorted: "strictly_increasing cs \<Longrightarrow> sorted_wrt (<) (map sc_size cs)"
  by (induction cs rule: strictly_increasing.induct) (auto intro: less_trans)

section \<open>Properties\<close>

text \<open>
  C35. A table that \<^verbatim>\<open>layout_classes\<close> accepts is laid out soundly: the classes come out in strictly
  increasing size order with the sizes and counts of the input, every slot of every class starts
  at a multiple of the alignment its class hands out, lies inside the slab, and shares no byte
  with any other slot of the table.
\<close>

theorem layout_classes_sound:
  assumes "layout_classes cs p = Some ls"
  shows "sorted_wrt (<) (map cl_size ls) \<and>
    mset (map (\<lambda>l. (cl_size l, cl_count l)) ls) = mset (map (\<lambda>c. (sc_size c, sc_count c)) cs) \<and>
    (\<forall>k < length ls. \<forall>i < cl_count (ls ! k).
       slot_align (cl_size (ls ! k)) dvd slot_start (ls ! k) i \<and>
       slot_bytes (ls ! k) i \<subseteq> {0 ..< cl_total (last ls)} \<and>
       (\<forall>m < length ls. \<forall>j < cl_count (ls ! m). (k, i) \<noteq> (m, j) \<longrightarrow>
          slot_bytes (ls ! k) i \<inter> slot_bytes (ls ! m) j = {}))"
proof -
  let ?s = "sort_key sc_size cs"
  from assms have inc: "strictly_increasing ?s" and loop: "layout_loop p 0 ?s = Some ls"
    by (auto simp: layout_classes_Some)
  note ok = layout_loop_ok [OF loop]
  have zip: "map (\<lambda>l. (cl_size l, cl_count l)) ls = map (\<lambda>c. (sc_size c, sc_count c)) ?s"
    using ok by simp
  have "map cl_size ls = map sc_size ?s"
    using arg_cong [OF zip, of "map fst"] by (simp add: o_def)
  then have 1: "sorted_wrt (<) (map cl_size ls)" using strictly_increasing_sorted [OF inc] by simp
  have 2: "mset (map (\<lambda>l. (cl_size l, cl_count l)) ls) = mset (map (\<lambda>c. (sc_size c, sc_count c)) cs)"
    unfolding zip by simp
  have bytes: "slot_bytes (ls ! k) i \<subseteq> {cl_base_offset (ls ! k) ..< cl_total (ls ! k)}"
    if "k < length ls" "i < cl_count (ls ! k)" for k i
    using that ok slot_bytes_class [of p 0] by auto
  have align: "slot_align (cl_size l) dvd slot_start l i" if "l \<in> set ls" for l i
    using that ok slot_align_dvd by (auto simp: slot_start_def class_ok_def)
  have apart: "slot_bytes (ls ! k) i \<inter> slot_bytes (ls ! m) j = {}"
    if "k < m" "m < length ls" "i < cl_count (ls ! k)" "j < cl_count (ls ! m)" for k m i j
  proof -
    have "cl_total (ls ! k) \<le> cl_base_offset (ls ! m)"
      using that ok sorted_wrt_nth_less [of _ ls k m] by auto
    then show ?thesis using bytes [of k i] bytes [of m j] that by fastforce
  qed
  have inside: "slot_bytes (ls ! k) i \<subseteq> {0 ..< cl_total (last ls)}"
    if "k < length ls" "i < cl_count (ls ! k)" for k i
    using that bytes [OF that] ok by (fastforce dest: nth_mem)
  have disj: "slot_bytes (ls ! k) i \<inter> slot_bytes (ls ! m) j = {}"
    if "(k, i) \<noteq> (m, j)" "k < length ls" "m < length ls" "i < cl_count (ls ! k)"
      "j < cl_count (ls ! m)" for k m i j
    using that apart [of k m i j] apart [of m k j i] slot_bytes_same_class [of i j "ls ! k"]
    by (cases k m rule: linorder_cases) auto
  show ?thesis using 1 2 align inside disj by auto
qed

lemma default_layout:
  "layout_classes DEFAULT_SIZE_CLASSES True = Some
     [\<lparr>cl_size = 64, cl_count = 1024, cl_base_offset = 0, cl_total = 65536\<rparr>,
      \<lparr>cl_size = 256, cl_count = 1024, cl_base_offset = 65536, cl_total = 327680\<rparr>,
      \<lparr>cl_size = 1024, cl_count = 256, cl_base_offset = 327680, cl_total = 589824\<rparr>,
      \<lparr>cl_size = 4096, cl_count = 64, cl_base_offset = 589824, cl_total = 851968\<rparr>,
      \<lparr>cl_size = 16384, cl_count = 8, cl_base_offset = 851968, cl_total = 983040\<rparr>,
      \<lparr>cl_size = 65536, cl_count = 1, cl_base_offset = 983040, cl_total = 1048576\<rparr>]"
  by (simp add: layout_classes_def DEFAULT_SIZE_CLASSES_def layout_class_def BID_LOCAL_MASK_def
      BUFFER_MAX_ALIGN_def div_ceil_def is_power_of_two.simps panic_simps)

lemma default_layout_total:
  "\<exists>ls. layout_classes DEFAULT_SIZE_CLASSES True = Some ls \<and> cl_total (last ls) = 1048576"
  by (simp add: default_layout)

theorem layout_classes_sound_witness:
  "\<exists>ls. layout_classes DEFAULT_SIZE_CLASSES True = Some ls \<and>
     (\<forall>k < length ls. \<forall>i < cl_count (ls ! k).
        slot_align (cl_size (ls ! k)) dvd slot_start (ls ! k) i \<and>
        slot_bytes (ls ! k) i \<subseteq> {0 ..< 1048576})"
proof -
  obtain ls where ls: "layout_classes DEFAULT_SIZE_CLASSES True = Some ls"
    "cl_total (last ls) = 1048576" using default_layout_total by blast
  show ?thesis using layout_classes_sound [OF ls(1)] ls by auto
qed

section \<open>Bits of the packed id\<close>

lemma BID_masks:
  "BID_CLASS_MASK = mask 7" "BID_LOCAL_MASK = mask 24" "BID_PROVIDED_FLAG = push_bit 31 1"
  by (simp_all add: BID_CLASS_MASK_def BID_LOCAL_MASK_def BID_PROVIDED_FLAG_def mask_eq_exp_minus_1)

lemma bit_provided_flag: "bit BID_PROVIDED_FLAG n \<longleftrightarrow> n = 31"
  unfolding BID_PROVIDED_FLAG_def bit_push_bit_iff by (auto simp: bit_1_iff)

lemma bit_pack_bid:
  "bit (pack_bid provided cls slot) n \<longleftrightarrow>
     n < 32 \<and> (provided \<and> n = 31 \<or> 24 \<le> n \<and> n < 31 \<and> bit cls (n - 24) \<or> n < 24 \<and> bit slot n)"
  by (auto simp: pack_bid_def BID_masks(1,2) BID_CLASS_SHIFT_def bit_simps bit_provided_flag Let_def)

lemma pack_bid_decode:
  assumes "unat cls < 128" and "unat slot < 2 ^ 24"
  shows "bid_provided (pack_bid provided cls slot) = provided \<and>
         bid_class (pack_bid provided cls slot) = cls \<and>
         bid_local (pack_bid provided cls slot) = slot"
proof -
  let ?b = "pack_bid provided cls slot"
  have c: "n < 7" if "bit cls n" for n using word_bits_below [of cls 7 n] assms(1) that by simp
  have l: "n < 24" if "bit slot n" for n using word_bits_below [of slot 24 n] assms(2) that by simp
  have "bid_provided ?b \<longleftrightarrow> bit ?b 31"
    by (simp add: bid_provided_def BID_masks(3) bit_iff_and_push_bit_not_eq_0)
  then have 1: "bid_provided ?b = provided" by (simp add: bit_pack_bid)
  have 2: "bid_class ?b = cls"
    by (rule bit_eqI)
      (auto simp: bid_class_def BID_masks(1) BID_CLASS_SHIFT_def bit_simps bit_pack_bid dest: c)
  have 3: "bid_local ?b = slot"
    by (rule bit_eqI) (auto simp: bid_local_def BID_masks(2) bit_simps bit_pack_bid dest: l)
  from 1 2 3 show ?thesis by simp
qed

text \<open>
  The packed buffer id round-trips: direction, class (below 128, as the layout guarantees) and
  slot id (below \<open>2 ^ 24\<close>) are read back as packed, so distinct slots have distinct ids.
\<close>

theorem pack_bid_roundtrip:
  assumes "unat cls < 128" and "unat slot < 2 ^ 24"
  shows "bid_provided (pack_bid provided cls slot) = provided \<and>
         bid_class (pack_bid provided cls slot) = cls \<and>
         bid_local (pack_bid provided cls slot) = slot"
  by (rule pack_bid_decode [OF assms])

theorem pack_bid_roundtrip_witness:
  "bid_provided (pack_bid True 5 70000) \<and> bid_class (pack_bid True 5 70000) = 5 \<and>
   bid_local (pack_bid True 5 70000) = 70000"
  using pack_bid_roundtrip [of 5 70000 True] by simp

text \<open>
  On a table sorted by size with at most 256 entries, \<^verbatim>\<open>class_for\<close> returns the smallest class
  that fits the request, and \<^term>\<open>None\<close> exactly when no class is large enough.
\<close>

theorem class_for_smallest:
  assumes "sorted_wrt (<) (map sc_size cs)" and "length cs \<le> 256"
  shows "(case class_for cs n of
            Some k \<Rightarrow> k < length cs \<and> n \<le> sc_size (cs ! k) \<and>
                      (\<forall>c \<in> set cs. n \<le> sc_size c \<longrightarrow> sc_size (cs ! k) \<le> sc_size c)
          | None \<Rightarrow> \<forall>c \<in> set cs. sc_size c < n)"
proof (cases "position (\<lambda>c. n \<le> sc_size c) cs")
  case None
  then have "\<forall>c \<in> set cs. sc_size c < n" by (auto simp: position_None not_le)
  then show ?thesis using None by (simp add: class_for_def)
next
  case (Some k)
  then have k: "k < length cs" "n \<le> sc_size (cs ! k)" "\<forall>j < k. \<not> n \<le> sc_size (cs ! j)"
    by (auto simp: position_Some)
  have "sc_size (cs ! k) \<le> sc_size c" if c: "c \<in> set cs" "n \<le> sc_size c" for c
  proof -
    obtain j where j: "j < length cs" "c = cs ! j" using c(1) by (auto simp: in_set_conv_nth)
    have "k \<le> j" using k(3) j c(2) by (metis not_le)
    then show ?thesis
      using sorted_wrt_nth_less [OF assms(1), of k j] j by (cases "k = j") auto
  qed
  then show ?thesis using Some k assms(2) by (simp add: class_for_def)
qed

theorem class_for_smallest_witness: "class_for DEFAULT_SIZE_CLASSES 65 \<noteq> None"
  using class_for_smallest [of DEFAULT_SIZE_CLASSES 65]
  by (auto simp: DEFAULT_SIZE_CLASSES_def split: option.splits)

end
