(* ===== verification/Borrow_Tracker.thy ===== *)
theory Borrow_Tracker
  imports Conrt_Prelude
begin

text \<open>
  Per-slot borrow accounting (\<^verbatim>\<open>libs/coio-uring/src/buf/tracker.rs\<close>): one signed 32-bit count per
  slot, 0 for a free slot, positive for shared views, negative for exclusive ones. A failed
  assertion, a slot outside the vector and an overflow of the count are \<^term>\<open>None\<close>. The
  contract is the reader/writer discipline \<open>slot_state\<close>; every operation is shown to
  implement the corresponding transition of it, on exactly the states where the transition is
  allowed.
\<close>

section \<open>The tracker\<close>

record borrow_tracker =
  bt_borrows :: "int list"

abbreviation I32_MAX :: int where "I32_MAX \<equiv> 2 ^ 31 - 1"
abbreviation I32_MIN :: int where "I32_MIN \<equiv> - (2 ^ 31)"

definition tracker_new :: "nat \<Rightarrow> borrow_tracker" where
  "tracker_new count = \<lparr>bt_borrows = replicate count 0\<rparr>"

definition set_borrow :: "borrow_tracker \<Rightarrow> nat \<Rightarrow> int \<Rightarrow> borrow_tracker" where
  "set_borrow t slot b = t\<lparr>bt_borrows := (bt_borrows t)[slot := b]\<rparr>"

definition take_shared :: "borrow_tracker \<Rightarrow> nat \<Rightarrow> borrow_tracker option" where
  "take_shared t slot = do {
     borrow \<leftarrow> idx (bt_borrows t) slot;
     ensure (borrow = 0);
     Some (set_borrow t slot 1)
   }"

definition take_exclusive :: "borrow_tracker \<Rightarrow> nat \<Rightarrow> borrow_tracker option" where
  "take_exclusive t slot = do {
     borrow \<leftarrow> idx (bt_borrows t) slot;
     ensure (borrow = 0);
     Some (set_borrow t slot (-1))
   }"

definition clone_shared :: "borrow_tracker \<Rightarrow> nat \<Rightarrow> borrow_tracker option" where
  "clone_shared t slot = do {
     borrow \<leftarrow> idx (bt_borrows t) slot;
     ensure (0 < borrow);
     ensure (borrow + 1 \<le> I32_MAX);
     Some (set_borrow t slot (borrow + 1))
   }"

definition split_exclusive :: "borrow_tracker \<Rightarrow> nat \<Rightarrow> borrow_tracker option" where
  "split_exclusive t slot = do {
     borrow \<leftarrow> idx (bt_borrows t) slot;
     ensure (borrow < 0);
     ensure (I32_MIN \<le> borrow - 1);
     Some (set_borrow t slot (borrow - 1))
   }"

definition tracker_upgrade :: "borrow_tracker \<Rightarrow> nat \<Rightarrow> borrow_tracker option" where
  "tracker_upgrade t slot = do {
     borrow \<leftarrow> idx (bt_borrows t) slot;
     ensure (borrow = 1);
     Some (set_borrow t slot (-1))
   }"

definition tracker_downgrade :: "borrow_tracker \<Rightarrow> nat \<Rightarrow> borrow_tracker option" where
  "tracker_downgrade t slot = do {
     borrow \<leftarrow> idx (bt_borrows t) slot;
     ensure (borrow = -1);
     Some (set_borrow t slot 1)
   }"

text \<open>The tracker and whether the slot is free again.\<close>

definition tracker_drop_view ::
  "borrow_tracker \<Rightarrow> bool \<Rightarrow> nat \<Rightarrow> (borrow_tracker \<times> bool) option"
where
  "tracker_drop_view t exclusive slot = do {
     borrow \<leftarrow> idx (bt_borrows t) slot;
     ensure (borrow \<noteq> 0);
     borrow \<leftarrow> (if exclusive
               then do { ensure (borrow < 0); Some (borrow + 1) }
               else do { ensure (0 < borrow); Some (borrow - 1) });
     Some (set_borrow t slot borrow, borrow = 0)
   }"

section \<open>The discipline it implements\<close>

datatype slot_state = FreeSlot | SharedBy nat | ExclusiveBy nat

text \<open>The transitions, with the number of views after it; \<^term>\<open>None\<close> is a violation.\<close>

datatype borrow_op = TakeShared | TakeExclusive | CloneShared | SplitExclusive | Upgrade | Downgrade
  | DropShared | DropExclusive

fun discipline :: "borrow_op \<Rightarrow> slot_state \<Rightarrow> slot_state option" where
  "discipline TakeShared FreeSlot = Some (SharedBy 1)"
| "discipline TakeExclusive FreeSlot = Some (ExclusiveBy 1)"
| "discipline CloneShared (SharedBy n) = Some (SharedBy (n + 1))"
| "discipline SplitExclusive (ExclusiveBy n) = Some (ExclusiveBy (n + 1))"
| "discipline Upgrade (SharedBy n) = (if n = 1 then Some (ExclusiveBy 1) else None)"
| "discipline Downgrade (ExclusiveBy n) = (if n = 1 then Some (SharedBy 1) else None)"
| "discipline DropShared (SharedBy n) = Some (if n = 1 then FreeSlot else SharedBy (n - 1))"
| "discipline DropExclusive (ExclusiveBy n) = Some (if n = 1 then FreeSlot else ExclusiveBy (n - 1))"
| "discipline _ _ = None"

fun tracker_op :: "borrow_op \<Rightarrow> borrow_tracker \<Rightarrow> nat \<Rightarrow> borrow_tracker option" where
  "tracker_op TakeShared t i = take_shared t i"
| "tracker_op TakeExclusive t i = take_exclusive t i"
| "tracker_op CloneShared t i = clone_shared t i"
| "tracker_op SplitExclusive t i = split_exclusive t i"
| "tracker_op Upgrade t i = tracker_upgrade t i"
| "tracker_op Downgrade t i = tracker_downgrade t i"
| "tracker_op DropShared t i = map_option fst (tracker_drop_view t False i)"
| "tracker_op DropExclusive t i = map_option fst (tracker_drop_view t True i)"

definition slot_abs :: "int \<Rightarrow> slot_state" where
  "slot_abs b = (if b = 0 then FreeSlot else if 0 < b then SharedBy (nat b) else ExclusiveBy (nat (- b)))"

definition borrow_of :: "borrow_tracker \<Rightarrow> nat \<Rightarrow> int" where
  "borrow_of t i = bt_borrows t ! i"

definition slots :: "borrow_tracker \<Rightarrow> nat" where
  "slots t = length (bt_borrows t)"

text \<open>The views a slot state stands for.\<close>

fun holders :: "slot_state \<Rightarrow> nat" where
  "holders FreeSlot = 0" | "holders (SharedBy n) = n" | "holders (ExclusiveBy n) = n"

lemma slots_set_borrow [simp]: "slots (set_borrow t i b) = slots t"
  by (simp add: slots_def set_borrow_def)

lemma borrow_of_set_borrow [simp]:
  "i < slots t \<Longrightarrow> borrow_of (set_borrow t i b) j = (if i = j then b else borrow_of t j)"
  by (simp add: slots_def borrow_of_def set_borrow_def nth_list_update)

lemma tracker_new_simps [simp]:
  "slots (tracker_new n) = n" "i < n \<Longrightarrow> borrow_of (tracker_new n) i = 0"
  by (simp_all add: slots_def borrow_of_def tracker_new_def)

lemma idx_borrows [simp]:
  "i < slots t \<Longrightarrow> idx (bt_borrows t) i = Some (borrow_of t i)"
  by (simp add: slots_def borrow_of_def)

text \<open>The new count an operation leaves, for a slot in range.\<close>

fun new_borrow :: "borrow_op \<Rightarrow> int \<Rightarrow> int" where
  "new_borrow TakeShared b = 1"
| "new_borrow TakeExclusive b = -1"
| "new_borrow CloneShared b = b + 1"
| "new_borrow SplitExclusive b = b - 1"
| "new_borrow Upgrade b = -1"
| "new_borrow Downgrade b = 1"
| "new_borrow DropShared b = b - 1"
| "new_borrow DropExclusive b = b + 1"

lemmas tracker_defs = take_shared_def take_exclusive_def clone_shared_def split_exclusive_def
  tracker_upgrade_def tracker_downgrade_def tracker_drop_view_def

lemma tracker_op_shape:
  assumes "i < slots t" and "I32_MIN < borrow_of t i" "borrow_of t i < I32_MAX"
  shows "tracker_op oper t i =
           map_option (\<lambda>_. set_borrow t i (new_borrow oper (borrow_of t i)))
             (discipline oper (slot_abs (borrow_of t i)))"
  using assms by (cases oper) (auto simp: tracker_defs slot_abs_def panic_simps nat_eq_iff)

lemma slot_abs_new_borrow:
  "discipline oper (slot_abs b) = Some s \<Longrightarrow> slot_abs (new_borrow oper b) = s"
  by (cases oper) (auto simp: slot_abs_def nat_add_distrib nat_diff_distrib' split: if_splits)

lemma tracker_op_out_of_range: "slots t \<le> i \<Longrightarrow> tracker_op oper t i = None"
  by (cases oper) (simp_all add: tracker_defs slots_def idx_def)

lemma tracker_op_Some_range: "tracker_op oper t i = Some u \<Longrightarrow> i < slots t"
  using tracker_op_out_of_range [of t i oper] by (cases "slots t \<le> i") auto

text \<open>An operation touches one slot, and leaves the length alone.\<close>

lemma tracker_op_frame:
  assumes "tracker_op oper t i = Some u"
  shows "slots u = slots t \<and> i < slots t \<and>
         borrow_of u i = new_borrow oper (borrow_of t i) \<and> (\<forall>j. j \<noteq> i \<longrightarrow> borrow_of u j = borrow_of t j)"
proof -
  have i: "i < slots t" using assms by (rule tracker_op_Some_range)
  have "u = set_borrow t i (new_borrow oper (borrow_of t i))"
    using assms i by (cases oper) (auto simp: tracker_defs panic_simps split: if_splits)
  then show ?thesis using i by auto
qed

lemma tracker_op_abs:
  assumes "tracker_op oper t i = Some u"
  shows "discipline oper (slot_abs (borrow_of t i)) = Some (slot_abs (borrow_of u i))"
proof -
  have i: "i < slots t" using assms by (rule tracker_op_Some_range)
  have "\<exists>s. discipline oper (slot_abs (borrow_of t i)) = Some s"
    using assms i by (cases oper) (auto simp: tracker_defs slot_abs_def panic_simps split: if_splits)
  then show ?thesis using tracker_op_frame [OF assms] slot_abs_new_borrow by metis
qed

lemma drop_view_frees:
  assumes "tracker_drop_view t exclusive i = Some (u, freed)"
  shows "freed \<longleftrightarrow> borrow_of u i = 0"
    and "tracker_op (if exclusive then DropExclusive else DropShared) t i = Some u"
proof -
  have "tracker_op (if exclusive then DropExclusive else DropShared) t i = Some u"
    using assms by (cases exclusive) auto
  from this tracker_op_frame [OF this] show "freed \<longleftrightarrow> borrow_of u i = 0"
    and "tracker_op (if exclusive then DropExclusive else DropShared) t i = Some u"
    using assms by (auto simp: tracker_drop_view_def panic_simps split: if_splits)
qed

section \<open>Properties\<close>

text \<open>
  C36. The tracker implements the reader/writer discipline. For every slot in range whose count is
  away from the limits of 32 bits and every operation, the operation succeeds exactly when the
  discipline allows the transition, and then the slot is in the state the discipline gives and no
  other slot has changed.
\<close>

theorem tracker_refines_discipline:
  assumes "i < slots t" and "I32_MIN < borrow_of t i" and "borrow_of t i < I32_MAX"
  shows "(tracker_op oper t i = None \<longleftrightarrow> discipline oper (slot_abs (borrow_of t i)) = None) \<and>
    (\<forall>u. tracker_op oper t i = Some u \<longrightarrow>
       discipline oper (slot_abs (borrow_of t i)) = Some (slot_abs (borrow_of u i)) \<and>
       slots u = slots t \<and> (\<forall>j. j \<noteq> i \<longrightarrow> borrow_of u j = borrow_of t j))"
proof (intro conjI allI impI)
  show "tracker_op oper t i = None \<longleftrightarrow> discipline oper (slot_abs (borrow_of t i)) = None"
    using tracker_op_shape [OF assms, of oper] by simp
next
  fix u assume "tracker_op oper t i = Some u"
  from tracker_op_abs [OF this] tracker_op_frame [OF this]
  show "discipline oper (slot_abs (borrow_of t i)) = Some (slot_abs (borrow_of u i))"
    "slots u = slots t" "\<And>j. j \<noteq> i \<Longrightarrow> borrow_of u j = borrow_of t j" by simp_all
qed

theorem tracker_refines_discipline_witness:
  "tracker_op Upgrade (tracker_new 3) 1 = None \<and>
   discipline Upgrade (slot_abs (borrow_of (tracker_new 3) 1)) = None"
  using tracker_refines_discipline [of 1 "tracker_new 3" Upgrade] by (simp add: slot_abs_def)

end
