(* ===== verification/Buffer_Slabs.thy ===== *)
theory Buffer_Slabs
  imports Size_Classes Borrow_Tracker
begin

text \<open>
  The slabs of the io_uring backend: \<^verbatim>\<open>FixedSlab\<close> (\<^verbatim>\<open>buf/fixed.rs\<close>), a free stack of slots, and
  \<^verbatim>\<open>ProvidedSlab\<close> (\<^verbatim>\<open>buf/provided.rs\<close>), a ring of descriptors shared with the kernel, both with a
  borrow tracker; the \<^verbatim>\<open>Slab\<close> trait they implement (\<^verbatim>\<open>buf/pool.rs\<close>) is the locale \<open>slab\<close>.
  Memory is addressed by naturals and the bytes themselves are left out: a slab is about which
  slot may be handed out to whom. The generic parameters \<^verbatim>\<open>size_of::<T>()\<close> and
  \<^verbatim>\<open>align_of::<T>()\<close> are the arguments \<open>sz\<close> and \<open>al\<close>; \<^verbatim>\<open>active_gen()\<close> is the
  argument \<open>gen\<close>. Outer \<^term>\<open>None\<close> is a panic, inner \<^term>\<open>None\<close> the \<^verbatim>\<open>None\<close> the source returns.

  The kernel's side of a provided ring is its consumer index, and the ids it has taken and not yet
  reported back; they are a ghost component beside the slab (\<open>pring\<close>), advanced by
  \<open>kernel_pick\<close> as the kernel documents it: the descriptor at the head is consumed.
\<close>

section \<open>Views\<close>

text \<open>\<^verbatim>\<open>Ref<T>\<close> and \<^verbatim>\<open>RefMut<T>\<close>; \<^verbatim>\<open>Slice<T>\<close> and \<^verbatim>\<open>SliceMut<T>\<close>.\<close>

record buf_ref =
  rf_bid :: u32
  rf_generation :: nat
  rf_offset :: nat

record buf_slice =
  sl_base :: buf_ref
  sl_len :: nat

definition ref_new :: "u32 \<Rightarrow> nat \<Rightarrow> nat \<Rightarrow> buf_ref" where
  "ref_new bid generation offset = \<lparr>rf_bid = bid, rf_generation = generation, rf_offset = offset\<rparr>"

definition slice_new :: "buf_ref \<Rightarrow> nat \<Rightarrow> buf_slice" where
  "slice_new base len = \<lparr>sl_base = base, sl_len = len\<rparr>"

section \<open>The default methods of the trait\<close>

definition slot_ptr :: "nat \<Rightarrow> nat \<Rightarrow> nat \<Rightarrow> nat" where
  "slot_ptr base slot_size slot = base + slot * slot_size"

definition slab_drop_view ::
  "('s \<Rightarrow> borrow_tracker) \<Rightarrow> (borrow_tracker \<Rightarrow> 's \<Rightarrow> 's) \<Rightarrow> ('s \<Rightarrow> nat \<Rightarrow> 's option) \<Rightarrow>
   's \<Rightarrow> bool \<Rightarrow> nat \<Rightarrow> 's option"
where
  "slab_drop_view tracker set_tracker recycle s exclusive slot = do {
     (t, freed) \<leftarrow> tracker_drop_view (tracker s) exclusive slot;
     if freed then recycle (set_tracker t s) slot else Some (set_tracker t s)
   }"

section \<open>The fixed slab\<close>

record fixed_slab =
  fs_size :: nat
  fs_class :: u8
  fs_slab_base :: nat
  fs_free :: "nat list"
  fs_tracker :: borrow_tracker

definition fixed_slab_new :: "nat \<Rightarrow> nat \<Rightarrow> nat \<Rightarrow> u8 \<Rightarrow> fixed_slab option" where
  "fixed_slab_new slab_base sz cnt cls = do {
     ensure (0 < sz);
     ensure (0 < cnt);
     ensure (slab_base mod (min sz BUFFER_MAX_ALIGN) = 0);
     Some \<lparr>fs_size = sz, fs_class = cls, fs_slab_base = slab_base, fs_free = rev [0..<cnt],
           fs_tracker = tracker_new cnt\<rparr>
   }"

definition debug_assert_slot_aligned :: "fixed_slab \<Rightarrow> nat \<Rightarrow> nat \<Rightarrow> unit option" where
  "debug_assert_slot_aligned s al slot =
     ensure (slot_ptr (fs_slab_base s) (fs_size s) slot mod al = 0)"

text \<open>\<^verbatim>\<open>self.free.pop()\<close>, then the tracker transition.\<close>

definition fixed_acquire ::
  "(borrow_tracker \<Rightarrow> nat \<Rightarrow> borrow_tracker option) \<Rightarrow> fixed_slab \<Rightarrow> (fixed_slab \<times> nat option) option"
where
  "fixed_acquire take_slot s =
     (if fs_free s = [] then Some (s, None)
      else do {
        let slot = last (fs_free s);
        t \<leftarrow> take_slot (fs_tracker s) slot;
        Some (s\<lparr>fs_free := butlast (fs_free s), fs_tracker := t\<rparr>, Some slot)
      })"

definition acquire_slot :: "fixed_slab \<Rightarrow> (fixed_slab \<times> nat option) option" where
  "acquire_slot s = fixed_acquire take_exclusive s"

definition acquire_slot_shared :: "fixed_slab \<Rightarrow> (fixed_slab \<times> nat option) option" where
  "acquire_slot_shared s = fixed_acquire take_shared s"

text \<open>The common tail of the view-building acquires: alignment check, generation, view.\<close>

definition build_ref :: "nat option \<Rightarrow> nat \<Rightarrow> fixed_slab \<times> nat option \<Rightarrow> (fixed_slab \<times> buf_ref option) option" where
  "build_ref gen al r =
     (case r of
        (s, None) \<Rightarrow> Some (s, None)
      | (s, Some slot) \<Rightarrow> do {
          debug_assert_slot_aligned s al slot;
          generation \<leftarrow> gen;
          Some (s, Some (ref_new (pack_bid False (fs_class s) (word_of_nat slot)) generation 0))
        })"

definition acquire_ref :: "nat option \<Rightarrow> nat \<Rightarrow> nat \<Rightarrow> fixed_slab \<Rightarrow> (fixed_slab \<times> buf_ref option) option" where
  "acquire_ref gen sz al s = do {
     ensure (0 < sz);
     r \<leftarrow> acquire_slot_shared s;
     build_ref gen al r
   }"

definition acquire_mut :: "nat option \<Rightarrow> nat \<Rightarrow> nat \<Rightarrow> fixed_slab \<Rightarrow> (fixed_slab \<times> buf_ref option) option" where
  "acquire_mut gen sz al s = do {
     ensure (0 < sz);
     r \<leftarrow> acquire_slot s;
     build_ref gen al r
   }"

definition build_slice ::
  "nat option \<Rightarrow> nat \<Rightarrow> nat \<Rightarrow> fixed_slab \<times> nat option \<Rightarrow> (fixed_slab \<times> buf_slice option) option"
where
  "build_slice gen sz al r = do {
     (s, v) \<leftarrow> build_ref gen al r;
     (case v of
        None \<Rightarrow> Some (s, None)
      | Some base \<Rightarrow> do {
          ensure (0 < sz);
          Some (s, Some (slice_new base (fs_size s div sz)))
        })
   }"

definition acquire_slice :: "nat option \<Rightarrow> nat \<Rightarrow> nat \<Rightarrow> fixed_slab \<Rightarrow> (fixed_slab \<times> buf_slice option) option" where
  "acquire_slice gen sz al s = acquire_slot_shared s \<bind> build_slice gen sz al"

definition acquire_slice_mut :: "nat option \<Rightarrow> nat \<Rightarrow> nat \<Rightarrow> fixed_slab \<Rightarrow> (fixed_slab \<times> buf_slice option) option" where
  "acquire_slice_mut gen sz al s = acquire_slot s \<bind> build_slice gen sz al"

definition acquire_bytes :: "nat option \<Rightarrow> fixed_slab \<Rightarrow> (fixed_slab \<times> buf_slice option) option" where
  "acquire_bytes gen s = acquire_slice gen 1 1 s"

definition acquire_bytes_mut :: "nat option \<Rightarrow> fixed_slab \<Rightarrow> (fixed_slab \<times> buf_slice option) option" where
  "acquire_bytes_mut gen s = acquire_slice_mut gen 1 1 s"

definition fixed_recycle :: "fixed_slab \<Rightarrow> nat \<Rightarrow> fixed_slab option" where
  "fixed_recycle s slot = Some (s\<lparr>fs_free := fs_free s @ [slot]\<rparr>)"

definition fixed_set_tracker :: "borrow_tracker \<Rightarrow> fixed_slab \<Rightarrow> fixed_slab" where
  "fixed_set_tracker t s = s\<lparr>fs_tracker := t\<rparr>"

definition fixed_drop_view :: "fixed_slab \<Rightarrow> bool \<Rightarrow> nat \<Rightarrow> fixed_slab option" where
  "fixed_drop_view = slab_drop_view fs_tracker fixed_set_tracker fixed_recycle"

section \<open>The provided slab\<close>

definition PAGE_SIZE :: nat where
  "PAGE_SIZE = 4096"

definition page_align :: "nat \<Rightarrow> nat" where
  "page_align n =
     unat ((word_of_nat (n + PAGE_SIZE - 1) :: u64) AND NOT (word_of_nat (PAGE_SIZE - 1)))"

record io_uring_buf =
  ub_addr :: nat
  ub_len :: nat
  ub_bid :: nat

record provided_slab =
  ps_buf_count :: nat
  ps_size :: nat
  ps_slab_base :: nat
  ps_class :: u8
  ps_ring :: "io_uring_buf list"
  ps_ring_tail :: u16
  ps_ring_size :: nat
  ps_tail :: u16
  ps_tracker :: borrow_tracker

definition provided_slab_new :: "nat \<Rightarrow> nat \<Rightarrow> nat \<Rightarrow> u8 \<Rightarrow> provided_slab option" where
  "provided_slab_new slab_base cnt sz cls = do {
     ensure (is_power_of_two cnt);
     ensure (0 < cnt \<and> cnt \<le> 32768);
     ensure (0 < sz);
     ensure (unat cls < 128);
     let ring_size = page_align (cnt * 16);
     let bufs = map (\<lambda>slot. \<lparr>ub_addr = slab_base + slot * sz, ub_len = sz, ub_bid = slot\<rparr>) [0..<cnt];
     Some \<lparr>ps_buf_count = cnt, ps_size = sz, ps_slab_base = slab_base, ps_class = cls,
           ps_ring = bufs, ps_ring_tail = word_of_nat cnt, ps_ring_size = ring_size,
           ps_tail = word_of_nat cnt, ps_tracker = tracker_new cnt\<rparr>
   }"

definition recycle_buffer :: "provided_slab \<Rightarrow> nat \<Rightarrow> provided_slab option" where
  "recycle_buffer s slot = do {
     mask \<leftarrow> checked_sub (ps_buf_count s) 1;
     let ring_idx = unat (ps_tail s) AND mask;
     let buf_addr = slot_ptr (ps_slab_base s) (ps_size s) slot;
     let new_tail = ps_tail s + 1;
     Some (s\<lparr>ps_ring := (ps_ring s)[ring_idx :=
                  \<lparr>ub_addr = buf_addr, ub_len = ps_size s, ub_bid = slot\<rparr>],
             ps_tail := new_tail, ps_ring_tail := new_tail\<rparr>)
   }"

definition provided_recycle :: "provided_slab \<Rightarrow> nat \<Rightarrow> provided_slab option" where
  "provided_recycle s slot = recycle_buffer s (slot mod 2 ^ 16)"

definition provided_set_tracker :: "borrow_tracker \<Rightarrow> provided_slab \<Rightarrow> provided_slab" where
  "provided_set_tracker t s = s\<lparr>ps_tracker := t\<rparr>"

definition provided_drop_view :: "provided_slab \<Rightarrow> bool \<Rightarrow> nat \<Rightarrow> provided_slab option" where
  "provided_drop_view = slab_drop_view ps_tracker provided_set_tracker provided_recycle"

definition provided_select :: "nat option \<Rightarrow> provided_slab \<Rightarrow> nat \<Rightarrow> nat \<Rightarrow> (provided_slab \<times> buf_slice) option" where
  "provided_select gen s slot len = do {
     generation \<leftarrow> gen;
     ensure (len \<le> ps_size s);
     t \<leftarrow> take_shared (ps_tracker s) slot;
     Some (s\<lparr>ps_tracker := t\<rparr>,
           slice_new (ref_new (pack_bid True (ps_class s) (word_of_nat slot)) generation 0) len)
   }"

definition provided_select_mut :: "nat option \<Rightarrow> provided_slab \<Rightarrow> nat \<Rightarrow> nat \<Rightarrow> (provided_slab \<times> buf_slice) option" where
  "provided_select_mut gen s slot len = do {
     generation \<leftarrow> gen;
     ensure (len \<le> ps_size s);
     t \<leftarrow> take_shared (ps_tracker s) slot;
     t \<leftarrow> tracker_upgrade t slot;
     Some (s\<lparr>ps_tracker := t\<rparr>,
           slice_new (ref_new (pack_bid True (ps_class s) (word_of_nat slot)) generation 0) len)
   }"

section \<open>The slab interface\<close>

text \<open>
  \<open>avail s\<close> are the slots the slab can hand out, \<open>wf\<close> its representation invariant. A slab is
  \<open>sound\<close> when exactly the slots nobody borrows are available.
\<close>

locale slab =
  fixes tracker :: "'s \<Rightarrow> borrow_tracker"
    and set_tracker :: "borrow_tracker \<Rightarrow> 's \<Rightarrow> 's"
    and recycle :: "'s \<Rightarrow> nat \<Rightarrow> 's option"
    and avail :: "'s \<Rightarrow> nat set"
    and wf :: "'s \<Rightarrow> bool"
  assumes tracker_set [simp]: "tracker (set_tracker t s) = t"
    and avail_set [simp]: "avail (set_tracker t s) = avail s"
    and wf_set: "wf s \<Longrightarrow> slots t = slots (tracker s) \<Longrightarrow> wf (set_tracker t s)"
    and recycle_ok: "wf s \<Longrightarrow> slot < slots (tracker s) \<Longrightarrow> slot \<notin> avail s \<Longrightarrow>
      \<exists>s'. recycle s slot = Some s' \<and> wf s' \<and> avail s' = insert slot (avail s) \<and>
           tracker s' = tracker s"
begin

definition sound :: "'s \<Rightarrow> bool" where
  "sound s \<longleftrightarrow> wf s \<and> avail s = {i. i < slots (tracker s) \<and> borrow_of (tracker s) i = 0}"

text \<open>A transition between two borrowed states of a slot keeps the slab sound.\<close>

lemma sound_transition:
  assumes "sound s" "tracker_op oper (tracker s) i = Some t"
    and "borrow_of (tracker s) i \<noteq> 0" "borrow_of t i \<noteq> 0"
  shows "sound (set_tracker t s)"
proof -
  have f: "slots t = slots (tracker s)" "\<forall>j. j \<noteq> i \<longrightarrow> borrow_of t j = borrow_of (tracker s) j"
    using tracker_op_frame [OF assms(2)] by auto
  have "(borrow_of t j = 0) = (borrow_of (tracker s) j = 0)" for j
    using f(2) assms(3,4) by (cases "j = i") auto
  then show ?thesis using assms(1) f(1) by (simp add: sound_def wf_set)
qed

lemma drop_view_sound:
  assumes s: "sound s" and drop: "tracker_drop_view (tracker s) exclusive i = Some (t, freed)"
  shows "\<exists>s'. slab_drop_view tracker set_tracker recycle s exclusive i = Some s' \<and> sound s' \<and>
              tracker s' = t \<and> (freed \<longleftrightarrow> i \<in> avail s') \<and> i \<notin> avail s"
proof -
  note dv = drop_view_frees [OF drop]
  have f: "slots t = slots (tracker s)" "i < slots (tracker s)"
    "\<forall>j. j \<noteq> i \<longrightarrow> borrow_of t j = borrow_of (tracker s) j"
    using tracker_op_frame [OF dv(2)] by auto
  have nz: "borrow_of (tracker s) i \<noteq> 0"
    using drop f(2) by (auto simp: tracker_drop_view_def panic_simps split: if_splits)
  then have out: "i \<notin> avail s" using s by (simp add: sound_def)
  have wf: "wf (set_tracker t s)" using s f(1) by (simp add: sound_def wf_set)
  show ?thesis
  proof (cases freed)
    case True
    then obtain s' where s': "recycle (set_tracker t s) i = Some s'" "wf s'"
      "avail s' = insert i (avail s)" "tracker s' = t"
      using recycle_ok [OF wf, of i] f out by auto
    have "borrow_of t i = 0" using dv(1) True by simp
    then have "{j. j < slots t \<and> borrow_of t j = 0}
        = insert i {j. j < slots (tracker s) \<and> borrow_of (tracker s) j = 0}"
      using f by auto
    then have "sound s'" using s' s by (simp add: sound_def)
    then show ?thesis using s' drop True out by (simp add: slab_drop_view_def)
  next
    case False
    then have "sound (set_tracker t s)"
      using sound_transition [OF s dv(2) nz] dv(1) by simp
    then show ?thesis using drop False out by (simp add: slab_drop_view_def)
  qed
qed

end

section \<open>The fixed slab is a slab\<close>

definition fixed_wf :: "fixed_slab \<Rightarrow> bool" where
  "fixed_wf s \<longleftrightarrow> distinct (fs_free s) \<and> (\<forall>i \<in> set (fs_free s). i < slots (fs_tracker s))"

definition fixed_avail :: "fixed_slab \<Rightarrow> nat set" where
  "fixed_avail s = set (fs_free s)"

lemmas fixed_defs = fixed_wf_def fixed_avail_def fixed_set_tracker_def fixed_recycle_def

interpretation fixed: slab fs_tracker fixed_set_tracker fixed_recycle fixed_avail fixed_wf
  by unfold_locales (auto simp: fixed_defs)

definition fixed_sound :: "fixed_slab \<Rightarrow> bool" where
  "fixed_sound = fixed.sound"

lemma fixed_sound_iff:
  "fixed_sound s \<longleftrightarrow> distinct (fs_free s) \<and>
     set (fs_free s) = {i. i < slots (fs_tracker s) \<and> borrow_of (fs_tracker s) i = 0}"
  by (auto simp: fixed_sound_def fixed.sound_def fixed_defs)

lemma fixed_slab_new_sound: "fixed_slab_new base sz cnt cls = Some s \<Longrightarrow> fixed_sound s"
  by (auto simp: fixed_slab_new_def fixed_sound_iff panic_simps split: if_splits)

text \<open>An acquire hands out a slot that was free, and the slab stays sound.\<close>

lemma fixed_acquire_sound:
  assumes s: "fixed_sound s" and oper: "oper = TakeShared \<or> oper = TakeExclusive"
  shows "\<exists>s' r. fixed_acquire (tracker_op oper) s = Some (s', r) \<and> fixed_sound s' \<and>
     (case r of
        None \<Rightarrow> s' = s \<and> fs_free s = []
      | Some i \<Rightarrow> borrow_of (fs_tracker s) i = 0 \<and> i < slots (fs_tracker s) \<and>
          fs_tracker s' = set_borrow (fs_tracker s) i (new_borrow oper 0) \<and>
          fs_free s = fs_free s' @ [i])"
proof (cases "fs_free s" rule: rev_cases)
  case Nil
  then show ?thesis using s by (simp add: fixed_acquire_def)
next
  case (snoc rest i)
  then have i: "i < slots (fs_tracker s)" "borrow_of (fs_tracker s) i = 0" "i \<notin> set rest"
    "distinct rest"
    and rest: "\<And>j. j \<in> set rest \<or> j = i \<longleftrightarrow> j < slots (fs_tracker s) \<and> borrow_of (fs_tracker s) j = 0"
    using s by (auto simp: fixed_sound_iff set_eq_iff)
  let ?t = "set_borrow (fs_tracker s) i (new_borrow oper 0)"
  let ?s = "s\<lparr>fs_free := rest, fs_tracker := ?t\<rparr>"
  have acq: "fixed_acquire (tracker_op oper) s = Some (?s, Some i)"
    using snoc i oper by (auto simp: fixed_acquire_def tracker_defs panic_simps)
  have "new_borrow oper 0 \<noteq> 0" using oper by auto
  then have "set rest = {j. j < slots ?t \<and> borrow_of ?t j = 0}"
    using i rest by (intro set_eqI) (metis (mono_tags) borrow_of_set_borrow mem_Collect_eq slots_set_borrow)
  then have "fixed_sound ?s" using i(4) by (simp add: fixed_sound_iff)
  then show ?thesis using acq snoc i by auto
qed

section \<open>The provided slab is a slab\<close>

type_synonym pring = "provided_slab \<times> u16 \<times> nat list"

definition window_size :: "provided_slab \<Rightarrow> u16 \<Rightarrow> nat" where
  "window_size s head = unat (ps_tail s - head)"

text \<open>The descriptors the kernel has not consumed, oldest first.\<close>

definition window :: "provided_slab \<Rightarrow> u16 \<Rightarrow> io_uring_buf list" where
  "window s head =
     map (\<lambda>k. ps_ring s ! ((unat head + k) mod ps_buf_count s)) [0..<window_size s head]"

text \<open>The kernel consumes the descriptor at its head and will report its id.\<close>

definition kernel_pick :: "pring \<Rightarrow> (pring \<times> io_uring_buf) option" where
  "kernel_pick r =
     (case r of (s, head, pending) \<Rightarrow>
        (if head = ps_ring_tail s then None
         else let d = ps_ring s ! (unat head mod ps_buf_count s) in
              Some ((s, head + 1, pending @ [ub_bid d]), d)))"

definition pring_tracker :: "pring \<Rightarrow> borrow_tracker" where
  "pring_tracker r = ps_tracker (fst r)"

definition pring_set_tracker :: "borrow_tracker \<Rightarrow> pring \<Rightarrow> pring" where
  "pring_set_tracker t r = (provided_set_tracker t (fst r), snd r)"

definition pring_recycle :: "pring \<Rightarrow> nat \<Rightarrow> pring option" where
  "pring_recycle r slot = map_option (\<lambda>s. (s, snd r)) (provided_recycle (fst r) slot)"

definition pring_ids :: "pring \<Rightarrow> nat list" where
  "pring_ids r = (case r of (s, head, pending) \<Rightarrow> map ub_bid (window s head) @ pending)"

definition pring_avail :: "pring \<Rightarrow> nat set" where
  "pring_avail r = set (pring_ids r)"

definition describes :: "provided_slab \<Rightarrow> io_uring_buf \<Rightarrow> bool" where
  "describes s d \<longleftrightarrow>
     ub_addr d = slot_ptr (ps_slab_base s) (ps_size s) (ub_bid d) \<and> ub_len d = ps_size s"

definition pring_wf :: "pring \<Rightarrow> bool" where
  "pring_wf r \<longleftrightarrow>
     (case r of (s, head, pending) \<Rightarrow>
        (\<exists>k \<le> 15. ps_buf_count s = 2 ^ k) \<and> length (ps_ring s) = ps_buf_count s \<and>
        slots (ps_tracker s) = ps_buf_count s \<and> ps_ring_tail s = ps_tail s \<and>
        window_size s head \<le> ps_buf_count s \<and>
        distinct (pring_ids r) \<and> (\<forall>i \<in> set (pring_ids r). i < ps_buf_count s) \<and>
        (\<forall>d \<in> set (window s head). describes s d))"

lemma unat_add_mod_pow2:
  fixes a :: u16
  assumes "k \<le> 15"
  shows "unat (a + word_of_nat n) mod 2 ^ k = (unat a + n) mod 2 ^ k"
proof -
  have "unat (a + word_of_nat n) = (unat a + n) mod 2 ^ 16"
    by (simp add: unat_word_ariths(1) unat_of_nat mod_add_right_eq)
  moreover have "(2::nat) ^ k dvd 2 ^ 16" using assms by (intro le_imp_power_dvd) simp
  ultimately show ?thesis by (simp only: mod_mod_cancel)
qed

lemma ids_length_le:
  assumes "distinct ids" "\<forall>i \<in> set ids. i < n" shows "length ids \<le> (n::nat)"
proof -
  have "set ids \<subseteq> {..<n}" using assms(2) by auto
  then have "card (set ids) \<le> n" using card_mono [of "{..<n}" "set ids"] by simp
  then show ?thesis using assms(1) by (simp add: distinct_card)
qed

text \<open>Recycling appends exactly one descriptor to the window and overwrites no live one.\<close>

lemma window_recycle:
  assumes cnt: "ps_buf_count s = 2 ^ k" "k \<le> 15" and len: "length (ps_ring s) = ps_buf_count s"
    and room: "window_size s head < ps_buf_count s"
    and ret: "recycle_buffer s slot = Some s'"
  shows "window_size s' head = Suc (window_size s head) \<and>
     window s' head = window s head @
       [\<lparr>ub_addr = slot_ptr (ps_slab_base s) (ps_size s) slot, ub_len = ps_size s, ub_bid = slot\<rparr>]"
proof -
  let ?n = "window_size s head" and ?c = "ps_buf_count s"
  let ?d = "\<lparr>ub_addr = slot_ptr (ps_slab_base s) (ps_size s) slot, ub_len = ps_size s, ub_bid = slot\<rparr>"
  have pos: "0 < ?c" using cnt(1) by simp
  have small: "?n < 2 ^ 15"
    using room cnt power_increasing [of k 15 "2::nat"] by simp
  have tail: "ps_tail s = head + word_of_nat ?n" by (simp add: window_size_def)
  have at: "unat (ps_tail s) AND (?c - 1) = (unat head + ?n) mod ?c"
  proof -
    have "unat (ps_tail s) AND (2 ^ k - 1) = unat (ps_tail s) mod 2 ^ k"
      by (metis mask_eq_exp_minus_1 take_bit_eq_mask take_bit_eq_mod)
    then show ?thesis using tail unat_add_mod_pow2 [OF cnt(2), of head ?n] cnt(1) by simp
  qed
  have s': "ps_ring s' = (ps_ring s)[(unat head + ?n) mod ?c := ?d]" "ps_tail s' = ps_tail s + 1"
    "ps_buf_count s' = ?c"
    using ret at pos by (auto simp: recycle_buffer_def checked_sub_def Let_def split: if_splits)
  have "ps_tail s' - head = (ps_tail s - head) + 1" using s'(2) by simp
  then have "window_size s' head = unat ((ps_tail s - head) + 1)" by (simp only: window_size_def)
  also have "\<dots> = (?n + 1) mod 2 ^ 16"
    unfolding window_size_def unat_word_ariths(1) by simp
  finally have "window_size s' head = (?n + 1) mod 2 ^ 16" .
  then have size: "window_size s' head = Suc ?n" using small by simp
  have "ps_ring s' ! ((unat head + j) mod ?c) = ps_ring s ! ((unat head + j) mod ?c)" if "j < ?n" for j
  proof -
    have "(unat head + j) mod ?c \<noteq> (unat head + ?n) mod ?c"
      using mod_add_inj [of j ?c ?n "unat head"] that room by auto
    then show ?thesis using s'(1) by simp
  qed
  moreover have "ps_ring s' ! ((unat head + ?n) mod ?c) = ?d"
    using s'(1) len pos by simp
  ultimately show ?thesis using size s'(3) by (simp add: window_def)
qed

lemma pring_wf_room:
  assumes "pring_wf (s, head, pending)" "slot < ps_buf_count s" "slot \<notin> pring_avail (s, head, pending)"
  shows "window_size s head < ps_buf_count s"
proof -
  let ?ids = "pring_ids (s, head, pending)"
  have "length (slot # ?ids) \<le> ps_buf_count s"
    using assms by (intro ids_length_le) (auto simp: pring_wf_def pring_avail_def)
  then show ?thesis by (simp add: pring_ids_def window_def)
qed

lemma pring_recycle_ok:
  assumes wf: "pring_wf r" and slot: "slot < slots (pring_tracker r)" and out: "slot \<notin> pring_avail r"
  shows "\<exists>r'. pring_recycle r slot = Some r' \<and> pring_wf r' \<and>
              pring_avail r' = insert slot (pring_avail r) \<and> pring_tracker r' = pring_tracker r"
proof -
  obtain s head pending where r: "r = (s, head, pending)" by (cases r) auto
  have slot': "slot < ps_buf_count s" using wf slot by (simp add: r pring_wf_def pring_tracker_def)
  obtain k where k: "ps_buf_count s = 2 ^ k" "k \<le> 15" using wf by (auto simp: r pring_wf_def)
  have lt16: "slot < 2 ^ 16"
    using slot' k power_increasing [of k 16 "2::nat"] by (auto intro: less_le_trans)
  have room: "window_size s head < ps_buf_count s"
    using pring_wf_room wf slot' out by (simp add: r)
  have pos: "1 \<le> ps_buf_count s" using k(1) by simp
  obtain s' where s': "recycle_buffer s slot = Some s'"
    using pos by (simp add: recycle_buffer_def checked_sub_def Let_def)
  have keep: "ps_buf_count s' = ps_buf_count s" "ps_slab_base s' = ps_slab_base s"
    "ps_size s' = ps_size s" "ps_tracker s' = ps_tracker s" "ps_ring_tail s' = ps_tail s'"
    "length (ps_ring s') = length (ps_ring s)"
    using s' pos by (auto simp: recycle_buffer_def checked_sub_def Let_def)
  have len: "length (ps_ring s) = ps_buf_count s" using wf by (simp add: r pring_wf_def)
  note w = window_recycle [OF k len room s']
  have "provided_recycle s slot = Some s'" using s' lt16 by (simp add: provided_recycle_def)
  then have ret: "pring_recycle r slot = Some (s', head, pending)"
    by (simp add: r pring_recycle_def)
  have d: "describes s' d \<longleftrightarrow> describes s d" for d using keep by (simp add: describes_def)
  have "pring_wf (s', head, pending)"
    using wf w keep room slot' out k
    by (auto simp: r pring_wf_def pring_ids_def pring_avail_def d) (auto simp: describes_def)
  moreover have "pring_avail (s', head, pending) = insert slot (pring_avail r)"
    using w by (auto simp: r pring_avail_def pring_ids_def)
  ultimately show ?thesis using ret keep by (auto simp: r pring_tracker_def)
qed

lemma provided_set_tracker_simps [simp]:
  "ps_tracker (provided_set_tracker t s) = t"
  "window_size (provided_set_tracker t s) = window_size s"
  "window (provided_set_tracker t s) = window s"
  "describes (provided_set_tracker t s) = describes s"
  "pring_ids (provided_set_tracker t s, hp) = pring_ids (s, hp)"
  by (auto simp: provided_set_tracker_def window_size_def [abs_def] window_def [abs_def]
      describes_def [abs_def] pring_ids_def fun_eq_iff split: prod.splits)

lemma provided_set_tracker_keeps [simp]:
  "ps_buf_count (provided_set_tracker t s) = ps_buf_count s"
  "ps_ring (provided_set_tracker t s) = ps_ring s"
  "ps_tail (provided_set_tracker t s) = ps_tail s"
  "ps_ring_tail (provided_set_tracker t s) = ps_ring_tail s"
  by (simp_all add: provided_set_tracker_def)

interpretation provided: slab pring_tracker pring_set_tracker pring_recycle pring_avail pring_wf
proof
  fix t r
  show "pring_tracker (pring_set_tracker t r) = t"
    by (simp add: pring_tracker_def pring_set_tracker_def)
  show "pring_avail (pring_set_tracker t r) = pring_avail r"
    by (cases r) (simp add: pring_avail_def pring_set_tracker_def)
  show "pring_wf (pring_set_tracker t r)" if "pring_wf r" "slots t = slots (pring_tracker r)"
    using that by (cases r) (auto simp: pring_wf_def pring_set_tracker_def pring_tracker_def)
qed (rule pring_recycle_ok)

definition pring_sound :: "pring \<Rightarrow> bool" where
  "pring_sound = provided.sound"

lemma pring_sound_iff:
  "pring_sound r \<longleftrightarrow> pring_wf r \<and>
     pring_avail r = {i. i < slots (pring_tracker r) \<and> borrow_of (pring_tracker r) i = 0}"
  by (simp add: pring_sound_def provided.sound_def)

lemma provided_new_sound:
  assumes "provided_slab_new base cnt sz cls = Some s"
  shows "pring_sound (s, 0, [])"
proof -
  have cnt: "is_power_of_two cnt" "0 < cnt" "cnt \<le> 32768"
    and s: "s = \<lparr>ps_buf_count = cnt, ps_size = sz, ps_slab_base = base, ps_class = cls,
       ps_ring = map (\<lambda>slot. \<lparr>ub_addr = base + slot * sz, ub_len = sz, ub_bid = slot\<rparr>) [0..<cnt],
       ps_ring_tail = word_of_nat cnt, ps_ring_size = page_align (cnt * 16),
       ps_tail = word_of_nat cnt, ps_tracker = tracker_new cnt\<rparr>"
    using assms by (auto simp: provided_slab_new_def panic_simps Let_def split: if_splits)
  obtain k where k: "cnt = 2 ^ k" using is_power_of_two_exp [OF cnt(1)] by blast
  have "(2::nat) ^ k \<le> 2 ^ 15" using cnt(3) k by simp
  then have k15: "k \<le> 15" by (rule power_le_imp_le_exp [rotated]) simp
  have size: "window_size s 0 = cnt" using cnt(3) by (simp add: s window_size_def unat_of_nat)
  have win: "window s 0 = ps_ring s"
    unfolding window_def size by (intro nth_equalityI) (simp_all add: s)
  have ids: "pring_ids (s, 0, []) = [0..<cnt]"
    unfolding pring_ids_def by (simp add: win) (simp add: s o_def)
  have "pring_wf (s, 0, [])"
    using k k15 ids size win by (auto simp: pring_wf_def) (auto simp: s describes_def slot_ptr_def)
  then show ?thesis using ids by (auto simp: pring_sound_iff pring_avail_def pring_tracker_def s)
qed

lemma kernel_pick_window:
  assumes wf: "pring_wf (s, head, pending)" and pick: "kernel_pick (s, head, pending) = Some (r, d)"
  shows "window s head = d # window s (head + 1)"
    and "r = (s, head + 1, pending @ [ub_bid d])"
proof -
  let ?n = "window_size s head"
  obtain k where k: "ps_buf_count s = 2 ^ k" "k \<le> 15" using wf by (auto simp: pring_wf_def)
  have ne: "ps_tail s \<noteq> head" and d: "d = ps_ring s ! (unat head mod ps_buf_count s)"
    and r: "r = (s, head + 1, pending @ [ub_bid d])"
    using pick wf by (auto simp: kernel_pick_def pring_wf_def Let_def split: if_splits)
  have n: "0 < ?n" using ne by (simp add: window_size_def unat_gt_0)
  have "window_size s (head + 1) = unat ((ps_tail s - head) - 1)"
    by (simp add: window_size_def algebra_simps)
  also have "\<dots> = ?n - 1"
    using ne by (simp add: window_size_def unat_minus_one)
  finally have size: "window_size s (head + 1) = ?n - 1" .
  have shift: "(unat (head + 1) + j) mod ps_buf_count s = (unat head + Suc j) mod ps_buf_count s" for j
    using unat_add_mod_pow2 [OF k(2), of head 1] k(1)
      mod_add_cong [of "unat (head + 1)" "2 ^ k" "unat head + 1" j j] by simp
  have "[0..<?n] = 0 # map Suc [0..<?n - 1]"
    using n by (metis Suc_diff_1 map_Suc_upt upt_conv_Cons)
  then show "window s head = d # window s (head + 1)"
    unfolding window_def size by (simp add: shift d)
  show "r = (s, head + 1, pending @ [ub_bid d])" by (rule r)
qed

lemma kernel_pick_sound:
  assumes snd: "pring_sound (s, head, pending)"
    and pick: "kernel_pick (s, head, pending) = Some (r, d)"
  shows "pring_sound r"
proof -
  have wf: "pring_wf (s, head, pending)" using snd by (simp add: pring_sound_iff)
  note w = kernel_pick_window [OF wf pick]
  have "length (window s head) = Suc (length (window s (head + 1)))" using w(1) by simp
  then have "window_size s head = Suc (window_size s (head + 1))" by (simp add: window_def)
  moreover have "mset (pring_ids r) = mset (pring_ids (s, head, pending))"
    using w by (simp add: pring_ids_def)
  then have "set (pring_ids r) = set (pring_ids (s, head, pending))"
    "distinct (pring_ids r) = distinct (pring_ids (s, head, pending))"
    by (auto dest: mset_eq_setD mset_eq_imp_distinct_iff)
  ultimately have "pring_wf r"
    using wf w(1) unfolding w(2) pring_wf_def prod.case by simp
  then show ?thesis
    using snd \<open>set (pring_ids r) = _\<close> w(2) by (simp add: pring_sound_iff pring_avail_def pring_tracker_def)
qed

lemma provided_drop_view_pring:
  "slab_drop_view pring_tracker pring_set_tracker pring_recycle (s, hp) exclusive i
     = map_option (\<lambda>s'. (s', hp)) (provided_drop_view s exclusive i)"
  by (auto simp: provided_drop_view_def slab_drop_view_def pring_tracker_def pring_set_tracker_def
      pring_recycle_def split: prod.splits bind_splits option.splits)

text \<open>The completion of a selection: the id leaves the pending list and becomes borrowed.\<close>

lemma take_pending_sound:
  assumes snd: "pring_sound (s, head, pending)" and slot: "slot \<in> set pending"
    and t: "slots t = slots (ps_tracker s)" "borrow_of t slot \<noteq> 0"
      "\<forall>j. j \<noteq> slot \<longrightarrow> borrow_of t j = borrow_of (ps_tracker s) j"
  shows "pring_sound (provided_set_tracker t s, head, remove1 slot pending)"
proof -
  have wf: "pring_wf (s, head, pending)" using snd by (simp add: pring_sound_iff)
  then have d: "distinct pending" "slot \<notin> set (map ub_bid (window s head))"
    using slot by (auto simp: pring_wf_def pring_ids_def)
  have ids: "set (pring_ids (s, head, remove1 slot pending)) = set (pring_ids (s, head, pending)) - {slot}"
    using d by (auto simp: pring_ids_def)
  have "pring_wf (provided_set_tracker t s, head, remove1 slot pending)"
    using wf t(1) ids d by (auto simp: pring_wf_def) (auto simp: pring_ids_def)
  moreover have "pring_avail (s, head, pending) - {slot} = {i. i < slots t \<and> borrow_of t i = 0}"
    using snd t by (auto simp: pring_sound_iff pring_tracker_def)
  ultimately show ?thesis
    using ids by (simp add: pring_sound_iff pring_avail_def pring_tracker_def)
qed

end
