(* ===== verification/Slab_Safety.thy ===== *)
theory Slab_Safety
  imports Buffer_Slabs
begin

text \<open>
  The slabs as state machines: what can happen to a slab between its construction and its
  destruction, in any order. For the fixed slab: acquires, transitions of live borrows, releases.
  For the provided slab also the kernel, which consumes descriptors, and the selection of a
  consumed buffer when its completion arrives. The invariant of the reachable states is soundness
  of the \<open>slab\<close> interface, and it gives what the source's assertions claim can never fail.
\<close>

definition is_transition :: "borrow_op \<Rightarrow> bool" where
  "is_transition oper \<longleftrightarrow> oper \<in> {CloneShared, SplitExclusive, Upgrade, Downgrade}"

lemma transition_nonzero:
  assumes "is_transition oper" "tracker_op oper t i = Some u"
  shows "borrow_of t i \<noteq> 0 \<and> borrow_of u i \<noteq> 0"
proof -
  have "discipline oper (slot_abs (borrow_of t i)) = Some (slot_abs (borrow_of u i))"
    by (rule tracker_op_abs [OF assms(2)])
  moreover have "i < slots t" by (rule tracker_op_Some_range [OF assms(2)])
  moreover have "borrow_of u i = new_borrow oper (borrow_of t i)"
    using tracker_op_frame [OF assms(2)] by simp
  ultimately show ?thesis
    using assms by (cases oper) (auto simp: is_transition_def slot_abs_def split: if_splits)
qed

section \<open>The fixed slab\<close>

inductive fixed_step :: "fixed_slab \<Rightarrow> fixed_slab \<Rightarrow> bool" where
  Acquire: "acquire_slot s = Some (s', r) \<Longrightarrow> fixed_step s s'"
| AcquireShared: "acquire_slot_shared s = Some (s', r) \<Longrightarrow> fixed_step s s'"
| Transition: "is_transition oper \<Longrightarrow> tracker_op oper (fs_tracker s) i = Some t \<Longrightarrow>
    fixed_step s (fixed_set_tracker t s)"
| Release: "fixed_drop_view s exclusive i = Some s' \<Longrightarrow> fixed_step s s'"

lemma acquire_slot_ops:
  "acquire_slot = fixed_acquire (tracker_op TakeExclusive)"
  "acquire_slot_shared = fixed_acquire (tracker_op TakeShared)"
  by (auto simp: acquire_slot_def acquire_slot_shared_def fixed_acquire_def fun_eq_iff)

lemma slab_drop_view_Some:
  "slab_drop_view tr st rc s exclusive i = Some s' \<Longrightarrow>
   \<exists>t freed. tracker_drop_view (tr s) exclusive i = Some (t, freed)"
  by (auto simp: slab_drop_view_def bind_eq_Some_conv)

lemma fixed_step_sound: "fixed_step s s' \<Longrightarrow> fixed_sound s \<Longrightarrow> fixed_sound s'"
proof (induction rule: fixed_step.induct)
  case (Acquire s s' r)
  then show ?case using fixed_acquire_sound [of s TakeExclusive] by (auto simp: acquire_slot_ops)
next
  case (AcquireShared s s' r)
  then show ?case using fixed_acquire_sound [of s TakeShared] by (auto simp: acquire_slot_ops)
next
  case (Transition oper s i t)
  then show ?case
    using transition_nonzero [OF Transition.hyps] fixed.sound_transition [of s oper i t]
    by (simp add: fixed_sound_def)
next
  case (Release s exclusive i s')
  then obtain t freed where "tracker_drop_view (fs_tracker s) exclusive i = Some (t, freed)"
    using slab_drop_view_Some by (fastforce simp: fixed_drop_view_def)
  then show ?case
    using fixed.drop_view_sound [of s exclusive i t freed] Release
    by (auto simp: fixed_sound_def fixed_drop_view_def)
qed

lemma fixed_reachable_sound: "fixed_step\<^sup>*\<^sup>* s s' \<Longrightarrow> fixed_sound s \<Longrightarrow> fixed_sound s'"
  by (induction rule: rtranclp_induct) (auto intro: fixed_step_sound)

section \<open>The provided slab\<close>

inductive provided_step :: "nat option \<Rightarrow> pring \<Rightarrow> pring \<Rightarrow> bool" for gen where
  Pick: "kernel_pick r = Some (r', d) \<Longrightarrow> provided_step gen r r'"
| Select: "slot \<in> set pending \<Longrightarrow> provided_select gen s slot len = Some (s', v) \<Longrightarrow>
    provided_step gen (s, head, pending) (s', head, remove1 slot pending)"
| SelectMut: "slot \<in> set pending \<Longrightarrow> provided_select_mut gen s slot len = Some (s', v) \<Longrightarrow>
    provided_step gen (s, head, pending) (s', head, remove1 slot pending)"
| Transition: "is_transition oper \<Longrightarrow> tracker_op oper (ps_tracker s) i = Some t \<Longrightarrow>
    provided_step gen (s, head, pending) (provided_set_tracker t s, head, pending)"
| Release: "provided_drop_view s exclusive i = Some s' \<Longrightarrow>
    provided_step gen (s, head, pending) (s', head, pending)"

lemma take_shared_frame:
  assumes "take_shared t i = Some u"
  shows "slots u = slots t \<and> borrow_of u i = 1 \<and> (\<forall>j. j \<noteq> i \<longrightarrow> borrow_of u j = borrow_of t j)"
  using tracker_op_frame [of TakeShared t i u] assms by simp

lemma upgrade_frame:
  assumes "tracker_upgrade t i = Some u"
  shows "slots u = slots t \<and> borrow_of u i = -1 \<and> (\<forall>j. j \<noteq> i \<longrightarrow> borrow_of u j = borrow_of t j)"
  using tracker_op_frame [of Upgrade t i u] assms by simp

lemma provided_select_Some:
  assumes "provided_select gen s slot len = Some (s', v)"
  shows "\<exists>t. take_shared (ps_tracker s) slot = Some t \<and> s' = provided_set_tracker t s"
  using assms
  by (auto simp: provided_select_def provided_set_tracker_def bind_eq_Some_conv)

lemma provided_select_mut_Some:
  assumes "provided_select_mut gen s slot len = Some (s', v)"
  shows "\<exists>t u. take_shared (ps_tracker s) slot = Some t \<and> tracker_upgrade t slot = Some u \<and>
               s' = provided_set_tracker u s"
  using assms
  by (auto simp: provided_select_mut_def provided_set_tracker_def bind_eq_Some_conv)

lemma provided_step_sound: "provided_step gen r r' \<Longrightarrow> pring_sound r \<Longrightarrow> pring_sound r'"
proof (induction rule: provided_step.induct)
  case (Pick r r' d)
  then show ?case using kernel_pick_sound by (cases r) auto
next
  case (Select slot pending s len s' v head)
  obtain t where t: "take_shared (ps_tracker s) slot = Some t" "s' = provided_set_tracker t s"
    using provided_select_Some [OF Select.hyps(2)] by blast
  show ?case
    unfolding t(2) using take_shared_frame [OF t(1)] Select by (intro take_pending_sound) auto
next
  case (SelectMut slot pending s len s' v head)
  obtain t u where t: "take_shared (ps_tracker s) slot = Some t" "tracker_upgrade t slot = Some u"
    "s' = provided_set_tracker u s"
    using provided_select_mut_Some [OF SelectMut.hyps(2)] by blast
  show ?case
    unfolding t(3) using take_shared_frame [OF t(1)] upgrade_frame [OF t(2)] SelectMut
    by (intro take_pending_sound) auto
next
  case (Transition oper s i t head pending)
  then show ?case
    using transition_nonzero [OF Transition.hyps] provided.sound_transition [of "(s, head, pending)" oper i t]
    by (simp add: pring_sound_def pring_tracker_def pring_set_tracker_def)
next
  case (Release s exclusive i s' head pending)
  then obtain t freed where t: "tracker_drop_view (ps_tracker s) exclusive i = Some (t, freed)"
    using slab_drop_view_Some by (fastforce simp: provided_drop_view_def)
  then show ?case
    using provided.drop_view_sound [of "(s, head, pending)" exclusive i t freed] Release
    by (auto simp: pring_sound_def pring_tracker_def provided_drop_view_pring)
qed

lemma provided_reachable_sound: "(provided_step gen)\<^sup>*\<^sup>* r r' \<Longrightarrow> pring_sound r \<Longrightarrow> pring_sound r'"
  by (induction rule: rtranclp_induct) (auto intro: provided_step_sound)

section \<open>Properties\<close>

text \<open>
  A fixed slab never hands out a borrowed slot and never loses a free one: in every state
  reachable from a new slab, \<^verbatim>\<open>acquire_slot\<close> does not panic; it returns \<^verbatim>\<open>None\<close> only when every
  slot is borrowed, and otherwise a slot in range that has no view, marking it exclusively
  borrowed.
\<close>

theorem fixed_acquire_safe:
  assumes "fixed_slab_new base sz cnt cls = Some s" and "fixed_step\<^sup>*\<^sup>* s s'"
  shows "\<exists>s'' r. acquire_slot s' = Some (s'', r) \<and>
    (case r of
       None \<Rightarrow> \<forall>i < slots (fs_tracker s'). borrow_of (fs_tracker s') i \<noteq> 0
     | Some i \<Rightarrow> i < slots (fs_tracker s') \<and> borrow_of (fs_tracker s') i = 0 \<and>
                 borrow_of (fs_tracker s'') i = -1)"
proof -
  have "fixed_sound s'" using fixed_reachable_sound [OF assms(2)] fixed_slab_new_sound [OF assms(1)] .
  then have free: "set (fs_free s') = {i. i < slots (fs_tracker s') \<and> borrow_of (fs_tracker s') i = 0}"
    by (simp add: fixed_sound_iff)
  obtain s'' r where r: "acquire_slot s' = Some (s'', r)"
    "case r of None \<Rightarrow> s'' = s' \<and> fs_free s' = []
      | Some i \<Rightarrow> borrow_of (fs_tracker s') i = 0 \<and> i < slots (fs_tracker s') \<and>
          fs_tracker s'' = set_borrow (fs_tracker s') i (-1) \<and> fs_free s' = fs_free s'' @ [i]"
    using fixed_acquire_sound [OF \<open>fixed_sound s'\<close>, of TakeExclusive] 
    unfolding acquire_slot_ops new_borrow.simps by blast
  then show ?thesis using free by (intro exI [of _ s''] exI [of _ r]) (auto split: option.splits)
qed

lemma fixed_slab_sample:
  "fixed_slab_new 4096 64 2 0 = Some
     \<lparr>fs_size = 64, fs_class = 0, fs_slab_base = 4096, fs_free = [1, 0], fs_tracker = tracker_new 2\<rparr>"
  by (simp add: fixed_slab_new_def BUFFER_MAX_ALIGN_def upt_rec panic_simps)

theorem fixed_acquire_safe_witness:
  "\<exists>s'' r. acquire_slot \<lparr>fs_size = 64, fs_class = 0, fs_slab_base = 4096, fs_free = [1, 0],
                         fs_tracker = tracker_new 2\<rparr> = Some (s'', r)"
  using fixed_acquire_safe [OF fixed_slab_sample rtranclp.rtrancl_refl] by blast

text \<open>
  C34. The provided ring never hands a buffer to two owners. In every state reachable from a new
  slab by kernel picks, selections of picked buffers, view transitions and releases: a descriptor
  the kernel can pick names a slot with no view and describes that slot's memory, no slot is twice
  among the descriptors and the picked buffers, and selecting any picked buffer with a length of
  at most the slot size succeeds while a runtime is active (the double-selection assertion cannot
  fail).
\<close>

theorem provided_ring_safe:
  assumes "provided_slab_new base cnt sz cls = Some s0"
    and "(provided_step (Some g))\<^sup>*\<^sup>* (s0, 0, []) (s, head, pending)"
  shows "distinct (map ub_bid (window s head) @ pending) \<and>
    (\<forall>d \<in> set (window s head). borrow_of (ps_tracker s) (ub_bid d) = 0 \<and>
       ub_addr d = slot_ptr (ps_slab_base s) (ps_size s) (ub_bid d) \<and> ub_len d = ps_size s) \<and>
    (\<forall>slot \<in> set pending. \<forall>len \<le> ps_size s. provided_select (Some g) s slot len \<noteq> None)"
proof -
  have snd: "pring_sound (s, head, pending)"
    using provided_reachable_sound [OF assms(2)] provided_new_sound [OF assms(1)] .
  then have wf: "pring_wf (s, head, pending)"
    and av: "set (map ub_bid (window s head) @ pending)
               = {i. i < slots (ps_tracker s) \<and> borrow_of (ps_tracker s) i = 0}"
    by (auto simp: pring_sound_iff pring_avail_def pring_ids_def pring_tracker_def)
  have "take_shared (ps_tracker s) slot \<noteq> None" if "slot \<in> set pending" for slot
  proof -
    have "slot < slots (ps_tracker s) \<and> borrow_of (ps_tracker s) slot = 0" using av that by auto
    then show ?thesis by (simp add: take_shared_def panic_simps)
  qed
  then have "\<forall>slot \<in> set pending. \<forall>len \<le> ps_size s. provided_select (Some g) s slot len \<noteq> None"
    by (fastforce simp: provided_select_def panic_simps)
  moreover have "\<forall>d \<in> set (window s head). borrow_of (ps_tracker s) (ub_bid d) = 0" using av by auto
  ultimately show ?thesis using wf by (auto simp: pring_wf_def pring_ids_def describes_def)
qed

lemma provided_slab_sample:
  "\<exists>s. provided_slab_new 0 2 64 1 = Some s \<and> ps_size s = 64 \<and>
       kernel_pick (s, 0, []) = Some ((s, 1, [0]), \<lparr>ub_addr = 0, ub_len = 64, ub_bid = 0\<rparr>)"
  by (simp add: provided_slab_new_def kernel_pick_def is_power_of_two.simps upt_rec panic_simps Let_def)

theorem provided_ring_safe_witness:
  "\<exists>s. provided_slab_new 0 2 64 1 = Some s \<and> provided_select (Some 7) s 0 10 \<noteq> None"
proof -
  obtain s where s: "provided_slab_new 0 2 64 1 = Some s" "ps_size s = 64"
    "kernel_pick (s, 0, []) = Some ((s, 1, [0]), \<lparr>ub_addr = 0, ub_len = 64, ub_bid = 0\<rparr>)"
    using provided_slab_sample by blast
  have "(provided_step (Some 7))\<^sup>*\<^sup>* (s, 0, []) (s, 1, [0])"
    using provided_step.Pick [OF s(3), of "Some 7"] by blast
  from provided_ring_safe [OF s(1) this] show ?thesis using s by auto
qed

end
