(* ===== verification/Buffer_Views.thy ===== *)
theory Buffer_Views
  imports Slab_Safety
begin

text \<open>
  Pools, the thread-local state that publishes them, and the buffer views
  (\<^verbatim>\<open>libs/coio-uring/src/buf/pool.rs\<close>, \<^verbatim>\<open>pools.rs\<close>, \<^verbatim>\<open>buf.rs\<close>, and the generation counter of
  \<^verbatim>\<open>libs/coio-core/src/runtime.rs\<close>). A view is a handle (\<^verbatim>\<open>bid\<close>, generation, byte offset, length);
  moving it, forgetting it and dropping it are explicit, so the set of live views is visible. The
  \<^verbatim>\<open>&mut dyn Slab\<close> of \<^verbatim>\<open>with_slab\<close> is the sum \<open>dyn_slab\<close>. The element size and alignment of a
  typed view are arguments. The registrations \<^verbatim>\<open>build_pools\<close> performs with the kernel, and the
  allocator, are parameters.
\<close>

section \<open>Pools\<close>

record 's pool =
  pl_classes :: "size_class list"
  pl_slabs :: "'s list"

definition pool_new :: "('s \<Rightarrow> nat) \<Rightarrow> size_class list \<Rightarrow> 's list \<Rightarrow> 's pool option" where
  "pool_new slot_size classes slabs = do {
     ensure (length classes = length slabs);
     ensure (list_all2 (\<lambda>c s. sc_size c = slot_size s) classes slabs);
     Some \<lparr>pl_classes = classes, pl_slabs = slabs\<rparr>
   }"

definition pool_class_for :: "'s pool \<Rightarrow> nat \<Rightarrow> nat option" where
  "pool_class_for p n = class_for (pl_classes p) n"

definition pool_slot_align :: "'s pool \<Rightarrow> nat \<Rightarrow> nat option" where
  "pool_slot_align p cls = map_option (\<lambda>c. min (sc_size c) BUFFER_MAX_ALIGN) (idx (pl_classes p) cls)"

text \<open>Run an operation on \<^verbatim>\<open>slab_mut(class)\<close> and store the slab back.\<close>

definition pool_slab_mut :: "'s pool \<Rightarrow> nat \<Rightarrow> ('s \<Rightarrow> ('s \<times> 'r) option) \<Rightarrow> ('s pool \<times> 'r) option" where
  "pool_slab_mut p cls f = do {
     s \<leftarrow> idx (pl_slabs p) cls;
     (s, r) \<leftarrow> f s;
     Some (p\<lparr>pl_slabs := (pl_slabs p)[cls := s]\<rparr>, r)
   }"

definition pool_acquire_ref :: "nat option \<Rightarrow> nat \<Rightarrow> nat \<Rightarrow> fixed_slab pool \<Rightarrow> nat \<Rightarrow>
    (fixed_slab pool \<times> buf_ref option) option" where
  "pool_acquire_ref gen sz al p cls = pool_slab_mut p cls (acquire_ref gen sz al)"

definition pool_acquire_mut :: "nat option \<Rightarrow> nat \<Rightarrow> nat \<Rightarrow> fixed_slab pool \<Rightarrow> nat \<Rightarrow>
    (fixed_slab pool \<times> buf_ref option) option" where
  "pool_acquire_mut gen sz al p cls = pool_slab_mut p cls (acquire_mut gen sz al)"

definition pool_acquire_slice :: "nat option \<Rightarrow> nat \<Rightarrow> nat \<Rightarrow> fixed_slab pool \<Rightarrow> nat \<Rightarrow>
    (fixed_slab pool \<times> buf_slice option) option" where
  "pool_acquire_slice gen sz al p cls = pool_slab_mut p cls (acquire_slice gen sz al)"

definition pool_acquire_slice_mut :: "nat option \<Rightarrow> nat \<Rightarrow> nat \<Rightarrow> fixed_slab pool \<Rightarrow> nat \<Rightarrow>
    (fixed_slab pool \<times> buf_slice option) option" where
  "pool_acquire_slice_mut gen sz al p cls = pool_slab_mut p cls (acquire_slice_mut gen sz al)"

definition pool_acquire_bytes :: "nat option \<Rightarrow> fixed_slab pool \<Rightarrow> nat \<Rightarrow>
    (fixed_slab pool \<times> buf_slice option) option" where
  "pool_acquire_bytes gen p cls = pool_slab_mut p cls (acquire_bytes gen)"

definition pool_acquire_bytes_mut :: "nat option \<Rightarrow> fixed_slab pool \<Rightarrow> nat \<Rightarrow>
    (fixed_slab pool \<times> buf_slice option) option" where
  "pool_acquire_bytes_mut gen p cls = pool_slab_mut p cls (acquire_bytes_mut gen)"

definition pool_select :: "nat option \<Rightarrow> provided_slab pool \<Rightarrow> nat \<Rightarrow> nat \<Rightarrow> nat \<Rightarrow>
    (provided_slab pool \<times> buf_slice) option" where
  "pool_select gen p cls slot len = pool_slab_mut p cls (\<lambda>s. provided_select gen s slot len)"

definition pool_select_mut :: "nat option \<Rightarrow> provided_slab pool \<Rightarrow> nat \<Rightarrow> nat \<Rightarrow> nat \<Rightarrow>
    (provided_slab pool \<times> buf_slice) option" where
  "pool_select_mut gen p cls slot len = pool_slab_mut p cls (\<lambda>s. provided_select_mut gen s slot len)"

section \<open>The pools of a runtime and the thread-local state\<close>

record pools =
  pp_slab :: nat
  pp_provided :: "provided_slab pool"
  pp_fixed :: "fixed_slab pool"

record thread =
  th_running :: bool
  th_active_gen :: nat
  th_pools :: "pools option"

definition active_gen :: "thread \<Rightarrow> nat option" where
  "active_gen th = (if \<not> th_running th then None else Some (th_active_gen th))"

definition active_gen_matches :: "thread \<Rightarrow> nat \<Rightarrow> bool" where
  "active_gen_matches th generation \<longleftrightarrow> active_gen th = Some generation"

definition enter_active_gen :: "thread \<Rightarrow> thread option" where
  "enter_active_gen th = do {
     ensure (\<not> th_running th);
     ensure (th_active_gen th + 1 < 2 ^ 32);
     Some (th\<lparr>th_running := True, th_active_gen := th_active_gen th + 1\<rparr>)
   }"

definition exit_active_gen :: "thread \<Rightarrow> thread" where
  "exit_active_gen th = th\<lparr>th_running := False\<rparr>"

definition set_current_pools :: "pools \<Rightarrow> thread \<Rightarrow> thread" where
  "set_current_pools P th = th\<lparr>th_pools := Some P\<rparr>"

definition clear_current_pools :: "thread \<Rightarrow> thread" where
  "clear_current_pools th = th\<lparr>th_pools := None\<rparr>"

definition with_pools :: "thread \<Rightarrow> (pools \<Rightarrow> (pools \<times> 'r) option) \<Rightarrow> (thread \<times> 'r) option" where
  "with_pools th f = do {
     ensure (th_running th);
     P \<leftarrow> th_pools th;
     (P, r) \<leftarrow> f P;
     Some (th\<lparr>th_pools := Some P\<rparr>, r)
   }"

section \<open>Routing\<close>

datatype dyn_slab = Fixed fixed_slab | Provided provided_slab

fun dyn_tracker :: "dyn_slab \<Rightarrow> borrow_tracker" where
  "dyn_tracker (Fixed s) = fs_tracker s"
| "dyn_tracker (Provided s) = ps_tracker s"

fun dyn_set_tracker :: "borrow_tracker \<Rightarrow> dyn_slab \<Rightarrow> dyn_slab" where
  "dyn_set_tracker t (Fixed s) = Fixed (fixed_set_tracker t s)"
| "dyn_set_tracker t (Provided s) = Provided (provided_set_tracker t s)"

fun dyn_slot_size :: "dyn_slab \<Rightarrow> nat" where
  "dyn_slot_size (Fixed s) = fs_size s"
| "dyn_slot_size (Provided s) = ps_size s"

fun dyn_base :: "dyn_slab \<Rightarrow> nat" where
  "dyn_base (Fixed s) = fs_slab_base s"
| "dyn_base (Provided s) = ps_slab_base s"

fun dyn_drop_view :: "dyn_slab \<Rightarrow> bool \<Rightarrow> nat \<Rightarrow> dyn_slab option" where
  "dyn_drop_view (Fixed s) exclusive slot = map_option Fixed (fixed_drop_view s exclusive slot)"
| "dyn_drop_view (Provided s) exclusive slot = map_option Provided (provided_drop_view s exclusive slot)"

definition bid_slab :: "pools \<Rightarrow> u32 \<Rightarrow> dyn_slab option" where
  "bid_slab P bid =
     (if bid_provided bid then map_option Provided (idx (pl_slabs (pp_provided P)) (unat (bid_class bid)))
      else map_option Fixed (idx (pl_slabs (pp_fixed P)) (unat (bid_class bid))))"

fun store_slab :: "pools \<Rightarrow> u32 \<Rightarrow> dyn_slab \<Rightarrow> pools" where
  "store_slab P bid (Provided s) = P\<lparr>pp_provided := (pp_provided P)\<lparr>pl_slabs :=
      (pl_slabs (pp_provided P))[unat (bid_class bid) := s]\<rparr>\<rparr>"
| "store_slab P bid (Fixed s) = P\<lparr>pp_fixed := (pp_fixed P)\<lparr>pl_slabs :=
      (pl_slabs (pp_fixed P))[unat (bid_class bid) := s]\<rparr>\<rparr>"

definition with_slab :: "pools \<Rightarrow> u32 \<Rightarrow> (dyn_slab \<Rightarrow> nat \<Rightarrow> (dyn_slab \<times> 'r) option) \<Rightarrow> (pools \<times> 'r) option" where
  "with_slab P bid f = do {
     s \<leftarrow> bid_slab P bid;
     (s, r) \<leftarrow> f s (unat (bid_local bid));
     Some (store_slab P bid s, r)
   }"

definition resolve_ptr :: "thread \<Rightarrow> u32 \<Rightarrow> nat \<Rightarrow> nat \<Rightarrow> nat option" where
  "resolve_ptr th bid generation offset = do {
     ensure (active_gen_matches th generation);
     (_, base) \<leftarrow> with_pools th (\<lambda>P. with_slab P bid (\<lambda>s slot.
        Some (s, slot_ptr (dyn_base s) (dyn_slot_size s) slot)));
     Some (base + offset)
   }"

text \<open>A tracker operation on the slot of a \<^verbatim>\<open>bid\<close>.\<close>

definition tracker_view_op :: "borrow_op \<Rightarrow> thread \<Rightarrow> u32 \<Rightarrow> thread option" where
  "tracker_view_op oper th bid =
     map_option fst (with_pools th (\<lambda>P. with_slab P bid (\<lambda>s slot.
       map_option (\<lambda>t. (dyn_set_tracker t s, ())) (tracker_op oper (dyn_tracker s) slot))))"

definition clone_view :: "thread \<Rightarrow> u32 \<Rightarrow> nat \<Rightarrow> thread option" where
  "clone_view th bid generation =
     (if \<not> active_gen_matches th generation then Some th else tracker_view_op CloneShared th bid)"

definition drop_view :: "thread \<Rightarrow> u32 \<Rightarrow> nat \<Rightarrow> bool \<Rightarrow> thread option" where
  "drop_view th bid generation exclusive =
     (if \<not> active_gen_matches th generation then Some th
      else map_option fst (with_pools th (\<lambda>P. with_slab P bid (\<lambda>s slot.
        map_option (\<lambda>s. (s, ())) (dyn_drop_view s exclusive slot)))))"

definition upgrade_view :: "thread \<Rightarrow> u32 \<Rightarrow> nat \<Rightarrow> thread option" where
  "upgrade_view th bid generation = do {
     ensure (active_gen_matches th generation);
     tracker_view_op Upgrade th bid
   }"

definition downgrade_view :: "thread \<Rightarrow> u32 \<Rightarrow> nat \<Rightarrow> thread option" where
  "downgrade_view th bid generation = do {
     ensure (active_gen_matches th generation);
     tracker_view_op Downgrade th bid
   }"

definition split_exclusive_view :: "thread \<Rightarrow> u32 \<Rightarrow> nat \<Rightarrow> thread option" where
  "split_exclusive_view th bid generation =
     (if \<not> active_gen_matches th generation then Some th else tracker_view_op SplitExclusive th bid)"

section \<open>Views\<close>

definition ref_as_ptr :: "thread \<Rightarrow> buf_ref \<Rightarrow> nat option" where
  "ref_as_ptr th v = resolve_ptr th (rf_bid v) (rf_generation v) (rf_offset v)"

text \<open>\<^verbatim>\<open>Ref::cast\<close> and \<^verbatim>\<open>RefMut::cast\<close>, with the size and alignment of both types.\<close>

definition ref_cast :: "nat \<times> nat \<Rightarrow> nat \<times> nat \<Rightarrow> buf_ref \<Rightarrow> buf_ref option" where
  "ref_cast t u v = do {
     ensure (fst t = fst u);
     ensure (snd u \<le> snd t);
     Some (ref_new (rf_bid v) (rf_generation v) (rf_offset v))
   }"

definition ref_into_mut :: "thread \<Rightarrow> buf_ref \<Rightarrow> (thread \<times> buf_ref) option" where
  "ref_into_mut th v = do {
     th \<leftarrow> upgrade_view th (rf_bid v) (rf_generation v);
     Some (th, ref_new (rf_bid v) (rf_generation v) (rf_offset v))
   }"

definition ref_clone :: "thread \<Rightarrow> buf_ref \<Rightarrow> (thread \<times> buf_ref) option" where
  "ref_clone th v = do {
     th \<leftarrow> clone_view th (rf_bid v) (rf_generation v);
     Some (th, ref_new (rf_bid v) (rf_generation v) (rf_offset v))
   }"

definition ref_drop :: "thread \<Rightarrow> buf_ref \<Rightarrow> thread option" where
  "ref_drop th v = drop_view th (rf_bid v) (rf_generation v) False"

definition ref_mut_into_ref :: "thread \<Rightarrow> buf_ref \<Rightarrow> (thread \<times> buf_ref) option" where
  "ref_mut_into_ref th v = do {
     th \<leftarrow> downgrade_view th (rf_bid v) (rf_generation v);
     Some (th, ref_new (rf_bid v) (rf_generation v) (rf_offset v))
   }"

definition ref_mut_drop :: "thread \<Rightarrow> buf_ref \<Rightarrow> thread option" where
  "ref_mut_drop th v = drop_view th (rf_bid v) (rf_generation v) True"

definition slice_as_ptr :: "thread \<Rightarrow> buf_slice \<Rightarrow> nat option" where
  "slice_as_ptr th v = ref_as_ptr th (sl_base v)"

definition slice_into_ref :: "buf_slice \<Rightarrow> buf_ref" where
  "slice_into_ref v = sl_base v"

text \<open>
  \<^verbatim>\<open>Slice::cast\<close> and \<^verbatim>\<open>SliceMut::cast\<close>, with the size and alignment of both types. The base is
  read out of the slice and the slice is forgotten, but the base itself is not: it is a value with
  a destructor, which runs when the function returns.
\<close>

definition slice_cast :: "thread \<Rightarrow> bool \<Rightarrow> nat \<times> nat \<Rightarrow> nat \<times> nat \<Rightarrow> buf_slice \<Rightarrow> (thread \<times> buf_slice) option" where
  "slice_cast th exclusive t u v = do {
     ensure (snd u \<le> snd t);
     let bytes = sl_len v * fst t;
     ensure (fst u dvd bytes);
     ensure (0 < fst u);
     let base = sl_base v;
     let result = slice_new (ref_new (rf_bid base) (rf_generation base) (rf_offset base)) (bytes div fst u);
     th \<leftarrow> (if exclusive then ref_mut_drop th base else ref_drop th base);
     Some (th, result)
   }"

text \<open>\<^verbatim>\<open>Slice::drop\<close> and \<^verbatim>\<open>SliceMut::drop\<close>: the drop of the base releases the borrow.\<close>

definition slice_drop :: "thread \<Rightarrow> bool \<Rightarrow> buf_slice \<Rightarrow> thread option" where
  "slice_drop th exclusive v =
     (if exclusive then ref_mut_drop th (sl_base v) else ref_drop th (sl_base v))"

definition bytes_sub :: "thread \<Rightarrow> buf_slice \<Rightarrow> nat \<Rightarrow> nat \<Rightarrow> (thread \<times> buf_slice option) option" where
  "bytes_sub th v a b =
     (if b < a \<or> sl_len v < b then Some (th, None)
      else do {
        let base = sl_base v;
        th \<leftarrow> clone_view th (rf_bid base) (rf_generation base);
        Some (th, Some (slice_new (ref_new (rf_bid base) (rf_generation base) (rf_offset base + a)) (b - a)))
      })"

text \<open>\<^verbatim>\<open>as_ref\<close> over a memory, and \<^verbatim>\<open>into_vec\<close>.\<close>

definition bytes_as_ref :: "(nat \<Rightarrow> byte) \<Rightarrow> thread \<Rightarrow> buf_slice \<Rightarrow> bytes option" where
  "bytes_as_ref mem th v = do {
     p \<leftarrow> slice_as_ptr th v;
     Some (map (\<lambda>k. mem (p + k)) [0..<sl_len v])
   }"

definition bytes_into_vec :: "(nat \<Rightarrow> byte) \<Rightarrow> thread \<Rightarrow> buf_slice \<Rightarrow> (thread \<times> bytes) option" where
  "bytes_into_vec mem th v = do {
     data \<leftarrow> bytes_as_ref mem th v;
     th \<leftarrow> drop_view th (rf_bid (sl_base v)) (rf_generation (sl_base v)) False;
     Some (th, data)
   }"

definition bytes_into_mut :: "thread \<Rightarrow> buf_slice \<Rightarrow> (thread \<times> buf_slice) option" where
  "bytes_into_mut th v = do {
     let len = sl_len v;
     (th, base) \<leftarrow> ref_into_mut th (slice_into_ref v);
     Some (th, slice_new base len)
   }"

definition with_runtime_capacity :: "thread \<Rightarrow> u32 \<Rightarrow> nat \<Rightarrow> nat option" where
  "with_runtime_capacity th bid generation = do {
     ensure (active_gen_matches th generation);
     map_option snd (with_pools th (\<lambda>P. with_slab P bid (\<lambda>s _. Some (s, dyn_slot_size s))))
   }"

definition bytes_mut_capacity :: "thread \<Rightarrow> buf_slice \<Rightarrow> nat option" where
  "bytes_mut_capacity th v = do {
     slot_size \<leftarrow> with_runtime_capacity th (rf_bid (sl_base v)) (rf_generation (sl_base v));
     checked_sub slot_size (rf_offset (sl_base v))
   }"

definition bytes_mut_set_len :: "thread \<Rightarrow> buf_slice \<Rightarrow> nat \<Rightarrow> buf_slice option" where
  "bytes_mut_set_len th v new_len = do {
     capacity \<leftarrow> bytes_mut_capacity th v;
     ensure (new_len \<le> capacity);
     Some (v\<lparr>sl_len := new_len\<rparr>)
   }"

definition bytes_mut_clear :: "buf_slice \<Rightarrow> buf_slice" where
  "bytes_mut_clear v = v\<lparr>sl_len := 0\<rparr>"

text \<open>\<^verbatim>\<open>split_at\<close> takes its view by value: when it returns \<^verbatim>\<open>None\<close> the view is dropped.\<close>

definition bytes_mut_split_at ::
  "thread \<Rightarrow> buf_slice \<Rightarrow> nat \<Rightarrow> (thread \<times> (buf_slice \<times> buf_slice) option) option"
where
  "bytes_mut_split_at th v mid =
     (let len = sl_len v; base = sl_base v in
      if len < mid then do {
        th \<leftarrow> ref_mut_drop th base;
        Some (th, None)
      }
      else do {
        th \<leftarrow> split_exclusive_view th (rf_bid base) (rf_generation base);
        let head = slice_new (ref_new (rf_bid base) (rf_generation base) (rf_offset base)) mid;
        let tail = slice_new (ref_new (rf_bid base) (rf_generation base) (rf_offset base + mid)) (len - mid);
        Some (th, Some (head, tail))
      })"

definition bytes_mut_into_bytes :: "thread \<Rightarrow> buf_slice \<Rightarrow> (thread \<times> buf_slice) option" where
  "bytes_mut_into_bytes th v = do {
     let len = sl_len v;
     (th, base) \<leftarrow> ref_mut_into_ref th (sl_base v);
     Some (th, slice_new base len)
   }"

section \<open>Allocation\<close>

abbreviation EFBIG :: errno where "EFBIG \<equiv> 27"
abbreviation ENOMEM :: errno where "ENOMEM \<equiv> 12"

definition assert_class_alignment :: "nat \<Rightarrow> fixed_slab pool \<Rightarrow> nat \<Rightarrow> unit option" where
  "assert_class_alignment al p cls = do {
     slot_align \<leftarrow> pool_slot_align p cls;
     ensure (al \<le> slot_align)
   }"

text \<open>The class-selected acquire the four allocators share.\<close>

definition alloc_with ::
  "nat \<Rightarrow> (fixed_slab pool \<Rightarrow> nat \<Rightarrow> (fixed_slab pool \<times> 'v option) option) \<Rightarrow> nat \<Rightarrow> thread \<Rightarrow>
   (thread \<times> 'v option) option"
where
  "alloc_with al acquire sz th = with_pools th (\<lambda>P.
     case pool_class_for (pp_fixed P) sz of
       None \<Rightarrow> Some (P, None)
     | Some cls \<Rightarrow> do {
         assert_class_alignment al (pp_fixed P) cls;
         (p, v) \<leftarrow> acquire (pp_fixed P) cls;
         Some (P\<lparr>pp_fixed := p\<rparr>, v)
       })"

definition alloc :: "nat \<Rightarrow> nat \<Rightarrow> thread \<Rightarrow> (thread \<times> buf_ref option) option" where
  "alloc sz al th = do {
     ensure (0 < sz);
     alloc_with al (pool_acquire_ref (active_gen th) sz al) sz th
   }"

definition alloc_mut :: "nat \<Rightarrow> nat \<Rightarrow> thread \<Rightarrow> (thread \<times> buf_ref option) option" where
  "alloc_mut sz al th = do {
     ensure (0 < sz);
     alloc_with al (pool_acquire_mut (active_gen th) sz al) sz th
   }"

definition alloc_slice_mut :: "nat \<Rightarrow> nat \<Rightarrow> nat \<Rightarrow> thread \<Rightarrow> (thread \<times> buf_slice option) option" where
  "alloc_slice_mut sz al n th = do {
     ensure (0 < sz);
     let bytes = n * sz;
     if 2 ^ 64 \<le> bytes \<or> bytes = 0 then Some (th, None)
     else do {
       (th, slot) \<leftarrow> alloc_with al (pool_acquire_slice_mut (active_gen th) sz al) bytes th;
       Some (th, map_option (\<lambda>v. slice_new (slice_into_ref v) n) slot)
     }
   }"

definition alloc_bytes :: "nat \<Rightarrow> thread \<Rightarrow> (thread \<times> buf_slice io_result) option" where
  "alloc_bytes sz th = with_pools th (\<lambda>P.
     case pool_class_for (pp_fixed P) sz of
       None \<Rightarrow> Some (P, Inl (Os EFBIG))
     | Some cls \<Rightarrow> do {
         (p, v) \<leftarrow> pool_acquire_bytes_mut (active_gen th) (pp_fixed P) cls;
         Some (P\<lparr>pp_fixed := p\<rparr>, (case v of None \<Rightarrow> Inl (Os ENOMEM) | Some v \<Rightarrow> Inr v))
       })"

definition provided_bytes :: "nat \<Rightarrow> nat \<Rightarrow> nat \<Rightarrow> thread \<Rightarrow> (thread \<times> buf_slice) option" where
  "provided_bytes cls slot len th = with_pools th (\<lambda>P. do {
     (p, v) \<leftarrow> pool_select (active_gen th) (pp_provided P) cls slot len;
     Some (P\<lparr>pp_provided := p\<rparr>, v)
   })"

section \<open>Building the pools\<close>

definition class_of_layout :: "size_class_layout \<Rightarrow> size_class" where
  "class_of_layout l = \<lparr>sc_size = cl_size l, sc_count = cl_count l\<rparr>"

text \<open>A loop that builds one slab per class, with the class index.\<close>

fun build_slabs :: "(nat \<Rightarrow> size_class_layout \<Rightarrow> 's option) \<Rightarrow> nat \<Rightarrow> size_class_layout list \<Rightarrow> 's list option" where
  "build_slabs mk i [] = Some []"
| "build_slabs mk i (l # ls) = do {
     s \<leftarrow> mk i l;
     ss \<leftarrow> build_slabs mk (i + 1) ls;
     Some (s # ss)
   }"

definition build_align :: "size_class list \<Rightarrow> nat option" where
  "build_align specs =
     (case map (\<lambda>c. min (sc_size c) BUFFER_MAX_ALIGN) specs of [] \<Rightarrow> None | a # as \<Rightarrow> Some (foldl max a as))"

text \<open>
  \<open>base\<close> is the address the allocator returns for the layout (\<^term>\<open>None\<close> when it fails);
  \<open>register_ring\<close> and \<open>register_slab\<close> tell whether the kernel accepts the registrations.
\<close>

definition build_pools ::
  "(nat \<Rightarrow> nat \<Rightarrow> nat option) \<Rightarrow> (provided_slab \<Rightarrow> bool) \<Rightarrow> (nat \<Rightarrow> nat \<Rightarrow> bool) \<Rightarrow>
   size_class list \<Rightarrow> size_class list \<Rightarrow> pools option"
where
  "build_pools allocate register_ring register_slab provided_spec fixed_spec = do {
     provided_layout \<leftarrow> layout_classes provided_spec True;
     fixed_layout \<leftarrow> layout_classes fixed_spec False;
     let provided_total = cl_total (last provided_layout);
     align \<leftarrow> build_align (provided_spec @ fixed_spec);
     ensure (is_power_of_two align);
     let fixed_start = div_ceil provided_total align * align;
     let total = fixed_start + cl_total (last fixed_layout);
     ensure (total \<le> 2 ^ 32 - 1);
     base \<leftarrow> allocate total align;
     provided_slabs \<leftarrow> build_slabs (\<lambda>i l. provided_slab_new (base + cl_base_offset l)
                         (cl_count l mod 2 ^ 16) (cl_size l) (word_of_nat i)) 0 provided_layout;
     provided_pool \<leftarrow> pool_new ps_size (map class_of_layout provided_layout) provided_slabs;
     ensure (list_all register_ring (pl_slabs provided_pool));
     fixed_slabs \<leftarrow> build_slabs (\<lambda>i l. fixed_slab_new (base + (fixed_start + cl_base_offset l))
                         (cl_size l) (cl_count l) (word_of_nat i)) 0 fixed_layout;
     fixed_pool \<leftarrow> pool_new fs_size (map class_of_layout fixed_layout) fixed_slabs;
     ensure (register_slab base total);
     Some \<lparr>pp_slab = base, pp_provided = provided_pool, pp_fixed = fixed_pool\<rparr>
   }"

end
