(* ===== verification/View_Safety.thy ===== *)
theory View_Safety
  imports Buffer_Views
begin

text \<open>
  Memory safety of the buffer views. A state is a thread with an active runtime and the multiset
  of live byte views (exclusive or shared); the steps are the operations of \<^verbatim>\<open>buf.rs\<close> that create,
  split, convert and drop views. The invariant ties the borrow count of every slot to the live
  views of that slot.
\<close>

section \<open>Slots named by buffer ids\<close>

definition bid_ok :: "pools \<Rightarrow> u32 \<Rightarrow> bool" where
  "bid_ok P bid \<longleftrightarrow>
     (\<exists>s. bid_slab P bid = Some s \<and> unat (bid_local bid) < slots (dyn_tracker s))"

definition borrow_at :: "pools \<Rightarrow> u32 \<Rightarrow> int" where
  "borrow_at P bid = borrow_of (dyn_tracker (the (bid_slab P bid))) (unat (bid_local bid))"

definition size_at :: "pools \<Rightarrow> u32 \<Rightarrow> nat" where
  "size_at P bid = dyn_slot_size (the (bid_slab P bid))"

fun dyn_class :: "dyn_slab \<Rightarrow> u8" where
  "dyn_class (Fixed s) = fs_class s"
| "dyn_class (Provided s) = ps_class s"

fun is_provided :: "dyn_slab \<Rightarrow> bool" where
  "is_provided (Fixed s) = False"
| "is_provided (Provided s) = True"

text \<open>Every slab carries its own index, the table fits the class bits and the slots the slot bits.\<close>

definition pools_wf :: "pools \<Rightarrow> bool" where
  "pools_wf P \<longleftrightarrow> length (pl_slabs (pp_fixed P)) \<le> 128 \<and> length (pl_slabs (pp_provided P)) \<le> 128 \<and>
     (\<forall>i < length (pl_slabs (pp_fixed P)).
        fs_class (pl_slabs (pp_fixed P) ! i) = word_of_nat i \<and>
        slots (fs_tracker (pl_slabs (pp_fixed P) ! i)) \<le> 2 ^ 24) \<and>
     (\<forall>i < length (pl_slabs (pp_provided P)).
        ps_class (pl_slabs (pp_provided P) ! i) = word_of_nat i \<and>
        slots (ps_tracker (pl_slabs (pp_provided P) ! i)) \<le> 2 ^ 24)"

lemma bid_decode_inj:
  assumes "bid_provided a = bid_provided b" "bid_class a = bid_class b" "bid_local a = bid_local b"
  shows "a = b"
proof (rule bit_eqI)
  fix n assume "possible_bit TYPE(u32) n"
  then have n: "n < 32" by simp
  have p: "bit a 31 = bit b 31"
    using assms(1) by (simp add: bid_provided_def BID_masks(3) bit_iff_and_push_bit_not_eq_0)
  have c: "bit a (24 + k) = bit b (24 + k)" if "k < 7" for k
    using arg_cong [OF assms(2), of "\<lambda>w. bit w k"] that
    by (simp add: bid_class_def BID_masks(1) BID_CLASS_SHIFT_def bit_simps)
  have l: "bit a k = bit b k" if "k < 24" for k
    using arg_cong [OF assms(3), of "\<lambda>w. bit w k"] that
    by (simp add: bid_local_def BID_masks(2) bit_simps)
  consider "n < 24" | "24 \<le> n" "n < 31" | "n = 31" using n by linarith
  then show "bit a n = bit b n"
    using p l [of n] c [of "n - 24"] by cases auto
qed

text \<open>What an operation on one slot of a slab leaves: everything but the count of that slot.\<close>

definition slab_effect :: "dyn_slab \<Rightarrow> dyn_slab \<Rightarrow> nat \<Rightarrow> int \<Rightarrow> bool" where
  "slab_effect s s' i b \<longleftrightarrow>
     is_provided s' = is_provided s \<and> dyn_class s' = dyn_class s \<and> dyn_slot_size s' = dyn_slot_size s \<and>
     slots (dyn_tracker s') = slots (dyn_tracker s) \<and> i < slots (dyn_tracker s) \<and>
     borrow_of (dyn_tracker s') i = b \<and>
     (\<forall>j. j \<noteq> i \<longrightarrow> borrow_of (dyn_tracker s') j = borrow_of (dyn_tracker s) j)"

definition pools_effect :: "pools \<Rightarrow> pools \<Rightarrow> u32 \<Rightarrow> int \<Rightarrow> bool" where
  "pools_effect P P' bid b \<longleftrightarrow>
     pools_wf P' \<and> bid_ok P bid \<and> bid_ok P' = bid_ok P \<and> size_at P' = size_at P \<and>
     (\<forall>c. bid_ok P c \<longrightarrow> borrow_at P' c = (if c = bid then b else borrow_at P c))"

lemma bid_slab_kind: "bid_slab P bid = Some s \<Longrightarrow> is_provided s = bid_provided bid"
  by (auto simp: bid_slab_def split: if_splits)

lemma bid_slab_range:
  "bid_slab P bid = Some s \<Longrightarrow>
   unat (bid_class bid) < length (if bid_provided bid then map Provided (pl_slabs (pp_provided P))
                                  else map Fixed (pl_slabs (pp_fixed P)))"
  by (auto simp: bid_slab_def split: if_splits)

lemma bid_slab_store:
  assumes "bid_slab P bid = Some s" "is_provided s' = is_provided s"
  shows "bid_slab (store_slab P bid s') c =
    (if bid_provided c = bid_provided bid \<and> bid_class c = bid_class bid then Some s' else bid_slab P c)"
proof -
  have u: "unat (bid_class c) = unat (bid_class bid) \<longleftrightarrow> bid_class c = bid_class bid"
    by (auto dest: unsigned_word_eqI)
  show ?thesis
    using assms bid_slab_kind [OF assms(1)] bid_slab_range [OF assms(1)] u
    by (cases s') (auto simp: bid_slab_def idx_def nth_list_update split: if_splits)
qed

lemma store_slab_wf:
  assumes "pools_wf P" "bid_slab P bid = Some s" "slab_effect s s' i b"
  shows "pools_wf (store_slab P bid s')"
  using assms bid_slab_kind [OF assms(2)]
  by (cases s'; cases s) (auto simp: pools_wf_def slab_effect_def bid_slab_def nth_list_update split: if_splits)

lemma store_slab_effect:
  assumes wf: "pools_wf P" and s: "bid_slab P bid = Some s"
    and eff: "slab_effect s s' (unat (bid_local bid)) b"
  shows "pools_effect P (store_slab P bid s') bid b"
proof -
  let ?P = "store_slab P bid s'"
  have kind: "is_provided s' = is_provided s" using eff by (simp add: slab_effect_def)
  note st = bid_slab_store [OF s kind]
  have same: "bid_slab P c = Some s" if "bid_provided c = bid_provided bid" "bid_class c = bid_class bid" for c
    using s that by (auto simp: bid_slab_def split: if_splits)
  have ok: "bid_ok ?P = bid_ok P"
    using eff by (auto simp: fun_eq_iff bid_ok_def st slab_effect_def same)
  have size: "size_at ?P = size_at P"
    using eff by (auto simp: fun_eq_iff size_at_def st slab_effect_def same)
  have "borrow_at ?P c = (if c = bid then b else borrow_at P c)" for c
  proof (cases "bid_provided c = bid_provided bid \<and> bid_class c = bid_class bid")
    case True
    have "unat (bid_local c) = unat (bid_local bid) \<longleftrightarrow> c = bid"
      using True bid_decode_inj [of c bid] by (auto dest: unsigned_word_eqI)
    then show ?thesis
      using True eff same [of c] by (auto simp: borrow_at_def st slab_effect_def)
  next
    case False
    then have "c \<noteq> bid" by auto
    then show ?thesis using False by (auto simp: borrow_at_def st)
  qed
  moreover have "bid_ok P bid" using s eff by (auto simp: bid_ok_def slab_effect_def)
  ultimately show ?thesis
    using store_slab_wf [OF wf s eff] ok size by (auto simp: pools_effect_def)
qed

section \<open>The effect of the routed operations\<close>

lemma dyn_set_tracker_simps [simp]:
  "dyn_tracker (dyn_set_tracker t s) = t" "dyn_class (dyn_set_tracker t s) = dyn_class s"
  "dyn_slot_size (dyn_set_tracker t s) = dyn_slot_size s"
  "is_provided (dyn_set_tracker t s) = is_provided s"
  by (cases s; simp add: fixed_set_tracker_def provided_set_tracker_def)+

lemma tracker_op_effect:
  assumes "tracker_op oper (dyn_tracker s) i = Some t"
  shows "slab_effect s (dyn_set_tracker t s) i (new_borrow oper (borrow_of (dyn_tracker s) i))"
  using tracker_op_frame [OF assms] by (simp add: slab_effect_def)

lemma tracker_view_op_effect:
  assumes "tracker_view_op oper th bid = Some th'" "th_pools th = Some P" "pools_wf P"
  shows "\<exists>P'. th' = th\<lparr>th_pools := Some P'\<rparr> \<and> pools_effect P P' bid (new_borrow oper (borrow_at P bid)) \<and>
    discipline oper (slot_abs (borrow_at P bid)) = Some (slot_abs (new_borrow oper (borrow_at P bid)))"
proof -
  obtain s t where s: "bid_slab P bid = Some s"
    and t: "tracker_op oper (dyn_tracker s) (unat (bid_local bid)) = Some t"
    and th': "th' = th\<lparr>th_pools := Some (store_slab P bid (dyn_set_tracker t s))\<rparr>"
    using assms(1,2)
    by (auto simp: tracker_view_op_def with_pools_def with_slab_def panic_simps bind_eq_Some_conv
        split: if_splits)
  have "pools_effect P (store_slab P bid (dyn_set_tracker t s)) bid
      (new_borrow oper (borrow_at P bid))"
    using store_slab_effect [OF assms(3) s tracker_op_effect [OF t]] s by (simp add: borrow_at_def)
  moreover have "discipline oper (slot_abs (borrow_at P bid)) = Some (slot_abs (new_borrow oper (borrow_at P bid)))"
    using tracker_op_abs [OF t] tracker_op_frame [OF t] s by (simp add: borrow_at_def)
  ultimately show ?thesis using th' by blast
qed

abbreviation drop_op :: "bool \<Rightarrow> borrow_op" where
  "drop_op exclusive \<equiv> (if exclusive then DropExclusive else DropShared)"

lemma fixed_drop_view_effect:
  assumes "fixed_drop_view s exclusive i = Some s'"
  shows "\<exists>t. tracker_op (drop_op exclusive) (fs_tracker s) i = Some t \<and> fs_tracker s' = t \<and>
             fs_class s' = fs_class s \<and> fs_size s' = fs_size s"
proof -
  obtain t freed where t: "tracker_drop_view (fs_tracker s) exclusive i = Some (t, freed)"
    using slab_drop_view_Some assms by (fastforce simp: fixed_drop_view_def)
  then show ?thesis
    using assms drop_view_frees(2) [OF t]
    by (auto simp: fixed_drop_view_def slab_drop_view_def fixed_recycle_def fixed_set_tracker_def
        split: if_splits)
qed

lemma provided_drop_view_effect:
  assumes "provided_drop_view s exclusive i = Some s'"
  shows "\<exists>t. tracker_op (drop_op exclusive) (ps_tracker s) i = Some t \<and> ps_tracker s' = t \<and>
             ps_class s' = ps_class s \<and> ps_size s' = ps_size s"
proof -
  obtain t freed where t: "tracker_drop_view (ps_tracker s) exclusive i = Some (t, freed)"
    using slab_drop_view_Some assms by (fastforce simp: provided_drop_view_def)
  then show ?thesis
    using assms drop_view_frees(2) [OF t]
    by (auto simp: provided_drop_view_def slab_drop_view_def provided_recycle_def recycle_buffer_def
        provided_set_tracker_def Let_def bind_eq_Some_conv split: if_splits)
qed

lemma dyn_drop_view_effect:
  assumes "dyn_drop_view s exclusive i = Some s'"
  shows "\<exists>t. tracker_op (drop_op exclusive) (dyn_tracker s) i = Some t \<and>
             slab_effect s s' i (new_borrow (drop_op exclusive) (borrow_of (dyn_tracker s) i))"
proof (cases s)
  case (Fixed f)
  then obtain f' where f: "fixed_drop_view f exclusive i = Some f'" "s' = Fixed f'"
    using assms by auto
  from fixed_drop_view_effect [OF this(1)] show ?thesis
    using Fixed f(2) tracker_op_frame by (fastforce simp: slab_effect_def)
next
  case (Provided f)
  then obtain f' where f: "provided_drop_view f exclusive i = Some f'" "s' = Provided f'"
    using assms by auto
  from provided_drop_view_effect [OF this(1)] show ?thesis
    using Provided f(2) tracker_op_frame by (fastforce simp: slab_effect_def)
qed

lemma drop_view_effect:
  assumes "drop_view th bid generation exclusive = Some th'" "active_gen_matches th generation"
    "th_pools th = Some P" "pools_wf P"
  shows "\<exists>P'. th' = th\<lparr>th_pools := Some P'\<rparr> \<and>
    pools_effect P P' bid (new_borrow (drop_op exclusive) (borrow_at P bid)) \<and>
    discipline (drop_op exclusive) (slot_abs (borrow_at P bid)) \<noteq> None"
proof -
  obtain s s' where s: "bid_slab P bid = Some s"
    and d: "dyn_drop_view s exclusive (unat (bid_local bid)) = Some s'"
    and th': "th' = th\<lparr>th_pools := Some (store_slab P bid s')\<rparr>"
    using assms(1-3)
    by (auto simp: drop_view_def with_pools_def with_slab_def panic_simps bind_eq_Some_conv
        split: if_splits)
  obtain t where t: "tracker_op (drop_op exclusive) (dyn_tracker s) (unat (bid_local bid)) = Some t"
    "slab_effect s s' (unat (bid_local bid))
       (new_borrow (drop_op exclusive) (borrow_of (dyn_tracker s) (unat (bid_local bid))))"
    using dyn_drop_view_effect [OF d] by blast
  show ?thesis
    using store_slab_effect [OF assms(4) s t(2)] tracker_op_abs [OF t(1)] s th'
    by (auto simp: borrow_at_def)
qed

section \<open>The effect of the allocators\<close>

lemma pack_bid_index:
  assumes "cls < 128" "slot < 2 ^ 24"
  shows "bid_provided (pack_bid provided (word_of_nat cls) (word_of_nat slot)) = provided"
    and "unat (bid_class (pack_bid provided (word_of_nat cls) (word_of_nat slot))) = cls"
    and "unat (bid_local (pack_bid provided (word_of_nat cls) (word_of_nat slot))) = slot"
proof -
  have c: "unat (word_of_nat cls :: u8) = cls" using assms(1) by (simp add: unat_of_nat)
  have l: "unat (word_of_nat slot :: u32) = slot" using assms(2) by (simp add: unat_of_nat)
  have "bid_provided (pack_bid provided (word_of_nat cls) (word_of_nat slot)) = provided \<and>
      bid_class (pack_bid provided (word_of_nat cls) (word_of_nat slot)) = word_of_nat cls \<and>
      bid_local (pack_bid provided (word_of_nat cls) (word_of_nat slot)) = word_of_nat slot"
    using assms c l by (intro pack_bid_decode) simp_all
  then show "bid_provided (pack_bid provided (word_of_nat cls) (word_of_nat slot)) = provided"
    "unat (bid_class (pack_bid provided (word_of_nat cls) (word_of_nat slot))) = cls"
    "unat (bid_local (pack_bid provided (word_of_nat cls) (word_of_nat slot))) = slot"
    using c l by simp_all
qed

text \<open>A fresh view: over a slot nobody borrowed, inside the slot, of the live generation.\<close>

definition fresh_view :: "thread \<Rightarrow> pools \<Rightarrow> pools \<Rightarrow> bool \<Rightarrow> buf_slice \<Rightarrow> bool" where
  "fresh_view th P P' exclusive v \<longleftrightarrow>
     pools_effect P P' (rf_bid (sl_base v)) (if exclusive then -1 else 1) \<and>
     borrow_at P (rf_bid (sl_base v)) = 0 \<and> rf_generation (sl_base v) = th_active_gen th \<and>
     rf_offset (sl_base v) + sl_len v \<le> size_at P (rf_bid (sl_base v))"

lemma acquire_bytes_mut_Some:
  assumes "acquire_bytes_mut gen s = Some (s', Some v)"
  shows "\<exists>t. take_exclusive (fs_tracker s) (last (fs_free s)) = Some t \<and>
     s' = s\<lparr>fs_free := butlast (fs_free s), fs_tracker := t\<rparr> \<and>
     (\<exists>g. gen = Some g \<and>
       v = slice_new (ref_new (pack_bid False (fs_class s) (word_of_nat (last (fs_free s)))) g 0) (fs_size s))"
  using assms
  by (auto simp: acquire_bytes_mut_def acquire_slice_mut_def acquire_slot_def fixed_acquire_def
      build_slice_def build_ref_def bind_eq_Some_conv Let_def split: if_splits option.splits)

lemma alloc_bytes_effect:
  assumes ret: "alloc_bytes sz th = Some (th', Inr v)" and P: "th_pools th = Some P" and wf: "pools_wf P"
  shows "\<exists>P'. th' = th\<lparr>th_pools := Some P'\<rparr> \<and> fresh_view th P P' True v"
proof -
  let ?ss = "pl_slabs (pp_fixed P)"
  obtain cls s' where cls: "cls < length ?ss"
    and acq: "acquire_bytes_mut (active_gen th) (?ss ! cls) = Some (s', Some v)"
    and th': "th' = th\<lparr>th_pools := Some (P\<lparr>pp_fixed := (pp_fixed P)\<lparr>pl_slabs := ?ss[cls := s']\<rparr>\<rparr>)\<rparr>"
    and run: "th_running th"
    using ret P
    by (auto simp: alloc_bytes_def with_pools_def pool_acquire_bytes_mut_def pool_slab_mut_def
        bind_eq_Some_conv split: option.splits)
  obtain slot t g where t: "take_exclusive (fs_tracker (?ss ! cls)) slot = Some t"
    and s': "s' = (?ss ! cls)\<lparr>fs_free := butlast (fs_free (?ss ! cls)), fs_tracker := t\<rparr>"
    and g: "active_gen th = Some g"
    and v: "v = slice_new (ref_new (pack_bid False (fs_class (?ss ! cls)) (word_of_nat slot)) g 0)
                  (fs_size (?ss ! cls))"
    using acquire_bytes_mut_Some [OF acq] by blast
  have top: "tracker_op TakeExclusive (fs_tracker (?ss ! cls)) slot = Some t" using t by simp
  note fr = tracker_op_frame [OF top]
  have range: "cls < 128" "slot < 2 ^ 24" and cidx: "fs_class (?ss ! cls) = word_of_nat cls"
    using wf cls fr by (auto simp: pools_wf_def)
  let ?bid = "pack_bid False (word_of_nat cls) (word_of_nat slot)"
  note ix = pack_bid_index [OF range, of False]
  have slab: "bid_slab P ?bid = Some (Fixed (?ss ! cls))" using ix cls by (simp add: bid_slab_def)
  have "slab_effect (Fixed (?ss ! cls)) (Fixed s') (unat (bid_local ?bid)) (-1)"
    using fr ix s' by (simp add: slab_effect_def)
  from store_slab_effect [OF wf slab this] have "pools_effect P
      (P\<lparr>pp_fixed := (pp_fixed P)\<lparr>pl_slabs := ?ss[cls := s']\<rparr>\<rparr>) ?bid (-1)"
    using ix by simp
  moreover have "borrow_at P ?bid = 0"
    using t fr slab ix by (auto simp: borrow_at_def take_exclusive_def panic_simps split: if_splits)
  moreover have "g = th_active_gen th" using g run by (simp add: active_gen_def)
  ultimately show ?thesis
    using th' v cidx slab
    by (auto simp: fresh_view_def slice_new_def ref_new_def size_at_def)
qed

lemma provided_bytes_effect:
  assumes ret: "provided_bytes cls slot len th = Some (th', v)"
    and P: "th_pools th = Some P" and wf: "pools_wf P"
  shows "\<exists>P'. th' = th\<lparr>th_pools := Some P'\<rparr> \<and> fresh_view th P P' False v"
proof -
  let ?ss = "pl_slabs (pp_provided P)"
  obtain s' where cls: "cls < length ?ss"
    and sel: "provided_select (active_gen th) (?ss ! cls) slot len = Some (s', v)"
    and th': "th' = th\<lparr>th_pools := Some (P\<lparr>pp_provided := (pp_provided P)\<lparr>pl_slabs := ?ss[cls := s']\<rparr>\<rparr>)\<rparr>"
    and run: "th_running th"
    using ret P
    by (auto simp: provided_bytes_def with_pools_def pool_select_def pool_slab_mut_def
        bind_eq_Some_conv)
  obtain t g where t: "take_shared (ps_tracker (?ss ! cls)) slot = Some t"
    and s': "s' = (?ss ! cls)\<lparr>ps_tracker := t\<rparr>" and g: "active_gen th = Some g"
    and len: "len \<le> ps_size (?ss ! cls)"
    and v: "v = slice_new (ref_new (pack_bid True (ps_class (?ss ! cls)) (word_of_nat slot)) g 0) len"
    using sel by (auto simp: provided_select_def bind_eq_Some_conv)
  have top: "tracker_op TakeShared (ps_tracker (?ss ! cls)) slot = Some t" using t by simp
  note fr = tracker_op_frame [OF top]
  have range: "cls < 128" "slot < 2 ^ 24" and cidx: "ps_class (?ss ! cls) = word_of_nat cls"
    using wf cls fr by (auto simp: pools_wf_def)
  let ?bid = "pack_bid True (word_of_nat cls) (word_of_nat slot)"
  note ix = pack_bid_index [OF range, of True]
  have slab: "bid_slab P ?bid = Some (Provided (?ss ! cls))" using ix cls by (simp add: bid_slab_def)
  have "slab_effect (Provided (?ss ! cls)) (Provided s') (unat (bid_local ?bid)) 1"
    using fr ix s' by (simp add: slab_effect_def)
  from store_slab_effect [OF wf slab this] have "pools_effect P
      (P\<lparr>pp_provided := (pp_provided P)\<lparr>pl_slabs := ?ss[cls := s']\<rparr>\<rparr>) ?bid 1"
    using ix by simp
  moreover have "borrow_at P ?bid = 0"
    using t fr slab ix by (auto simp: borrow_at_def take_shared_def panic_simps split: if_splits)
  moreover have "g = th_active_gen th" using g run by (simp add: active_gen_def)
  ultimately show ?thesis
    using th' v cidx slab len
    by (auto simp: fresh_view_def slice_new_def ref_new_def size_at_def)
qed

section \<open>Live views\<close>

type_synonym view_state = "thread \<times> (bool \<times> buf_slice) list"

definition view_bid :: "buf_slice \<Rightarrow> u32" where
  "view_bid v = rf_bid (sl_base v)"

definition view_range :: "buf_slice \<Rightarrow> nat set" where
  "view_range v = {rf_offset (sl_base v) ..< rf_offset (sl_base v) + sl_len v}"

definition views_of :: "bool \<Rightarrow> (bool \<times> buf_slice) list \<Rightarrow> u32 \<Rightarrow> nat" where
  "views_of exclusive live bid = length (filter (\<lambda>(e, v). e = exclusive \<and> view_bid v = bid) live)"

inductive view_step :: "view_state \<Rightarrow> view_state \<Rightarrow> bool" where
  Alloc: "alloc_bytes sz th = Some (th', Inr v) \<Longrightarrow> view_step (th, live) (th', (True, v) # live)"
| Provide: "provided_bytes cls slot len th = Some (th', v) \<Longrightarrow>
    view_step (th, live) (th', (False, v) # live)"
| Sub: "(False, v) \<in> set live \<Longrightarrow> bytes_sub th v a b = Some (th', Some w) \<Longrightarrow>
    view_step (th, live) (th', (False, w) # live)"
| IntoMut: "bytes_into_mut th v = Some (th', w) \<Longrightarrow>
    view_step (th, xs @ (False, v) # ys) (th', xs @ (True, w) # ys)"
| IntoBytes: "bytes_mut_into_bytes th v = Some (th', w) \<Longrightarrow>
    view_step (th, xs @ (True, v) # ys) (th', xs @ (False, w) # ys)"
| Split: "bytes_mut_split_at th v mid = Some (th', Some (h, t)) \<Longrightarrow>
    view_step (th, xs @ (True, v) # ys) (th', xs @ (True, h) # (True, t) # ys)"
| SplitNone: "bytes_mut_split_at th v mid = Some (th', None) \<Longrightarrow>
    view_step (th, xs @ (True, v) # ys) (th', xs @ ys)"
| IntoVec: "bytes_into_vec mem th v = Some (th', data) \<Longrightarrow>
    view_step (th, xs @ (False, v) # ys) (th', xs @ ys)"
| Clear: "view_step (th, xs @ (True, v) # ys) (th, xs @ (True, bytes_mut_clear v) # ys)"
| Drop: "slice_drop th e v = Some th' \<Longrightarrow> view_step (th, xs @ (e, v) # ys) (th', xs @ ys)"

definition apart :: "bool \<times> buf_slice \<Rightarrow> bool \<times> buf_slice \<Rightarrow> bool" where
  "apart x y \<longleftrightarrow> (fst x \<and> fst y \<and> view_bid (snd x) = view_bid (snd y) \<longrightarrow>
     view_range (snd x) \<inter> view_range (snd y) = {})"

definition view_fits :: "nat \<Rightarrow> pools \<Rightarrow> buf_slice \<Rightarrow> bool" where
  "view_fits g P v \<longleftrightarrow> rf_generation (sl_base v) = g \<and> bid_ok P (view_bid v) \<and>
     rf_offset (sl_base v) + sl_len v \<le> size_at P (view_bid v)"

definition counts_ok :: "pools \<Rightarrow> (bool \<times> buf_slice) list \<Rightarrow> bool" where
  "counts_ok P live \<longleftrightarrow> (\<forall>bid. bid_ok P bid \<longrightarrow>
     borrow_at P bid = int (views_of False live bid) - int (views_of True live bid) \<and>
     (views_of False live bid = 0 \<or> views_of True live bid = 0))"

definition view_inv :: "view_state \<Rightarrow> bool" where
  "view_inv s \<longleftrightarrow> (\<exists>P. th_running (fst s) \<and> th_pools (fst s) = Some P \<and> pools_wf P \<and>
     (\<forall>x \<in> set (snd s). view_fits (th_active_gen (fst s)) P (snd x)) \<and>
     counts_ok P (snd s) \<and> sorted_wrt apart (snd s))"

lemma views_of_simps [simp]:
  "views_of e [] bid = 0"
  "views_of e ((e', v) # live) bid = views_of e live bid + (if e' = e \<and> view_bid v = bid then 1 else 0)"
  "views_of e (xs @ ys) bid = views_of e xs bid + views_of e ys bid"
  by (simp_all add: views_of_def)

lemma no_views_of: "views_of e live bid = 0 \<Longrightarrow> (e, v) \<in> set live \<Longrightarrow> view_bid v \<noteq> bid"
  by (auto simp: views_of_def filter_empty_conv)

lemma apart_shared [simp]: "apart (False, v) y" "apart x (False, v)"
  by (simp_all add: apart_def)

lemma apart_no_views:
  "views_of True live (view_bid v) = 0 \<Longrightarrow> x \<in> set live \<Longrightarrow> apart (True, v) x \<and> apart x (True, v)"
  using no_views_of [of True live "view_bid v" "snd x"] by (cases x) (auto simp: apart_def)

text \<open>Transport of the invariant along the effect of an operation on one slot.\<close>

lemma counts_ok_effect:
  assumes "counts_ok P live" "pools_effect P P' bid b"
    and "\<And>e c. c \<noteq> bid \<Longrightarrow> views_of e live' c = views_of e live c"
    and "b = int (views_of False live' bid) - int (views_of True live' bid)"
    and "views_of False live' bid = 0 \<or> views_of True live' bid = 0"
  shows "counts_ok P' live'"
  using assms by (auto simp: counts_ok_def pools_effect_def)

lemma view_fits_effect: "pools_effect P P' bid b \<Longrightarrow> view_fits g P' v = view_fits g P v"
  by (simp add: pools_effect_def view_fits_def)

lemma view_invI:
  assumes "th_running th" "th_pools th = Some P" "pools_effect P P' bid b"
    and "th' = th\<lparr>th_pools := Some P'\<rparr>"
    and "\<forall>x \<in> set live'. view_fits (th_active_gen th) P (snd x)"
    and "counts_ok P' live'" and "sorted_wrt apart live'"
  shows "view_inv (th', live')"
  using assms view_fits_effect [OF assms(3)] by (auto simp: view_inv_def pools_effect_def)

lemma view_invD:
  assumes "view_inv (th, live)"
  obtains P where "th_running th" "th_pools th = Some P" "pools_wf P"
    "\<forall>x \<in> set live. view_fits (th_active_gen th) P (snd x)" "counts_ok P live" "sorted_wrt apart live"
    "\<forall>x \<in> set live. active_gen_matches th (rf_generation (sl_base (snd x)))"
  using assms
  by (auto simp: view_inv_def active_gen_matches_def active_gen_def view_fits_def)

lemma view_inv_fresh:
  assumes "view_inv (th, live)" "th_pools th = Some P" "th' = th\<lparr>th_pools := Some P'\<rparr>"
    and fresh: "fresh_view th P P' e v"
  shows "view_inv (th', (e, v) # live)"
proof -
  obtain inv: "th_running th" "pools_wf P"
    "\<forall>x \<in> set live. view_fits (th_active_gen th) P (snd x)" "counts_ok P live" "sorted_wrt apart live"
    using view_invD [OF assms(1)] assms(2) by auto
  have eff: "pools_effect P P' (view_bid v) (if e then -1 else 1)"
    using fresh by (simp add: fresh_view_def view_bid_def)
  then have ok: "bid_ok P (view_bid v)" by (simp add: pools_effect_def)
  have z: "views_of False live (view_bid v) = 0 \<and> views_of True live (view_bid v) = 0"
    using inv(4) ok fresh by (auto simp: counts_ok_def fresh_view_def view_bid_def)
  have "counts_ok P' ((e, v) # live)"
    using z by (intro counts_ok_effect [OF inv(4) eff]) auto
  moreover have "sorted_wrt apart ((e, v) # live)"
    using inv(5) z apart_no_views [of live v] by (cases e) auto
  moreover have "view_fits (th_active_gen th) P v"
    using fresh ok by (simp add: fresh_view_def view_fits_def view_bid_def)
  ultimately show ?thesis
    using view_invI [OF inv(1) assms(2) eff assms(3)] inv(3) by auto
qed

text \<open>What the discipline says of the counts in each allowed transition.\<close>

lemma discipline_counts:
  "discipline CloneShared (slot_abs b) = Some s \<Longrightarrow> 0 < b"
  "discipline SplitExclusive (slot_abs b) = Some s \<Longrightarrow> b < 0"
  "discipline Upgrade (slot_abs b) = Some s \<Longrightarrow> b = 1"
  "discipline Downgrade (slot_abs b) = Some s \<Longrightarrow> b = -1"
  by (auto simp: slot_abs_def split: if_splits)

lemma view_inv_sub:
  assumes "view_inv (th, live)" "(False, v) \<in> set live" "bytes_sub th v a b = Some (th', Some w)"
  shows "view_inv (th', (False, w) # live)"
proof -
  obtain P where inv: "th_running th" "th_pools th = Some P" "pools_wf P"
    "\<forall>x \<in> set live. view_fits (th_active_gen th) P (snd x)" "counts_ok P live" "sorted_wrt apart live"
    "\<forall>x \<in> set live. active_gen_matches th (rf_generation (sl_base (snd x)))"
    by (rule view_invD [OF assms(1)])
  have g: "active_gen_matches th (rf_generation (sl_base v))" using inv(7) assms(2) by force
  have ab: "a \<le> b" "b \<le> sl_len v" and op: "tracker_view_op CloneShared th (view_bid v) = Some th'"
    and w: "w = slice_new (ref_new (view_bid v) (rf_generation (sl_base v)) (rf_offset (sl_base v) + a)) (b - a)"
    using assms(3) g
    by (auto simp: bytes_sub_def clone_view_def view_bid_def Let_def bind_eq_Some_conv split: if_splits)
  obtain P' where P': "th' = th\<lparr>th_pools := Some P'\<rparr>"
    "pools_effect P P' (view_bid v) (borrow_at P (view_bid v) + 1)" and pos: "0 < borrow_at P (view_bid v)"
    using tracker_view_op_effect [OF op inv(2,3)] discipline_counts(1) by fastforce
  have ok: "bid_ok P (view_bid v)" using P'(2) by (simp add: pools_effect_def)
  have wb: "view_bid w = view_bid v" by (simp add: w view_bid_def slice_new_def ref_new_def)
  have "view_fits (th_active_gen th) P v" using inv(4) assms(2) by force
  then have fits: "view_fits (th_active_gen th) P w"
    using ab wb by (auto simp: view_fits_def w slice_new_def ref_new_def)
  have "counts_ok P' ((False, w) # live)"
    by (rule counts_ok_effect [OF inv(5) P'(2)])
      (use inv(5) ok pos wb in \<open>auto simp: counts_ok_def\<close>)
  then show ?thesis
    using view_invI [OF inv(1,2) P'(2,1)] inv(4,6) fits by auto
qed

text \<open>Converting the only view of a slot between shared and exclusive.\<close>

lemma view_inv_convert:
  assumes "view_inv (th, xs @ (e, v) # ys)"
    and op: "tracker_view_op (if e then Downgrade else Upgrade) th (view_bid v) = Some th'"
    and wb: "view_bid w = view_bid v"
    and w: "\<And>P. view_fits (th_active_gen th) P w = view_fits (th_active_gen th) P v"
  shows "view_inv (th', xs @ (\<not> e, w) # ys)"
proof -
  let ?live = "xs @ (e, v) # ys"
  obtain P where inv: "th_running th" "th_pools th = Some P" "pools_wf P"
    "\<forall>x \<in> set ?live. view_fits (th_active_gen th) P (snd x)" "counts_ok P ?live" "sorted_wrt apart ?live"
    by (rule view_invD [OF assms(1)])
  obtain P' where P': "th' = th\<lparr>th_pools := Some P'\<rparr>" "pools_effect P P' (view_bid v) (if e then 1 else -1)"
    and one: "borrow_at P (view_bid v) = (if e then -1 else 1)"
    using tracker_view_op_effect [OF op inv(2,3)] discipline_counts(3,4) by (cases e) fastforce+
  have ok: "bid_ok P (view_bid v)" using P'(2) by (simp add: pools_effect_def)
  have z: "views_of False (xs @ ys) (view_bid v) = 0" "views_of True (xs @ ys) (view_bid v) = 0"
    using inv(5) ok one by (auto simp: counts_ok_def split: if_splits)
  have "counts_ok P' (xs @ (\<not> e, w) # ys)"
    using z wb by (intro counts_ok_effect [OF inv(5) P'(2)]) auto
  moreover have "sorted_wrt apart (xs @ (\<not> e, w) # ys)"
    using inv(6) apart_no_views [of "xs @ ys" w] z wb by (cases e) (auto simp: sorted_wrt_append)
  ultimately show ?thesis using view_invI [OF inv(1,2) P'(2,1)] inv(4) w by auto
qed

lemma apart_sub_range:
  "apart (True, v) x \<Longrightarrow> view_bid w = view_bid v \<Longrightarrow> view_range w \<subseteq> view_range v \<Longrightarrow> apart (True, w) x"
  by (auto simp: apart_def)

lemma apart_sym: "apart x y = apart y x"
  by (auto simp: apart_def)

lemma view_inv_split:
  assumes "view_inv (th, xs @ (True, v) # ys)"
    and split: "bytes_mut_split_at th v mid = Some (th', Some (h, t))"
  shows "view_inv (th', xs @ (True, h) # (True, t) # ys)"
proof -
  let ?live = "xs @ (True, v) # ys" and ?live' = "xs @ (True, h) # (True, t) # ys"
  obtain P where inv: "th_running th" "th_pools th = Some P" "pools_wf P"
    "\<forall>x \<in> set ?live. view_fits (th_active_gen th) P (snd x)" "counts_ok P ?live" "sorted_wrt apart ?live"
    "\<forall>x \<in> set ?live. active_gen_matches th (rf_generation (sl_base (snd x)))"
    by (rule view_invD [OF assms(1)])
  have mid: "mid \<le> sl_len v" and op: "tracker_view_op SplitExclusive th (view_bid v) = Some th'"
    and h: "h = slice_new \<lparr>rf_bid = rf_bid (sl_base v), rf_generation = rf_generation (sl_base v),
              rf_offset = rf_offset (sl_base v)\<rparr> mid"
    and t: "t = slice_new \<lparr>rf_bid = rf_bid (sl_base v), rf_generation = rf_generation (sl_base v),
              rf_offset = rf_offset (sl_base v) + mid\<rparr> (sl_len v - mid)"
    using split inv(7)
    by (auto simp: bytes_mut_split_at_def split_exclusive_view_def view_bid_def Let_def ref_new_def
        bind_eq_Some_conv split: if_splits)
  obtain P' where P': "th' = th\<lparr>th_pools := Some P'\<rparr>"
    "pools_effect P P' (view_bid v) (borrow_at P (view_bid v) - 1)" and neg: "borrow_at P (view_bid v) < 0"
    using tracker_view_op_effect [OF op inv(2,3)] discipline_counts(2) by fastforce
  have ok: "bid_ok P (view_bid v)" using P'(2) by (simp add: pools_effect_def)
  have bids: "view_bid h = view_bid v" "view_bid t = view_bid v"
    by (simp_all add: h t view_bid_def slice_new_def)
  have ranges: "view_range h \<subseteq> view_range v" "view_range t \<subseteq> view_range v" "view_range h \<inter> view_range t = {}"
    using mid by (auto simp: h t view_range_def slice_new_def)
  have fits: "view_fits (th_active_gen th) P h" "view_fits (th_active_gen th) P t"
    using inv(4) mid bids by (auto simp: view_fits_def h t slice_new_def)
  have "counts_ok P' ?live'"
    by (rule counts_ok_effect [OF inv(5) P'(2)]) (use inv(5) ok neg bids in \<open>auto simp: counts_ok_def\<close>)
  moreover have "sorted_wrt apart ?live'"
  proof -
    have "apart (True, h) (True, t)" using ranges(3) by (simp add: apart_def)
    moreover have "\<forall>x \<in> set xs \<union> set ys. apart (True, v) x"
      using inv(6) by (auto simp: sorted_wrt_append dest: apart_sym [THEN iffD1])
    then have "\<forall>x \<in> set xs \<union> set ys. apart (True, h) x \<and> apart (True, t) x \<and>
        apart x (True, h) \<and> apart x (True, t)"
      using apart_sub_range bids ranges apart_sym by metis
    ultimately show ?thesis using inv(6) by (auto simp: sorted_wrt_append)
  qed
  ultimately show ?thesis using view_invI [OF inv(1,2) P'(2,1)] inv(4) fits by auto
qed

lemma view_inv_clear:
  assumes "view_inv (th, xs @ (True, v) # ys)"
  shows "view_inv (th, xs @ (True, bytes_mut_clear v) # ys)"
proof -
  let ?w = "bytes_mut_clear v"
  have b: "view_bid ?w = view_bid v" by (simp add: view_bid_def bytes_mut_clear_def)
  have "apart (True, ?w) x \<and> apart x (True, ?w)" for x
    by (simp add: apart_def view_range_def bytes_mut_clear_def)
  then have "sorted_wrt apart (xs @ (True, ?w) # ys)" if "sorted_wrt apart (xs @ (True, v) # ys)"
    using that by (auto simp: sorted_wrt_append)
  moreover have "view_fits g P v \<Longrightarrow> view_fits g P ?w" for g P
    using b by (auto simp: view_fits_def bytes_mut_clear_def)
  moreover have "counts_ok P (xs @ (True, ?w) # ys) = counts_ok P (xs @ (True, v) # ys)" for P
    using b by (simp add: counts_ok_def)
  ultimately show ?thesis using assms by (auto simp: view_inv_def)
qed

lemma view_inv_drop:
  assumes "view_inv (th, xs @ (e, v) # ys)" and drop: "slice_drop th e v = Some th'"
  shows "view_inv (th', xs @ ys)"
proof -
  let ?live = "xs @ (e, v) # ys"
  obtain P where inv: "th_running th" "th_pools th = Some P" "pools_wf P"
    "\<forall>x \<in> set ?live. view_fits (th_active_gen th) P (snd x)" "counts_ok P ?live" "sorted_wrt apart ?live"
    "\<forall>x \<in> set ?live. active_gen_matches th (rf_generation (sl_base (snd x)))"
    by (rule view_invD [OF assms(1)])
  have d: "drop_view th (view_bid v) (rf_generation (sl_base v)) e = Some th'"
    using drop by (cases e) (auto simp: slice_drop_def ref_drop_def ref_mut_drop_def view_bid_def)
  have g: "active_gen_matches th (rf_generation (sl_base v))" using inv(7) by simp
  obtain P' where P': "th' = th\<lparr>th_pools := Some P'\<rparr>"
    "pools_effect P P' (view_bid v) (new_borrow (drop_op e) (borrow_at P (view_bid v)))"
    using drop_view_effect [OF d g inv(2,3)] by blast
  have ok: "bid_ok P (view_bid v)" using P'(2) by (simp add: pools_effect_def)
  have "counts_ok P' (xs @ ys)"
    by (rule counts_ok_effect [OF inv(5) P'(2)])
      (use inv(5) ok in \<open>cases e; auto simp: counts_ok_def\<close>)+
  moreover have "sorted_wrt apart (xs @ ys)" using inv(6) by (auto simp: sorted_wrt_append)
  ultimately show ?thesis using view_invI [OF inv(1,2) P'(2,1)] inv(4) by auto
qed

lemma bytes_into_mut_Some:
  assumes "bytes_into_mut th v = Some (th', w)"
  shows "tracker_view_op Upgrade th (view_bid v) = Some th' \<and> view_bid w = view_bid v \<and>
         (\<forall>g P. view_fits g P w = view_fits g P v)"
  using assms
  by (auto simp: bytes_into_mut_def ref_into_mut_def upgrade_view_def slice_into_ref_def view_bid_def
      view_fits_def slice_new_def ref_new_def bind_eq_Some_conv)

lemma bytes_mut_into_bytes_Some:
  assumes "bytes_mut_into_bytes th v = Some (th', w)"
  shows "tracker_view_op Downgrade th (view_bid v) = Some th' \<and> view_bid w = view_bid v \<and>
         (\<forall>g P. view_fits g P w = view_fits g P v)"
  using assms
  by (auto simp: bytes_mut_into_bytes_def ref_mut_into_ref_def downgrade_view_def view_bid_def
      view_fits_def slice_new_def ref_new_def bind_eq_Some_conv)

lemma view_step_inv: "view_step s s' \<Longrightarrow> view_inv s \<Longrightarrow> view_inv s'"
proof (induction rule: view_step.induct)
  case (Alloc sz th th' v live)
  obtain P where P: "th_pools th = Some P" "pools_wf P" by (rule view_invD [OF Alloc.prems])
  from alloc_bytes_effect [OF Alloc.hyps P] show ?case
    using view_inv_fresh [OF Alloc.prems P(1)] by blast
next
  case (Provide cls slot len th th' v live)
  obtain P where P: "th_pools th = Some P" "pools_wf P" by (rule view_invD [OF Provide.prems])
  from provided_bytes_effect [OF Provide.hyps P] show ?case
    using view_inv_fresh [OF Provide.prems P(1)] by blast
next
  case (Sub v live th a b th' w)
  show ?case by (rule view_inv_sub [OF Sub.prems Sub.hyps])
next
  case (IntoMut th v th' w xs ys)
  from bytes_into_mut_Some [OF this(1)] show ?case
    using view_inv_convert [OF IntoMut.prems, of th' w] unfolding if_False not_False_eq_True by blast
next
  case (IntoBytes th v th' w xs ys)
  from bytes_mut_into_bytes_Some [OF this(1)] show ?case
    using view_inv_convert [OF IntoBytes.prems, of th' w] unfolding if_True not_True_eq_False by blast
next
  case (Split th v mid th' h t xs ys)
  show ?case by (rule view_inv_split [OF Split.prems Split.hyps])
next
  case (SplitNone th v mid th' xs ys)
  have "slice_drop th True v = Some th'"
    using SplitNone.hyps
    by (auto simp: bytes_mut_split_at_def slice_drop_def Let_def bind_eq_Some_conv split: if_splits)
  then show ?case by (rule view_inv_drop [OF SplitNone.prems])
next
  case (IntoVec mem th v th' data xs ys)
  have "slice_drop th False v = Some th'"
    using IntoVec.hyps by (auto simp: bytes_into_vec_def slice_drop_def ref_drop_def bind_eq_Some_conv)
  then show ?case by (rule view_inv_drop [OF IntoVec.prems])
next
  case (Clear th xs v ys)
  then show ?case by (rule view_inv_clear)
next
  case (Drop th e v th' xs ys)
  show ?case by (rule view_inv_drop [OF Drop.prems Drop.hyps])
qed


section \<open>Pools built by the runtime\<close>

lemma build_slabs_nth:
  "build_slabs mk i ls = Some ss \<Longrightarrow>
   length ss = length ls \<and> (\<forall>k < length ls. mk (i + k) (ls ! k) = Some (ss ! k))"
proof (induction ls arbitrary: i ss)
  case Nil
  then show ?case by simp
next
  case (Cons l ls)
  then obtain s rest where *: "mk i l = Some s" "build_slabs mk (i + 1) ls = Some rest" "ss = s # rest"
    by (auto simp: bind_eq_Some_conv)
  from Cons.IH [OF this(2)] * show ?case by (auto simp: nth_Cons split: nat.splits)
qed

lemma layout_classes_bounds:
  assumes "layout_classes cs p = Some ls"
  shows "length ls \<le> 128" and "l \<in> set ls \<Longrightarrow> cl_count l \<le> 0xFFFFFF"
proof -
  have loop: "layout_loop p 0 (sort_key sc_size cs) = Some ls" and "length cs \<le> 128"
    using assms by (auto simp: layout_classes_Some)
  note ok = layout_loop_ok [OF loop]
  from ok have "length ls = length (sort_key sc_size cs)" by (metis length_map)
  then show "length ls \<le> 128" using \<open>length cs \<le> 128\<close> by simp
  show "l \<in> set ls \<Longrightarrow> cl_count l \<le> 0xFFFFFF" using ok by (simp add: class_ok_def)
qed

lemma slab_new_fields:
  "provided_slab_new base cnt sz cls = Some p \<Longrightarrow> ps_class p = cls \<and> ps_tracker p = tracker_new cnt"
  "fixed_slab_new base sz cnt cls = Some f \<Longrightarrow> fs_class f = cls \<and> fs_tracker f = tracker_new cnt"
  by (auto simp: provided_slab_new_def fixed_slab_new_def Let_def bind_eq_Some_conv)

lemma build_pools_views:
  assumes "build_pools allocate register_ring register_slab provided_spec fixed_spec = Some P"
  shows "pools_wf P" and "bid_ok P bid \<Longrightarrow> borrow_at P bid = 0"
proof -
  obtain pl fl base start ps fs where
    pl: "layout_classes provided_spec True = Some pl" and fl: "layout_classes fixed_spec False = Some fl"
    and ps: "build_slabs (\<lambda>i l. provided_slab_new (base + cl_base_offset l)
                         (cl_count l mod 2 ^ 16) (cl_size l) (word_of_nat i)) 0 pl = Some ps"
    and fs: "build_slabs (\<lambda>i l. fixed_slab_new (base + (start + cl_base_offset l))
                         (cl_size l) (cl_count l) (word_of_nat i)) 0 fl = Some fs"
    and P: "pl_slabs (pp_provided P) = ps" "pl_slabs (pp_fixed P) = fs"
    using assms by (auto simp: build_pools_def pool_new_def Let_def bind_eq_Some_conv)
  note bp = build_slabs_nth [OF ps] and bf = build_slabs_nth [OF fs]
  have p: "ps_class (ps ! i) = word_of_nat i \<and> ps_tracker (ps ! i) = tracker_new (cl_count (pl ! i) mod 2 ^ 16)"
    if "i < length ps" for i
    using bp that slab_new_fields(1) by fastforce
  have f: "fs_class (fs ! i) = word_of_nat i \<and> fs_tracker (fs ! i) = tracker_new (cl_count (fl ! i))"
    if "i < length fs" for i
    using bf that slab_new_fields(2) by fastforce
  have cf: "cl_count (fl ! i) \<le> 2 ^ 24" if "i < length fs" for i
    using layout_classes_bounds(2) [OF fl, of "fl ! i"] bf that by simp
  have cp: "cl_count (pl ! i) mod 2 ^ 16 \<le> 2 ^ 24" for i
    using mod_less_divisor [of "2 ^ 16" "cl_count (pl ! i)"] by simp
  show "pools_wf P"
    using layout_classes_bounds(1) [OF pl] layout_classes_bounds(1) [OF fl] bp bf P p f cf cp
    by (simp add: pools_wf_def)
  show "borrow_at P bid = 0" if "bid_ok P bid"
    using that P p f by (auto simp: bid_ok_def borrow_at_def bid_slab_def idx_in_range split: if_splits)
qed

lemma view_inv_start:
  assumes "build_pools allocate register_ring register_slab provided_spec fixed_spec = Some P"
    and "enter_active_gen th0 = Some th"
  shows "view_inv (set_current_pools P th, [])"
  using build_pools_views [OF assms(1)] assms(2)
  by (auto simp: view_inv_def set_current_pools_def enter_active_gen_def counts_ok_def bind_eq_Some_conv)

section \<open>Properties\<close>


lemma sample_alloc:
  "\<exists>P th' v. build_pools (\<lambda>_ _. Some 0) (\<lambda>_. True) (\<lambda>_ _. True)
       [\<lparr>sc_size = 64, sc_count = 2\<rparr>] [\<lparr>sc_size = 64, sc_count = 2\<rparr>] = Some P \<and>
     alloc_bytes 10 (set_current_pools P \<lparr>th_running = True, th_active_gen = 2, th_pools = None\<rparr>) = Some (th', Inr v) \<and>
     sl_len v = 64"
  by (simp add: build_pools_def layout_classes_def layout_class_def is_power_of_two.simps div_ceil_def
      build_align_def BUFFER_MAX_ALIGN_def BID_LOCAL_MASK_def provided_slab_new_def fixed_slab_new_def
      pool_new_def class_of_layout_def panic_simps Let_def set_current_pools_def alloc_bytes_def
      with_pools_def pool_class_for_def class_for_def pool_acquire_bytes_mut_def pool_slab_mut_def idx_def
      acquire_bytes_mut_def acquire_slice_mut_def acquire_slot_def fixed_acquire_def upt_rec
      take_exclusive_def tracker_new_def build_slice_def build_ref_def debug_assert_slot_aligned_def
      active_gen_def slice_new_def)

lemma sample_start:
  "enter_active_gen \<lparr>th_running = False, th_active_gen = 1, th_pools = None\<rparr>
     = Some \<lparr>th_running = True, th_active_gen = 2, th_pools = None\<rparr>"
  by (simp add: enter_active_gen_def panic_simps)


text \<open>
  \<^verbatim>\<open>BytesMut::set_len\<close> breaks the exclusivity that \<^verbatim>\<open>split_at\<close> establishes: it bounds the new
  length by the end of the slot, not by the end of the view, so after any split of a live
  exclusive view at a point inside it, growing the head back to the old length succeeds and yields
  an exclusive view that overlaps the live tail.
\<close>

theorem set_len_after_split_overlaps:
  assumes "view_inv (th, xs @ (True, v) # ys)"
    and "bytes_mut_split_at th v mid = Some (th', Some (h, t))" and "mid < sl_len v"
  shows "\<exists>h'. bytes_mut_set_len th' h (sl_len v) = Some h' \<and> view_bid h' = view_bid t \<and>
              view_range h' \<inter> view_range t \<noteq> {}"
proof -
  let ?b = "sl_base v"
  have g: "active_gen_matches th (rf_generation ?b)" using view_invD [OF assms(1)] by force
  then have h: "h = slice_new (ref_new (rf_bid ?b) (rf_generation ?b) (rf_offset ?b)) mid"
    and t: "t = slice_new (ref_new (rf_bid ?b) (rf_generation ?b) (rf_offset ?b + mid)) (sl_len v - mid)"
    using assms(2)
    by (auto simp: bytes_mut_split_at_def Let_def bind_eq_Some_conv split: if_splits)
  obtain P where P: "th_running th'" "th_pools th' = Some P" "active_gen_matches th' (rf_generation ?b)"
    "view_fits (th_active_gen th') P t"
    using view_invD [OF view_inv_split [OF assms(1,2)]] t by (force simp: slice_new_def ref_new_def)
  obtain s where s: "bid_slab P (rf_bid ?b) = Some s"
    and fit: "rf_offset ?b + mid + (sl_len v - mid) \<le> dyn_slot_size s"
    using P(4) t by (auto simp: view_fits_def view_bid_def bid_ok_def size_at_def slice_new_def ref_new_def)
  have "bytes_mut_capacity th' h = Some (dyn_slot_size s - rf_offset ?b)"
    using P s fit h by (simp add: bytes_mut_capacity_def with_runtime_capacity_def with_pools_def
        with_slab_def slice_new_def ref_new_def checked_sub_def panic_simps)
  then have "bytes_mut_set_len th' h (sl_len v) = Some (h\<lparr>sl_len := sl_len v\<rparr>)"
    using fit assms(3) by (auto simp: bytes_mut_set_len_def panic_simps)
  moreover have "rf_offset ?b + mid \<in> view_range (h\<lparr>sl_len := sl_len v\<rparr>) \<inter> view_range t"
    using assms(3) h t by (auto simp: view_range_def slice_new_def ref_new_def)
  ultimately show ?thesis
    using h t by (intro exI [of _ "h\<lparr>sl_len := sl_len v\<rparr>"]) (auto simp: view_bid_def slice_new_def ref_new_def)
qed

lemma split_succeeds:
  assumes "view_inv (th, [(True, v)])" "mid \<le> sl_len v"
  shows "\<exists>th' h t. bytes_mut_split_at th v mid = Some (th', Some (h, t))"
proof -
  obtain P where inv: "th_running th" "th_pools th = Some P" "counts_ok P [(True, v)]"
    "view_fits (th_active_gen th) P v" "active_gen_matches th (rf_generation (sl_base v))"
    using view_invD [OF assms(1)] by force
  obtain s where s: "bid_slab P (view_bid v) = Some s" "unat (bid_local (view_bid v)) < slots (dyn_tracker s)"
    using inv(4) by (auto simp: view_fits_def bid_ok_def)
  have "borrow_at P (view_bid v) = -1"
    using inv(3,4) by (auto simp: counts_ok_def view_fits_def)
  then have "borrow_of (dyn_tracker s) (unat (bid_local (view_bid v))) = -1"
    using s by (simp add: borrow_at_def)
  then have "split_exclusive (dyn_tracker s) (unat (bid_local (view_bid v))) \<noteq> None"
    using s(2) by (simp add: split_exclusive_def panic_simps)
  then show ?thesis
    using inv s(1) assms(2) by (auto simp: bytes_mut_split_at_def split_exclusive_view_def
        tracker_view_op_def with_pools_def with_slab_def view_bid_def panic_simps Let_def)
qed

theorem set_len_after_split_overlaps_witness:
  "\<exists>th h t h'. bytes_mut_set_len th h 64 = Some h' \<and> view_range h' \<inter> view_range t \<noteq> {}"
proof -
  obtain P th' v where P: "build_pools (\<lambda>_ _. Some 0) (\<lambda>_. True) (\<lambda>_ _. True)
       [\<lparr>sc_size = 64, sc_count = 2\<rparr>] [\<lparr>sc_size = 64, sc_count = 2\<rparr>] = Some P"
    and v: "alloc_bytes 10 (set_current_pools P \<lparr>th_running = True, th_active_gen = 2, th_pools = None\<rparr>)
       = Some (th', Inr v)" "sl_len v = 64"
    using sample_alloc by blast
  have inv: "view_inv (th', [(True, v)])"
    by (rule view_step_inv [OF view_step.Alloc [OF v(1)] view_inv_start [OF P sample_start]])
  obtain th'' h t where sp: "bytes_mut_split_at th' v 8 = Some (th'', Some (h, t))"
    using split_succeeds [OF inv, of 8] v(2) by auto
  have "8 < sl_len v" "view_inv (th', [] @ (True, v) # [])" using v(2) inv by simp_all
  from set_len_after_split_overlaps [OF this(2) sp this(1)] show ?thesis
    unfolding v(2) by blast
qed

text \<open>
  The destructor \<^verbatim>\<open>cast\<close> runs on the base: the slot is released, and the slice it returns names it.
\<close>

lemma slice_cast_drops:
  assumes "slice_cast th e t u v = Some (th', w)"
  shows "slice_drop th e v = Some th'" "view_bid w = view_bid v"
  using assms
  by (auto simp: slice_cast_def slice_drop_def panic_simps Let_def bind_eq_Some_conv view_bid_def
      slice_new_def ref_new_def split: if_splits)

lemma counted_view_unique:
  assumes "view_inv (th, xs @ ys)" "view_inv (th, xs @ (e, v) # ys)"
  shows False
proof -
  obtain P where P: "th_pools th = Some P" "counts_ok P (xs @ ys)"
    using assms(1) by (rule view_invD)
  obtain Q where Q: "th_pools th = Some Q" "counts_ok Q (xs @ (e, v) # ys)"
    "view_fits (th_active_gen th) Q v"
    using view_invD [OF assms(2)] by (metis in_set_conv_decomp snd_conv)
  have "bid_ok P (view_bid v)" using P(1) Q(1,3) by (simp add: view_fits_def)
  then show False
    using P Q(1,2) by (cases e) (fastforce simp: counts_ok_def)+
qed

text \<open>Releasing the slot just acquired puts back exactly what the acquisition took.\<close>

lemma list_update_same: "xs ! i = x \<Longrightarrow> xs[i := x] = xs"
  by auto

lemma fixed_release_acquired:
  assumes "take_exclusive (fs_tracker s) (last (fs_free s)) = Some t" "fs_free s \<noteq> []"
  shows "fixed_drop_view (s\<lparr>fs_free := butlast (fs_free s), fs_tracker := t\<rparr>) True (last (fs_free s)) = Some s"
  using assms
  by (auto simp: fixed_drop_view_def slab_drop_view_def tracker_drop_view_def take_exclusive_def
      fixed_recycle_def fixed_set_tracker_def set_borrow_def idx_def panic_simps list_update_same
      split: if_splits)

lemma drop_alloc:
  assumes ret: "alloc_bytes sz th = Some (th1, Inr v)" and P: "th_pools th = Some P" and wf: "pools_wf P"
  shows "slice_drop th1 True v = Some th"
proof -
  let ?ss = "pl_slabs (pp_fixed P)"
  obtain cls s' where cls: "cls < length ?ss"
    and acq: "acquire_bytes_mut (active_gen th) (?ss ! cls) = Some (s', Some v)"
    and th1: "th1 = th\<lparr>th_pools := Some (P\<lparr>pp_fixed := (pp_fixed P)\<lparr>pl_slabs := ?ss[cls := s']\<rparr>\<rparr>)\<rparr>"
    and run: "th_running th"
    using ret P
    by (auto simp: alloc_bytes_def with_pools_def pool_acquire_bytes_mut_def pool_slab_mut_def
        bind_eq_Some_conv split: option.splits)
  let ?s = "?ss ! cls"
  obtain t g where t: "take_exclusive (fs_tracker ?s) (last (fs_free ?s)) = Some t"
    and s': "s' = ?s\<lparr>fs_free := butlast (fs_free ?s), fs_tracker := t\<rparr>" and g: "active_gen th = Some g"
    and v: "v = slice_new (ref_new (pack_bid False (fs_class ?s) (word_of_nat (last (fs_free ?s)))) g 0) (fs_size ?s)"
    using acquire_bytes_mut_Some [OF acq] by blast
  have ne: "fs_free ?s \<noteq> []"
    using acq by (auto simp: acquire_bytes_mut_def acquire_slice_mut_def acquire_slot_def fixed_acquire_def
        build_slice_def build_ref_def bind_eq_Some_conv split: if_splits)
  have "tracker_op TakeExclusive (fs_tracker ?s) (last (fs_free ?s)) = Some t" using t by simp
  note fr = tracker_op_frame [OF this]
  have range: "cls < 128" "last (fs_free ?s) < 2 ^ 24" and cidx: "fs_class ?s = word_of_nat cls"
    using wf cls fr by (auto simp: pools_wf_def)
  note ix = pack_bid_index [OF range, of False]
  let ?bid = "pack_bid False (word_of_nat cls) (word_of_nat (last (fs_free ?s)))"
  let ?P1 = "P\<lparr>pp_fixed := (pp_fixed P)\<lparr>pl_slabs := ?ss[cls := s']\<rparr>\<rparr>"
  have slab: "bid_slab ?P1 ?bid = Some (Fixed s')" using ix cls by (simp add: bid_slab_def idx_def)
  have stored: "store_slab ?P1 ?bid (Fixed ?s) = P" using ix cls by simp
  have "active_gen_matches th1 g" using g th1 run by (simp add: active_gen_matches_def active_gen_def)
  then show ?thesis
    using th1 P run v cidx slab stored fixed_release_acquired [OF t ne] s' ix
    by (simp add: slice_drop_def ref_mut_drop_def drop_view_def with_pools_def with_slab_def
        slice_new_def ref_new_def panic_simps)
qed

text \<open>
  C39. Casting a pooled slice releases the slot it still names. The cast of an exclusive slice that
  was just allocated puts the thread back to the state before the allocation, so the next
  allocation of that size returns the very same slot while the result of the cast is live: two
  exclusive views of one slot, and a state that no sequence of the other operations reaches.
\<close>

theorem cast_hands_slot_out_twice:
  assumes "view_inv (th, live)" and "alloc_bytes sz th = Some (th1, Inr v)"
    and "slice_cast th1 True t u v = Some (th2, w)"
  shows "view_bid w = view_bid v \<and> alloc_bytes sz th2 = Some (th1, Inr v) \<and>
    view_inv (th2, live) \<and> \<not> view_inv (th2, (True, w) # live) \<and>
    \<not> view_inv (th1, (True, v) # (True, w) # live)"
proof -
  obtain P where P: "th_pools th = Some P" "pools_wf P" using assms(1) by (rule view_invD)
  have th2: "th2 = th"
    using slice_cast_drops(1) [OF assms(3)] drop_alloc [OF assms(2) P] by simp
  have inv1: "view_inv (th1, (True, v) # live)"
    by (rule view_step_inv [OF view_step.Alloc [OF assms(2)] assms(1)])
  have "\<not> view_inv (th2, (True, w) # live)"
    using counted_view_unique [of th2 "[]" live True w] assms(1) th2 by auto
  moreover have "\<not> view_inv (th1, (True, v) # (True, w) # live)"
    using counted_view_unique [of th1 "[(True, v)]" live True w] inv1 by auto
  ultimately show ?thesis
    using slice_cast_drops(2) [OF assms(3)] assms(1,2) th2 by simp
qed

theorem cast_hands_slot_out_twice_witness:
  "\<exists>th th1 th2 v w. alloc_bytes 10 th = Some (th1, Inr v) \<and> slice_cast th1 True (1, 1) (8, 1) v = Some (th2, w) \<and>
     sl_len w = 8 \<and> view_bid w = view_bid v \<and> alloc_bytes 10 th2 = Some (th1, Inr v)"
proof -
  obtain P th1 v where P: "build_pools (\<lambda>_ _. Some 0) (\<lambda>_. True) (\<lambda>_ _. True)
       [\<lparr>sc_size = 64, sc_count = 2\<rparr>] [\<lparr>sc_size = 64, sc_count = 2\<rparr>] = Some P"
    and v: "alloc_bytes 10 (set_current_pools P \<lparr>th_running = True, th_active_gen = 2, th_pools = None\<rparr>)
       = Some (th1, Inr v)" "sl_len v = 64"
    using sample_alloc by blast
  let ?th = "set_current_pools P \<lparr>th_running = True, th_active_gen = 2, th_pools = None\<rparr>"
  note inv = view_inv_start [OF P sample_start]
  then obtain Q where Q: "th_pools ?th = Some Q" "pools_wf Q" by (rule view_invD)
  define w where "w = slice_new (ref_new (rf_bid (sl_base v)) (rf_generation (sl_base v)) (rf_offset (sl_base v))) 8"
  have w: "slice_cast th1 True (1, 1) (8, 1) v = Some (?th, w)"
    using drop_alloc [OF v(1) Q] v(2)
    by (simp add: slice_cast_def slice_drop_def panic_simps Let_def w_def)
  have "sl_len w = 8" by (simp add: w_def slice_new_def)
  then show ?thesis
    using cast_hands_slot_out_twice [OF inv v(1) w] v(1) w by blast
qed

text \<open>
  A view that outlives its runtime is inert: once the generation has moved on, dropping or
  cloning it leaves the thread state unchanged, and resolving it, upgrading, downgrading or asking
  its capacity panics, so no stale view can touch a slot of a later runtime.
\<close>

theorem stale_view_inert:
  assumes "active_gen th \<noteq> Some (rf_generation (sl_base v))"
  shows "slice_drop th e v = Some th \<and>
    ref_clone th (sl_base v) = Some (th, sl_base v) \<and>
    slice_as_ptr th v = None \<and> bytes_into_mut th v = None \<and> bytes_mut_into_bytes th v = None \<and>
    bytes_mut_set_len th v n = None"
  using assms
  by (simp add: slice_drop_def ref_drop_def ref_mut_drop_def drop_view_def ref_clone_def clone_view_def
      slice_as_ptr_def ref_as_ptr_def resolve_ptr_def bytes_into_mut_def ref_into_mut_def slice_into_ref_def
      upgrade_view_def bytes_mut_into_bytes_def ref_mut_into_ref_def downgrade_view_def ref_new_def
      bytes_mut_set_len_def bytes_mut_capacity_def with_runtime_capacity_def active_gen_matches_def
      panic_simps)

theorem stale_view_inert_witness:
  "slice_as_ptr \<lparr>th_running = True, th_active_gen = 3, th_pools = None\<rparr>
     (slice_new (ref_new 0 2 0) 4) = None"
  using stale_view_inert [of "\<lparr>th_running = True, th_active_gen = 3, th_pools = None\<rparr>"
      "slice_new (ref_new 0 2 0) 4"]
  by (simp add: active_gen_def slice_new_def ref_new_def)

end
