(* ===== verification/Coio_Runtime.thy ===== *)
theory Coio_Runtime
  imports Conrt_Prelude
begin

text \<open>
  The completion runtime (\<^verbatim>\<open>libs/coio-core/src/runtime.rs\<close>), with the \<^verbatim>\<open>Backend\<close> port
  (\<^verbatim>\<open>backend.rs\<close>) and the completion helpers of \<^verbatim>\<open>io.rs\<close>.

  \<^item> A slot is a record; the union in its body is a datatype, and an uninitialised \<^verbatim>\<open>local\<close> is
    \<^term>\<open>None\<close>, so that reading the wrong arm or an uninitialised local has no result (outer
    \<^term>\<open>None\<close>), like a panic.
  \<^item> Function pointers are names: \<open>'sh\<close> for shims, \<open>'d\<close> for the erased \<^verbatim>\<open>done\<close>, \<open>'cd\<close> for cancel
    callbacks. What a name does is given by the arguments \<open>shims\<close> and \<open>cancels\<close>, which get the whole
    runtime and return it, so a callback may register and cancel further operations.
  \<^item> The backend is the record \<open>backend_ops\<close> over a backend state \<open>'b\<close>; a wait that blocks for ever
    has no result.
  \<^item> The thread-local op id counter is a field of the runtime. \<open>rt_dropped\<close> is a ghost field: the
    locals the runtime has dropped instead of handing them to a callback.
  \<^item> Indices are naturals below \<open>2 ^ 32\<close>; op ids are 64-bit words because the cancel mark is a bit
    of the id.
\<close>

section \<open>Ids\<close>

definition CANCEL_PENDING :: u64 where
  "CANCEL_PENDING = push_bit 62 1"

definition MAX_OP_ID :: u64 where
  "MAX_OP_ID = CANCEL_PENDING"

definition id_bits :: "u64 \<Rightarrow> u64" where
  "id_bits i = i AND NOT CANCEL_PENDING"

definition is_free :: "u64 \<Rightarrow> bool" where
  "is_free i \<longleftrightarrow> i = 0"

definition is_cancel_pending :: "u64 \<Rightarrow> bool" where
  "is_cancel_pending i \<longleftrightarrow> i AND CANCEL_PENDING \<noteq> 0"

section \<open>The buffer arena\<close>

record erased =
  eb_a :: u64
  eb_b :: u64

definition erased_none :: erased where
  "erased_none = \<lparr>eb_a = 0, eb_b = 0\<rparr>"

definition BUF_NONE :: nat where
  "BUF_NONE = 2 ^ 32 - 1"

definition BUF_CLASSES :: "nat list" where
  "BUF_CLASSES = [1, 2, 4, 8, 16, 64, 256, 1024]"

record buf_arena =
  ba_blocks :: "erased list"
  ba_free :: "nat list"

definition arena_new :: buf_arena where
  "arena_new = \<lparr>ba_blocks = [], ba_free = replicate (length BUF_CLASSES) BUF_NONE\<rparr>"

definition arena_class_for :: "nat \<Rightarrow> nat option" where
  "arena_class_for len = position (\<lambda>n. len \<le> n) BUF_CLASSES"

definition next_link :: "erased list \<Rightarrow> nat \<Rightarrow> nat option" where
  "next_link blocks index = map_option (\<lambda>e. unat (eb_a e) mod 2 ^ 32) (idx blocks index)"

definition arena_alloc :: "buf_arena \<Rightarrow> nat \<Rightarrow> (buf_arena \<times> nat) option" where
  "arena_alloc a len = do {
     ensure (0 < len);
     ensure (len \<le> last BUF_CLASSES);
     cls \<leftarrow> arena_class_for len;
     head \<leftarrow> idx (ba_free a) cls;
     if head \<noteq> BUF_NONE then do {
       link \<leftarrow> next_link (ba_blocks a) head;
       Some (a\<lparr>ba_free := (ba_free a)[cls := link]\<rparr>, head)
     } else do {
       let base = length (ba_blocks a);
       ensure (base + BUF_CLASSES ! cls < BUF_NONE);
       Some (a\<lparr>ba_blocks := ba_blocks a @ replicate (BUF_CLASSES ! cls) erased_none\<rparr>, base)
     }
   }"

definition arena_release :: "buf_arena \<Rightarrow> nat \<Rightarrow> nat \<Rightarrow> buf_arena option" where
  "arena_release a start len = do {
     cls \<leftarrow> arena_class_for len;
     head \<leftarrow> idx (ba_free a) cls;
     b \<leftarrow> idx (ba_blocks a) start;
     Some (a\<lparr>ba_blocks := (ba_blocks a)[start := b\<lparr>eb_a := word_of_nat head\<rparr>],
             ba_free := (ba_free a)[cls := start]\<rparr>)
   }"

section \<open>Outcomes and completions\<close>

datatype op_outcome = Completed int u32 | Cancelled

record completion =
  cn_slot :: nat
  cn_result :: int
  cn_flags :: u32
  cn_class :: u8
  cn_cancel :: bool
  cn_cancelled :: bool

record ('l, 'd) shim_args =
  sa_local :: 'l
  sa_bufs :: "erased list"
  sa_outcome :: op_outcome
  sa_done :: 'd
  sa_class :: u8

record op =
  op_slot :: nat
  op_class :: u8
  op_id :: u64

section \<open>Slots\<close>

definition FREE_NONE :: nat where
  "FREE_NONE = 2 ^ 32 - 1"

datatype ('sh, 'd) slot_body = Live 'sh 'd | FreeLink nat

record ('l, 'sh, 'd) io_slot =
  os_id :: u64
  os_local :: "'l option"
  os_buf :: nat
  os_buf_len :: nat
  os_body :: "('sh, 'd) slot_body"

definition io_slot_init_free :: "nat \<Rightarrow> ('l, 'sh, 'd) io_slot" where
  "io_slot_init_free link =
     \<lparr>os_id = 0, os_local = None, os_buf = BUF_NONE, os_buf_len = 0, os_body = FreeLink link\<rparr>"

definition io_slot_claim ::
  "('l, 'sh, 'd) io_slot \<Rightarrow> u64 \<Rightarrow> 'sh \<Rightarrow> 'd \<Rightarrow> 'l \<Rightarrow> nat \<Rightarrow> nat \<Rightarrow> ('l, 'sh, 'd) io_slot option"
where
  "io_slot_claim s i shim done local buf buf_len = do {
     ensure (is_free (os_id s));
     ensure (buf \<noteq> BUF_NONE \<or> buf_len = 0);
     Some (s\<lparr>os_id := i, os_local := Some local, os_buf := buf, os_buf_len := buf_len,
             os_body := Live shim done\<rparr>)
   }"

definition io_slot_take_local :: "('l, 'sh, 'd) io_slot \<Rightarrow> (('l, 'sh, 'd) io_slot \<times> 'l) option" where
  "io_slot_take_local s = do {
     ensure (\<not> is_free (os_id s));
     local \<leftarrow> os_local s;
     Some (s\<lparr>os_local := None\<rparr>, local)
   }"

definition io_slot_push_free :: "('l, 'sh, 'd) io_slot \<Rightarrow> nat \<Rightarrow> ('l, 'sh, 'd) io_slot option" where
  "io_slot_push_free s head = do {
     ensure (\<not> is_free (os_id s));
     ensure (os_buf s = BUF_NONE);
     Some (s\<lparr>os_id := 0, os_buf := BUF_NONE, os_buf_len := 0, os_body := FreeLink head\<rparr>)
   }"

definition io_slot_take_buf_run ::
  "('l, 'sh, 'd) io_slot \<Rightarrow> ('l, 'sh, 'd) io_slot \<times> (nat \<times> nat) option"
where
  "io_slot_take_buf_run s =
     (s\<lparr>os_buf := BUF_NONE, os_buf_len := 0\<rparr>,
      if os_buf s \<noteq> BUF_NONE then Some (os_buf s, os_buf_len s) else None)"

definition io_slot_free_next :: "('l, 'sh, 'd) io_slot \<Rightarrow> nat option" where
  "io_slot_free_next s = do {
     ensure (is_free (os_id s));
     (case os_body s of FreeLink n \<Rightarrow> Some n | Live _ _ \<Rightarrow> None)
   }"

datatype 'cd cancel_body = CancelDone 'cd | CancelFree nat

record ('l, 'cd) cancel_slot =
  cs_id :: u64
  cs_target :: nat
  cs_target_id :: u64
  cs_local :: "'l option"
  cs_body :: "'cd cancel_body"

definition cancel_slot_init_free :: "nat \<Rightarrow> ('l, 'cd) cancel_slot" where
  "cancel_slot_init_free link =
     \<lparr>cs_id = 0, cs_target = 0, cs_target_id = 1, cs_local = None, cs_body = CancelFree link\<rparr>"

definition cancel_slot_claim ::
  "('l, 'cd) cancel_slot \<Rightarrow> u64 \<Rightarrow> nat \<Rightarrow> u64 \<Rightarrow> 'cd \<Rightarrow> 'l \<Rightarrow> ('l, 'cd) cancel_slot option"
where
  "cancel_slot_claim s i target target_id done local = do {
     ensure (is_free (cs_id s));
     Some (s\<lparr>cs_id := i, cs_target := target, cs_target_id := target_id, cs_local := Some local,
             cs_body := CancelDone done\<rparr>)
   }"

definition cancel_slot_take_local :: "('l, 'cd) cancel_slot \<Rightarrow> (('l, 'cd) cancel_slot \<times> 'l) option" where
  "cancel_slot_take_local s = do {
     ensure (\<not> is_free (cs_id s));
     local \<leftarrow> cs_local s;
     Some (s\<lparr>cs_local := None\<rparr>, local)
   }"

definition cancel_slot_push_free :: "('l, 'cd) cancel_slot \<Rightarrow> nat \<Rightarrow> ('l, 'cd) cancel_slot option" where
  "cancel_slot_push_free s head = do {
     ensure (\<not> is_free (cs_id s));
     Some (s\<lparr>cs_id := 0, cs_body := CancelFree head\<rparr>)
   }"

definition cancel_slot_free_next :: "('l, 'cd) cancel_slot \<Rightarrow> nat option" where
  "cancel_slot_free_next s = do {
     ensure (is_free (cs_id s));
     (case cs_body s of CancelFree n \<Rightarrow> Some n | CancelDone _ \<Rightarrow> None)
   }"

section \<open>The runtime\<close>

record ('g, 'l, 'sh, 'd, 'cd, 'b) runtime =
  rt_backend :: 'b
  rt_io_slab :: "('l, 'sh, 'd) io_slot list"
  rt_free_slots_head :: nat
  rt_cancel_slab :: "('l, 'cd) cancel_slot list"
  rt_free_cancels_head :: nat
  rt_inflight_ops :: nat
  rt_inflight_cancels :: nat
  rt_buf_arena :: buf_arena
  rt_global :: "'g option"
  rt_next_op_id :: u64
  rt_dropped :: "'l list"

record ('b, 'r) backend_ops =
  be_arm :: "'b \<Rightarrow> nat \<Rightarrow> u8 \<Rightarrow> 'r \<Rightarrow> 'b \<times> unit io_result"
  be_wait :: "'b \<Rightarrow> ('b \<times> unit io_result) option"
  be_next_completion :: "'b \<Rightarrow> 'b \<times> completion option"
  be_cancel :: "'b \<Rightarrow> nat \<Rightarrow> nat \<Rightarrow> u8 \<Rightarrow> 'b \<times> bool io_result"
  be_begin_teardown :: "'b \<Rightarrow> 'b"

definition runtime_new :: "'b \<Rightarrow> 'g \<Rightarrow> u64 \<Rightarrow> ('g, 'l, 'sh, 'd, 'cd, 'b) runtime" where
  "runtime_new backend global next_id =
     \<lparr>rt_backend = backend, rt_io_slab = [], rt_free_slots_head = FREE_NONE, rt_cancel_slab = [],
      rt_free_cancels_head = FREE_NONE, rt_inflight_ops = 0, rt_inflight_cancels = 0,
      rt_buf_arena = arena_new, rt_global = Some global, rt_next_op_id = next_id, rt_dropped = []\<rparr>"

definition next_op_id :: "('g, 'l, 'sh, 'd, 'cd, 'b) runtime \<Rightarrow> (('g, 'l, 'sh, 'd, 'cd, 'b) runtime \<times> u64) option" where
  "next_op_id rt = do {
     let i = rt_next_op_id rt;
     ensure (i < MAX_OP_ID);
     Some (rt\<lparr>rt_next_op_id := i + 1\<rparr>, i)
   }"

text \<open>\<^verbatim>\<open>self.io_slab[index]\<close> and \<^verbatim>\<open>self.cancel_slab[index]\<close> as mutable places.\<close>

definition with_io_slot where
  "with_io_slot rt index f = do {
     s \<leftarrow> idx (rt_io_slab rt) index;
     s \<leftarrow> f s;
     Some (rt\<lparr>rt_io_slab := (rt_io_slab rt)[index := s]\<rparr>)
   }"

definition with_cancel_slot where
  "with_cancel_slot rt index f = do {
     s \<leftarrow> idx (rt_cancel_slab rt) index;
     s \<leftarrow> f s;
     Some (rt\<lparr>rt_cancel_slab := (rt_cancel_slab rt)[index := s]\<rparr>)
   }"

definition drop_local :: "'l \<Rightarrow> ('g, 'l, 'sh, 'd, 'cd, 'b) runtime \<Rightarrow> ('g, 'l, 'sh, 'd, 'cd, 'b) runtime" where
  "drop_local l rt = rt\<lparr>rt_dropped := rt_dropped rt @ [l]\<rparr>"

definition alloc_buf_run ::
  "('g, 'l, 'sh, 'd, 'cd, 'b) runtime \<Rightarrow> erased list \<Rightarrow>
   (('g, 'l, 'sh, 'd, 'cd, 'b) runtime \<times> (nat \<times> nat) option) option"
where
  "alloc_buf_run rt bufs =
     (if bufs = [] then Some (rt, None)
      else do {
        (a, start) \<leftarrow> arena_alloc (rt_buf_arena rt) (length bufs);
        ensure (start + length bufs \<le> length (ba_blocks a));
        let blocks = take start (ba_blocks a) @ bufs @ drop (start + length bufs) (ba_blocks a);
        Some (rt\<lparr>rt_buf_arena := a\<lparr>ba_blocks := blocks\<rparr>\<rparr>, Some (start, length bufs))
      })"

definition dispatch_shim ::
  "('sh \<Rightarrow> ('g, 'l, 'sh, 'd, 'cd, 'b) runtime \<Rightarrow> ('l, 'd) shim_args \<Rightarrow> ('g, 'l, 'sh, 'd, 'cd, 'b) runtime option) \<Rightarrow>
   ('g, 'l, 'sh, 'd, 'cd, 'b) runtime \<Rightarrow> 'sh \<Rightarrow> (nat \<times> nat) option \<Rightarrow> op_outcome \<Rightarrow> 'd \<Rightarrow> 'l \<Rightarrow> u8 \<Rightarrow>
   ('g, 'l, 'sh, 'd, 'cd, 'b) runtime option"
where
  "dispatch_shim shims rt shim run outcome done local cls = do {
     let arena = rt_buf_arena rt;
     let rt = rt\<lparr>rt_buf_arena := arena_new\<rparr>;
     bufs \<leftarrow> (case run of
                Some (start, len) \<Rightarrow> slice_of (ba_blocks arena) start (start + len)
              | None \<Rightarrow> Some []);
     rt \<leftarrow> shims shim rt \<lparr>sa_local = local, sa_bufs = bufs, sa_outcome = outcome, sa_done = done,
                           sa_class = cls\<rparr>;
     let rt = rt\<lparr>rt_buf_arena := arena\<rparr>;
     (case run of
        Some (start, len) \<Rightarrow> do {
          a \<leftarrow> arena_release (rt_buf_arena rt) start len;
          Some (rt\<lparr>rt_buf_arena := a\<rparr>)
        }
      | None \<Rightarrow> Some rt)
   }"

definition alloc_op_slot ::
  "('g, 'l, 'sh, 'd, 'cd, 'b) runtime \<Rightarrow> (('g, 'l, 'sh, 'd, 'cd, 'b) runtime \<times> nat) option"
where
  "alloc_op_slot rt = do {
     ensure (rt_inflight_ops rt + 1 < 2 ^ 32);
     let rt = rt\<lparr>rt_inflight_ops := rt_inflight_ops rt + 1\<rparr>;
     if rt_free_slots_head rt \<noteq> FREE_NONE then do {
       let index = rt_free_slots_head rt;
       s \<leftarrow> idx (rt_io_slab rt) index;
       link \<leftarrow> io_slot_free_next s;
       Some (rt\<lparr>rt_free_slots_head := link\<rparr>, index)
     } else
       Some (rt\<lparr>rt_io_slab := rt_io_slab rt @ [io_slot_init_free FREE_NONE]\<rparr>,
             length (rt_io_slab rt) mod 2 ^ 32)
   }"

definition free_op_slot ::
  "('g, 'l, 'sh, 'd, 'cd, 'b) runtime \<Rightarrow> nat \<Rightarrow> ('g, 'l, 'sh, 'd, 'cd, 'b) runtime option"
where
  "free_op_slot rt index = do {
     n \<leftarrow> checked_sub (rt_inflight_ops rt) 1;
     let head = rt_free_slots_head rt;
     s \<leftarrow> idx (rt_io_slab rt) index;
     local \<leftarrow> os_local s;
     let rt = drop_local local rt;
     rt \<leftarrow> with_io_slot rt index (\<lambda>s. io_slot_push_free (s\<lparr>os_local := None\<rparr>) head);
     Some (rt\<lparr>rt_inflight_ops := n, rt_free_slots_head := index\<rparr>)
   }"

definition free_op_slot_taken ::
  "('g, 'l, 'sh, 'd, 'cd, 'b) runtime \<Rightarrow> nat \<Rightarrow> ('g, 'l, 'sh, 'd, 'cd, 'b) runtime option"
where
  "free_op_slot_taken rt index = do {
     n \<leftarrow> checked_sub (rt_inflight_ops rt) 1;
     let head = rt_free_slots_head rt;
     rt \<leftarrow> with_io_slot rt index (\<lambda>s. io_slot_push_free s head);
     Some (rt\<lparr>rt_inflight_ops := n, rt_free_slots_head := index\<rparr>)
   }"

definition alloc_cancel_slot ::
  "('g, 'l, 'sh, 'd, 'cd, 'b) runtime \<Rightarrow> (('g, 'l, 'sh, 'd, 'cd, 'b) runtime \<times> nat) option"
where
  "alloc_cancel_slot rt = do {
     ensure (rt_inflight_cancels rt + 1 < 2 ^ 32);
     let rt = rt\<lparr>rt_inflight_cancels := rt_inflight_cancels rt + 1\<rparr>;
     if rt_free_cancels_head rt \<noteq> FREE_NONE then do {
       let index = rt_free_cancels_head rt;
       s \<leftarrow> idx (rt_cancel_slab rt) index;
       link \<leftarrow> cancel_slot_free_next s;
       Some (rt\<lparr>rt_free_cancels_head := link\<rparr>, index)
     } else
       Some (rt\<lparr>rt_cancel_slab := rt_cancel_slab rt @ [cancel_slot_init_free FREE_NONE]\<rparr>,
             length (rt_cancel_slab rt) mod 2 ^ 32)
   }"

definition free_cancel_slot ::
  "('g, 'l, 'sh, 'd, 'cd, 'b) runtime \<Rightarrow> nat \<Rightarrow> ('g, 'l, 'sh, 'd, 'cd, 'b) runtime option"
where
  "free_cancel_slot rt index = do {
     n \<leftarrow> checked_sub (rt_inflight_cancels rt) 1;
     let head = rt_free_cancels_head rt;
     rt \<leftarrow> with_cancel_slot rt index (\<lambda>s. cancel_slot_push_free s head);
     Some (rt\<lparr>rt_inflight_cancels := n, rt_free_cancels_head := index\<rparr>)
   }"

definition free_cancel_slot_dropping_local ::
  "('g, 'l, 'sh, 'd, 'cd, 'b) runtime \<Rightarrow> nat \<Rightarrow> ('g, 'l, 'sh, 'd, 'cd, 'b) runtime option"
where
  "free_cancel_slot_dropping_local rt index = do {
     n \<leftarrow> checked_sub (rt_inflight_cancels rt) 1;
     let head = rt_free_cancels_head rt;
     s \<leftarrow> idx (rt_cancel_slab rt) index;
     local \<leftarrow> cs_local s;
     let rt = drop_local local rt;
     rt \<leftarrow> with_cancel_slot rt index (\<lambda>s. cancel_slot_push_free (s\<lparr>cs_local := None\<rparr>) head);
     Some (rt\<lparr>rt_inflight_cancels := n, rt_free_cancels_head := index\<rparr>)
   }"

text \<open>The first half of \<^verbatim>\<open>register_op\<close>: slot, id, buffer run, claim.\<close>

definition claim_op ::
  "('g, 'l, 'sh, 'd, 'cd, 'b) runtime \<Rightarrow> 'sh \<Rightarrow> 'd \<Rightarrow> 'l \<Rightarrow> erased list \<Rightarrow>
   (('g, 'l, 'sh, 'd, 'cd, 'b) runtime \<times> nat \<times> u64) option"
where
  "claim_op rt shim done local bufs = do {
     (rt, index) \<leftarrow> alloc_op_slot rt;
     (rt, i) \<leftarrow> next_op_id rt;
     (rt, run) \<leftarrow> alloc_buf_run rt bufs;
     let (buf, buf_len) = (case run of None \<Rightarrow> (BUF_NONE, 0) | Some (s, n) \<Rightarrow> (s, n));
     rt \<leftarrow> with_io_slot rt index (\<lambda>s. io_slot_claim s i shim done local buf buf_len);
     Some (rt, index, i)
   }"

text \<open>Its error path: release the buffer run, then the slot with its local.\<close>

definition release_unarmed ::
  "('g, 'l, 'sh, 'd, 'cd, 'b) runtime \<Rightarrow> nat \<Rightarrow> ('g, 'l, 'sh, 'd, 'cd, 'b) runtime option"
where
  "release_unarmed rt index = do {
     s \<leftarrow> idx (rt_io_slab rt) index;
     let (s, run) = io_slot_take_buf_run s;
     let rt = rt\<lparr>rt_io_slab := (rt_io_slab rt)[index := s]\<rparr>;
     rt \<leftarrow> (case run of
              None \<Rightarrow> Some rt
            | Some (start, len) \<Rightarrow> do {
                a \<leftarrow> arena_release (rt_buf_arena rt) start len;
                Some (rt\<lparr>rt_buf_arena := a\<rparr>)
              });
     free_op_slot rt index
   }"

definition register_op ::
  "('b, 'r) backend_ops \<Rightarrow> ('g, 'l, 'sh, 'd, 'cd, 'b) runtime \<Rightarrow> 'sh \<Rightarrow> 'd \<Rightarrow> 'l \<Rightarrow> u8 \<Rightarrow> erased list \<Rightarrow> 'r \<Rightarrow>
   (('g, 'l, 'sh, 'd, 'cd, 'b) runtime \<times> op io_result) option"
where
  "register_op be rt shim done local cls bufs req = do {
     (rt, index, i) \<leftarrow> claim_op rt shim done local bufs;
     let (b, r) = be_arm be (rt_backend rt) index cls req;
     let rt = rt\<lparr>rt_backend := b\<rparr>;
     (case r of
        Inr _ \<Rightarrow> Some (rt, Inr \<lparr>op_slot = index, op_class = cls, op_id = i\<rparr>)
      | Inl e \<Rightarrow> map_option (\<lambda>rt. (rt, Inl e)) (release_unarmed rt index))
   }"

section \<open>Cancellation\<close>

definition submit_cancel ::
  "('b, 'r) backend_ops \<Rightarrow> ('g, 'l, 'sh, 'd, 'cd, 'b) runtime \<Rightarrow> op \<Rightarrow> 'cd \<Rightarrow> 'l \<Rightarrow>
   (('g, 'l, 'sh, 'd, 'cd, 'b) runtime \<times> bool) option"
where
  "submit_cancel be rt victim done local = do {
     (rt, index) \<leftarrow> alloc_cancel_slot rt;
     (rt, i) \<leftarrow> next_op_id rt;
     rt \<leftarrow> with_cancel_slot rt index (\<lambda>s. cancel_slot_claim s i (op_slot victim) (op_id victim) done local);
     let (b, r) = be_cancel be (rt_backend rt) index (op_slot victim) (op_class victim);
     let rt = rt\<lparr>rt_backend := b\<rparr>;
     if r = Inr True then Some (rt, True)
     else do {
       rt \<leftarrow> free_cancel_slot_dropping_local rt index;
       Some (rt, False)
     }
   }"

definition cancel_valid :: "('g, 'l, 'sh, 'd, 'cd, 'b) runtime \<Rightarrow> op \<Rightarrow> bool" where
  "cancel_valid rt victim \<longleftrightarrow>
     (case idx (rt_io_slab rt) (op_slot victim) of
        None \<Rightarrow> False
      | Some s \<Rightarrow> id_bits (os_id s) = op_id victim \<and> \<not> is_cancel_pending (os_id s))"

definition cancel ::
  "('b, 'r) backend_ops \<Rightarrow> ('g, 'l, 'sh, 'd, 'cd, 'b) runtime \<Rightarrow> op \<Rightarrow> 'l \<Rightarrow> 'cd \<Rightarrow>
   ('g, 'l, 'sh, 'd, 'cd, 'b) runtime option"
where
  "cancel be rt victim local done =
     (if \<not> cancel_valid rt victim then Some (drop_local local rt)
      else do {
        (rt, submitted) \<leftarrow> submit_cancel be rt victim done local;
        if \<not> submitted then Some rt
        else with_io_slot rt (op_slot victim) (\<lambda>s. Some (s\<lparr>os_id := os_id s OR CANCEL_PENDING\<rparr>))
      })"

definition find_cancel_of :: "('g, 'l, 'sh, 'd, 'cd, 'b) runtime \<Rightarrow> nat \<Rightarrow> nat option" where
  "find_cancel_of rt index =
     (case idx (rt_io_slab rt) index of
        None \<Rightarrow> None
      | Some s \<Rightarrow>
          (if is_free (os_id s) then None
           else let target_id = os_id s AND NOT CANCEL_PENDING in
             position (\<lambda>c. \<not> is_free (cs_id c) \<and> cs_target c = index \<and> cs_target_id c = target_id)
               (rt_cancel_slab rt)))"

text \<open>The victim's local is borrowed by the callback, which returns it possibly changed.\<close>

definition dispatch_cancel_of ::
  "('cd \<Rightarrow> ('g, 'l, 'sh, 'd, 'cd, 'b) runtime \<Rightarrow> 'l \<Rightarrow> 'l \<Rightarrow> (('g, 'l, 'sh, 'd, 'cd, 'b) runtime \<times> 'l) option) \<Rightarrow>
   ('g, 'l, 'sh, 'd, 'cd, 'b) runtime \<Rightarrow> nat \<Rightarrow> 'l \<Rightarrow> (('g, 'l, 'sh, 'd, 'cd, 'b) runtime \<times> 'l) option"
where
  "dispatch_cancel_of cancels rt index victim_local =
     (case find_cancel_of rt index of
        None \<Rightarrow> Some (rt, victim_local)
      | Some c \<Rightarrow> do {
          s \<leftarrow> idx (rt_cancel_slab rt) c;
          done \<leftarrow> (case cs_body s of CancelDone d \<Rightarrow> Some d | CancelFree _ \<Rightarrow> None);
          (s, clocal) \<leftarrow> cancel_slot_take_local s;
          let rt = rt\<lparr>rt_cancel_slab := (rt_cancel_slab rt)[c := s]\<rparr>;
          rt \<leftarrow> free_cancel_slot rt c;
          cancels done rt victim_local clocal
        })"

definition drop_cancel_of ::
  "('g, 'l, 'sh, 'd, 'cd, 'b) runtime \<Rightarrow> nat \<Rightarrow> ('g, 'l, 'sh, 'd, 'cd, 'b) runtime option"
where
  "drop_cancel_of rt index =
     (case find_cancel_of rt index of
        None \<Rightarrow> Some rt
      | Some c \<Rightarrow> free_cancel_slot_dropping_local rt c)"

section \<open>Completion\<close>

text \<open>The block of \<^verbatim>\<open>complete_op\<close> that settles a pending cancellation.\<close>

definition settle_cancel where
  "settle_cancel cancels rt index local cancelled = do {
     (rt, local) \<leftarrow> (if cancelled then dispatch_cancel_of cancels rt index local
                     else map_option (\<lambda>rt. (rt, local)) (drop_cancel_of rt index));
     rt \<leftarrow> with_io_slot rt index (\<lambda>s. Some (s\<lparr>os_id := os_id s AND NOT CANCEL_PENDING\<rparr>));
     Some (rt, local)
   }"

definition complete_op where
  "complete_op shims cancels rt index (c :: completion) =
     (case idx (rt_io_slab rt) index of
        None \<Rightarrow> Some rt
      | Some slot \<Rightarrow>
          (if is_free (os_id slot) then Some rt
           else do {
             let cancel_pending = is_cancel_pending (os_id slot);
             let cancelled = (cancel_pending \<and> cn_cancelled c);
             (shim, done) \<leftarrow> (case os_body slot of Live s d \<Rightarrow> Some (s, d) | FreeLink _ \<Rightarrow> None);
             let (slot, run) = io_slot_take_buf_run slot;
             (slot, local) \<leftarrow> io_slot_take_local slot;
             let rt = rt\<lparr>rt_io_slab := (rt_io_slab rt)[index := slot]\<rparr>;
             (rt, local) \<leftarrow> (if cancel_pending then settle_cancel cancels rt index local cancelled
                             else Some (rt, local));
             rt \<leftarrow> free_op_slot_taken rt index;
             let outcome = (if cancelled then Cancelled else Completed (cn_result c) (cn_flags c));
             dispatch_shim shims rt shim run outcome done local (cn_class c)
           }))"

definition complete_cancel ::
  "('g, 'l, 'sh, 'd, 'cd, 'b) runtime \<Rightarrow> nat \<Rightarrow> int \<Rightarrow> ('g, 'l, 'sh, 'd, 'cd, 'b) runtime option"
where
  "complete_cancel rt index result =
     (case idx (rt_cancel_slab rt) index of
        None \<Rightarrow> Some rt
      | Some c \<Rightarrow>
          (if is_free (cs_id c) then Some rt
           else if result = 0 then Some rt
           else do {
             let target = cs_target c;
             let target_id = cs_target_id c;
             (c, local) \<leftarrow> cancel_slot_take_local c;
             let rt = drop_local local (rt\<lparr>rt_cancel_slab := (rt_cancel_slab rt)[index := c]\<rparr>);
             rt \<leftarrow> free_cancel_slot rt index;
             (case idx (rt_io_slab rt) target of
                None \<Rightarrow> Some rt
              | Some s \<Rightarrow>
                  (if is_cancel_pending (os_id s) \<and> id_bits (os_id s) = target_id
                   then Some (rt\<lparr>rt_io_slab := (rt_io_slab rt)[target :=
                                s\<lparr>os_id := os_id s AND NOT CANCEL_PENDING\<rparr>]\<rparr>)
                   else Some rt))
           }))"

definition assert_names_live :: "nat \<Rightarrow> nat \<Rightarrow> bool \<Rightarrow> unit option" where
  "assert_names_live slot slab_len free = do {
     ensure (slot < slab_len);
     ensure (\<not> free)
   }"

definition take_completion where
  "take_completion shims cancels rt (c :: completion) =
     (if cn_cancel c then do {
        ensure (cn_slot c < length (rt_cancel_slab rt));
        complete_cancel rt (cn_slot c) (cn_result c)
      } else do {
        s \<leftarrow> idx (rt_io_slab rt) (cn_slot c);
        assert_names_live (cn_slot c) (length (rt_io_slab rt)) (is_free (os_id s));
        complete_op shims cancels rt (cn_slot c) c
      })"

text \<open>\<^verbatim>\<open>drain_cqes\<close> and \<^verbatim>\<open>drive\<close> loop until the backend has nothing to report.\<close>

partial_function (option) drain_cqes where
  "drain_cqes shims cancels (be :: ('b, 'r) backend_ops) rt =
     (case be_next_completion be (rt_backend rt) of
        (b, None) \<Rightarrow> Some (rt\<lparr>rt_backend := b\<rparr>)
      | (b, Some c) \<Rightarrow>
          (case take_completion shims cancels (rt\<lparr>rt_backend := b\<rparr>) c of
             None \<Rightarrow> None
           | Some rt \<Rightarrow> drain_cqes shims cancels be rt))"

definition has_inflight :: "('g, 'l, 'sh, 'd, 'cd, 'b) runtime \<Rightarrow> bool" where
  "has_inflight rt \<longleftrightarrow> rt_inflight_ops rt \<noteq> 0 \<or> rt_inflight_cancels rt \<noteq> 0"

partial_function (option) drive where
  "drive shims cancels (be :: ('b, 'r) backend_ops) rt =
     (case drain_cqes shims cancels be rt of
        None \<Rightarrow> None
      | Some rt \<Rightarrow>
          (if \<not> has_inflight rt then Some rt
           else (case be_wait be (rt_backend rt) of
                   None \<Rightarrow> None
                 | Some (b, Inl e) \<Rightarrow> Some (rt\<lparr>rt_backend := b\<rparr>)
                 | Some (b, Inr u) \<Rightarrow> drive shims cancels be (rt\<lparr>rt_backend := b\<rparr>))))"

declare drain_cqes.simps [code] drive.simps [code]

section \<open>Teardown\<close>

fun drop_io_locals :: "('l, 'sh, 'd) io_slot list \<Rightarrow> 'l list option" where
  "drop_io_locals [] = Some []"
| "drop_io_locals (s # ss) =
     (if \<not> is_free (os_id s) then do {
        l \<leftarrow> os_local s;
        ls \<leftarrow> drop_io_locals ss;
        Some (l # ls)
      } else drop_io_locals ss)"

fun drop_cancel_locals :: "('l, 'cd) cancel_slot list \<Rightarrow> 'l list option" where
  "drop_cancel_locals [] = Some []"
| "drop_cancel_locals (s # ss) =
     (if \<not> is_free (cs_id s) then do {
        l \<leftarrow> cs_local s;
        ls \<leftarrow> drop_cancel_locals ss;
        Some (l # ls)
      } else drop_cancel_locals ss)"

text \<open>\<^verbatim>\<open>Drop for Runtime\<close>: quiesce the backend, then drop every local still held.\<close>

definition runtime_drop ::
  "('b, 'r) backend_ops \<Rightarrow> ('g, 'l, 'sh, 'd, 'cd, 'b) runtime \<Rightarrow> ('b \<times> 'l list) option"
where
  "runtime_drop be rt = do {
     let b = be_begin_teardown be (rt_backend rt);
     ls \<leftarrow> drop_io_locals (rt_io_slab rt);
     cs \<leftarrow> drop_cancel_locals (rt_cancel_slab rt);
     Some (b, ls @ cs)
   }"

section \<open>Completion helpers\<close>

definition errno_of :: "int \<Rightarrow> io_error option" where
  "errno_of result = (if result < 0 then Some (Os (- result)) else None)"

definition transferred :: "op_outcome \<Rightarrow> nat io_result" where
  "transferred outcome =
     (case outcome of
        Completed result _ \<Rightarrow> (case errno_of result of Some e \<Rightarrow> Inl e | None \<Rightarrow> Inr (nat result))
      | Cancelled \<Rightarrow> Inl Interrupted)"

text \<open>
  A null \<^verbatim>\<open>done\<close> is \<^term>\<open>None\<close>: the local is dropped, and so is the buffer, whose memory is not
  part of the state. The callbacks are passed in.
\<close>

definition finish_buf_op where
  "finish_buf_op (from_erased :: erased \<Rightarrow> nat \<Rightarrow> 'buf)
     (run_done :: ('g, 'l, 'sh, 'd, 'cd, 'b) runtime \<Rightarrow> 'l \<Rightarrow> 'buf \<Rightarrow> nat io_result \<Rightarrow> ('g, 'l, 'sh, 'd, 'cd, 'b) runtime option)
     rt (args :: ('l, 'done option) shim_args) = do {
     ensure (length (sa_bufs args) = 1);
     let res = transferred (sa_outcome args);
     let buf = from_erased (sa_bufs args ! 0) (case res of Inr n \<Rightarrow> n | Inl _ \<Rightarrow> 0);
     if sa_done args = None then Some (drop_local (sa_local args) rt)
     else run_done rt (sa_local args) buf res
   }"

definition finish_plain_op where
  "finish_plain_op (conv :: int \<Rightarrow> 't)
     (run_done :: ('g, 'l, 'sh, 'd, 'cd, 'b) runtime \<Rightarrow> 'l \<Rightarrow> 't io_result \<Rightarrow> ('g, 'l, 'sh, 'd, 'cd, 'b) runtime option)
     rt (args :: ('l, 'done option) shim_args) = do {
     ensure (sa_bufs args = []);
     let res = (case sa_outcome args of
                  Completed result _ \<Rightarrow> (case errno_of result of None \<Rightarrow> Inr (conv result) | Some e \<Rightarrow> Inl e)
                | Cancelled \<Rightarrow> Inl Interrupted);
     if sa_done args = None then Some (drop_local (sa_local args) rt)
     else run_done rt (sa_local args) res
   }"

end
