(* ===== verification/Io_Buffers.thy ===== *)
theory Io_Buffers
  imports Coio_Runtime
begin

text \<open>
  Caller-owned buffers (\<^verbatim>\<open>libs/coio-core/src/buf.rs\<close>): how a \<^verbatim>\<open>Vec<u8>\<close> and a static slice are
  erased to two words when an operation is registered and rebuilt when it completes. The trait
  \<^verbatim>\<open>IoBuf\<close> is the locale \<open>io_buf\<close>; a read destination and a write source are the two
  locales that extend it with the contract the trait's comments state for each direction.
\<close>

section \<open>Error numbers\<close>

definition EAGAIN :: errno where
  "EAGAIN = 11"

definition ECANCELED :: errno where
  "ECANCELED = 125"

section \<open>Buffers\<close>

text \<open>A vector is its allocation and length; a slice is its start and length.\<close>

record vec =
  v_ptr :: u64
  v_len :: u64
  v_cap :: u64

record static_slice =
  ss_ptr :: u64
  ss_len :: u64

definition erased_is_none :: "erased \<Rightarrow> bool" where
  "erased_is_none e \<longleftrightarrow> e = erased_none"

definition vec_into_erased :: "vec \<Rightarrow> erased" where
  "vec_into_erased v = \<lparr>eb_a = v_ptr v, eb_b = v_cap v\<rparr>"

definition vec_from_erased :: "erased \<Rightarrow> u32 \<Rightarrow> vec" where
  "vec_from_erased e written = \<lparr>v_ptr = eb_a e, v_len = ucast written, v_cap = eb_b e\<rparr>"

text \<open>\<^verbatim>\<open>self.len() as u32\<close> keeps the low 32 bits.\<close>

definition vec_readable :: "vec \<Rightarrow> u64 \<times> u32" where
  "vec_readable v = (v_ptr v, ucast (v_len v))"

definition vec_writable :: "vec \<Rightarrow> u64 \<times> u32" where
  "vec_writable v = (v_ptr v, ucast (v_len v))"

definition slice_into_erased :: "static_slice \<Rightarrow> erased" where
  "slice_into_erased s = \<lparr>eb_a = ss_ptr s, eb_b = ss_len s\<rparr>"

definition slice_from_erased :: "erased \<Rightarrow> u32 \<Rightarrow> static_slice" where
  "slice_from_erased e written = \<lparr>ss_ptr = eb_a e, ss_len = eb_b e\<rparr>"

definition slice_readable :: "static_slice \<Rightarrow> u64 \<times> u32" where
  "slice_readable s = (ss_ptr s, ucast (ss_len s))"

definition recover :: "(erased \<Rightarrow> u32 \<Rightarrow> 'buf) \<Rightarrow> erased \<Rightarrow> u32 \<Rightarrow> 'buf" where
  "recover from_erased e written = from_erased e written"

section \<open>The traits\<close>

text \<open>
  \<^verbatim>\<open>IoBuf\<close>: \<open>layout\<close> is what the buffer deallocates by (or, for a borrow, the region it
  stands for); rebuilding must restore it whatever was transferred.
\<close>

locale io_buf =
  fixes into_erased :: "'buf \<Rightarrow> erased" and from_erased :: "erased \<Rightarrow> u32 \<Rightarrow> 'buf"
    and layout :: "'buf \<Rightarrow> u64 \<times> u64"
  assumes layout_kept: "layout (from_erased (into_erased b) n) = layout b"
begin

lemma recover_layout: "layout (recover from_erased (into_erased b) n) = layout b"
  by (simp add: recover_def layout_kept)

text \<open>A buffer used for any number of operations in turn keeps its layout.\<close>

fun reuse :: "'buf \<Rightarrow> u32 list \<Rightarrow> 'buf" where
  "reuse b [] = b"
| "reuse b (n # ns) = reuse (recover from_erased (into_erased b) n) ns"

lemma reuse_layout: "layout (reuse b ns) = layout b"
  by (induction b ns rule: reuse.induct) (simp_all add: recover_layout)

end

text \<open>A destination comes back with \<open>written\<close> as its length, at its old address.\<close>

locale io_buf_mut = io_buf into_erased from_erased layout
  for into_erased :: "'buf \<Rightarrow> erased" and from_erased :: "erased \<Rightarrow> u32 \<Rightarrow> 'buf"
    and layout :: "'buf \<Rightarrow> u64 \<times> u64" +
  fixes writable :: "'buf \<Rightarrow> u64 \<times> u32"
  assumes written_kept: "writable (from_erased (into_erased b) n) = (fst (writable b), n)"
begin

lemma read_result_shrinks: "n \<le> snd (writable b) \<Longrightarrow> snd (writable (recover from_erased (into_erased b) n)) \<le> snd (writable b)"
  by (simp add: recover_def written_kept)

end

text \<open>A source comes back with its original length, so that a partial write can be resumed.\<close>

locale io_buf_ref = io_buf into_erased from_erased layout
  for into_erased :: "'buf \<Rightarrow> erased" and from_erased :: "erased \<Rightarrow> u32 \<Rightarrow> 'buf"
    and layout :: "'buf \<Rightarrow> u64 \<times> u64" +
  fixes readable :: "'buf \<Rightarrow> u64 \<times> u32"
  assumes source_kept: "readable (from_erased (into_erased b) n) = readable b"
begin

lemma reuse_source: "readable (reuse b ns) = readable b"
  by (induction b ns rule: reuse.induct) (simp_all add: recover_def source_kept)

end

lemmas buf_defs = vec_into_erased_def vec_from_erased_def vec_readable_def vec_writable_def slice_into_erased_def
  slice_from_erased_def slice_readable_def

lemma ucast_u32_u64 [simp]: "(ucast (ucast (n :: u32) :: u64) :: u32) = n"
  by (rule bit_word_eqI) (simp add: bit_simps)

interpretation vb: io_buf_mut vec_into_erased vec_from_erased "\<lambda>v. (v_ptr v, v_cap v)" vec_writable
  by unfold_locales (simp_all add: buf_defs)

interpretation sb: io_buf_ref slice_into_erased slice_from_erased "\<lambda>s. (ss_ptr s, ss_len s)" slice_readable
  by unfold_locales (simp_all add: buf_defs)

section \<open>Properties\<close>

lemma vec_reuse_foldl: "vb.reuse v ns = foldl (\<lambda>v n. vec_from_erased (vec_into_erased v) n) v ns"
  by (induction ns arbitrary: v) (simp_all add: recover_def)

text \<open>
  A vector survives any number of operations: erased when an operation is registered and rebuilt
  when it completes, over and over, it keeps the address and capacity it is deallocated by, and its
  length is what the last operation transferred.
\<close>

theorem vec_keeps_allocation:
  "v_ptr (foldl (\<lambda>v n. vec_from_erased (vec_into_erased v) n) v ns) = v_ptr v \<and>
   v_cap (foldl (\<lambda>v n. vec_from_erased (vec_into_erased v) n) v ns) = v_cap v \<and>
   v_len (foldl (\<lambda>v n. vec_from_erased (vec_into_erased v) n) v ns) = (if ns = [] then v_len v else ucast (last ns))"
proof -
  have "v_len (foldl (\<lambda>v n. vec_from_erased (vec_into_erased v) n) v ns) = (if ns = [] then v_len v else ucast (last ns))"
    by (cases ns rule: rev_cases) (simp_all add: vec_from_erased_def)
  then show ?thesis using vb.reuse_layout [of v ns] by (simp add: vec_reuse_foldl)
qed

text \<open>
  A partially written vector comes back truncated. The trait's comment promises that a write
  source is handed back with its original length, so that the caller can resume a partial write; for
  a vector the completion rebuilds it with the transferred count as its length: the callback gets a
  buffer that shows only the bytes already written, and none after an error.
\<close>

theorem partial_write_truncates_vec:
  "finish_buf_op (\<lambda>e n. vec_from_erased e (word_of_nat n)) write_done rt
     \<lparr>sa_local = l, sa_bufs = [vec_into_erased v], sa_outcome = Completed (int n) fl, sa_done = Some d, sa_class = cls\<rparr> =
     write_done rt l (v\<lparr>v_len := ucast (word_of_nat n :: u32)\<rparr>) (Inr n) \<and>
   vec_readable (v\<lparr>v_len := ucast (word_of_nat n :: u32)\<rparr>) = (v_ptr v, word_of_nat n) \<and>
   finish_buf_op (\<lambda>e n. vec_from_erased e (word_of_nat n)) write_done rt
     \<lparr>sa_local = l, sa_bufs = [vec_into_erased v], sa_outcome = Cancelled, sa_done = Some d, sa_class = cls\<rparr> =
     write_done rt l (v\<lparr>v_len := 0\<rparr>) (Inl Interrupted)"
  by (cases v) (simp add: finish_buf_op_def transferred_def errno_of_def ensure_def buf_defs)

end
