(* ===== verification/Op_Slabs.thy ===== *)
theory Op_Slabs
  imports Coio_Runtime
begin

text \<open>
  The intrusive free stacks of the runtime's two slabs. The locale \<open>free_stack\<close> is what the
  slot types promise: a slot is alive or dead, and a dead slot on the stack carries the link to
  the next one. A slab with a head index is \<open>ok\<close> when the links from the head run through
  exactly the dead slots. Its \<open>view\<close> is the partial map from indices to live slots; allocation,
  release and update of a slot are map updates on it. The locale is interpreted for op slots and
  for cancel slots.
\<close>

section \<open>Free stacks\<close>

locale free_stack =
  fixes alive :: "'s \<Rightarrow> bool"
    and link :: "'s \<Rightarrow> nat option"
  assumes link_dead: "link s = Some n \<Longrightarrow> \<not> alive s"
begin

fun chain :: "'s list \<Rightarrow> nat \<Rightarrow> nat list \<Rightarrow> bool" where
  "chain slab head [] \<longleftrightarrow> head = FREE_NONE"
| "chain slab head (i # is) \<longleftrightarrow> head = i \<and> i \<noteq> FREE_NONE \<and> i < length slab \<and>
     (\<exists>n. link (slab ! i) = Some n \<and> chain slab n is)"

definition ok :: "'s list \<Rightarrow> nat \<Rightarrow> bool" where
  "ok slab head \<longleftrightarrow> (\<exists>is. chain slab head is \<and> distinct is \<and>
     set is = {i. i < length slab \<and> \<not> alive (slab ! i)})"

definition view :: "'s list \<Rightarrow> nat \<rightharpoonup> 's" where
  "view slab i = (if i < length slab \<and> alive (slab ! i) then Some (slab ! i) else None)"

lemma view_Some: "view slab i = Some s \<longleftrightarrow> i < length slab \<and> alive s \<and> slab ! i = s"
  by (auto simp: view_def)

lemma chain_update: "i \<notin> set is \<Longrightarrow> chain (slab[i := s]) head is = chain slab head is"
  by (induction "is" arbitrary: head) auto

lemma chain_append: "chain slab head is \<Longrightarrow> chain (slab @ xs) head is"
  by (induction "is" arbitrary: head) (auto simp: nth_append)

lemma finite_view: "finite (dom (view slab))"
  by (rule finite_subset [of _ "{..<length slab}"]) (auto simp: view_def split: if_splits)

lemma ok_empty: "ok [] FREE_NONE"
  unfolding ok_def by (intro exI [of _ "[]"]) simp

lemma view_empty [simp]: "view [] = Map.empty"
  by (auto simp: view_def)

lemma view_update_live: "i < length slab \<Longrightarrow> alive s \<Longrightarrow> view (slab[i := s]) = (view slab)(i \<mapsto> s)"
  by (auto simp: view_def fun_eq_iff nth_list_update)

lemma view_update_dead: "i < length slab \<Longrightarrow> \<not> alive s \<Longrightarrow> view (slab[i := s]) = (view slab)(i := None)"
  by (auto simp: view_def fun_eq_iff nth_list_update)

text \<open>Taking the head of the stack and bringing it to life.\<close>

lemma pop_ok:
  assumes "ok slab head" "head \<noteq> FREE_NONE"
  shows "head < length slab" "view slab head = None"
    and "\<exists>n. link (slab ! head) = Some n \<and> (\<forall>s. alive s \<longrightarrow> ok (slab[head := s]) n)"
proof -
  obtain "is" where c: "chain slab head is" "distinct is"
    "set is = {i. i < length slab \<and> \<not> alive (slab ! i)}" using assms(1) by (auto simp: ok_def)
  then obtain rest where r: "is = head # rest" using assms(2) by (cases "is") auto
  then obtain n where n: "link (slab ! head) = Some n" "chain slab n rest" using c(1) by auto
  have fresh: "head \<notin> set rest" "distinct rest" using c(2) r by auto
  show lt: "head < length slab" using c(1) r by simp
  show "view slab head = None" using link_dead [OF n(1)] by (simp add: view_def)
  have "ok (slab[head := s]) n" if "alive s" for s
  proof -
    have "chain (slab[head := s]) n rest" using n(2) chain_update [OF fresh(1)] by simp
    moreover have "set rest = {i. i < length (slab[head := s]) \<and> \<not> alive (slab[head := s] ! i)}"
    proof -
      have "set rest = {i. i < length slab \<and> \<not> alive (slab ! i)} - {head}"
        using c(3) r fresh(1) by auto
      then show ?thesis using that lt by (auto simp: nth_list_update)
    qed
    ultimately show ?thesis using fresh(2) by (auto simp: ok_def)
  qed
  then show "\<exists>n. link (slab ! head) = Some n \<and> (\<forall>s. alive s \<longrightarrow> ok (slab[head := s]) n)"
    using n(1) by blast
qed

text \<open>With an empty stack every slot is live, and growing keeps it empty.\<close>

lemma empty_stack:
  assumes "ok slab FREE_NONE"
  shows "\<forall>i < length slab. alive (slab ! i)"
proof -
  obtain "is" where c: "chain slab FREE_NONE is"
    "set is = {i. i < length slab \<and> \<not> alive (slab ! i)}" using assms by (auto simp: ok_def)
  then have "is = []" by (cases "is") auto
  then show ?thesis using c(2) by auto
qed

lemma grow_ok:
  assumes "ok slab FREE_NONE" "alive s"
  shows "ok (slab @ [s]) FREE_NONE" and "view (slab @ [s]) = (view slab)(length slab \<mapsto> s)"
    and "view slab (length slab) = None" and "card (dom (view slab)) = length slab"
proof -
  have al: "\<forall>i < length slab. alive (slab ! i)" by (rule empty_stack [OF assms(1)])
  then have all: "\<forall>i < length (slab @ [s]). alive ((slab @ [s]) ! i)"
    using assms(2) by (auto simp: nth_append)
  then have "{i. i < length (slab @ [s]) \<and> \<not> alive ((slab @ [s]) ! i)} = {}" by blast
  then show "ok (slab @ [s]) FREE_NONE" unfolding ok_def by (intro exI [of _ "[]"]) simp
  show "view (slab @ [s]) = (view slab)(length slab \<mapsto> s)"
    using assms(2) by (auto simp: view_def fun_eq_iff nth_append)
  show "view slab (length slab) = None" by (simp add: view_def)
  have "dom (view slab) = {..<length slab}" using al by (auto simp: view_def split: if_splits)
  then show "card (dom (view slab)) = length slab" by simp
qed

text \<open>Putting a live slot back.\<close>

lemma push_ok:
  assumes "ok slab head" "view slab i = Some s" "i \<noteq> FREE_NONE" "link s' = Some head"
  shows "ok (slab[i := s']) i" and "view (slab[i := s']) = (view slab)(i := None)"
proof -
  obtain "is" where c: "chain slab head is" "distinct is"
    "set is = {i. i < length slab \<and> \<not> alive (slab ! i)}" using assms(1) by (auto simp: ok_def)
  have i: "i < length slab" "alive (slab ! i)" using assms(2) by (auto simp: view_Some)
  then have fresh: "i \<notin> set is" using c(3) by simp
  have "chain (slab[i := s']) i (i # is)"
    using assms(3,4) i(1) c(1) chain_update [OF fresh, of slab s' head] by simp
  moreover have "distinct (i # is)" using fresh c(2) by simp
  moreover have "set (i # is) = {j. j < length (slab[i := s']) \<and> \<not> alive (slab[i := s'] ! j)}"
    using c(3) i(1) link_dead [OF assms(4)] by (auto simp: nth_list_update)
  ultimately show "ok (slab[i := s']) i" unfolding ok_def by blast
  show "view (slab[i := s']) = (view slab)(i := None)"
    by (rule view_update_dead [OF i(1) link_dead [OF assms(4)]])
qed

lemma update_ok:
  assumes "ok slab head" "view slab i = Some s" "alive s'"
  shows "ok (slab[i := s']) head" and "view (slab[i := s']) = (view slab)(i \<mapsto> s')"
proof -
  obtain "is" where c: "chain slab head is" "distinct is"
    "set is = {i. i < length slab \<and> \<not> alive (slab ! i)}" using assms(1) by (auto simp: ok_def)
  have i: "i < length slab" "alive (slab ! i)" using assms(2) by (auto simp: view_Some)
  then have "i \<notin> set is" using c(3) by simp
  then have "chain (slab[i := s']) head is" using c(1) chain_update by simp
  moreover have "set is = {j. j < length (slab[i := s']) \<and> \<not> alive (slab[i := s'] ! j)}"
    using c(3) i assms(3) by (auto simp: nth_list_update)
  ultimately show "ok (slab[i := s']) head" using c(2) unfolding ok_def by blast
  show "view (slab[i := s']) = (view slab)(i \<mapsto> s')" by (rule view_update_live [OF i(1) assms(3)])
qed

end

section \<open>Op slots and cancel slots\<close>

definition io_alive :: "('l, 'sh, 'd) io_slot \<Rightarrow> bool" where
  "io_alive s \<longleftrightarrow> \<not> is_free (os_id s)"

definition cancel_alive :: "('l, 'cd) cancel_slot \<Rightarrow> bool" where
  "cancel_alive s \<longleftrightarrow> \<not> is_free (cs_id s)"

interpretation ios: free_stack io_alive io_slot_free_next
  by unfold_locales (auto simp: io_alive_def io_slot_free_next_def panic_simps split: if_splits)

interpretation css: free_stack cancel_alive cancel_slot_free_next
  by unfold_locales (auto simp: cancel_alive_def cancel_slot_free_next_def panic_simps split: if_splits)

abbreviation ops :: "('g, 'l, 'sh, 'd, 'cd, 'b) runtime \<Rightarrow> nat \<rightharpoonup> ('l, 'sh, 'd) io_slot" where
  "ops rt \<equiv> ios.view (rt_io_slab rt)"

abbreviation cxs :: "('g, 'l, 'sh, 'd, 'cd, 'b) runtime \<Rightarrow> nat \<rightharpoonup> ('l, 'cd) cancel_slot" where
  "cxs rt \<equiv> css.view (rt_cancel_slab rt)"

definition slabs_ok :: "('g, 'l, 'sh, 'd, 'cd, 'b) runtime \<Rightarrow> bool" where
  "slabs_ok rt \<longleftrightarrow>
     ios.ok (rt_io_slab rt) (rt_free_slots_head rt) \<and> css.ok (rt_cancel_slab rt) (rt_free_cancels_head rt) \<and>
     length (rt_io_slab rt) \<le> FREE_NONE \<and> length (rt_cancel_slab rt) \<le> FREE_NONE \<and>
     rt_inflight_ops rt = card (dom (ops rt)) \<and> rt_inflight_cancels rt = card (dom (cxs rt))"

lemma card_dom_upd: "finite (dom m) \<Longrightarrow> m i = None \<Longrightarrow> card (dom (m(i \<mapsto> x))) = Suc (card (dom m))"
  by (simp add: domIff)

lemma card_dom_del: "finite (dom m) \<Longrightarrow> m i = Some x \<Longrightarrow> card (dom (m(i := None))) = card (dom m) - 1"
  by (simp add: card_Diff_singleton domI)

section \<open>What the slab primitives do\<close>

text \<open>Allocating an op slot and claiming it adds one entry to the live operations.\<close>

definition io_claimed where
  "io_claimed rt rt1 i s \<longleftrightarrow>
     i < length (rt_io_slab rt1) \<and> is_free (os_id (rt_io_slab rt1 ! i)) \<and> ops rt i = None \<and>
     slabs_ok (rt1\<lparr>rt_io_slab := (rt_io_slab rt1)[i := s]\<rparr>) \<and>
     ios.view ((rt_io_slab rt1)[i := s]) = (ops rt)(i \<mapsto> s) \<and>
     rt_backend rt1 = rt_backend rt \<and> rt_cancel_slab rt1 = rt_cancel_slab rt \<and>
     rt_buf_arena rt1 = rt_buf_arena rt \<and> rt_global rt1 = rt_global rt \<and>
     rt_next_op_id rt1 = rt_next_op_id rt \<and> rt_dropped rt1 = rt_dropped rt"

lemma alloc_op_slot_claim:
  assumes ok: "slabs_ok rt" and ret: "alloc_op_slot rt = Some (rt1, i)" and live: "io_alive s"
  shows "io_claimed rt rt1 i s"
proof -
  let ?slab = "rt_io_slab rt"
  have io: "ios.ok ?slab (rt_free_slots_head rt)" and n: "rt_inflight_ops rt = card (dom (ops rt))"
    and bound: "length ?slab \<le> FREE_NONE" "rt_inflight_ops rt + 1 < 2 ^ 32"
    using ok ret by (auto simp: slabs_ok_def alloc_op_slot_def bind_eq_Some_conv)
  show ?thesis
  proof (cases "rt_free_slots_head rt = FREE_NONE")
    case True
    have e: "ios.ok ?slab FREE_NONE" using io True by simp
    note g = ios.grow_ok [OF e live]
    have len: "length ?slab < FREE_NONE" using g(4) n bound(2) by (simp add: FREE_NONE_def)
    then have i: "i = length ?slab" "rt1 = rt\<lparr>rt_inflight_ops := rt_inflight_ops rt + 1,
        rt_free_slots_head := FREE_NONE, rt_io_slab := ?slab @ [io_slot_init_free FREE_NONE]\<rparr>"
      using ret True bound by (auto simp: alloc_op_slot_def bind_eq_Some_conv FREE_NONE_def)
    have "slabs_ok (rt1\<lparr>rt_io_slab := (rt_io_slab rt1)[i := s]\<rparr>)"
      using ok i g len n card_dom_upd [OF ios.finite_view g(3), of s] by (simp add: slabs_ok_def)
    then show ?thesis
      using i g unfolding io_claimed_def by (auto simp: io_slot_init_free_def is_free_def)
  next
    case False
    note p = ios.pop_ok [OF io False]
    obtain m where m: "io_slot_free_next (?slab ! rt_free_slots_head rt) = Some m"
      "\<forall>s. io_alive s \<longrightarrow> ios.ok (?slab[rt_free_slots_head rt := s]) m" using p(3) by blast
    have i: "i = rt_free_slots_head rt" "rt1 = rt\<lparr>rt_inflight_ops := rt_inflight_ops rt + 1,
        rt_free_slots_head := m\<rparr>"
      using ret False m(1) p(1) by (auto simp: alloc_op_slot_def bind_eq_Some_conv Let_def)
    have v: "ios.view (?slab[i := s]) = (ops rt)(i \<mapsto> s)"
      using ios.view_update_live p(1) live i(1) by blast
    have "slabs_ok (rt1\<lparr>rt_io_slab := (rt_io_slab rt1)[i := s]\<rparr>)"
      using ok i m(2) live n card_dom_upd [OF ios.finite_view p(2), of s] v by (simp add: slabs_ok_def)
    moreover have "is_free (os_id (?slab ! i))"
      using ios.link_dead [OF m(1)] i(1) by (simp add: io_alive_def)
    ultimately show ?thesis unfolding io_claimed_def using i p v by auto
  qed
qed

definition cancel_claimed where
  "cancel_claimed rt rt1 i s \<longleftrightarrow>
     i < length (rt_cancel_slab rt1) \<and> is_free (cs_id (rt_cancel_slab rt1 ! i)) \<and> cxs rt i = None \<and>
     slabs_ok (rt1\<lparr>rt_cancel_slab := (rt_cancel_slab rt1)[i := s]\<rparr>) \<and>
     css.view ((rt_cancel_slab rt1)[i := s]) = (cxs rt)(i \<mapsto> s) \<and>
     rt_backend rt1 = rt_backend rt \<and> rt_io_slab rt1 = rt_io_slab rt \<and>
     rt_buf_arena rt1 = rt_buf_arena rt \<and> rt_global rt1 = rt_global rt \<and>
     rt_next_op_id rt1 = rt_next_op_id rt \<and> rt_dropped rt1 = rt_dropped rt"

lemma alloc_cancel_slot_claim:
  assumes ok: "slabs_ok rt" and ret: "alloc_cancel_slot rt = Some (rt1, i)" and live: "cancel_alive s"
  shows "cancel_claimed rt rt1 i s"
proof -
  let ?slab = "rt_cancel_slab rt"
  have io: "css.ok ?slab (rt_free_cancels_head rt)" and n: "rt_inflight_cancels rt = card (dom (cxs rt))"
    and bound: "length ?slab \<le> FREE_NONE" "rt_inflight_cancels rt + 1 < 2 ^ 32"
    using ok ret by (auto simp: slabs_ok_def alloc_cancel_slot_def bind_eq_Some_conv)
  show ?thesis
  proof (cases "rt_free_cancels_head rt = FREE_NONE")
    case True
    have e: "css.ok ?slab FREE_NONE" using io True by simp
    note g = css.grow_ok [OF e live]
    have len: "length ?slab < FREE_NONE" using g(4) n bound(2) by (simp add: FREE_NONE_def)
    then have i: "i = length ?slab" "rt1 = rt\<lparr>rt_inflight_cancels := rt_inflight_cancels rt + 1,
        rt_free_cancels_head := FREE_NONE, rt_cancel_slab := ?slab @ [cancel_slot_init_free FREE_NONE]\<rparr>"
      using ret True bound by (auto simp: alloc_cancel_slot_def bind_eq_Some_conv FREE_NONE_def)
    have "slabs_ok (rt1\<lparr>rt_cancel_slab := (rt_cancel_slab rt1)[i := s]\<rparr>)"
      using ok i g len n card_dom_upd [OF css.finite_view g(3), of s] by (simp add: slabs_ok_def)
    then show ?thesis
      using i g unfolding cancel_claimed_def by (auto simp: cancel_slot_init_free_def is_free_def)
  next
    case False
    note p = css.pop_ok [OF io False]
    obtain m where m: "cancel_slot_free_next (?slab ! rt_free_cancels_head rt) = Some m"
      "\<forall>s. cancel_alive s \<longrightarrow> css.ok (?slab[rt_free_cancels_head rt := s]) m" using p(3) by blast
    have i: "i = rt_free_cancels_head rt" "rt1 = rt\<lparr>rt_inflight_cancels := rt_inflight_cancels rt + 1,
        rt_free_cancels_head := m\<rparr>"
      using ret False m(1) p(1) by (auto simp: alloc_cancel_slot_def bind_eq_Some_conv Let_def)
    have v: "css.view (?slab[i := s]) = (cxs rt)(i \<mapsto> s)"
      using css.view_update_live p(1) live i(1) by blast
    have "slabs_ok (rt1\<lparr>rt_cancel_slab := (rt_cancel_slab rt1)[i := s]\<rparr>)"
      using ok i m(2) live n card_dom_upd [OF css.finite_view p(2), of s] v by (simp add: slabs_ok_def)
    moreover have "is_free (cs_id (?slab ! i))"
      using css.link_dead [OF m(1)] i(1) by (simp add: cancel_alive_def)
    ultimately show ?thesis unfolding cancel_claimed_def using i p v by auto
  qed
qed

text \<open>Updating a live slot in place.\<close>

lemma slabs_ok_update_io:
  assumes "slabs_ok rt" "ops rt i = Some s" "io_alive s'"
  shows "slabs_ok (rt\<lparr>rt_io_slab := (rt_io_slab rt)[i := s']\<rparr>)"
    and "ios.view ((rt_io_slab rt)[i := s']) = (ops rt)(i \<mapsto> s')"
proof -
  have io: "ios.ok (rt_io_slab rt) (rt_free_slots_head rt)" using assms(1) by (simp add: slabs_ok_def)
  note u = ios.update_ok [OF io assms(2,3)]
  have "dom ((ops rt)(i \<mapsto> s')) = dom (ops rt)" using assms(2) by auto
  then show "slabs_ok (rt\<lparr>rt_io_slab := (rt_io_slab rt)[i := s']\<rparr>)"
    using assms(1) u by (simp add: slabs_ok_def del: dom_fun_upd)
  show "ios.view ((rt_io_slab rt)[i := s']) = (ops rt)(i \<mapsto> s')" by (rule u(2))
qed

lemma slabs_ok_update_cancel:
  assumes "slabs_ok rt" "cxs rt i = Some s" "cancel_alive s'"
  shows "slabs_ok (rt\<lparr>rt_cancel_slab := (rt_cancel_slab rt)[i := s']\<rparr>)"
    and "css.view ((rt_cancel_slab rt)[i := s']) = (cxs rt)(i \<mapsto> s')"
proof -
  have io: "css.ok (rt_cancel_slab rt) (rt_free_cancels_head rt)" using assms(1) by (simp add: slabs_ok_def)
  note u = css.update_ok [OF io assms(2,3)]
  have "dom ((cxs rt)(i \<mapsto> s')) = dom (cxs rt)" using assms(2) by auto
  then show "slabs_ok (rt\<lparr>rt_cancel_slab := (rt_cancel_slab rt)[i := s']\<rparr>)"
    using assms(1) u by (simp add: slabs_ok_def del: dom_fun_upd)
  show "css.view ((rt_cancel_slab rt)[i := s']) = (cxs rt)(i \<mapsto> s')" by (rule u(2))
qed

text \<open>Returning a live slot to its stack removes one entry.\<close>

lemma slabs_ok_free_io:
  assumes "slabs_ok rt" "ops rt i = Some s" "io_slot_free_next s' = Some (rt_free_slots_head rt)"
  shows "slabs_ok (rt\<lparr>rt_io_slab := (rt_io_slab rt)[i := s'], rt_inflight_ops := rt_inflight_ops rt - 1,
                      rt_free_slots_head := i\<rparr>)"
    and "ios.view ((rt_io_slab rt)[i := s']) = (ops rt)(i := None)" and "1 \<le> rt_inflight_ops rt"
proof -
  have io: "ios.ok (rt_io_slab rt) (rt_free_slots_head rt)" "length (rt_io_slab rt) \<le> FREE_NONE"
    "rt_inflight_ops rt = card (dom (ops rt))" using assms(1) by (auto simp: slabs_ok_def)
  have "i \<noteq> FREE_NONE" using assms(2) io(2) by (auto simp: ios.view_Some)
  note u = ios.push_ok [OF io(1) assms(2) this assms(3)]
  show "slabs_ok (rt\<lparr>rt_io_slab := (rt_io_slab rt)[i := s'], rt_inflight_ops := rt_inflight_ops rt - 1,
                      rt_free_slots_head := i\<rparr>)"
    using assms(1) u io(3) card_dom_del [OF ios.finite_view, of "rt_io_slab rt" i s] assms(2)
    by (simp add: slabs_ok_def del: dom_fun_upd)
  show "ios.view ((rt_io_slab rt)[i := s']) = (ops rt)(i := None)" by (rule u(2))
  show "1 \<le> rt_inflight_ops rt"
    using io(3) assms(2) ios.finite_view [of "rt_io_slab rt"] by (metis One_nat_def Suc_leI card_gt_0_iff domI empty_iff)
qed

lemma slabs_ok_free_cancel:
  assumes "slabs_ok rt" "cxs rt i = Some s" "cancel_slot_free_next s' = Some (rt_free_cancels_head rt)"
  shows "slabs_ok (rt\<lparr>rt_cancel_slab := (rt_cancel_slab rt)[i := s'],
                      rt_inflight_cancels := rt_inflight_cancels rt - 1, rt_free_cancels_head := i\<rparr>)"
    and "css.view ((rt_cancel_slab rt)[i := s']) = (cxs rt)(i := None)" and "1 \<le> rt_inflight_cancels rt"
proof -
  have io: "css.ok (rt_cancel_slab rt) (rt_free_cancels_head rt)" "length (rt_cancel_slab rt) \<le> FREE_NONE"
    "rt_inflight_cancels rt = card (dom (cxs rt))" using assms(1) by (auto simp: slabs_ok_def)
  have "i \<noteq> FREE_NONE" using assms(2) io(2) by (auto simp: css.view_Some)
  note u = css.push_ok [OF io(1) assms(2) this assms(3)]
  show "slabs_ok (rt\<lparr>rt_cancel_slab := (rt_cancel_slab rt)[i := s'],
                      rt_inflight_cancels := rt_inflight_cancels rt - 1, rt_free_cancels_head := i\<rparr>)"
    using assms(1) u io(3) card_dom_del [OF css.finite_view, of "rt_cancel_slab rt" i s] assms(2)
    by (simp add: slabs_ok_def del: dom_fun_upd)
  show "css.view ((rt_cancel_slab rt)[i := s']) = (cxs rt)(i := None)" by (rule u(2))
  show "1 \<le> rt_inflight_cancels rt"
    using io(3) assms(2) css.finite_view [of "rt_cancel_slab rt"] by (metis One_nat_def Suc_leI card_gt_0_iff domI empty_iff)
qed

end
