(* ===== verification/Runtime_Safety.thy ===== *)
theory Runtime_Safety
  imports Op_Slabs
begin

text \<open>
  The invariant of the runtime and what each operation does to the two partial maps of live slots:
  \<open>ops\<close>, from slot index to live operation, and \<open>cxs\<close>, from cancel-slot index to live cancellation.

  \<open>rt_inv G\<close> has a set \<open>G\<close> of gap slots: while a cancel callback runs, the operation it cancelled
  is still in its slot although its local has been moved out, so that slot is exempt. Outside
  such a callback \<open>G\<close> is empty.
\<close>

section \<open>The cancel mark in an id\<close>

lemma pending_bit: "is_cancel_pending x \<longleftrightarrow> bit x 62"
  by (simp add: is_cancel_pending_def CANCEL_PENDING_def bit_iff_and_push_bit_not_eq_0)

lemma bit_CANCEL_PENDING: "bit CANCEL_PENDING n \<longleftrightarrow> n = 62"
  unfolding CANCEL_PENDING_def bit_push_bit_iff by (auto simp: bit_1_iff)

lemma id_bits_mark [simp]: "id_bits (x OR CANCEL_PENDING) = id_bits x"
  by (rule bit_eqI) (auto simp: id_bits_def bit_simps bit_CANCEL_PENDING)

lemma pending_mark [simp]: "is_cancel_pending (x OR CANCEL_PENDING)"
  by (simp add: pending_bit bit_simps bit_CANCEL_PENDING)

lemma id_bits_unmark [simp]: "id_bits (x AND NOT CANCEL_PENDING) = id_bits x"
  by (rule bit_eqI) (auto simp: id_bits_def bit_simps bit_CANCEL_PENDING)

lemma pending_unmark [simp]: "\<not> is_cancel_pending (x AND NOT CANCEL_PENDING)"
  by (simp add: pending_bit bit_simps bit_CANCEL_PENDING)

lemma small_id:
  assumes "x < MAX_OP_ID" shows "id_bits x = x" and "\<not> is_cancel_pending x"
proof -
  have "unat x < unat MAX_OP_ID" using assms by (simp add: word_less_nat_alt)
  also have "unat MAX_OP_ID = 2 ^ 62" by (simp add: MAX_OP_ID_def CANCEL_PENDING_def)
  finally have b: "n < 62" if "bit x n" for n using word_bits_below that by blast
  then show "\<not> is_cancel_pending x" by (auto simp: pending_bit)
  show "id_bits x = x"
    by (rule bit_eqI) (use b in \<open>auto simp: id_bits_def bit_simps bit_CANCEL_PENDING\<close>)
qed

lemma id_bits_zero [simp]: "id_bits 0 = 0"
  by (simp add: id_bits_def)

section \<open>The invariant\<close>

definition maps_ok ::
  "nat set \<Rightarrow> u64 \<Rightarrow> (nat \<rightharpoonup> ('l, 'sh, 'd) io_slot) \<Rightarrow> (nat \<rightharpoonup> ('l, 'cd) cancel_slot) \<Rightarrow> bool"
where
  "maps_ok G nxt M C \<longleftrightarrow>
     0 < nxt \<and> nxt \<le> MAX_OP_ID \<and>
     (\<forall>i s. M i = Some s \<longrightarrow> id_bits (os_id s) \<noteq> 0 \<and> id_bits (os_id s) < nxt \<and>
        (\<exists>sh d. os_body s = Live sh d) \<and> (i \<notin> G \<longrightarrow> os_local s \<noteq> None)) \<and>
     (\<forall>i j s t. M i = Some s \<and> M j = Some t \<and> id_bits (os_id s) = id_bits (os_id t) \<longrightarrow> i = j) \<and>
     (\<forall>c x. C c = Some x \<longrightarrow> cs_local x \<noteq> None \<and> (\<exists>d. cs_body x = CancelDone d) \<and> cs_target x \<notin> G \<and>
        (\<exists>s. M (cs_target x) = Some s \<and> is_cancel_pending (os_id s) \<and>
             id_bits (os_id s) = cs_target_id x)) \<and>
     (\<forall>i s. M i = Some s \<and> i \<notin> G \<and> is_cancel_pending (os_id s) \<longrightarrow> (\<exists>c x. C c = Some x \<and> cs_target x = i)) \<and>
     (\<forall>c c' x x'. C c = Some x \<and> C c' = Some x' \<and> cs_target x = cs_target x' \<longrightarrow> c = c') \<and>
     (\<forall>i \<in> G. \<exists>s. M i = Some s \<and> is_cancel_pending (os_id s))"

definition rt_inv :: "nat set \<Rightarrow> ('g, 'l, 'sh, 'd, 'cd, 'b) runtime \<Rightarrow> bool" where
  "rt_inv G rt \<longleftrightarrow> slabs_ok rt \<and> maps_ok G (rt_next_op_id rt) (ops rt) (cxs rt)"

lemma rt_inv_new: "0 < i \<Longrightarrow> i \<le> MAX_OP_ID \<Longrightarrow> rt_inv {} (runtime_new b g i)"
  using ios.ok_empty css.ok_empty
  by (simp add: rt_inv_def slabs_ok_def maps_ok_def runtime_new_def FREE_NONE_def)

lemma rt_inv_irrelevant [simp]:
  "rt_inv G (rt\<lparr>rt_backend := b\<rparr>) = rt_inv G rt"
  "rt_inv G (rt\<lparr>rt_buf_arena := a\<rparr>) = rt_inv G rt"
  "rt_inv G (rt\<lparr>rt_global := g\<rparr>) = rt_inv G rt"
  "rt_inv G (rt\<lparr>rt_dropped := ls\<rparr>) = rt_inv G rt"
  "slabs_ok (rt\<lparr>rt_backend := b\<rparr>) = slabs_ok rt"
  "slabs_ok (rt\<lparr>rt_buf_arena := a\<rparr>) = slabs_ok rt"
  "slabs_ok (rt\<lparr>rt_global := g\<rparr>) = slabs_ok rt"
  "slabs_ok (rt\<lparr>rt_dropped := ls\<rparr>) = slabs_ok rt"
  "slabs_ok (rt\<lparr>rt_next_op_id := i\<rparr>) = slabs_ok rt"
  by (simp_all add: rt_inv_def slabs_ok_def)

lemma rt_inv_drop_local [simp]: "rt_inv G (drop_local l rt) = rt_inv G rt"
  by (simp add: drop_local_def)

lemma next_id_step:
  assumes "x < MAX_OP_ID"
  shows "0 < x + 1" "x + 1 \<le> MAX_OP_ID" "y \<le> x \<Longrightarrow> y < x + 1"
proof -
  have "unat x < 2 ^ 62" using assms by (simp add: word_less_nat_alt MAX_OP_ID_def CANCEL_PENDING_def)
  then have u: "unat (x + 1) = Suc (unat x)" by (simp add: unat_word_ariths(1))
  then show "0 < x + 1" "y \<le> x \<Longrightarrow> y < x + 1" by (simp_all add: word_less_nat_alt word_le_nat_alt)
  show "x + 1 \<le> MAX_OP_ID" by (rule inc_le [OF assms])
qed

section \<open>The maps under the operations\<close>

lemma maps_okD:
  assumes "maps_ok G nxt M C"
  shows "0 < nxt" "nxt \<le> MAX_OP_ID"
    and "M i = Some s \<Longrightarrow> id_bits (os_id s) \<noteq> 0" "M i = Some s \<Longrightarrow> id_bits (os_id s) < nxt"
    and "M i = Some s \<Longrightarrow> \<exists>sh d. os_body s = Live sh d"
    and "M i = Some s \<Longrightarrow> i \<notin> G \<Longrightarrow> \<exists>l. os_local s = Some l"
    and "M i = Some s \<Longrightarrow> M j = Some t \<Longrightarrow> id_bits (os_id s) = id_bits (os_id t) \<Longrightarrow> i = j"
    and "C c = Some x \<Longrightarrow> \<exists>l d. cs_local x = Some l \<and> cs_body x = CancelDone d"
    and "C c = Some x \<Longrightarrow> cs_target x \<notin> G"
    and "C c = Some x \<Longrightarrow>
      \<exists>s. M (cs_target x) = Some s \<and> is_cancel_pending (os_id s) \<and> id_bits (os_id s) = cs_target_id x"
    and "M i = Some s \<Longrightarrow> i \<notin> G \<Longrightarrow> is_cancel_pending (os_id s) \<Longrightarrow> \<exists>c x. C c = Some x \<and> cs_target x = i"
    and "C c = Some x \<Longrightarrow> C c' = Some x' \<Longrightarrow> cs_target x = cs_target x' \<Longrightarrow> c = c'"
    and "i \<in> G \<Longrightarrow> \<exists>s. M i = Some s \<and> is_cancel_pending (os_id s)"
  using assms unfolding maps_ok_def by (elim conjE, blast)+

lemma maps_okI:
  assumes "0 < nxt" "nxt \<le> MAX_OP_ID"
    and "\<And>i s. M i = Some s \<Longrightarrow> id_bits (os_id s) \<noteq> 0 \<and> id_bits (os_id s) < nxt \<and>
        (\<exists>sh d. os_body s = Live sh d) \<and> (i \<notin> G \<longrightarrow> os_local s \<noteq> None)"
    and "\<And>i j s t. M i = Some s \<Longrightarrow> M j = Some t \<Longrightarrow> id_bits (os_id s) = id_bits (os_id t) \<Longrightarrow> i = j"
    and "\<And>c x. C c = Some x \<Longrightarrow> cs_local x \<noteq> None \<and> (\<exists>d. cs_body x = CancelDone d) \<and> cs_target x \<notin> G \<and>
        (\<exists>s. M (cs_target x) = Some s \<and> is_cancel_pending (os_id s) \<and> id_bits (os_id s) = cs_target_id x)"
    and "\<And>i s. M i = Some s \<Longrightarrow> i \<notin> G \<Longrightarrow> is_cancel_pending (os_id s) \<Longrightarrow> \<exists>c x. C c = Some x \<and> cs_target x = i"
    and "\<And>c c' x x'. C c = Some x \<Longrightarrow> C c' = Some x' \<Longrightarrow> cs_target x = cs_target x' \<Longrightarrow> c = c'"
    and "\<And>i. i \<in> G \<Longrightarrow> \<exists>s. M i = Some s \<and> is_cancel_pending (os_id s)"
  shows "maps_ok G nxt M C"
  unfolding maps_ok_def using assms by blast

lemma maps_ok_add_op:
  assumes ok: "maps_ok G nxt M C" and new: "M i = None" "nxt < MAX_OP_ID" "os_id s = nxt"
    "os_body s = Live sh d" "os_local s \<noteq> None"
  shows "maps_ok G (nxt + 1) (M(i \<mapsto> s)) C"
proof (rule maps_okI)
  note D = maps_okD [OF ok] and sm = small_id [OF new(2)] and st = next_id_step [OF new(2)]
  have g: "i \<notin> G" using D(13) new(1) by fastforce
  have tgt: "cs_target x \<noteq> i" if "C c = Some x" for c x using D(10) [OF that] new(1) by auto
  show "0 < nxt + 1" "nxt + 1 \<le> MAX_OP_ID" using st by simp_all
  show "id_bits (os_id t) \<noteq> 0 \<and> id_bits (os_id t) < nxt + 1 \<and> (\<exists>sh d. os_body t = Live sh d) \<and>
      (j \<notin> G \<longrightarrow> os_local t \<noteq> None)" if "(M(i \<mapsto> s)) j = Some t" for j t
    using that new sm st D(1,3-6) by (cases "j = i") (auto simp: less_imp_le)
  show "j = k" if "(M(i \<mapsto> s)) j = Some t" "(M(i \<mapsto> s)) k = Some u"
    "id_bits (os_id t) = id_bits (os_id u)" for j k t u
    using that new(3) sm(1) D(4) [of j t] D(4) [of k u] D(7) [of j t k u]
    by (cases "j = i"; cases "k = i") auto
  show "cs_local x \<noteq> None \<and> (\<exists>d. cs_body x = CancelDone d) \<and> cs_target x \<notin> G \<and>
      (\<exists>t. (M(i \<mapsto> s)) (cs_target x) = Some t \<and> is_cancel_pending (os_id t) \<and> id_bits (os_id t) = cs_target_id x)"
    if "C c = Some x" for c x
    using D(8) [OF that] D(9) [OF that] D(10) [OF that] tgt [OF that] by auto
  show "\<exists>c x. C c = Some x \<and> cs_target x = j"
    if "(M(i \<mapsto> s)) j = Some t" "j \<notin> G" "is_cancel_pending (os_id t)" for j t
    using that new(3) sm(2) D(11) [of j t] by (cases "j = i") auto
  show "c = c'" if "C c = Some x" "C c' = Some x'" "cs_target x = cs_target x'" for c c' x x'
    using D(12) that by blast
  show "\<exists>t. (M(i \<mapsto> s)) j = Some t \<and> is_cancel_pending (os_id t)" if "j \<in> G" for j
    using D(13) [OF that] g that by auto
qed

lemma maps_ok_next:
  assumes "maps_ok G nxt M C" "nxt < MAX_OP_ID" shows "maps_ok G (nxt + 1) M C"
  using assms next_id_step [OF assms(2)] unfolding maps_ok_def by (auto simp: less_imp_le)

text \<open>Marking an operation and recording its cancellation.\<close>

lemma maps_ok_add_cancel:
  assumes ok: "maps_ok G nxt M C" and s: "M i = Some s" "\<not> is_cancel_pending (os_id s)"
    and x: "C c = None" "cs_target x = i" "cs_target_id x = id_bits (os_id s)" "cs_local x \<noteq> None"
      "cs_body x = CancelDone d"
  shows "maps_ok G nxt (M(i \<mapsto> s\<lparr>os_id := os_id s OR CANCEL_PENDING\<rparr>)) (C(c \<mapsto> x))"
    (is "maps_ok G nxt (M(i \<mapsto> ?s)) (C(c \<mapsto> x))")
proof (rule maps_okI)
  note D = maps_okD [OF ok]
  have g: "i \<notin> G" using D(13) s by fastforce
  have tgt: "cs_target y \<noteq> i" if "C k = Some y" for k y using D(10) [OF that] s by auto
  show "0 < nxt" "nxt \<le> MAX_OP_ID" using D by simp_all
  show "id_bits (os_id t) \<noteq> 0 \<and> id_bits (os_id t) < nxt \<and> (\<exists>sh d. os_body t = Live sh d) \<and>
      (j \<notin> G \<longrightarrow> os_local t \<noteq> None)" if "(M(i \<mapsto> ?s)) j = Some t" for j t
    using that s(1) D(3-6) by (cases "j = i") auto
  show "j = k" if "(M(i \<mapsto> ?s)) j = Some t" "(M(i \<mapsto> ?s)) k = Some u"
    "id_bits (os_id t) = id_bits (os_id u)" for j k t u
    using that s(1) D(7) by (cases "j = i"; cases "k = i") auto
  show "cs_local y \<noteq> None \<and> (\<exists>d. cs_body y = CancelDone d) \<and> cs_target y \<notin> G \<and>
      (\<exists>t. (M(i \<mapsto> ?s)) (cs_target y) = Some t \<and> is_cancel_pending (os_id t) \<and> id_bits (os_id t) = cs_target_id y)"
    if "(C(c \<mapsto> x)) k = Some y" for k y
    using that x g D(8) [of k y] D(9) [of k y] D(10) [of k y] tgt [of k y] by (cases "k = c") auto
  show "\<exists>k y. (C(c \<mapsto> x)) k = Some y \<and> cs_target y = j"
    if j: "(M(i \<mapsto> ?s)) j = Some t" "j \<notin> G" "is_cancel_pending (os_id t)" for j t
  proof (cases "j = i")
    case True
    then show ?thesis using x(2) by (intro exI [of _ c]) simp
  next
    case False
    then obtain k y where "C k = Some y" "cs_target y = j" using j D(11) [of j t] by auto
    then show ?thesis using x(1) by (intro exI [of _ k]) auto
  qed
  show "k = k'" if "(C(c \<mapsto> x)) k = Some y" "(C(c \<mapsto> x)) k' = Some y'" "cs_target y = cs_target y'" for k k' y y'
    using that x(2) D(12) tgt by (cases "k = c"; cases "k' = c") auto
  show "\<exists>t. (M(i \<mapsto> ?s)) j = Some t \<and> is_cancel_pending (os_id t)" if "j \<in> G" for j
    using D(13) [OF that] g that by auto
qed

text \<open>Removing a cancellation whose target leaves the map or enters the gap.\<close>

lemma maps_ok_del_cancel:
  assumes ok: "maps_ok G nxt M C" and x: "C c = Some x"
    and s: "M (cs_target x) = Some s" and s': "id_bits (os_id s') = id_bits (os_id s)" "os_body s' = os_body s"
    and G': "G' = (if is_cancel_pending (os_id s') then insert (cs_target x) G else G)"
      "cs_target x \<notin> G' \<Longrightarrow> os_local s' \<noteq> None"
  shows "maps_ok G' nxt (M(cs_target x \<mapsto> s')) (C(c := None))"
proof (rule maps_okI)
  let ?i = "cs_target x"
  note D = maps_okD [OF ok]
  have tgt: "cs_target y \<noteq> ?i" if "C k = Some y" "k \<noteq> c" for k y using D(12) [OF that(1) x] that(2) by auto
  show "0 < nxt" "nxt \<le> MAX_OP_ID" using D by simp_all
  show "id_bits (os_id t) \<noteq> 0 \<and> id_bits (os_id t) < nxt \<and> (\<exists>sh d. os_body t = Live sh d) \<and>
      (j \<notin> G' \<longrightarrow> os_local t \<noteq> None)" if "(M(?i \<mapsto> s')) j = Some t" for j t
    using that s s' G' D(3-6) [of j] D(3-6) [OF s] by (cases "j = ?i") (auto split: if_splits)
  show "j = k" if "(M(?i \<mapsto> s')) j = Some t" "(M(?i \<mapsto> s')) k = Some u"
    "id_bits (os_id t) = id_bits (os_id u)" for j k t u
    using that s s'(1) D(7) by (cases "j = ?i"; cases "k = ?i") auto
  show "cs_local y \<noteq> None \<and> (\<exists>d. cs_body y = CancelDone d) \<and> cs_target y \<notin> G' \<and>
      (\<exists>t. (M(?i \<mapsto> s')) (cs_target y) = Some t \<and> is_cancel_pending (os_id t) \<and> id_bits (os_id t) = cs_target_id y)"
    if "(C(c := None)) k = Some y" for k y
    using that G'(1) D(8) [of k y] D(9) [of k y] D(10) [of k y] tgt [of k y]
    by (auto split: if_splits)
  show "\<exists>k y. (C(c := None)) k = Some y \<and> cs_target y = j"
    if j: "(M(?i \<mapsto> s')) j = Some t" "j \<notin> G'" "is_cancel_pending (os_id t)" for j t
  proof -
    have ne: "j \<noteq> ?i" "j \<notin> G" using j G'(1) by (auto split: if_splits)
    then obtain k y where "C k = Some y" "cs_target y = j" using j D(11) [of j t] by auto
    then show ?thesis using x ne by (intro exI [of _ k]) auto
  qed
  show "k = k'" if "(C(c := None)) k = Some y" "(C(c := None)) k' = Some y'" "cs_target y = cs_target y'" for k k' y y'
    using that D(12) by (auto split: if_splits)
  show "\<exists>t. (M(?i \<mapsto> s')) j = Some t \<and> is_cancel_pending (os_id t)" if "j \<in> G'" for j
    using that G'(1) D(9) [OF x] D(13) [of j] by (cases "j = ?i") (auto split: if_splits)
qed

text \<open>An operation leaves: nothing refers to it any more.\<close>

lemma maps_ok_del_op:
  assumes ok: "maps_ok G nxt M C" and free: "\<And>c x. C c = Some x \<Longrightarrow> cs_target x \<noteq> i"
  shows "maps_ok (G - {i}) nxt (M(i := None)) C"
proof (rule maps_okI)
  note D = maps_okD [OF ok]
  show "0 < nxt" "nxt \<le> MAX_OP_ID" using D by simp_all
  show "id_bits (os_id t) \<noteq> 0 \<and> id_bits (os_id t) < nxt \<and> (\<exists>sh d. os_body t = Live sh d) \<and>
      (j \<notin> G - {i} \<longrightarrow> os_local t \<noteq> None)" if "(M(i := None)) j = Some t" for j t
    using that D(3-6) [of j t] by (auto split: if_splits)
  show "j = k" if "(M(i := None)) j = Some t" "(M(i := None)) k = Some u"
    "id_bits (os_id t) = id_bits (os_id u)" for j k t u
    using that D(7) by (auto split: if_splits)
  show "cs_local y \<noteq> None \<and> (\<exists>d. cs_body y = CancelDone d) \<and> cs_target y \<notin> G - {i} \<and>
      (\<exists>t. (M(i := None)) (cs_target y) = Some t \<and> is_cancel_pending (os_id t) \<and> id_bits (os_id t) = cs_target_id y)"
    if "C k = Some y" for k y
    using that D(8) [of k y] D(9) [of k y] D(10) [of k y] free [of k y] by auto
  show "\<exists>k y. C k = Some y \<and> cs_target y = j"
    if "(M(i := None)) j = Some t" "j \<notin> G - {i}" "is_cancel_pending (os_id t)" for j t
    using that D(11) [of j t] by (auto split: if_splits)
  show "k = k'" if "C k = Some y" "C k' = Some y'" "cs_target y = cs_target y'" for k k' y y'
    using that D(12) by blast
  show "\<exists>t. (M(i := None)) j = Some t \<and> is_cancel_pending (os_id t)" if "j \<in> G - {i}" for j
    using that D(13) [of j] by auto
qed

section \<open>Registering an operation\<close>

lemma idx_view_io: "ops rt i = Some s \<Longrightarrow> idx (rt_io_slab rt) i = Some s"
  by (simp add: ios.view_Some)

lemma idx_view_cancel: "cxs rt i = Some s \<Longrightarrow> idx (rt_cancel_slab rt) i = Some s"
  by (simp add: css.view_Some)

lemma alive_id: "id_bits (os_id s) \<noteq> 0 \<Longrightarrow> io_alive s"
  by (auto simp: io_alive_def is_free_def)

text \<open>A slot is freed after its local has been moved or dropped.\<close>

lemma free_op_slot_taken_spec:
  assumes ok: "slabs_ok rt" and s: "ops rt i = Some s" and ret: "free_op_slot_taken rt i = Some rt'"
  shows "slabs_ok rt' \<and> ops rt' = (ops rt)(i := None) \<and> rt_cancel_slab rt' = rt_cancel_slab rt \<and>
    rt_next_op_id rt' = rt_next_op_id rt \<and> rt_global rt' = rt_global rt \<and> rt_dropped rt' = rt_dropped rt \<and>
    rt_backend rt' = rt_backend rt \<and> rt_buf_arena rt' = rt_buf_arena rt"
proof -
  let ?s = "s\<lparr>os_id := 0, os_buf := BUF_NONE, os_buf_len := 0, os_body := FreeLink (rt_free_slots_head rt)\<rparr>"
  have rt': "rt' = rt\<lparr>rt_io_slab := (rt_io_slab rt)[i := ?s], rt_inflight_ops := rt_inflight_ops rt - 1,
                      rt_free_slots_head := i\<rparr>"
    using ret idx_view_io [OF s]
    by (auto simp: free_op_slot_taken_def with_io_slot_def io_slot_push_free_def bind_eq_Some_conv)
  have "io_slot_free_next ?s = Some (rt_free_slots_head rt)"
    by (simp add: io_slot_free_next_def is_free_def)
  from slabs_ok_free_io [OF ok s this] show ?thesis by (simp add: rt')
qed

lemma free_op_slot_spec:
  assumes ok: "slabs_ok rt" and s: "ops rt i = Some s" and ret: "free_op_slot rt i = Some rt'"
  shows "slabs_ok rt' \<and> ops rt' = (ops rt)(i := None) \<and> rt_cancel_slab rt' = rt_cancel_slab rt \<and>
    rt_next_op_id rt' = rt_next_op_id rt \<and> rt_global rt' = rt_global rt \<and>
    (\<exists>l. os_local s = Some l \<and> rt_dropped rt' = rt_dropped rt @ [l])"
proof -
  let ?s = "s\<lparr>os_local := None, os_id := 0, os_buf := BUF_NONE, os_buf_len := 0,
              os_body := FreeLink (rt_free_slots_head rt)\<rparr>"
  obtain l where l: "os_local s = Some l" and rt': "rt' = rt\<lparr>rt_io_slab := (rt_io_slab rt)[i := ?s],
      rt_inflight_ops := rt_inflight_ops rt - 1, rt_free_slots_head := i, rt_dropped := rt_dropped rt @ [l]\<rparr>"
    using ret idx_view_io [OF s]
    by (auto simp: free_op_slot_def with_io_slot_def io_slot_push_free_def drop_local_def Let_def
        bind_eq_Some_conv)
  have "io_slot_free_next ?s = Some (rt_free_slots_head rt)"
    by (simp add: io_slot_free_next_def is_free_def)
  from slabs_ok_free_io [OF ok s this] show ?thesis
    using l by (simp add: rt' slabs_ok_def)
qed

text \<open>What a registration promises: a fresh entry on success, no trace but the dropped local on error.\<close>

definition registered where
  "registered rt rt' sh d l cls r \<longleftrightarrow>
     cxs rt' = cxs rt \<and> rt_global rt' = rt_global rt \<and>
     rt_next_op_id rt < MAX_OP_ID \<and> rt_next_op_id rt' = rt_next_op_id rt + 1 \<and>
     (case r of
        Inr p \<Rightarrow> op_id p = rt_next_op_id rt \<and> op_class p = cls \<and> ops rt (op_slot p) = None \<and>
          rt_dropped rt' = rt_dropped rt \<and>
          (\<exists>s. ops rt' = (ops rt)(op_slot p \<mapsto> s) \<and> os_id s = op_id p \<and> os_local s = Some l \<and>
               os_body s = Live sh d)
      | Inl e \<Rightarrow> ops rt' = ops rt \<and> rt_dropped rt' = rt_dropped rt @ [l])"

lemma alloc_buf_run_shape:
  "alloc_buf_run rt bufs = Some (rt', run) \<Longrightarrow> \<exists>a. rt' = rt\<lparr>rt_buf_arena := a\<rparr>"
proof (cases "bufs = []")
  case True
  assume "alloc_buf_run rt bufs = Some (rt', run)"
  then show ?thesis using True by (intro exI [of _ "rt_buf_arena rt"]) (simp add: alloc_buf_run_def)
next
  case False
  assume "alloc_buf_run rt bufs = Some (rt', run)"
  then show ?thesis using False by (auto simp: alloc_buf_run_def Let_def bind_eq_Some_conv)
qed

lemma claim_op_spec:
  assumes inv: "rt_inv G rt" and ret: "claim_op rt sh d l bufs = Some (rt', i, n)"
  shows "rt_inv G rt' \<and> n = rt_next_op_id rt \<and> ops rt i = None \<and> rt_cancel_slab rt' = rt_cancel_slab rt \<and>
    n < MAX_OP_ID \<and> rt_next_op_id rt' = n + 1 \<and> rt_global rt' = rt_global rt \<and> rt_dropped rt' = rt_dropped rt \<and>
    (\<exists>s. ops rt' = (ops rt)(i \<mapsto> s) \<and> os_id s = n \<and> os_local s = Some l \<and> os_body s = Live sh d)"
proof -
  have ok: "slabs_ok rt" and maps: "maps_ok G (rt_next_op_id rt) (ops rt) (cxs rt)"
    using inv by (auto simp: rt_inv_def)
  obtain rt1 rt2 run buf len where al: "alloc_op_slot rt = Some (rt1, i)" and n: "n = rt_next_op_id rt1"
    and small: "n < MAX_OP_ID"
    and run: "alloc_buf_run (rt1\<lparr>rt_next_op_id := n + 1\<rparr>) bufs = Some (rt2, run)"
    and cl: "with_io_slot rt2 i (\<lambda>s. io_slot_claim s n sh d l buf len) = Some rt'"
    using ret unfolding claim_op_def next_op_id_def Let_def
    by (auto simp: bind_eq_Some_conv split_def)
  obtain a where rt2: "rt2 = rt1\<lparr>rt_next_op_id := n + 1, rt_buf_arena := a\<rparr>"
    using alloc_buf_run_shape [OF run] by auto
  define s where "s = (rt_io_slab rt2 ! i)\<lparr>os_id := n, os_local := Some l, os_buf := buf,
      os_buf_len := len, os_body := Live sh d\<rparr>"
  have s: "os_id s = n" "os_local s = Some l" "os_body s = Live sh d" by (simp_all add: s_def)
  have rt': "rt' = rt2\<lparr>rt_io_slab := (rt_io_slab rt2)[i := s]\<rparr>"
    using cl by (auto simp: s_def with_io_slot_def io_slot_claim_def bind_eq_Some_conv)
  have nn: "n \<noteq> 0" "n = rt_next_op_id rt"
    using maps_okD(1) [OF maps] alloc_op_slot_claim [OF ok al, of "s\<lparr>os_id := 1\<rparr>"] n
    by (auto simp: io_claimed_def io_alive_def is_free_def)
  then have "io_alive s" using s by (simp add: io_alive_def is_free_def)
  note c = alloc_op_slot_claim [OF ok al this]
  have "slabs_ok rt'"
    using c unfolding rt' rt2 io_claimed_def slabs_ok_def by auto
  moreover have "ops rt' = (ops rt)(i \<mapsto> s)" "ops rt i = None" "rt_cancel_slab rt' = rt_cancel_slab rt"
    "rt_global rt' = rt_global rt" "rt_dropped rt' = rt_dropped rt" "rt_next_op_id rt' = n + 1"
    using c by (auto simp: rt' rt2 io_claimed_def)
  moreover have "maps_ok G (n + 1) ((ops rt)(i \<mapsto> s)) (cxs rt)"
    using maps_ok_add_op [OF maps _ _ _ s(3), of i] c small nn s by (auto simp: io_claimed_def)
  ultimately show ?thesis using nn s small by (auto simp: rt_inv_def)
qed

lemma release_unarmed_spec:
  assumes ok: "slabs_ok rt" and s: "ops rt i = Some s" and ret: "release_unarmed rt i = Some rt'"
  shows "slabs_ok rt' \<and> ops rt' = (ops rt)(i := None) \<and> rt_cancel_slab rt' = rt_cancel_slab rt \<and>
    rt_next_op_id rt' = rt_next_op_id rt \<and> rt_global rt' = rt_global rt \<and>
    (\<exists>l. os_local s = Some l \<and> rt_dropped rt' = rt_dropped rt @ [l])"
proof -
  let ?s = "s\<lparr>os_buf := BUF_NONE, os_buf_len := 0\<rparr>"
  obtain a where f: "free_op_slot (rt\<lparr>rt_io_slab := (rt_io_slab rt)[i := ?s], rt_buf_arena := a\<rparr>) i = Some rt'"
  proof -
    have "\<exists>a. free_op_slot (rt\<lparr>rt_io_slab := (rt_io_slab rt)[i := ?s], rt_buf_arena := a\<rparr>) i = Some rt'"
    proof (cases "os_buf s = BUF_NONE")
      case True
      then show ?thesis
        using ret idx_view_io [OF s]
        by (intro exI [of _ "rt_buf_arena rt"]) (simp add: release_unarmed_def io_slot_take_buf_run_def)
    next
      case False
      then show ?thesis
        using ret idx_view_io [OF s]
        by (auto simp: release_unarmed_def io_slot_take_buf_run_def bind_eq_Some_conv)
    qed
    then show ?thesis using that by blast
  qed
  have "io_alive s" using s by (auto simp: ios.view_Some)
  then have al: "io_alive ?s" by (simp add: io_alive_def)
  note u = slabs_ok_update_io [OF ok s al]
  have "slabs_ok (rt\<lparr>rt_io_slab := (rt_io_slab rt)[i := ?s], rt_buf_arena := a\<rparr>)"
    using u(1) by (simp add: slabs_ok_def)
  from free_op_slot_spec [OF this _ f, of ?s] show ?thesis using u(2) by simp
qed

lemma register_op_spec:
  assumes inv: "rt_inv G rt" and ret: "register_op be rt sh d l cls bufs req = Some (rt', r)"
  shows "rt_inv G rt' \<and> registered rt rt' sh d l cls r"
proof -
  obtain rt1 i n b a where cl: "claim_op rt sh d l bufs = Some (rt1, i, n)"
    and arm: "be_arm be (rt_backend rt1) i cls req = (b, a)"
    using ret by (cases "claim_op rt sh d l bufs") (auto simp: register_op_def split: prod.splits)
  obtain s where c: "rt_inv G rt1" "n = rt_next_op_id rt" "ops rt i = None" "rt_cancel_slab rt1 = rt_cancel_slab rt"
    "rt_global rt1 = rt_global rt" "rt_dropped rt1 = rt_dropped rt" "ops rt1 = (ops rt)(i \<mapsto> s)"
    "os_id s = n" "os_local s = Some l" "os_body s = Live sh d" "n < MAX_OP_ID" "rt_next_op_id rt1 = n + 1"
    using claim_op_spec [OF inv cl] by blast
  show ?thesis
  proof (cases a)
    case (Inr u)
    then have "rt' = rt1\<lparr>rt_backend := b\<rparr>" "r = Inr \<lparr>op_slot = i, op_class = cls, op_id = n\<rparr>"
      using ret cl arm by (auto simp: register_op_def)
    then show ?thesis using c by (auto simp: registered_def)
  next
    case (Inl e)
    then have r: "r = Inl e" and rel: "release_unarmed (rt1\<lparr>rt_backend := b\<rparr>) i = Some rt'"
      using ret cl arm by (auto simp: register_op_def)
    have ok1: "slabs_ok (rt1\<lparr>rt_backend := b\<rparr>)" using c(1) by (simp add: rt_inv_def)
    have s1: "ops (rt1\<lparr>rt_backend := b\<rparr>) i = Some s" using c(7) by simp
    note f = release_unarmed_spec [OF ok1 s1 rel]
    have same: "ops rt' = ops rt" using f c(3,7) by (auto simp: fun_eq_iff)
    have "maps_ok G (rt_next_op_id rt1) ((ops rt1)(i := None)) (cxs rt1)"
    proof -
      have m: "maps_ok G (rt_next_op_id rt1) (ops rt1) (cxs rt1)" using c(1) by (simp add: rt_inv_def)
      have m0: "maps_ok G (rt_next_op_id rt) (ops rt) (cxs rt)" using inv by (simp add: rt_inv_def)
      have "cs_target x \<noteq> i" if "cxs rt1 k = Some x" for k x
        using maps_okD(10) [OF m0, of k x] that c(3,4) by auto
      moreover have "i \<notin> G" using maps_okD(13) [OF m0, of i] c(3) by auto
      ultimately show ?thesis using maps_ok_del_op [OF m, of i] by auto
    qed
    then have "rt_inv G rt'" using f by (simp add: rt_inv_def)
    then show ?thesis using f same c r by (auto simp: registered_def)
  qed
qed

section \<open>Cancelling an operation\<close>

lemma free_cancel_slot_spec:
  assumes ok: "slabs_ok rt" and x: "cxs rt c = Some x" and ret: "free_cancel_slot rt c = Some rt'"
  shows "slabs_ok rt' \<and> cxs rt' = (cxs rt)(c := None) \<and> rt_io_slab rt' = rt_io_slab rt \<and>
    rt_next_op_id rt' = rt_next_op_id rt \<and> rt_global rt' = rt_global rt \<and> rt_dropped rt' = rt_dropped rt"
proof -
  let ?x = "x\<lparr>cs_id := 0, cs_body := CancelFree (rt_free_cancels_head rt)\<rparr>"
  have rt': "rt' = rt\<lparr>rt_cancel_slab := (rt_cancel_slab rt)[c := ?x],
      rt_inflight_cancels := rt_inflight_cancels rt - 1, rt_free_cancels_head := c\<rparr>"
    using ret idx_view_cancel [OF x]
    by (auto simp: free_cancel_slot_def with_cancel_slot_def cancel_slot_push_free_def bind_eq_Some_conv)
  have "cancel_slot_free_next ?x = Some (rt_free_cancels_head rt)"
    by (simp add: cancel_slot_free_next_def is_free_def)
  from slabs_ok_free_cancel [OF ok x this] show ?thesis by (simp add: rt')
qed

lemma free_cancel_slot_dropping_spec:
  assumes ok: "slabs_ok rt" and x: "cxs rt c = Some x"
    and ret: "free_cancel_slot_dropping_local rt c = Some rt'"
  shows "slabs_ok rt' \<and> cxs rt' = (cxs rt)(c := None) \<and> rt_io_slab rt' = rt_io_slab rt \<and>
    rt_next_op_id rt' = rt_next_op_id rt \<and> rt_global rt' = rt_global rt \<and>
    (\<exists>l. cs_local x = Some l \<and> rt_dropped rt' = rt_dropped rt @ [l])"
proof -
  let ?x = "x\<lparr>cs_local := None, cs_id := 0, cs_body := CancelFree (rt_free_cancels_head rt)\<rparr>"
  obtain l where l: "cs_local x = Some l" and rt': "rt' = rt\<lparr>rt_cancel_slab := (rt_cancel_slab rt)[c := ?x],
      rt_inflight_cancels := rt_inflight_cancels rt - 1, rt_free_cancels_head := c,
      rt_dropped := rt_dropped rt @ [l]\<rparr>"
    using ret idx_view_cancel [OF x]
    by (auto simp: free_cancel_slot_dropping_local_def with_cancel_slot_def cancel_slot_push_free_def
        drop_local_def Let_def bind_eq_Some_conv)
  have "cancel_slot_free_next ?x = Some (rt_free_cancels_head rt)"
    by (simp add: cancel_slot_free_next_def is_free_def)
  from slabs_ok_free_cancel [OF ok x this] show ?thesis using l by (simp add: rt' slabs_ok_def)
qed

text \<open>A cancel slot is claimed with the victim's slot and id; a refused submission undoes it.\<close>

lemma submit_cancel_spec:
  assumes inv: "rt_inv G rt" and ret: "submit_cancel be rt p dn l = Some (rt', sub)"
  shows "slabs_ok rt' \<and> rt_io_slab rt' = rt_io_slab rt \<and> rt_next_op_id rt < MAX_OP_ID \<and>
    rt_next_op_id rt' = rt_next_op_id rt + 1 \<and> rt_global rt' = rt_global rt \<and>
    (if sub then rt_dropped rt' = rt_dropped rt \<and>
        (\<exists>c x. cxs rt c = None \<and> cxs rt' = (cxs rt)(c \<mapsto> x) \<and> cs_target x = op_slot p \<and>
           cs_target_id x = op_id p \<and> cs_local x = Some l \<and> cs_body x = CancelDone dn)
     else cxs rt' = cxs rt \<and> rt_dropped rt' = rt_dropped rt @ [l])"
proof -
  have ok: "slabs_ok rt" and maps: "maps_ok G (rt_next_op_id rt) (ops rt) (cxs rt)"
    using inv by (auto simp: rt_inv_def)
  obtain rt1 c rt2 where al: "alloc_cancel_slot rt = Some (rt1, c)" and small: "rt_next_op_id rt1 < MAX_OP_ID"
    and cl: "with_cancel_slot (rt1\<lparr>rt_next_op_id := rt_next_op_id rt1 + 1\<rparr>) c
        (\<lambda>s. cancel_slot_claim s (rt_next_op_id rt1) (op_slot p) (op_id p) dn l) = Some rt2"
    and fin0: "(let (b, a) = be_cancel be (rt_backend rt2) c (op_slot p) (op_class p) in
       if a = Inr True then Some (rt2\<lparr>rt_backend := b\<rparr>, True)
       else map_option (\<lambda>rt. (rt, False)) (free_cancel_slot_dropping_local (rt2\<lparr>rt_backend := b\<rparr>) c))
       = Some (rt', sub)"
    using ret unfolding submit_cancel_def next_op_id_def Let_def
    by (fastforce simp: bind_eq_Some_conv split_def split: if_splits)
  define b where "b = fst (be_cancel be (rt_backend rt2) c (op_slot p) (op_class p))"
  define a where "a = snd (be_cancel be (rt_backend rt2) c (op_slot p) (op_class p))"
  have fin: "(if a = Inr True then Some (rt2\<lparr>rt_backend := b\<rparr>, True)
       else map_option (\<lambda>rt. (rt, False)) (free_cancel_slot_dropping_local (rt2\<lparr>rt_backend := b\<rparr>) c))
       = Some (rt', sub)" using fin0 unfolding a_def b_def split_def Let_def .
  define x where "x = (rt_cancel_slab rt1 ! c)\<lparr>cs_id := rt_next_op_id rt1, cs_target := op_slot p,
      cs_target_id := op_id p, cs_local := Some l, cs_body := CancelDone dn\<rparr>"
  have rt2: "rt2 = rt1\<lparr>rt_next_op_id := rt_next_op_id rt1 + 1, rt_cancel_slab := (rt_cancel_slab rt1)[c := x]\<rparr>"
    using cl by (auto simp: x_def with_cancel_slot_def cancel_slot_claim_def bind_eq_Some_conv)
  have nxt: "rt_next_op_id rt1 = rt_next_op_id rt"
    using alloc_cancel_slot_claim [OF ok al, of "x\<lparr>cs_id := 1\<rparr>"]
    by (simp add: cancel_claimed_def cancel_alive_def is_free_def)
  then have "cancel_alive x" using maps_okD(1) [OF maps] by (auto simp: x_def cancel_alive_def is_free_def)
  note cc = alloc_cancel_slot_claim [OF ok al this]
  have ok2: "slabs_ok (rt2\<lparr>rt_backend := b\<rparr>)" using cc unfolding rt2 cancel_claimed_def slabs_ok_def by auto
  have x2: "cxs (rt2\<lparr>rt_backend := b\<rparr>) = (cxs rt)(c \<mapsto> x)" "cxs rt c = None"
    using cc by (auto simp: rt2 cancel_claimed_def)
  have keep: "rt_io_slab rt2 = rt_io_slab rt" "rt_global rt2 = rt_global rt" "rt_dropped rt2 = rt_dropped rt"
    "rt_next_op_id rt2 = rt_next_op_id rt + 1"
    using cc nxt by (auto simp: rt2 cancel_claimed_def)
  have xf: "cs_target x = op_slot p" "cs_target_id x = op_id p" "cs_local x = Some l" "cs_body x = CancelDone dn"
    by (simp_all add: x_def)
  show ?thesis
  proof (cases "a = Inr True")
    case True
    then have "rt' = rt2\<lparr>rt_backend := b\<rparr>" "sub" using fin by auto
    then show ?thesis using ok2 x2 keep xf small nxt by auto
  next
    case False
    then have f: "free_cancel_slot_dropping_local (rt2\<lparr>rt_backend := b\<rparr>) c = Some rt'" and "\<not> sub"
      using fin by auto
    have "(cxs rt)(c := None) = cxs rt" using x2(2) by (simp add: fun_upd_idem)
    then show ?thesis
      using free_cancel_slot_dropping_spec [OF ok2 _ f, of x] x2 keep xf small nxt \<open>\<not> sub\<close> by auto
  qed
qed

definition cancel_effect where
  "cancel_effect rt rt' p l dn \<longleftrightarrow> rt_global rt' = rt_global rt \<and> rt_next_op_id rt \<le> rt_next_op_id rt' \<and>
     (ops rt' = ops rt \<and> cxs rt' = cxs rt \<and> rt_dropped rt' = rt_dropped rt @ [l] \<or>
      (\<exists>s c x. ops rt (op_slot p) = Some s \<and> id_bits (os_id s) = op_id p \<and> \<not> is_cancel_pending (os_id s) \<and>
         ops rt' = (ops rt)(op_slot p \<mapsto> s\<lparr>os_id := os_id s OR CANCEL_PENDING\<rparr>) \<and>
         cxs rt c = None \<and> cxs rt' = (cxs rt)(c \<mapsto> x) \<and> cs_target x = op_slot p \<and>
         cs_target_id x = op_id p \<and> cs_local x = Some l \<and> cs_body x = CancelDone dn \<and>
         rt_dropped rt' = rt_dropped rt))"

lemma cancel_spec:
  assumes inv: "rt_inv G rt" and nz: "op_id p \<noteq> 0" and ret: "cancel be rt p l dn = Some rt'"
  shows "rt_inv G rt' \<and> cancel_effect rt rt' p l dn"
proof (cases "cancel_valid rt p")
  case False
  then have "rt' = drop_local l rt" using ret by (simp add: cancel_def)
  then show ?thesis using inv by (auto simp: cancel_effect_def drop_local_def)
next
  case True
  then obtain s where s0: "idx (rt_io_slab rt) (op_slot p) = Some s" "id_bits (os_id s) = op_id p"
    "\<not> is_cancel_pending (os_id s)" by (auto simp: cancel_valid_def split: option.splits)
  then have s: "ops rt (op_slot p) = Some s" using nz alive_id [of s] by (simp add: ios.view_Some)
  have maps: "maps_ok G (rt_next_op_id rt) (ops rt) (cxs rt)" using inv by (simp add: rt_inv_def)
  obtain rt1 sub where sc: "submit_cancel be rt p dn l = Some (rt1, sub)"
    and fin: "(if \<not> sub then Some rt1 else with_io_slot rt1 (op_slot p)
        (\<lambda>s. Some (s\<lparr>os_id := os_id s OR CANCEL_PENDING\<rparr>))) = Some rt'"
    using ret True by (auto simp: cancel_def bind_eq_Some_conv)
  note sp = submit_cancel_spec [OF inv sc]
  have m1: "maps_ok G (rt_next_op_id rt + 1) (ops rt) (cxs rt)" using maps_ok_next [OF maps] sp by blast
  have nx: "rt_next_op_id rt \<le> rt_next_op_id rt1" using sp next_id_step(3) [of "rt_next_op_id rt"] by (simp add: less_imp_le)
  show ?thesis
  proof (cases sub)
    case False
    then show ?thesis using sp fin m1 nx by (auto simp: rt_inv_def cancel_effect_def)
  next
    case subm: True
    then obtain c x where x: "cxs rt c = None" "cxs rt1 = (cxs rt)(c \<mapsto> x)" "cs_target x = op_slot p"
      "cs_target_id x = op_id p" "cs_local x = Some l" "cs_body x = CancelDone dn" using sp by auto
    let ?s = "s\<lparr>os_id := os_id s OR CANCEL_PENDING\<rparr>"
    have s1: "ops rt1 (op_slot p) = Some s" using s sp by simp
    have rt': "rt' = rt1\<lparr>rt_io_slab := (rt_io_slab rt1)[op_slot p := ?s]\<rparr>"
      using fin subm idx_view_io [OF s1] by (simp add: with_io_slot_def)
    have "io_alive ?s" using nz s0(2) by (intro alive_id) simp
    note u = slabs_ok_update_io [OF _ s1 this]
    have "maps_ok G (rt_next_op_id rt + 1) ((ops rt)(op_slot p \<mapsto> ?s)) ((cxs rt)(c \<mapsto> x))"
      using x s0 by (intro maps_ok_add_cancel [OF m1 s]) auto
    then have "rt_inv G rt'" using u sp x(2) by (simp add: rt' rt_inv_def)
    moreover have "ops rt' = (ops rt)(op_slot p \<mapsto> ?s)" using u(2) sp by (simp add: rt')
    ultimately show ?thesis using sp s s0 x subm nx by (auto simp: cancel_effect_def rt')
  qed
qed

section \<open>The callbacks\<close>

text \<open>
  A callback gets the whole runtime, but Rust's privacy leaves it only the public operations:
  registering, cancelling, and changing the global state. \<open>api_step\<close> is one such operation;
  a callback is a sequence of them.
\<close>

inductive api_step for be where
  Register: "register_op be rt sh d l cls bufs req = Some (rt', r) \<Longrightarrow> api_step be rt rt'"
| Cancel: "op_id p \<noteq> 0 \<Longrightarrow> cancel be rt p l dn = Some rt' \<Longrightarrow> api_step be rt rt'"
| Global: "api_step be rt (rt\<lparr>rt_global := g\<rparr>)"

definition api_only where
  "api_only be shims cancels \<longleftrightarrow>
     (\<forall>sh rt args rt'. shims sh rt args = Some rt' \<longrightarrow> (api_step be)\<^sup>*\<^sup>* rt rt') \<and>
     (\<forall>dn rt l cl rt' l'. cancels dn rt l cl = Some (rt', l') \<longrightarrow> (api_step be)\<^sup>*\<^sup>* rt rt')"

text \<open>
  Ids are never reused: a live operation of a later state has an id that was not handed out yet, or
  was already live in the same slot.
\<close>

definition evolves where
  "evolves rt rt' \<longleftrightarrow> rt_next_op_id rt \<le> rt_next_op_id rt' \<and>
     (\<forall>i s. ops rt' i = Some s \<longrightarrow> rt_next_op_id rt \<le> id_bits (os_id s) \<or>
        (\<exists>t. ops rt i = Some t \<and> id_bits (os_id t) = id_bits (os_id s)))"

lemma evolves_refl [simp]: "evolves rt rt"
  by (auto simp: evolves_def)

lemma evolves_trans:
  assumes "evolves rt rt1" "evolves rt1 rt2" shows "evolves rt rt2"
  unfolding evolves_def
proof (intro conjI allI impI)
  show "rt_next_op_id rt \<le> rt_next_op_id rt2" using assms by (auto simp: evolves_def)
  fix i s assume "ops rt2 i = Some s"
  then consider "rt_next_op_id rt1 \<le> id_bits (os_id s)"
    | t where "ops rt1 i = Some t" "id_bits (os_id t) = id_bits (os_id s)"
    using assms(2) by (auto simp: evolves_def)
  then show "rt_next_op_id rt \<le> id_bits (os_id s) \<or> (\<exists>t. ops rt i = Some t \<and> id_bits (os_id t) = id_bits (os_id s))"
  proof cases
    case 1
    then show ?thesis using assms(1) by (auto simp: evolves_def)
  next
    case 2
    then show ?thesis using assms(1) unfolding evolves_def by metis
  qed
qed

lemma evolves_irrelevant [simp]:
  "evolves (rt\<lparr>rt_backend := b\<rparr>) rt' = evolves rt rt'" "evolves rt (rt'\<lparr>rt_backend := b\<rparr>) = evolves rt rt'"
  "evolves (rt\<lparr>rt_buf_arena := a\<rparr>) rt' = evolves rt rt'" "evolves rt (rt'\<lparr>rt_buf_arena := a\<rparr>) = evolves rt rt'"
  "evolves rt (rt'\<lparr>rt_global := g\<rparr>) = evolves rt rt'"
  by (simp_all add: evolves_def)

lemma evolves_same_ids:
  "rt_next_op_id rt' = rt_next_op_id rt \<Longrightarrow> ops rt i = Some s \<Longrightarrow> id_bits (os_id s') = id_bits (os_id s) \<Longrightarrow>
   ops rt' = (ops rt)(i \<mapsto> s') \<Longrightarrow> evolves rt rt'"
  by (auto simp: evolves_def split: if_splits)

lemma evolves_del: "rt_next_op_id rt' = rt_next_op_id rt \<Longrightarrow> ops rt' = (ops rt)(i := None) \<Longrightarrow> evolves rt rt'"
  by (auto simp: evolves_def split: if_splits)

lemma registered_evolves: "registered rt rt' sh d l cls r \<Longrightarrow> evolves rt rt'"
  using next_id_step(3) [of "rt_next_op_id rt" "rt_next_op_id rt"] small_id(1) [of "rt_next_op_id rt"]
  unfolding registered_def evolves_def by (cases r) (auto simp: less_imp_le split: if_splits)

lemma cancel_effect_evolves: "cancel_effect rt rt' p l dn \<Longrightarrow> evolves rt rt'"
  by (auto simp: cancel_effect_def evolves_def split: if_splits)

lemma api_step_inv:
  assumes "api_step be rt rt'" "rt_inv G rt"
  shows "rt_inv G rt' \<and> evolves rt rt' \<and> (\<forall>i \<in> G. ops rt' i = ops rt i)"
  using assms
proof (induction rule: api_step.induct)
  case (Register rt sh d l cls bufs req rt' r)
  have maps: "maps_ok G (rt_next_op_id rt) (ops rt) (cxs rt)" using Register.prems by (simp add: rt_inv_def)
  have reg: "rt_inv G rt'" "registered rt rt' sh d l cls r"
    using register_op_spec [OF Register.prems Register.hyps] by auto
  have "\<forall>i \<in> G. ops rt' i = ops rt i"
    using reg(2) maps_okD(13) [OF maps] by (cases r) (fastforce simp: registered_def)+
  then show ?case using reg registered_evolves [OF reg(2)] by blast
next
  case (Cancel p rt l dn rt')
  have maps: "maps_ok G (rt_next_op_id rt) (ops rt) (cxs rt)" using Cancel.prems by (simp add: rt_inv_def)
  have eff: "rt_inv G rt'" "cancel_effect rt rt' p l dn"
    using cancel_spec [OF Cancel.prems Cancel.hyps] by auto
  have "\<forall>i \<in> G. ops rt' i = ops rt i"
    using eff(2) maps_okD(13) [OF maps] by (fastforce simp: cancel_effect_def)
  then show ?case using eff cancel_effect_evolves [OF eff(2)] by blast
next
  case (Global rt g)
  then show ?case by simp
qed

lemma api_steps_inv:
  assumes "(api_step be)\<^sup>*\<^sup>* rt rt'" "rt_inv G rt"
  shows "rt_inv G rt' \<and> evolves rt rt' \<and> (\<forall>i \<in> G. ops rt' i = ops rt i)"
  using assms
proof (induction rule: rtranclp_induct)
  case base
  then show ?case by simp
next
  case (step y z)
  then show ?case using api_step_inv [of be y z G] evolves_trans by fastforce
qed

section \<open>Completing an operation\<close>

lemma find_cancel_of_spec:
  assumes inv: "rt_inv G rt" and s: "ops rt i = Some s" "is_cancel_pending (os_id s)" and g: "i \<notin> G"
  shows "\<exists>c x. find_cancel_of rt i = Some c \<and> cxs rt c = Some x \<and> cs_target x = i"
proof -
  let ?p = "\<lambda>x. \<not> is_free (cs_id x) \<and> cs_target x = i \<and> cs_target_id x = id_bits (os_id s)"
  have maps: "maps_ok G (rt_next_op_id rt) (ops rt) (cxs rt)" using inv by (simp add: rt_inv_def)
  obtain c x where x: "cxs rt c = Some x" "cs_target x = i" using maps_okD(11) [OF maps s(1) g s(2)] by blast
  then have tid: "cs_target_id x = id_bits (os_id s)" using maps_okD(10) [OF maps x(1)] s(1) by auto
  have "x \<in> set (rt_cancel_slab rt)" "?p x"
    using x tid by (auto simp: css.view_Some cancel_alive_def)
  then obtain c' where c': "position ?p (rt_cancel_slab rt) = Some c'"
    using position_None [of ?p "rt_cancel_slab rt"] by (cases "position ?p (rt_cancel_slab rt)") auto
  have "cxs rt c' = Some (rt_cancel_slab rt ! c') \<and> cs_target (rt_cancel_slab rt ! c') = i"
    using position_SomeD [OF c'] by (auto simp: css.view_Some cancel_alive_def)
  moreover have "find_cancel_of rt i = Some c'"
    using c' idx_view_io [OF s(1)] s(1) by (auto simp: find_cancel_of_def ios.view_Some io_alive_def id_bits_def idx_in_range)
  ultimately show ?thesis by blast
qed

text \<open>
  The state while a cancellation of \<open>i\<close> is being settled: \<open>i\<close> is the gap slot, and the cancel slot
  has been released.
\<close>

lemma release_cancel_gap:
  assumes inv: "rt_inv {} rt" and s: "ops rt i = Some s" "is_cancel_pending (os_id s)"
    and s1: "os_id s1 = os_id s" "os_body s1 = os_body s"
    and x: "cxs rt c = Some x" "cs_target x = i"
    and r: "slabs_ok r" "rt_io_slab r = (rt_io_slab rt)[i := s1]" "cxs r = (cxs rt)(c := None)"
      "rt_next_op_id r = rt_next_op_id rt"
  shows "rt_inv {i} r \<and> evolves rt r \<and> ops r i = Some s1"
proof -
  have maps: "maps_ok {} (rt_next_op_id rt) (ops rt) (cxs rt)" using inv by (simp add: rt_inv_def)
  have al: "io_alive s1" using s(1) s1(1) by (auto simp: ios.view_Some io_alive_def)
  have v: "ops r = (ops rt)(i \<mapsto> s1)"
    using s(1) al unfolding r(2) by (intro ios.view_update_live) (auto simp: ios.view_Some)
  have "maps_ok {i} (rt_next_op_id rt) ((ops rt)(cs_target x \<mapsto> s1)) ((cxs rt)(c := None))"
    using x s s1 by (intro maps_ok_del_cancel [OF maps]) auto
  moreover have "evolves rt r" using r(4) s(1) s1(1) v by (intro evolves_same_ids) auto
  ultimately show ?thesis using r v x(2) by (simp add: rt_inv_def)
qed

definition ready_to_free where
  "ready_to_free i rt \<longleftrightarrow> slabs_ok rt \<and> (\<exists>s. ops rt i = Some s) \<and>
     maps_ok {} (rt_next_op_id rt) ((ops rt)(i := None)) (cxs rt)"

lemma unmark_ready:
  assumes inv: "rt_inv {i} rt" and s: "ops rt i = Some s"
    and ret: "with_io_slot rt i (\<lambda>s. Some (s\<lparr>os_id := os_id s AND NOT CANCEL_PENDING\<rparr>)) = Some rt'"
  shows "ready_to_free i rt' \<and> evolves rt rt' \<and> ops rt' = (ops rt)(i \<mapsto> s\<lparr>os_id := os_id s AND NOT CANCEL_PENDING\<rparr>) \<and>
    rt_next_op_id rt' = rt_next_op_id rt \<and> cxs rt' = cxs rt \<and> rt_global rt' = rt_global rt \<and>
    rt_dropped rt' = rt_dropped rt"
proof -
  let ?s = "s\<lparr>os_id := os_id s AND NOT CANCEL_PENDING\<rparr>"
  have ok: "slabs_ok rt" and maps: "maps_ok {i} (rt_next_op_id rt) (ops rt) (cxs rt)"
    using inv by (auto simp: rt_inv_def)
  have rt': "rt' = rt\<lparr>rt_io_slab := (rt_io_slab rt)[i := ?s]\<rparr>"
    using ret idx_view_io [OF s] by (simp add: with_io_slot_def)
  have "io_alive ?s" using maps_okD(3) [OF maps s] by (intro alive_id) simp
  note u = slabs_ok_update_io [OF ok s this]
  have "cs_target x \<noteq> i" if "cxs rt c = Some x" for c x using maps_okD(9) [OF maps that] by simp
  then have "maps_ok ({i} - {i}) (rt_next_op_id rt) ((ops rt)(i := None)) (cxs rt)"
    by (rule maps_ok_del_op [OF maps])
  moreover have "evolves rt rt'" using s u(2) by (intro evolves_same_ids [of _ _ i s ?s]) (simp_all add: rt')
  ultimately show ?thesis using u by (simp add: ready_to_free_def rt')
qed

lemma with_cancel_slot_backend:
  "with_cancel_slot rt c f = Some rt' \<Longrightarrow>
     rt_backend rt' = rt_backend rt \<and> length (rt_cancel_slab rt') = length (rt_cancel_slab rt) \<and> c < length (rt_cancel_slab rt)"
  by (auto simp: with_cancel_slot_def bind_eq_Some_conv idx_def split: if_splits)

lemma free_cancel_slot_backend:
  "free_cancel_slot rt c = Some rt' \<Longrightarrow> rt_backend rt' = rt_backend rt \<and> length (rt_cancel_slab rt') = length (rt_cancel_slab rt)"
  by (auto simp: free_cancel_slot_def Let_def bind_eq_Some_conv dest!: with_cancel_slot_backend)

lemma free_cancel_slot_dropping_backend:
  "free_cancel_slot_dropping_local rt c = Some rt' \<Longrightarrow>
     rt_backend rt' = rt_backend rt \<and> length (rt_cancel_slab rt') = length (rt_cancel_slab rt)"
  by (auto simp: free_cancel_slot_dropping_local_def drop_local_def Let_def bind_eq_Some_conv dest!: with_cancel_slot_backend)

text \<open>
  Settling goes through the gap: from a state whose backend and live slots are those before, by
  operations of the cancel callback, to the state in which the mark is removed.
\<close>

lemma settle_cancel_gap:
  assumes inv: "rt_inv {} rt" and api: "api_only be shims cancels"
    and s: "ops rt i = Some s" "is_cancel_pending (os_id s)"
    and s1: "os_id s1 = os_id s" "os_body s1 = os_body s"
    and ret: "settle_cancel cancels (rt\<lparr>rt_io_slab := (rt_io_slab rt)[i := s1]\<rparr>) i l cancelled = Some (rt', l')"
  obtains r1 r2 where "rt_inv {i} r1" "evolves rt r1" "ops r1 i = Some s1" "rt_backend r1 = rt_backend rt"
    "length (rt_cancel_slab r1) = length (rt_cancel_slab rt)" "dom (ops r1) = dom (ops rt)" "(api_step be)\<^sup>*\<^sup>* r1 r2"
    "with_io_slot r2 i (\<lambda>s. Some (s\<lparr>os_id := os_id s AND NOT CANCEL_PENDING\<rparr>)) = Some rt'"
proof -
  let ?rt1 = "rt\<lparr>rt_io_slab := (rt_io_slab rt)[i := s1]\<rparr>"
  have ok: "slabs_ok rt" using inv by (simp add: rt_inv_def)
  have al: "io_alive s1" using s(1) s1(1) by (auto simp: ios.view_Some io_alive_def)
  note u = slabs_ok_update_io [OF ok s(1) al]
  have dom1: "dom (ios.view ((rt_io_slab rt)[i := s1])) = dom (ops rt)" using u(2) s(1) by auto
  obtain c x where c: "find_cancel_of rt i = Some c" and x: "cxs rt c = Some x" "cs_target x = i"
    using find_cancel_of_spec [OF inv s] by blast
  have c1: "find_cancel_of ?rt1 i = Some c"
    using c s(1) s1(1) by (auto simp: find_cancel_of_def ios.view_Some idx_def Let_def split: if_splits)
  obtain rt2 l2 where
    st: "(if cancelled then dispatch_cancel_of cancels ?rt1 i l else map_option (\<lambda>rt. (rt, l)) (drop_cancel_of ?rt1 i))
         = Some (rt2, l2)"
    and un: "with_io_slot rt2 i (\<lambda>s. Some (s\<lparr>os_id := os_id s AND NOT CANCEL_PENDING\<rparr>)) = Some rt'"
    using ret by (auto simp: settle_cancel_def bind_eq_Some_conv)
  show ?thesis
  proof (cases cancelled)
    case False
    then have f: "free_cancel_slot_dropping_local ?rt1 c = Some rt2"
      using st c1 by (auto simp: drop_cancel_of_def)
    note sp = free_cancel_slot_dropping_spec [OF u(1) _ f, of x]
    have "rt_inv {i} rt2 \<and> evolves rt rt2 \<and> ops rt2 i = Some s1"
      using sp x by (intro release_cancel_gap [OF inv s s1 x]) auto
    moreover have "dom (ops rt2) = dom (ops rt)" using sp x dom1 by simp
    ultimately show ?thesis using that [of rt2 rt2] un free_cancel_slot_dropping_backend [OF f] by auto
  next
    case True
    let ?x = "x\<lparr>cs_local := None\<rparr>"
    obtain dn cl rt3 where f: "free_cancel_slot (?rt1\<lparr>rt_cancel_slab := (rt_cancel_slab rt)[c := ?x]\<rparr>) c = Some rt3"
      and cb: "cancels dn rt3 l cl = Some (rt2, l2)"
      using st True c1 idx_view_cancel [OF x(1)]
      by (auto simp: dispatch_cancel_of_def cancel_slot_take_local_def bind_eq_Some_conv split: cancel_body.splits)
    have "cxs ?rt1 c = Some x" using x(1) by simp
    moreover have "cancel_alive ?x" using x(1) by (auto simp: css.view_Some cancel_alive_def)
    ultimately have v: "slabs_ok (?rt1\<lparr>rt_cancel_slab := (rt_cancel_slab rt)[c := ?x]\<rparr>)"
      "css.view ((rt_cancel_slab rt)[c := ?x]) = (cxs rt)(c \<mapsto> ?x)"
      using slabs_ok_update_cancel [OF u(1), of c x ?x] by simp_all
    note sp = free_cancel_slot_spec [OF v(1) _ f, of ?x]
    have "rt_inv {i} rt3 \<and> evolves rt rt3 \<and> ops rt3 i = Some s1"
      using sp v(2) by (intro release_cancel_gap [OF inv s s1 x]) auto
    moreover have "dom (ops rt3) = dom (ops rt)" using sp v(2) dom1 by simp
    moreover have "(api_step be)\<^sup>*\<^sup>* rt3 rt2" using api cb unfolding api_only_def by blast
    ultimately show ?thesis using that [of rt3 rt2] un free_cancel_slot_backend [OF f] by auto
  qed
qed

lemma settle_cancel_spec:
  assumes inv: "rt_inv {} rt" and api: "api_only be shims cancels"
    and s: "ops rt i = Some s" "is_cancel_pending (os_id s)"
    and s1: "os_id s1 = os_id s" "os_body s1 = os_body s"
    and ret: "settle_cancel cancels (rt\<lparr>rt_io_slab := (rt_io_slab rt)[i := s1]\<rparr>) i l cancelled = Some (rt', l')"
  shows "ready_to_free i rt' \<and> evolves rt rt'"
proof -
  obtain r1 r2 where g: "rt_inv {i} r1" "evolves rt r1" "ops r1 i = Some s1" "(api_step be)\<^sup>*\<^sup>* r1 r2"
    and un: "with_io_slot r2 i (\<lambda>s. Some (s\<lparr>os_id := os_id s AND NOT CANCEL_PENDING\<rparr>)) = Some rt'"
    by (rule settle_cancel_gap [OF assms])
  have r2: "rt_inv {i} r2" "ops r2 i = Some s1" "evolves r1 r2" using api_steps_inv [OF g(4,1)] g(3) by auto
  then show ?thesis
    using unmark_ready [OF r2(1,2) un] evolves_trans [OF g(2) r2(3)] evolves_trans [of rt r2 rt'] by blast
qed

lemma dispatch_shim_inv:
  assumes inv: "rt_inv G rt" and api: "api_only be shims cancels"
    and ret: "dispatch_shim shims rt sh run outcome d l cls = Some rt'"
  shows "rt_inv G rt' \<and> evolves rt rt'"
proof -
  obtain args rt1 where sh: "shims sh (rt\<lparr>rt_buf_arena := arena_new\<rparr>) args = Some rt1"
    and rt': "\<exists>a. rt' = rt1\<lparr>rt_buf_arena := a\<rparr>"
    using ret by (fastforce simp: dispatch_shim_def Let_def bind_eq_Some_conv split: option.splits)
  have "(api_step be)\<^sup>*\<^sup>* (rt\<lparr>rt_buf_arena := arena_new\<rparr>) rt1" using api sh by (auto simp: api_only_def)
  from api_steps_inv [OF this, of G] inv rt' show ?thesis by auto
qed

lemma complete_op_inv:
  assumes inv: "rt_inv {} rt" and api: "api_only be shims cancels"
    and ret: "complete_op shims cancels rt i c = Some rt'"
  shows "rt_inv {} rt' \<and> evolves rt rt'"
proof (cases "ops rt i")
  case None
  then have "rt' = rt" using ret
    by (auto simp: complete_op_def idx_def ios.view_def io_alive_def split: if_splits)
  then show ?thesis using inv by simp
next
  case (Some s)
  let ?s1 = "s\<lparr>os_buf := BUF_NONE, os_buf_len := 0, os_local := None\<rparr>"
  let ?rt1 = "rt\<lparr>rt_io_slab := (rt_io_slab rt)[i := ?s1]\<rparr>"
  have ok: "slabs_ok rt" and maps: "maps_ok {} (rt_next_op_id rt) (ops rt) (cxs rt)"
    using inv by (auto simp: rt_inv_def)
  have nf: "\<not> is_free (os_id s)" using Some by (auto simp: ios.view_Some io_alive_def)
  obtain l rt2 l2 rt3 sh run outcome d where
    st: "(if is_cancel_pending (os_id s) then settle_cancel cancels ?rt1 i l (is_cancel_pending (os_id s) \<and> cn_cancelled c)
          else Some (?rt1, l)) = Some (rt2, l2)"
    and fr: "free_op_slot_taken rt2 i = Some rt3"
    and ds: "dispatch_shim shims rt3 sh run outcome d l2 (cn_class c) = Some rt'"
    using ret idx_view_io [OF Some] nf
    by (auto simp: complete_op_def io_slot_take_buf_run_def io_slot_take_local_def Let_def
        bind_eq_Some_conv split: slot_body.splits)
  have al: "io_alive ?s1" using nf by (simp add: io_alive_def)
  note u = slabs_ok_update_io [OF ok Some al]
  have rdy: "ready_to_free i rt2 \<and> evolves rt rt2"
  proof (cases "is_cancel_pending (os_id s)")
    case True
    then show ?thesis using st settle_cancel_spec [OF inv api Some True, of ?s1] by simp
  next
    case False
    have "cs_target x \<noteq> i" if "cxs rt k = Some x" for k x using maps_okD(10) [OF maps that] Some False by auto
    from maps_ok_del_op [OF maps this] False st u have "ready_to_free i rt2" by (auto simp: ready_to_free_def)
    moreover have "evolves rt rt2" using False st u(2) Some by (intro evolves_same_ids [of _ _ i s ?s1]) auto
    ultimately show ?thesis ..
  qed
  then obtain s2 where "slabs_ok rt2" "ops rt2 i = Some s2"
    "maps_ok {} (rt_next_op_id rt2) ((ops rt2)(i := None)) (cxs rt2)" by (auto simp: ready_to_free_def)
  then have fs: "rt_inv {} rt3" "evolves rt2 rt3"
    using free_op_slot_taken_spec [OF _ _ fr, of s2] evolves_del [of rt3 rt2 i] by (simp_all add: rt_inv_def)
  then show ?thesis
    using dispatch_shim_inv [OF fs(1) api ds] rdy evolves_trans [of rt rt2 rt3] evolves_trans [of rt rt3 rt'] by blast
qed

section \<open>Completing a cancellation, and the loops\<close>

lemma complete_cancel_inv:
  assumes inv: "rt_inv {} rt" and ret: "complete_cancel rt c result = Some rt'"
  shows "rt_inv {} rt' \<and> evolves rt rt' \<and> dom (ops rt') = dom (ops rt)"
proof (cases "cxs rt c = None \<or> result = 0")
  case True
  then have "rt' = rt" using ret
    by (auto simp: complete_cancel_def idx_def css.view_def cancel_alive_def split: if_splits)
  then show ?thesis using inv by simp
next
  case False
  then obtain x where x: "cxs rt c = Some x" and res: "result \<noteq> 0" by (cases "cxs rt c") auto
  have ok: "slabs_ok rt" and maps: "maps_ok {} (rt_next_op_id rt) (ops rt) (cxs rt)"
    using inv by (auto simp: rt_inv_def)
  let ?x = "x\<lparr>cs_local := None\<rparr>"
  obtain l rt1 where f: "free_cancel_slot (drop_local l (rt\<lparr>rt_cancel_slab := (rt_cancel_slab rt)[c := ?x]\<rparr>)) c = Some rt1"
    and fin: "(case idx (rt_io_slab rt1) (cs_target x) of
                None \<Rightarrow> Some rt1
              | Some s \<Rightarrow>
                  (if is_cancel_pending (os_id s) \<and> id_bits (os_id s) = cs_target_id x
                   then Some (rt1\<lparr>rt_io_slab := (rt_io_slab rt1)[cs_target x :=
                                s\<lparr>os_id := os_id s AND NOT CANCEL_PENDING\<rparr>]\<rparr>)
                   else Some rt1)) = Some rt'"
    using ret res x by (auto simp: complete_cancel_def cancel_slot_take_local_def css.view_Some cancel_alive_def
        idx_in_range Let_def bind_eq_Some_conv)
  have al: "cancel_alive ?x" using x by (auto simp: css.view_Some cancel_alive_def)
  note u = slabs_ok_update_cancel [OF ok x al]
  let ?rt0 = "drop_local l (rt\<lparr>rt_cancel_slab := (rt_cancel_slab rt)[c := ?x]\<rparr>)"
  have ok0: "slabs_ok ?rt0" and v0: "cxs ?rt0 c = Some ?x" using u by (simp_all add: drop_local_def)
  note f1 = free_cancel_slot_spec [OF ok0 v0 f]
  have f2: "slabs_ok rt1" "cxs rt1 = (cxs rt)(c := None)" "rt_io_slab rt1 = rt_io_slab rt"
    "rt_next_op_id rt1 = rt_next_op_id rt" using f1 u by (auto simp: drop_local_def)
  obtain s where s: "ops rt (cs_target x) = Some s" "is_cancel_pending (os_id s)" "id_bits (os_id s) = cs_target_id x"
    using maps_okD(10) [OF maps x] by blast
  let ?s = "s\<lparr>os_id := os_id s AND NOT CANCEL_PENDING\<rparr>"
  have rt': "rt' = rt1\<lparr>rt_io_slab := (rt_io_slab rt1)[cs_target x := ?s]\<rparr>"
    using fin f2(3) s idx_view_io [OF s(1)] by (simp add: idx_in_range)
  have "io_alive ?s" using maps_okD(3) [OF maps s(1)] by (intro alive_id) simp
  from slabs_ok_update_io [OF f2(1) _ this, of "cs_target x" s] s(1) f2(3)
  have u2: "slabs_ok rt'" "ops rt' = (ops rt)(cs_target x \<mapsto> ?s)" by (simp_all add: rt')
  have "maps_ok {} (rt_next_op_id rt) ((ops rt)(cs_target x \<mapsto> ?s)) ((cxs rt)(c := None))"
    using maps_okD(6) [OF maps s(1)] by (intro maps_ok_del_cancel [OF maps x s(1)]) auto
  moreover have "evolves rt rt'" using u2(2) s(1) f2(4) by (intro evolves_same_ids [of _ _ "cs_target x" s ?s]) (simp_all add: rt')
  moreover have "dom (ops rt') = dom (ops rt)" using u2(2) s(1) by auto
  ultimately show ?thesis using u2 f2 by (simp add: rt_inv_def rt')
qed

lemma take_completion_inv:
  assumes "rt_inv {} rt" "api_only be shims cancels" "take_completion shims cancels rt c = Some rt'"
  shows "rt_inv {} rt' \<and> evolves rt rt'"
  using assms(3) complete_cancel_inv [OF assms(1)] complete_op_inv [OF assms(1,2)]
  by (auto simp: take_completion_def bind_eq_Some_conv split: if_splits)

lemma drain_cqes_inv:
  assumes "drain_cqes shims cancels be rt = Some rt'" "rt_inv {} rt" "api_only be shims cancels"
  shows "rt_inv {} rt' \<and> evolves rt rt'"
proof -
  let ?P = "\<lambda>shims cancels be rt rt'. rt_inv {} rt \<and> api_only be shims cancels \<longrightarrow> rt_inv {} rt' \<and> evolves rt rt'"
  have "?P shims cancels be rt rt'"
  proof (rule drain_cqes.raw_induct [where P = ?P, OF _ assms(1)])
    fix f shims cancels be rt rt'
    assume IH: "\<And>shims cancels be rt rt'. f shims cancels be rt = Some rt' \<Longrightarrow> ?P shims cancels be rt rt'"
      and body: "(case be_next_completion be (rt_backend rt) of
          (b, None) \<Rightarrow> Some (rt\<lparr>rt_backend := b\<rparr>)
        | (b, Some c) \<Rightarrow>
            (case take_completion shims cancels (rt\<lparr>rt_backend := b\<rparr>) c of
               None \<Rightarrow> None | Some rt \<Rightarrow> f shims cancels be rt)) = Some rt'"
    show "?P shims cancels be rt rt'"
    proof (cases "be_next_completion be (rt_backend rt)")
      case (Pair b c)
      have "rt_inv {} rt1 \<and> evolves rt rt1"
        if "take_completion shims cancels (rt\<lparr>rt_backend := b\<rparr>) c' = Some rt1" "rt_inv {} rt"
          "api_only be shims cancels" for c' rt1
        using take_completion_inv [OF _ that(3,1)] that(2) by simp
      then have step: "?P shims cancels be rt rt'"
        if "take_completion shims cancels (rt\<lparr>rt_backend := b\<rparr>) c' = Some rt1" "f shims cancels be rt1 = Some rt'" for c' rt1
        using that IH [OF that(2)] evolves_trans [of rt rt1 rt'] by blast
      show ?thesis
      proof (cases c)
        case None
        then show ?thesis using body Pair by auto
      next
        case (Some c')
        then show ?thesis using body Pair step [of c'] by (auto split: option.splits)
      qed
    qed
  qed
  then show ?thesis using assms(2,3) by blast
qed

end
