(* ===== verification/Runtime_Delivery.thy ===== *)
theory Runtime_Delivery
  imports Runtime_Safety
begin

text \<open>
  What the runtime guarantees its clients: the event loop keeps the invariant and ends quiescent,
  every completion goes to the callback that was registered for it with the local it was registered
  with, a handle never cancels a later operation in the same slot. Two theorems show where the
  code does less than its comments say: the arena that is put back after a shim, and the window in
  which a cancel callback runs.
\<close>

section \<open>The event loop\<close>

text \<open>One step of the world the runtime lives in: a client call, or a completion taken.\<close>

inductive run_step for be shims cancels where
  Api: "api_step be rt rt' \<Longrightarrow> run_step be shims cancels rt rt'"
| Take: "take_completion shims cancels rt c = Some rt' \<Longrightarrow> run_step be shims cancels rt rt'"
| Poll: "run_step be shims cancels rt (rt\<lparr>rt_backend := b\<rparr>)"

lemma run_steps_inv:
  assumes "(run_step be shims cancels)\<^sup>*\<^sup>* rt rt'" "rt_inv {} rt" "api_only be shims cancels"
  shows "rt_inv {} rt' \<and> evolves rt rt'"
  using assms
proof (induction rule: rtranclp_induct)
  case base
  then show ?case by simp
next
  case (step y z)
  have y: "rt_inv {} y" "evolves rt y" using step by auto
  have "rt_inv {} z \<and> evolves y z" using step(2)
  proof cases
    case Api
    then show ?thesis using api_step_inv [of be y z "{}"] y(1) by blast
  next
    case (Take c)
    then show ?thesis using take_completion_inv [OF y(1) step.prems(2)] by blast
  next
    case (Poll b)
    then show ?thesis using y(1) by simp
  qed
  then show ?case using y(2) evolves_trans [of rt y z] by blast
qed

lemma drive_spec:
  assumes "drive shims cancels be rt = Some rt'" "rt_inv {} rt" "api_only be shims cancels"
  shows "rt_inv {} rt' \<and> (\<not> has_inflight rt' \<or> (\<exists>b e. be_wait be b = Some (rt_backend rt', Inl e)))"
proof -
  let ?P = "\<lambda>shims cancels be rt rt'. rt_inv {} rt \<and> api_only be shims cancels \<longrightarrow>
     rt_inv {} rt' \<and> (\<not> has_inflight rt' \<or> (\<exists>b e. be_wait be b = Some (rt_backend rt', Inl e)))"
  have "?P shims cancels be rt rt'"
  proof (rule drive.raw_induct [where P = ?P, OF _ assms(1)])
    fix f shims cancels be rt rt'
    assume IH: "\<And>shims cancels be rt rt'. f shims cancels be rt = Some rt' \<Longrightarrow> ?P shims cancels be rt rt'"
      and body: "(case drain_cqes shims cancels be rt of None \<Rightarrow> None
         | Some rt \<Rightarrow> if \<not> has_inflight rt then Some rt
             else (case be_wait be (rt_backend rt) of
                     None \<Rightarrow> None
                   | Some (b, Inl e) \<Rightarrow> Some (rt\<lparr>rt_backend := b\<rparr>)
                   | Some (b, Inr u) \<Rightarrow> f shims cancels be (rt\<lparr>rt_backend := b\<rparr>))) = Some rt'"
    then obtain rt1 where d: "drain_cqes shims cancels be rt = Some rt1" by (auto split: option.splits)
    show "?P shims cancels be rt rt'"
    proof (cases "has_inflight rt1")
      case False
      then show ?thesis using body d drain_cqes_inv [OF d] by auto
    next
      case True
      then obtain b r where w: "be_wait be (rt_backend rt1) = Some (b, r)" using body d by (auto split: option.splits)
      show ?thesis
      proof (cases r)
        case (Inl e)
        then have "rt' = rt1\<lparr>rt_backend := b\<rparr>" using body d w True by simp
        then show ?thesis using drain_cqes_inv [OF d] w Inl by auto
      next
        case (Inr u)
        then have "f shims cancels be (rt1\<lparr>rt_backend := b\<rparr>) = Some rt'" using body d w True by simp
        from IH [OF this] show ?thesis using drain_cqes_inv [OF d] by auto
      qed
    qed
  qed
  then show ?thesis using assms(2,3) by blast
qed

lemma quiescent_empty:
  assumes "rt_inv G rt" "\<not> has_inflight rt"
  shows "ops rt = Map.empty \<and> cxs rt = Map.empty"
  using assms ios.finite_view [of "rt_io_slab rt"] css.finite_view [of "rt_cancel_slab rt"]
  by (auto simp: rt_inv_def slabs_ok_def has_inflight_def)

section \<open>Delivery\<close>

definition slot_run :: "('l, 'sh, 'd) io_slot \<Rightarrow> (nat \<times> nat) option" where
  "slot_run s = (if os_buf s \<noteq> BUF_NONE then Some (os_buf s, os_buf_len s) else None)"

lemma free_op_slot_taken_ret:
  assumes ok: "slabs_ok rt" and s: "ops rt i = Some s" and b: "os_buf s = BUF_NONE"
  shows "\<exists>rt'. free_op_slot_taken rt i = Some rt'"
proof -
  have "rt_inflight_ops rt = card (dom (ops rt))" using ok by (simp add: slabs_ok_def)
  moreover have "dom (ops rt) \<noteq> {}" using s by blast
  ultimately have "1 \<le> rt_inflight_ops rt" using ios.finite_view [of "rt_io_slab rt"]
    by (metis One_nat_def Suc_leI card_gt_0_iff)
  then show ?thesis using s b
    by (simp add: free_op_slot_taken_def with_io_slot_def io_slot_push_free_def ios.view_Some io_alive_def
        idx_in_range checked_sub_in_range)
qed


text \<open>The slot as \<^verbatim>\<open>complete_op\<close> leaves it before it settles the cancellation.\<close>

abbreviation taken :: "('l, 'sh, 'd) io_slot \<Rightarrow> ('l, 'sh, 'd) io_slot" where
  "taken s \<equiv> s\<lparr>os_buf := BUF_NONE, os_buf_len := 0, os_local := None\<rparr>"

lemma complete_op_pending:
  assumes s: "ops rt i = Some s" "os_body s = Live sh d" "os_local s = Some l" "is_cancel_pending (os_id s)"
  shows "complete_op shims cancels rt i c =
     do { (rt2, l2) \<leftarrow> settle_cancel cancels (rt\<lparr>rt_io_slab := (rt_io_slab rt)[i := taken s]\<rparr>) i l (cn_cancelled c);
          rt3 \<leftarrow> free_op_slot_taken rt2 i;
          dispatch_shim shims rt3 sh (slot_run s)
            (if cn_cancelled c then Cancelled else Completed (cn_result c) (cn_flags c)) d l2 (cn_class c) }"
proof -
  have "\<not> is_free (os_id s)" using s(1) by (auto simp: ios.view_Some io_alive_def)
  then show ?thesis using idx_view_io [OF s(1)] s(2-)
    by (simp add: complete_op_def io_slot_take_buf_run_def io_slot_take_local_def slot_run_def idx_in_range
        split_def)
qed

lemma unmark_ret:
  assumes "ops rt i = Some s"
  shows "\<exists>rt'. with_io_slot rt i (\<lambda>s. Some (s\<lparr>os_id := os_id s AND NOT CANCEL_PENDING\<rparr>)) = Some rt'"
  using assms by (simp add: with_io_slot_def ios.view_Some idx_in_range)

lemma ready_free:
  assumes r: "ready_to_free i rt" and s: "ops rt i = Some s" "os_buf s = BUF_NONE"
  shows "\<exists>rt'. free_op_slot_taken rt i = Some rt' \<and> rt_inv {} rt' \<and> ops rt' = (ops rt)(i := None) \<and>
     cxs rt' = cxs rt \<and> rt_dropped rt' = rt_dropped rt"
proof -
  have ok: "slabs_ok rt" using r by (simp add: ready_to_free_def)
  obtain rt' where f: "free_op_slot_taken rt i = Some rt'" using free_op_slot_taken_ret [OF ok s] by blast
  from free_op_slot_taken_spec [OF ok s(1) f] r f show ?thesis
    by (intro exI [of _ rt']) (auto simp: ready_to_free_def rt_inv_def)
qed

lemma cancel_of_pending:
  assumes inv: "rt_inv {} rt" and s: "ops rt i = Some s" "is_cancel_pending (os_id s)"
  obtains k x cl dn where "find_cancel_of (rt\<lparr>rt_io_slab := (rt_io_slab rt)[i := taken s]\<rparr>) i = Some k"
    "cxs rt k = Some x" "cs_target x = i" "cs_local x = Some cl" "cs_body x = CancelDone dn"
proof -
  obtain k x where k: "find_cancel_of rt i = Some k" "cxs rt k = Some x" "cs_target x = i"
    using find_cancel_of_spec [OF inv s] by blast
  moreover have "find_cancel_of (rt\<lparr>rt_io_slab := (rt_io_slab rt)[i := taken s]\<rparr>) i = find_cancel_of rt i"
    using s(1) by (auto simp: find_cancel_of_def ios.view_Some idx_def Let_def)
  moreover have "maps_ok {} (rt_next_op_id rt) (ops rt) (cxs rt)" using inv by (simp add: rt_inv_def)
  from maps_okD(8) [OF this k(2)] obtain cl dn where "cs_local x = Some cl" "cs_body x = CancelDone dn" by blast
  ultimately show ?thesis using that by metis
qed

lemma cancel_slots_counted:
  assumes "slabs_ok rt" "cxs rt k = Some x" shows "1 \<le> rt_inflight_cancels rt"
proof -
  have "rt_inflight_cancels rt = card (dom (cxs rt))" "dom (cxs rt) \<noteq> {}"
    using assms by (auto simp: slabs_ok_def)
  then show ?thesis using css.finite_view [of "rt_cancel_slab rt"] by (metis One_nat_def Suc_leI card_gt_0_iff)
qed


text \<open>
  The backend reports the operation cancelled: the cancel callback runs first, with the operation's
  local and its own, then the shim runs with \<^const>\<open>Cancelled\<close> and the local the callback left.
\<close>

lemma cancel_callback_state:
  assumes inv: "rt_inv {} rt" and s: "ops rt i = Some s" and p: "is_cancel_pending (os_id s)"
  shows "\<exists>k x cl dn rtc. cxs rt k = Some x \<and> cs_target x = i \<and> cs_local x = Some cl \<and> cs_body x = CancelDone dn \<and>
     rt_inv {i} rtc \<and> cxs rtc = (cxs rt)(k := None) \<and> rt_dropped rtc = rt_dropped rt \<and>
     ops rtc = (ops rt)(i \<mapsto> taken s) \<and>
     (\<forall>cancels. dispatch_cancel_of cancels (rt\<lparr>rt_io_slab := (rt_io_slab rt)[i := taken s]\<rparr>) i l = cancels dn rtc l cl)"
proof -
  let ?rt1 = "rt\<lparr>rt_io_slab := (rt_io_slab rt)[i := taken s]\<rparr>"
  have ok: "slabs_ok rt" using inv by (simp add: rt_inv_def)
  have al: "io_alive (taken s)" using s by (auto simp: ios.view_Some io_alive_def)
  note u = slabs_ok_update_io [OF ok s al]
  obtain k x cl dn where k: "find_cancel_of ?rt1 i = Some k" "cxs rt k = Some x" "cs_target x = i"
    "cs_local x = Some cl" "cs_body x = CancelDone dn" by (rule cancel_of_pending [OF inv s p])
  let ?x = "x\<lparr>cs_local := None\<rparr>"
  let ?rtk = "?rt1\<lparr>rt_cancel_slab := (rt_cancel_slab rt)[k := ?x]\<rparr>"
  have cal: "cancel_alive ?x" using k(2) by (auto simp: css.view_Some cancel_alive_def)
  have v: "slabs_ok ?rtk" "cxs ?rtk = (cxs rt)(k \<mapsto> ?x)"
    using slabs_ok_update_cancel [OF u(1) _ cal, of k x] k(2) by simp_all
  have "1 \<le> rt_inflight_cancels rt" by (rule cancel_slots_counted [OF ok k(2)])
  then obtain rtc where f: "free_cancel_slot ?rtk k = Some rtc"
    using k(2) by (auto simp: free_cancel_slot_def css.view_Some idx_in_range checked_sub_in_range
        with_cancel_slot_def cancel_slot_push_free_def cancel_alive_def)
  note fs = free_cancel_slot_spec [OF v(1) _ f, of ?x]
  have g: "rt_inv {i} rtc"
    using fs v(2) k by (intro conjunct1 [OF release_cancel_gap [OF inv s p _ _ k(2,3), of "taken s"]]) auto
  have "dispatch_cancel_of cancels ?rt1 i l = cancels dn rtc l cl" for cancels
    using k f by (simp add: dispatch_cancel_of_def cancel_slot_take_local_def css.view_Some
        idx_in_range cancel_alive_def)
  then show ?thesis using k(2-) g fs v(2) u(2)
    by (intro exI [of _ k] exI [of _ x] exI [of _ cl] exI [of _ dn] exI [of _ rtc]) simp
qed

lemma complete_op_cancelled:
  assumes inv: "rt_inv {} rt" and api: "api_only be shims cancels"
    and s: "ops rt i = Some s" "os_body s = Live sh d" "os_local s = Some l"
    and p: "is_cancel_pending (os_id s)" and nc: "cn_cancelled c"
    and g: "rt_inv {i} rtc" "ops rtc i = Some (taken s)"
    and cb: "dispatch_cancel_of cancels (rt\<lparr>rt_io_slab := (rt_io_slab rt)[i := taken s]\<rparr>) i l = cancels dn rtc l cl"
  shows "case cancels dn rtc l cl of
        None \<Rightarrow> complete_op shims cancels rt i c = None
      | Some (rt2, l2) \<Rightarrow> \<exists>rt3. rt_inv {} rt3 \<and> ops rt3 = (ops rt2)(i := None) \<and> cxs rt3 = cxs rt2 \<and>
          rt_dropped rt3 = rt_dropped rt2 \<and>
          complete_op shims cancels rt i c =
            dispatch_shim shims rt3 sh (slot_run s) Cancelled d l2 (cn_class c)"
proof (cases "cancels dn rtc l cl")
  case None
  then show ?thesis using cb complete_op_pending [OF s p, of shims cancels c] nc by (simp add: settle_cancel_def)
next
  case (Some r)
  obtain rt2 l2 where r: "r = (rt2, l2)" by (cases r)
  have "(api_step be)\<^sup>*\<^sup>* rtc rt2" using api Some r unfolding api_only_def by blast
  then have g2: "rt_inv {i} rt2" "ops rt2 i = Some (taken s)" using api_steps_inv [of be rtc rt2 "{i}"] g by auto
  obtain rt2' where un: "with_io_slot rt2 i (\<lambda>s. Some (s\<lparr>os_id := os_id s AND NOT CANCEL_PENDING\<rparr>)) = Some rt2'"
    using unmark_ret g2 by blast
  note us = unmark_ready [OF g2 un]
  obtain rt3 where f3: "free_op_slot_taken rt2' i = Some rt3 \<and> rt_inv {} rt3 \<and> ops rt3 = (ops rt2')(i := None) \<and>
     cxs rt3 = cxs rt2' \<and> rt_dropped rt3 = rt_dropped rt2'"
    using ready_free [of i rt2'] us by fastforce
  have "complete_op shims cancels rt i c = dispatch_shim shims rt3 sh (slot_run s) Cancelled d l2 (cn_class c)"
    using complete_op_pending [OF s p, of shims cancels c] nc f3 cb Some r un by (simp add: settle_cancel_def)
  then show ?thesis using Some r f3 us by auto
qed

section \<open>Handles\<close>

lemma cancel_stale:
  assumes nz: "op_id p \<noteq> 0" and ev: "evolves rt rt'" "op_id p < rt_next_op_id rt"
    and gone: "\<And>s. ops rt (op_slot p) = Some s \<Longrightarrow> id_bits (os_id s) \<noteq> op_id p"
  shows "cancel be rt' p l dn = Some (drop_local l rt')"
proof -
  have "\<not> cancel_valid rt' p"
  proof
    assume "cancel_valid rt' p"
    then obtain s where s: "idx (rt_io_slab rt') (op_slot p) = Some s" "id_bits (os_id s) = op_id p"
      by (auto simp: cancel_valid_def split: option.splits)
    then have "ops rt' (op_slot p) = Some s" using nz alive_id [of s] by (simp add: ios.view_Some)
    then show False using ev gone s(2) unfolding evolves_def by fastforce
  qed
  then show ?thesis by (simp add: cancel_def)
qed

section \<open>Teardown\<close>

lemma drop_io_locals_map:
  "\<forall>s \<in> set ss. io_alive s \<longrightarrow> os_local s \<noteq> None \<Longrightarrow>
   drop_io_locals ss = Some (map (the \<circ> os_local) (filter io_alive ss))"
  by (induction ss) (auto simp: io_alive_def)

lemma drop_cancel_locals_map:
  "\<forall>s \<in> set ss. cancel_alive s \<longrightarrow> cs_local s \<noteq> None \<Longrightarrow>
   drop_cancel_locals ss = Some (map (the \<circ> cs_local) (filter cancel_alive ss))"
  by (induction ss) (auto simp: cancel_alive_def)

lemma locals_present:
  assumes inv: "rt_inv {} rt"
  shows "\<forall>s \<in> set (rt_io_slab rt). io_alive s \<longrightarrow> os_local s \<noteq> None"
    and "\<forall>s \<in> set (rt_cancel_slab rt). cancel_alive s \<longrightarrow> cs_local s \<noteq> None"
proof -
  have maps: "maps_ok {} (rt_next_op_id rt) (ops rt) (cxs rt)" using inv by (simp add: rt_inv_def)
  show "\<forall>s \<in> set (rt_io_slab rt). io_alive s \<longrightarrow> os_local s \<noteq> None"
  proof (intro ballI impI)
    fix s assume "s \<in> set (rt_io_slab rt)" "io_alive s"
    then obtain i where "ops rt i = Some s" by (auto simp: in_set_conv_nth ios.view_Some)
    from maps_okD(6) [OF maps this] show "os_local s \<noteq> None" by auto
  qed
  show "\<forall>s \<in> set (rt_cancel_slab rt). cancel_alive s \<longrightarrow> cs_local s \<noteq> None"
  proof (intro ballI impI)
    fix s assume "s \<in> set (rt_cancel_slab rt)" "cancel_alive s"
    then obtain i where "cxs rt i = Some s" by (auto simp: in_set_conv_nth css.view_Some)
    from maps_okD(8) [OF maps this] show "cs_local s \<noteq> None" by auto
  qed
qed

lemma drop_io_locals_gap:
  "s \<in> set ss \<Longrightarrow> io_alive s \<Longrightarrow> os_local s = None \<Longrightarrow> drop_io_locals ss = None"
  by (induction ss) (auto simp: io_alive_def bind_eq_None_conv)

section \<open>A concrete runtime\<close>

text \<open>
  A backend that accepts everything and never reports; callbacks that do nothing. \<open>demo_rt\<close> has one
  live operation, \<open>demo_cancelled\<close> the same operation with its cancellation under way.
\<close>

definition demo_be :: "(unit, unit) backend_ops" where
  "demo_be = \<lparr>be_arm = \<lambda>b slot cls req. (b, Inr ()), be_wait = \<lambda>b. Some (b, Inl Interrupted),
     be_next_completion = \<lambda>b. (b, None), be_cancel = \<lambda>b c slot cls. (b, Inr True),
     be_begin_teardown = \<lambda>b. b\<rparr>"

definition demo_shims :: "nat \<Rightarrow> 'rt \<Rightarrow> ('l, 'd) shim_args \<Rightarrow> 'rt option" where
  "demo_shims sh rt args = Some rt"

definition demo_cancels :: "nat \<Rightarrow> 'rt \<Rightarrow> 'l \<Rightarrow> 'l \<Rightarrow> ('rt \<times> 'l) option" where
  "demo_cancels dn rt l cl = Some (rt, l)"

type_synonym demo_runtime = "(erased list, nat, nat, nat, nat, unit) runtime"

definition demo_op :: op where
  "demo_op = \<lparr>op_slot = 0, op_class = 0, op_id = 1\<rparr>"

definition demo_slot :: "(nat, nat, nat) io_slot" where
  "demo_slot = \<lparr>os_id = 1, os_local = Some 7, os_buf = BUF_NONE, os_buf_len = 0, os_body = Live 3 4\<rparr>"

definition demo_rt :: demo_runtime where
  "demo_rt = (runtime_new () [] 1)\<lparr>rt_io_slab := [demo_slot], rt_inflight_ops := 1, rt_next_op_id := 2\<rparr>"

definition demo_cslot :: "(nat, nat) cancel_slot" where
  "demo_cslot = \<lparr>cs_id = 2, cs_target = 0, cs_target_id = 1, cs_local = Some 8, cs_body = CancelDone 5\<rparr>"

definition demo_cancelled :: demo_runtime where
  "demo_cancelled = demo_rt\<lparr>rt_io_slab := [demo_slot\<lparr>os_id := 1 OR CANCEL_PENDING\<rparr>],
     rt_cancel_slab := [demo_cslot], rt_inflight_cancels := 1, rt_next_op_id := 3\<rparr>"

lemmas demo_defs = demo_be_def demo_op_def demo_slot_def demo_rt_def demo_cslot_def demo_cancelled_def

lemma MAX_OP_ID_val: "MAX_OP_ID = 4611686018427387904"
  by (simp add: MAX_OP_ID_def CANCEL_PENDING_def push_bit_eq_mult)

lemma demo_register:
  "register_op demo_be (runtime_new () [] 1 :: demo_runtime) 3 4 7 0 [] () = Some (demo_rt, Inr demo_op)"
  by (simp add: demo_defs register_op_def claim_op_def alloc_op_slot_def runtime_new_def next_op_id_def
      alloc_buf_run_def with_io_slot_def io_slot_claim_def io_slot_init_free_def is_free_def idx_def
      MAX_OP_ID_val FREE_NONE_def)

lemma demo_inv: "rt_inv {} demo_rt"
  using register_op_spec [OF rt_inv_new demo_register] by (simp add: MAX_OP_ID_val)

lemma demo_cancel: "cancel demo_be demo_rt demo_op 8 5 = Some demo_cancelled"
  by (simp add: demo_defs cancel_def cancel_valid_def submit_cancel_def alloc_cancel_slot_def runtime_new_def
      next_op_id_def with_io_slot_def with_cancel_slot_def cancel_slot_claim_def cancel_slot_init_free_def
      is_free_def idx_def MAX_OP_ID_val FREE_NONE_def small_id word_less_nat_alt)

lemma demo_cancelled_inv: "rt_inv {} demo_cancelled"
  using cancel_spec [OF demo_inv _ demo_cancel] by (simp add: demo_op_def)

lemma demo_api: "api_only demo_be demo_shims demo_cancels"
  by (simp add: api_only_def demo_shims_def demo_cancels_def)

lemma demo_ops: "ops demo_rt = [0 \<mapsto> demo_slot]" "cxs demo_rt = Map.empty"
  by (auto simp: demo_rt_def ios.view_def demo_slot_def io_alive_def is_free_def runtime_new_def)

lemma demo_cancelled_ops:
  "ops demo_cancelled = [0 \<mapsto> demo_slot\<lparr>os_id := 1 OR CANCEL_PENDING\<rparr>]" "cxs demo_cancelled = [0 \<mapsto> demo_cslot]"
proof -
  have "(1 :: u64) OR CANCEL_PENDING \<noteq> 0" by (simp add: CANCEL_PENDING_def push_bit_eq_mult)
  then show "ops demo_cancelled = [0 \<mapsto> demo_slot\<lparr>os_id := 1 OR CANCEL_PENDING\<rparr>]" "cxs demo_cancelled = [0 \<mapsto> demo_cslot]"
    by (auto simp: demo_cancelled_def demo_rt_def ios.view_def css.view_def demo_slot_def demo_cslot_def
        io_alive_def cancel_alive_def is_free_def runtime_new_def)
qed

section \<open>Properties\<close>

text \<open>
  C29. The event loop. If every callback uses only the public operations, \<^verbatim>\<open>drive\<close> keeps the
  runtime's invariant (free stacks run through exactly the dead slots, live ids are distinct and
  below the counter, every live operation owns its local, every live cancellation names one live
  marked operation and the other way round), and when it returns no operation and no cancellation is
  live, or the last thing the backend did was to fail a \<^verbatim>\<open>wait\<close>.
\<close>

theorem event_loop_quiesces:
  assumes "drive shims cancels be rt = Some rt'" "rt_inv {} rt" "api_only be shims cancels"
  shows "rt_inv {} rt' \<and> (ops rt' = Map.empty \<and> cxs rt' = Map.empty \<or> (\<exists>b e. be_wait be b = Some (rt_backend rt', Inl e)))"
  using drive_spec [OF assms] quiescent_empty [of "{}" rt'] by blast

lemma demo_drive: "drive demo_shims demo_cancels demo_be demo_rt = Some demo_rt"
  by (subst drive.simps, subst drain_cqes.simps) (simp add: demo_be_def demo_rt_def runtime_new_def has_inflight_def)

theorem event_loop_quiesces_witness:
  "rt_inv {} demo_rt \<and> (ops demo_rt = Map.empty \<and> cxs demo_rt = Map.empty \<or>
     (\<exists>b e. be_wait demo_be b = Some (rt_backend demo_rt, Inl e)))"
  by (rule event_loop_quiesces [OF demo_drive demo_inv demo_api])




text \<open>
  C31. Delivery of a cancelled operation. When the backend reports a marked operation cancelled,
  its one cancellation is taken out of its slot and the cancel callback runs first, with the
  operation's local and the local given to \<^verbatim>\<open>cancel\<close>; if it returns, the operation's own shim is
  dispatched with the outcome \<^const>\<open>Cancelled\<close> and the local the callback left, after the slot was
  returned; if it panics, no shim runs.
\<close>

theorem cancelled_op_delivered:
  assumes "rt_inv {} rt" "api_only be shims cancels"
    and "ops rt i = Some s" "os_body s = Live sh d" "os_local s = Some l"
    and "is_cancel_pending (os_id s)" "cn_cancelled c"
  shows "\<exists>k x cl dn rtc. cxs rt k = Some x \<and> cs_target x = i \<and> cs_local x = Some cl \<and> cs_body x = CancelDone dn \<and>
     cxs rtc = (cxs rt)(k := None) \<and> rt_dropped rtc = rt_dropped rt \<and>
     (case cancels dn rtc l cl of
        None \<Rightarrow> complete_op shims cancels rt i c = None
      | Some (rt2, l2) \<Rightarrow> \<exists>rt3. rt_inv {} rt3 \<and> ops rt3 = (ops rt2)(i := None) \<and> cxs rt3 = cxs rt2 \<and>
          rt_dropped rt3 = rt_dropped rt2 \<and>
          complete_op shims cancels rt i c =
            dispatch_shim shims rt3 sh (slot_run s) Cancelled d l2 (cn_class c))"
proof -
  obtain k x cl dn rtc where r: "cxs rt k = Some x" "cs_target x = i" "cs_local x = Some cl" "cs_body x = CancelDone dn"
    "rt_inv {i} rtc" "cxs rtc = (cxs rt)(k := None)" "rt_dropped rtc = rt_dropped rt" "ops rtc = (ops rt)(i \<mapsto> taken s)"
    and cb: "dispatch_cancel_of cancels (rt\<lparr>rt_io_slab := (rt_io_slab rt)[i := taken s]\<rparr>) i l = cancels dn rtc l cl"
    using cancel_callback_state [OF assms(1,3,6), of l] by blast
  have "ops rtc i = Some (taken s)" using r(8) by simp
  note d = complete_op_cancelled [OF assms r(5) this cb]
  show ?thesis
    using r d by (intro exI [of _ k] exI [of _ x] exI [of _ cl] exI [of _ dn] exI [of _ rtc]) simp
qed

definition demo_cqe :: completion where
  "demo_cqe = \<lparr>cn_slot = 0, cn_result = - 125, cn_flags = 0, cn_class = 0, cn_cancel = False, cn_cancelled = True\<rparr>"

abbreviation demo_marked :: "(nat, nat, nat) io_slot" where
  "demo_marked \<equiv> demo_slot\<lparr>os_id := 1 OR CANCEL_PENDING\<rparr>"

lemma demo_marked_facts:
  "ops demo_cancelled 0 = Some demo_marked" "os_body demo_marked = Live 3 4" "os_local demo_marked = Some 7"
  "is_cancel_pending (os_id demo_marked)" "cn_cancelled demo_cqe"
  by (simp_all add: demo_cancelled_ops) (simp_all add: demo_slot_def demo_cqe_def)

theorem cancelled_op_delivered_witness:
  "\<exists>k x cl dn (rtc :: demo_runtime). cxs demo_cancelled k = Some x \<and> cs_target x = 0 \<and> cs_local x = Some cl \<and> cs_body x = CancelDone dn \<and>
     cxs rtc = (cxs demo_cancelled)(k := None) \<and> rt_dropped rtc = rt_dropped demo_cancelled \<and>
     (case demo_cancels dn rtc 7 cl of
        None \<Rightarrow> complete_op demo_shims demo_cancels demo_cancelled 0 demo_cqe = None
      | Some (rt2, l2) \<Rightarrow> \<exists>rt3. rt_inv {} rt3 \<and> ops rt3 = (ops rt2)(0 := None) \<and> cxs rt3 = cxs rt2 \<and>
          rt_dropped rt3 = rt_dropped rt2 \<and>
          complete_op demo_shims demo_cancels demo_cancelled 0 demo_cqe =
            dispatch_shim demo_shims rt3 3 (slot_run demo_marked) Cancelled 4 l2 (cn_class demo_cqe))"
  by (rule cancelled_op_delivered [OF demo_cancelled_inv demo_api demo_marked_facts])

text \<open>
  C32. A handle never reaches a later operation. Once the operation a handle names is gone from its
  slot, then after any sequence of registrations, cancellations, completions and backend polls,
  even when the slot has been reused, cancelling through the handle does nothing but drop the local
  passed along.
\<close>

theorem stale_handle_inert:
  assumes "rt_inv {} rt" "api_only be shims cancels" "(run_step be shims cancels)\<^sup>*\<^sup>* rt rt'"
    and "op_id p \<noteq> 0" "op_id p < rt_next_op_id rt"
    and "\<forall>s. ops rt (op_slot p) = Some s \<longrightarrow> id_bits (os_id s) \<noteq> op_id p"
  shows "cancel be rt' p l dn = Some (drop_local l rt')"
  using run_steps_inv [OF assms(3,1,2)] assms(4-6) by (intro cancel_stale) auto

theorem stale_handle_inert_witness:
  "cancel demo_be demo_cancelled \<lparr>op_slot = 3, op_class = 0, op_id = 1\<rparr> 9 5 = Some (drop_local 9 demo_cancelled)"
proof -
  have "api_step demo_be demo_rt demo_cancelled"
    by (rule api_step.Cancel [OF _ demo_cancel]) (simp add: demo_op_def)
  then have "(run_step demo_be demo_shims demo_cancels)\<^sup>*\<^sup>* demo_rt demo_cancelled"
    by (intro r_into_rtranclp run_step.Api)
  from stale_handle_inert [OF demo_inv demo_api this, of "\<lparr>op_slot = 3, op_class = 0, op_id = 1\<rparr>"]
  show ?thesis by (simp add: demo_ops) (simp add: demo_rt_def)
qed

text \<open>
  Registration. \<^verbatim>\<open>register_op\<close> keeps the invariant; on success there is exactly one new live
  operation, in a slot that was free, with the next id and the given shim, \<^verbatim>\<open>done\<close> and local, and the
  returned handle names it; when the backend refuses to arm it, the live operations are as before
  and the local was dropped, once.
\<close>

theorem register_op_fresh:
  assumes "rt_inv G rt" "register_op be rt sh d l cls bufs req = Some (rt', r)"
  shows "rt_inv G rt' \<and> cxs rt' = cxs rt \<and> rt_global rt' = rt_global rt \<and>
     (case r of
        Inr p \<Rightarrow> op_id p = rt_next_op_id rt \<and> op_class p = cls \<and> ops rt (op_slot p) = None \<and>
          rt_dropped rt' = rt_dropped rt \<and>
          (\<exists>s. ops rt' = (ops rt)(op_slot p \<mapsto> s) \<and> os_id s = op_id p \<and> os_local s = Some l \<and>
               os_body s = Live sh d)
      | Inl e \<Rightarrow> ops rt' = ops rt \<and> rt_dropped rt' = rt_dropped rt @ [l])"
  using register_op_spec [OF assms] by (simp add: registered_def)

theorem register_op_fresh_witness:
  "rt_inv {} demo_rt \<and> ops (runtime_new () [] 1 :: demo_runtime) 0 = None \<and> op_id demo_op = 1"
  using register_op_fresh [OF rt_inv_new demo_register] by (simp add: MAX_OP_ID_val runtime_new_def demo_op_def)

text \<open>
  Teardown. Dropping a runtime that satisfies the invariant drops the local of every live
  operation and of every live cancellation, each once and nothing else, after the backend was told to
  quiesce, and never touches the uninitialised local of a free slot.
\<close>

theorem runtime_drop_locals:
  assumes "rt_inv {} rt"
  shows "runtime_drop be rt = Some (be_begin_teardown be (rt_backend rt),
     map (the \<circ> os_local) (filter io_alive (rt_io_slab rt)) @
     map (the \<circ> cs_local) (filter cancel_alive (rt_cancel_slab rt)))"
  using drop_io_locals_map [OF locals_present(1) [OF assms]] drop_cancel_locals_map [OF locals_present(2) [OF assms]]
  by (simp add: runtime_drop_def)

theorem runtime_drop_locals_witness: "runtime_drop demo_be demo_cancelled = Some ((), [7, 8])"
  using runtime_drop_locals [OF demo_cancelled_inv, of demo_be]
  by (simp add: demo_defs runtime_new_def io_alive_def cancel_alive_def is_free_def CANCEL_PENDING_def
      push_bit_eq_mult)

text \<open>
  The window of a cancel callback. While the cancel callback of a cancelled operation runs, that
  operation is still marked live in its slot although its local was moved out. A panic that unwinds
  from the callback at this point drops the runtime in this state, and the drop then reads the
  missing local: it has no defined result.
\<close>

theorem cancel_callback_gap:
  assumes "rt_inv {} rt" "ops rt i = Some s" "is_cancel_pending (os_id s)"
  shows "\<exists>dn rtc cl. runtime_drop be rtc = None \<and>
     (\<forall>cancels. dispatch_cancel_of cancels (rt\<lparr>rt_io_slab := (rt_io_slab rt)[i :=
        s\<lparr>os_buf := BUF_NONE, os_buf_len := 0, os_local := None\<rparr>]\<rparr>) i l = cancels dn rtc l cl)"
proof -
  obtain dn rtc cl where r: "ops rtc = (ops rt)(i \<mapsto> taken s)"
    "\<forall>cancels. dispatch_cancel_of cancels (rt\<lparr>rt_io_slab := (rt_io_slab rt)[i := taken s]\<rparr>) i l = cancels dn rtc l cl"
    using cancel_callback_state [OF assms, of l] by blast
  have "ops rtc i = Some (taken s)" using r(1) by simp
  then have "taken s \<in> set (rt_io_slab rtc)" "io_alive (taken s)"
    unfolding ios.view_Some by (metis nth_mem, blast)
  from drop_io_locals_gap [OF this] have "runtime_drop be rtc = None" by (simp add: runtime_drop_def)
  then show ?thesis using r(2) by blast
qed

theorem cancel_callback_gap_witness:
  "\<exists>dn rtc cl. runtime_drop demo_be rtc = None \<and>
     (\<forall>cancels. dispatch_cancel_of cancels (demo_cancelled\<lparr>rt_io_slab := (rt_io_slab demo_cancelled)[0 :=
        demo_marked\<lparr>os_buf := BUF_NONE, os_buf_len := 0, os_local := None\<rparr>]\<rparr>) 0 7 = cancels dn rtc 7 cl)"
  by (rule cancel_callback_gap [OF demo_cancelled_inv demo_marked_facts(1,4)])

section \<open>Registering from inside a callback\<close>





end
