(* ===== verification/Backend_Port.thy ===== *)
theory Backend_Port
  imports Runtime_Delivery
begin

text \<open>
  What the runtime relies on in its backend (\<^verbatim>\<open>libs/coio-core/src/backend.rs\<close>), as a locale, and what
  it gets from it: along every run of the event loop the backend owes a completion for exactly the
  live operations, so no completion it reports can name a dead slot.
\<close>

section \<open>What the runtime does to its backend\<close>

lemma alloc_op_slot_backend:
  "alloc_op_slot rt = Some (rt', i) \<Longrightarrow> rt_backend rt' = rt_backend rt \<and> rt_cancel_slab rt' = rt_cancel_slab rt"
  by (auto simp: alloc_op_slot_def Let_def bind_eq_Some_conv split: if_splits)

lemma alloc_buf_run_backend:
  "alloc_buf_run rt bufs = Some (rt', run) \<Longrightarrow> rt_backend rt' = rt_backend rt \<and> rt_cancel_slab rt' = rt_cancel_slab rt"
  by (auto dest: alloc_buf_run_shape)

lemma claim_op_backend:
  "claim_op rt sh d l bufs = Some (rt', i, n) \<Longrightarrow> rt_backend rt' = rt_backend rt \<and> rt_cancel_slab rt' = rt_cancel_slab rt"
  by (auto simp: claim_op_def next_op_id_def with_io_slot_def Let_def split_def bind_eq_Some_conv
      dest!: alloc_op_slot_backend alloc_buf_run_backend)

lemma free_op_slot_backend:
  "free_op_slot rt i = Some rt' \<Longrightarrow> rt_backend rt' = rt_backend rt \<and> rt_cancel_slab rt' = rt_cancel_slab rt"
  by (auto simp: free_op_slot_def with_io_slot_def drop_local_def Let_def bind_eq_Some_conv)

lemma release_unarmed_backend:
  "release_unarmed rt i = Some rt' \<Longrightarrow> rt_backend rt' = rt_backend rt \<and> rt_cancel_slab rt' = rt_cancel_slab rt"
  by (auto simp: release_unarmed_def Let_def split_def bind_eq_Some_conv dest!: free_op_slot_backend split: option.splits)

text \<open>A registration arms one slot that was not live.\<close>

lemma register_op_backend:
  assumes inv: "rt_inv G rt" and ret: "register_op be rt sh d l cls bufs req = Some (rt', r)"
  obtains i b a where "ops rt i = None" "be_arm be (rt_backend rt) i cls req = (b, a)" "rt_backend rt' = b"
    "rt_cancel_slab rt' = rt_cancel_slab rt"
    "dom (ops rt') = (if isl a then dom (ops rt) else insert i (dom (ops rt)))"
proof -
  obtain rt1 i n where cl: "claim_op rt sh d l bufs = Some (rt1, i, n)"
    using ret by (cases "claim_op rt sh d l bufs") (auto simp: register_op_def)
  obtain b a where arm: "be_arm be (rt_backend rt1) i cls req = (b, a)" by fastforce
  have b1: "rt_backend rt1 = rt_backend rt" "rt_cancel_slab rt1 = rt_cancel_slab rt" using claim_op_backend [OF cl] by auto
  have fresh: "ops rt i = None" using claim_op_spec [OF inv cl] by blast
  have reg: "registered rt rt' sh d l cls r" using register_op_spec [OF inv ret] by blast
  show ?thesis
  proof (cases a)
    case (Inr u)
    then have "rt' = rt1\<lparr>rt_backend := b\<rparr>" "r = Inr \<lparr>op_slot = i, op_class = cls, op_id = n\<rparr>"
      using ret cl arm by (auto simp: register_op_def)
    moreover have "dom (ops rt') = insert i (dom (ops rt))" using reg calculation(2) by (auto simp: registered_def)
    ultimately show ?thesis using that [OF fresh arm [unfolded b1]] b1 Inr by simp
  next
    case (Inl e)
    then have "r = Inl e" "release_unarmed (rt1\<lparr>rt_backend := b\<rparr>) i = Some rt'"
      using ret cl arm by (auto simp: register_op_def)
    moreover have "ops rt' = ops rt" using reg calculation(1) by (simp add: registered_def)
    ultimately show ?thesis using that [OF fresh arm [unfolded b1]] release_unarmed_backend b1 Inl by fastforce
  qed
qed

lemma alloc_cancel_slot_backend:
  "alloc_cancel_slot rt = Some (rt', c) \<Longrightarrow>
     rt_backend rt' = rt_backend rt \<and> length (rt_cancel_slab rt) \<le> length (rt_cancel_slab rt')"
  by (auto simp: alloc_cancel_slot_def Let_def bind_eq_Some_conv split: if_splits)

text \<open>A cancellation is asked of the backend under a slot number below the length of the cancel slab.\<close>

lemma submit_cancel_backend:
  assumes "submit_cancel be rt p dn l = Some (rt', sub)"
  obtains c where "c < length (rt_cancel_slab rt')"
    "rt_backend rt' = fst (be_cancel be (rt_backend rt) c (op_slot p) (op_class p))"
    "length (rt_cancel_slab rt) \<le> length (rt_cancel_slab rt')"
proof -
  obtain rt1 c rt2 n where a: "alloc_cancel_slot rt = Some (rt1, c)"
    and w: "with_cancel_slot (rt1\<lparr>rt_next_op_id := n\<rparr>) c
        (\<lambda>s. cancel_slot_claim s (rt_next_op_id rt1) (op_slot p) (op_id p) dn l) = Some rt2"
    and e: "rt' = rt2\<lparr>rt_backend := fst (be_cancel be (rt_backend rt2) c (op_slot p) (op_class p))\<rparr> \<or>
      free_cancel_slot_dropping_local (rt2\<lparr>rt_backend := fst (be_cancel be (rt_backend rt2) c (op_slot p) (op_class p))\<rparr>) c = Some rt'"
    using assms unfolding submit_cancel_def next_op_id_def Let_def
    by (fastforce simp: bind_eq_Some_conv split_def split: if_splits)
  have b: "rt_backend rt2 = rt_backend rt" "c < length (rt_cancel_slab rt2)"
    "length (rt_cancel_slab rt) \<le> length (rt_cancel_slab rt2)"
    using alloc_cancel_slot_backend [OF a] with_cancel_slot_backend [OF w] by auto
  show ?thesis
  proof (rule that [of c])
    show "c < length (rt_cancel_slab rt')" using e b by (auto dest: free_cancel_slot_dropping_backend)
    show "rt_backend rt' = fst (be_cancel be (rt_backend rt) c (op_slot p) (op_class p))"
      using e b by (auto dest: free_cancel_slot_dropping_backend)
    show "length (rt_cancel_slab rt) \<le> length (rt_cancel_slab rt')"
      using e b by (auto dest: free_cancel_slot_dropping_backend)
  qed
qed

lemma cancel_backend:
  assumes inv: "rt_inv G rt" and nz: "op_id p \<noteq> 0" and ret: "cancel be rt p l dn = Some rt'"
  shows "dom (ops rt') = dom (ops rt) \<and> length (rt_cancel_slab rt) \<le> length (rt_cancel_slab rt') \<and>
    (rt_backend rt' = rt_backend rt \<or>
     (\<exists>c < length (rt_cancel_slab rt'). rt_backend rt' = fst (be_cancel be (rt_backend rt) c (op_slot p) (op_class p))))"
proof -
  have "dom (ops rt') = dom (ops rt)"
    using cancel_spec [OF inv nz ret] by (auto simp: cancel_effect_def split: if_splits)
  moreover have "length (rt_cancel_slab rt) \<le> length (rt_cancel_slab rt') \<and>
    (rt_backend rt' = rt_backend rt \<or>
     (\<exists>c < length (rt_cancel_slab rt'). rt_backend rt' = fst (be_cancel be (rt_backend rt) c (op_slot p) (op_class p))))"
  proof (cases "cancel_valid rt p")
    case False
    then show ?thesis using ret by (auto simp: cancel_def drop_local_def)
  next
    case True
    then obtain rt1 sub where s: "submit_cancel be rt p dn l = Some (rt1, sub)"
      and e: "rt_backend rt' = rt_backend rt1" "rt_cancel_slab rt' = rt_cancel_slab rt1"
      using ret by (auto simp: cancel_def with_io_slot_def bind_eq_Some_conv split: if_splits)
    from submit_cancel_backend [OF s] show ?thesis unfolding e by (metis (no_types))
  qed
  ultimately show ?thesis by blast
qed

lemma complete_cancel_backend:
  assumes inv: "rt_inv {} rt" and ret: "complete_cancel rt c result = Some rt'"
  shows "rt_backend rt' = rt_backend rt \<and> length (rt_cancel_slab rt') = length (rt_cancel_slab rt) \<and> dom (ops rt') = dom (ops rt)"
proof -
  have "rt_backend rt' = rt_backend rt \<and> length (rt_cancel_slab rt') = length (rt_cancel_slab rt)"
    using ret
    by (auto simp: complete_cancel_def cancel_slot_take_local_def drop_local_def Let_def bind_eq_Some_conv
        dest!: free_cancel_slot_backend split: option.splits if_splits)
  then show ?thesis using complete_cancel_inv [OF inv ret] by blast
qed

text \<open>
  The phases of a completion: a pending cancellation is settled (in the gap, by operations of its
  callback), the slot is freed, the shim runs.
\<close>

lemma complete_op_phases:
  fixes rt :: "('g, 'l, 'sh, 'd, 'cd, 'b) runtime"
  assumes inv: "rt_inv {} rt" and api: "api_only be shims cancels" and live: "ops rt i = Some s"
    and ret: "complete_op shims cancels rt i c = Some rt'"
  obtains r1 r2 rt2 rt3 :: "('g, 'l, 'sh, 'd, 'cd, 'b) runtime" and sh run outcome d l cls where
    "r1 = r2 \<or> rt_inv {i} r1" "rt_backend r1 = rt_backend rt" "length (rt_cancel_slab r1) = length (rt_cancel_slab rt)"
    "dom (ops r1) = dom (ops rt)" "(api_step be)\<^sup>*\<^sup>* r1 r2" "rt_backend rt2 = rt_backend r2"
    "rt_cancel_slab rt2 = rt_cancel_slab r2" "dom (ops rt2) = dom (ops r2)" "ready_to_free i rt2"
    "free_op_slot_taken rt2 i = Some rt3" "dispatch_shim shims rt3 sh run outcome d l cls = Some rt'"
proof -
  let ?s1 = "s\<lparr>os_buf := BUF_NONE, os_buf_len := 0, os_local := None\<rparr>"
  let ?rt1 = "rt\<lparr>rt_io_slab := (rt_io_slab rt)[i := ?s1]\<rparr>"
  have ok: "slabs_ok rt" and maps: "maps_ok {} (rt_next_op_id rt) (ops rt) (cxs rt)"
    using inv by (auto simp: rt_inv_def)
  have nf: "\<not> is_free (os_id s)" using live by (auto simp: ios.view_Some io_alive_def)
  obtain l rt2 l2 rt3 sh run outcome d where
    st: "(if is_cancel_pending (os_id s) then settle_cancel cancels ?rt1 i l (is_cancel_pending (os_id s) \<and> cn_cancelled c)
          else Some (?rt1, l)) = Some (rt2, l2)"
    and fr: "free_op_slot_taken rt2 i = Some rt3"
    and ds: "dispatch_shim shims rt3 sh run outcome d l2 (cn_class c) = Some rt'"
    using ret idx_view_io [OF live] nf
    by (auto simp: complete_op_def io_slot_take_buf_run_def io_slot_take_local_def Let_def
        bind_eq_Some_conv split: slot_body.splits)
  have al: "io_alive ?s1" using nf by (simp add: io_alive_def)
  note u = slabs_ok_update_io [OF ok live al]
  show ?thesis
  proof (cases "is_cancel_pending (os_id s)")
    case True
    have set: "settle_cancel cancels ?rt1 i l (cn_cancelled c) = Some (rt2, l2)" using st True by simp
    have e: "os_id ?s1 = os_id s" "os_body ?s1 = os_body s" by simp_all
    obtain r1 r2 where g: "rt_inv {i} r1" "ops r1 i = Some ?s1" "rt_backend r1 = rt_backend rt"
      "length (rt_cancel_slab r1) = length (rt_cancel_slab rt)" "dom (ops r1) = dom (ops rt)" "(api_step be)\<^sup>*\<^sup>* r1 r2"
      and un: "with_io_slot r2 i (\<lambda>s. Some (s\<lparr>os_id := os_id s AND NOT CANCEL_PENDING\<rparr>)) = Some rt2"
      by (rule settle_cancel_gap [OF inv api live True e set])
    have r2: "rt_inv {i} r2" "ops r2 i = Some ?s1" using api_steps_inv [OF g(6,1)] g(2) by auto
    note n = unmark_ready [OF r2 un]
    have "dom (ops rt2) = dom (ops r2)" using n r2(2) by auto
    moreover have "rt_backend rt2 = rt_backend r2" "rt_cancel_slab rt2 = rt_cancel_slab r2"
      using un by (auto simp: with_io_slot_def bind_eq_Some_conv)
    ultimately show ?thesis using that [of r1 r2 rt2] g n fr ds by blast
  next
    case False
    then have rt2: "rt2 = ?rt1" using st by simp
    have "cs_target x \<noteq> i" if "cxs rt k = Some x" for k x using maps_okD(10) [OF maps that] live False by auto
    from maps_ok_del_op [OF maps this] u have "ready_to_free i rt2" by (auto simp: rt2 ready_to_free_def)
    moreover have "dom (ops ?rt1) = dom (ops rt)" using u(2) live by auto
    ultimately show ?thesis using that [of ?rt1 ?rt1 rt2] rt2 fr ds by auto
  qed
qed

lemma free_op_slot_taken_backend:
  "free_op_slot_taken rt i = Some rt' \<Longrightarrow> rt_backend rt' = rt_backend rt \<and> rt_cancel_slab rt' = rt_cancel_slab rt"
  by (auto simp: free_op_slot_taken_def with_io_slot_def Let_def bind_eq_Some_conv)

section \<open>The event loop\<close>

text \<open>One step of a run: an operation of the client, a completion taken, an empty poll, a wait.\<close>

inductive loop_step for be shims cancels where
  LApi: "api_step be rt rt' \<Longrightarrow> loop_step be shims cancels rt rt'"
| LTake: "be_next_completion be (rt_backend rt) = (b, Some c) \<Longrightarrow>
    take_completion shims cancels (rt\<lparr>rt_backend := b\<rparr>) c = Some rt' \<Longrightarrow> loop_step be shims cancels rt rt'"
| LIdle: "be_next_completion be (rt_backend rt) = (b, None) \<Longrightarrow> loop_step be shims cancels rt (rt\<lparr>rt_backend := b\<rparr>)"
| LWait: "be_wait be (rt_backend rt) = Some (b, r) \<Longrightarrow> loop_step be shims cancels rt (rt\<lparr>rt_backend := b\<rparr>)"

section \<open>The contract of a backend\<close>

text \<open>
  \<open>due\<close> are the slots of the operations the backend has yet to report, \<open>cdue\<close> the cancel slots. An
  operation is armed only on a slot nothing is due for; a completion is reported once, for a slot it
  is due for; waiting and cancelling change nothing about that.
\<close>

locale backend_port =
  fixes be :: "('b, 'r) backend_ops" and wf :: "'b \<Rightarrow> bool" and due :: "'b \<Rightarrow> nat set" and cdue :: "'b \<Rightarrow> nat set"
  assumes arm_law: "wf b \<Longrightarrow> slot \<notin> due b \<Longrightarrow> be_arm be b slot cls req = (b', r) \<Longrightarrow>
      wf b' \<and> due b' = (if isl r then due b else insert slot (due b)) \<and> cdue b' = cdue b"
    and cancel_law: "wf b \<Longrightarrow> be_cancel be b c t cls = (b', r') \<Longrightarrow>
      wf b' \<and> due b' = due b \<and> cdue b' \<subseteq> insert c (cdue b)"
    and next_None: "wf b \<Longrightarrow> be_next_completion be b = (b', None) \<Longrightarrow> wf b' \<and> due b' = due b \<and> cdue b' = cdue b"
    and next_op: "wf b \<Longrightarrow> be_next_completion be b = (b', Some cn) \<Longrightarrow> \<not> cn_cancel cn \<Longrightarrow>
      wf b' \<and> cn_slot cn \<in> due b \<and> due b' = due b - {cn_slot cn} \<and> cdue b' = cdue b"
    and next_cancel: "wf b \<Longrightarrow> be_next_completion be b = (b', Some cn) \<Longrightarrow> cn_cancel cn \<Longrightarrow>
      wf b' \<and> cn_slot cn \<in> cdue b \<and> due b' = due b \<and> cdue b' \<subseteq> cdue b"
    and wait_law: "wf b \<Longrightarrow> be_wait be b = Some (b', w) \<Longrightarrow> wf b' \<and> due b' = due b \<and> cdue b' = cdue b"
begin

definition acct :: "nat set \<Rightarrow> ('g, 'l, 'sh, 'd, 'cd, 'b) runtime \<Rightarrow> bool" where
  "acct D rt \<longleftrightarrow> wf (rt_backend rt) \<and> due (rt_backend rt) = dom (ops rt) - D \<and>
     cdue (rt_backend rt) \<subseteq> {..< length (rt_cancel_slab rt)}"

lemma acct_cong:
  assumes "rt_backend r = rt_backend rt" "length (rt_cancel_slab r) = length (rt_cancel_slab rt)" "dom (ops r) = dom (ops rt)"
  shows "acct D r = acct D rt"
  using assms by (simp add: acct_def)

lemma acct_api_step:
  assumes "api_step be rt rt'" "rt_inv G rt" "acct D rt" "D \<subseteq> dom (ops rt)"
  shows "acct D rt' \<and> D \<subseteq> dom (ops rt')"
  using assms
proof (induction rule: api_step.induct)
  case (Register rt sh d l cls bufs req rt' r)
  obtain i b a where i: "ops rt i = None" "be_arm be (rt_backend rt) i cls req = (b, a)" "rt_backend rt' = b"
    "rt_cancel_slab rt' = rt_cancel_slab rt"
    "dom (ops rt') = (if isl a then dom (ops rt) else insert i (dom (ops rt)))"
    by (rule register_op_backend [OF Register.prems(1) Register.hyps])
  have "wf (rt_backend rt)" "i \<notin> due (rt_backend rt)" using Register.prems(2) i(1) by (auto simp: acct_def)
  from arm_law [OF this i(2)] Register.prems(2,3) i(1,3-5) show ?case by (auto simp: acct_def)
next
  case (Cancel p rt l dn rt')
  note c = cancel_backend [OF Cancel.prems(1) Cancel.hyps]
  have wf: "wf (rt_backend rt)" and cd: "cdue (rt_backend rt) \<subseteq> {..< length (rt_cancel_slab rt')}"
    using Cancel.prems(2) c by (auto simp: acct_def)
  have "wf (rt_backend rt') \<and> due (rt_backend rt') = due (rt_backend rt) \<and>
      cdue (rt_backend rt') \<subseteq> {..< length (rt_cancel_slab rt')}"
    using c
  proof (elim conjE disjE exE)
    assume "rt_backend rt' = rt_backend rt"
    then show ?thesis using wf cd by simp
  next
    fix k assume "k < length (rt_cancel_slab rt')" and
      b: "rt_backend rt' = fst (be_cancel be (rt_backend rt) k (op_slot p) (op_class p))"
    then have e: "be_cancel be (rt_backend rt) k (op_slot p) (op_class p) =
        (rt_backend rt', snd (be_cancel be (rt_backend rt) k (op_slot p) (op_class p)))" by simp
    from cancel_law [OF wf e] show ?thesis using cd \<open>k < length (rt_cancel_slab rt')\<close> by auto
  qed
  then show ?case using c Cancel.prems(2,3) by (simp add: acct_def)
next
  case (Global rt g)
  then show ?case by (simp add: acct_def)
qed

lemma acct_api_steps:
  assumes "(api_step be)\<^sup>*\<^sup>* rt rt'" "rt_inv G rt" "acct D rt" "D \<subseteq> dom (ops rt)"
  shows "acct D rt' \<and> D \<subseteq> dom (ops rt')"
  using assms
proof (induction rule: rtranclp_induct)
  case base
  then show ?case by simp
next
  case (step y z)
  then show ?case using api_steps_inv [OF step.hyps(1), of G] acct_api_step [OF step.hyps(2), of G D] by blast
qed

lemma acct_complete_op:
  fixes rt :: "('g, 'l, 'sh, 'd, 'cd, 'b) runtime"
  assumes inv: "rt_inv {} rt" and api: "api_only be shims cancels" and live: "ops rt i = Some s"
    and a: "acct {i} rt" and ret: "complete_op shims cancels rt i c = Some rt'"
  shows "acct {} rt'"
proof -
  obtain r1 r2 rt2 rt3 :: "('g, 'l, 'sh, 'd, 'cd, 'b) runtime" and sh run outcome d l cls where
    r1: "r1 = r2 \<or> rt_inv {i} r1" "rt_backend r1 = rt_backend rt" "length (rt_cancel_slab r1) = length (rt_cancel_slab rt)"
    "dom (ops r1) = dom (ops rt)" "(api_step be)\<^sup>*\<^sup>* r1 r2" and rt2: "rt_backend rt2 = rt_backend r2"
    "rt_cancel_slab rt2 = rt_cancel_slab r2" "dom (ops rt2) = dom (ops r2)" "ready_to_free i rt2"
    and fr: "free_op_slot_taken rt2 i = Some rt3" and ds: "dispatch_shim shims rt3 sh run outcome d l cls = Some rt'"
    by (rule complete_op_phases [OF inv api live ret])
  have "acct {i} r1" "{i} \<subseteq> dom (ops r1)" using a acct_cong [of r1 rt] r1(2-4) live by auto
  then have "acct {i} r2" using r1(1,5) acct_api_steps [of r1 r2 "{i}" "{i}"] by auto
  then have a2: "acct {i} rt2" using acct_cong [of rt2 r2] rt2 by simp
  obtain s2 where s2: "slabs_ok rt2" "ops rt2 i = Some s2" "maps_ok {} (rt_next_op_id rt2) ((ops rt2)(i := None)) (cxs rt2)"
    using rt2(4) by (auto simp: ready_to_free_def)
  note f = free_op_slot_taken_spec [OF s2(1,2) fr]
  have inv3: "rt_inv {} rt3" using f s2(3) by (simp add: rt_inv_def)
  have "acct {} rt3" using a2 f free_op_slot_taken_backend [OF fr] by (auto simp: acct_def)
  moreover obtain args r4 where "shims sh (rt3\<lparr>rt_buf_arena := arena_new\<rparr>) args = Some r4" "\<exists>b. rt' = r4\<lparr>rt_buf_arena := b\<rparr>"
    using ds by (fastforce simp: dispatch_shim_def Let_def bind_eq_Some_conv split: option.splits)
  moreover have "(api_step be)\<^sup>*\<^sup>* (rt3\<lparr>rt_buf_arena := arena_new\<rparr>) r4" using api calculation(2) by (auto simp: api_only_def)
  ultimately show ?thesis
    using acct_api_steps [of "rt3\<lparr>rt_buf_arena := arena_new\<rparr>" r4 "{}" "{}"] inv3 by (auto simp: acct_def)
qed

lemma acct_take:
  assumes inv: "rt_inv {} rt" and a: "acct {} rt" and api: "api_only be shims cancels"
    and nxt: "be_next_completion be (rt_backend rt) = (b, Some c)"
    and ret: "take_completion shims cancels (rt\<lparr>rt_backend := b\<rparr>) c = Some rt'"
  shows "acct {} rt'"
proof -
  let ?r = "rt\<lparr>rt_backend := b\<rparr>"
  have inv': "rt_inv {} ?r" using inv by simp
  have wf: "wf (rt_backend rt)" using a by (simp add: acct_def)
  show ?thesis
  proof (cases "cn_cancel c")
    case True
    then have "complete_cancel ?r (cn_slot c) (cn_result c) = Some rt'"
      using ret by (auto simp: take_completion_def bind_eq_Some_conv)
    from complete_cancel_backend [OF inv' this] next_cancel [OF wf nxt True] a show ?thesis
      by (auto simp: acct_def)
  next
    case False
    then have c: "complete_op shims cancels ?r (cn_slot c) c = Some rt'"
      using ret by (auto simp: take_completion_def bind_eq_Some_conv)
    note n = next_op [OF wf nxt False]
    obtain s where "ops ?r (cn_slot c) = Some s" using n a by (auto simp: acct_def)
    moreover have "acct {cn_slot c} ?r" using n a by (auto simp: acct_def)
    ultimately show ?thesis using acct_complete_op [OF inv' api _ _ c] by blast
  qed
qed

lemma loop_step_acct:
  assumes "loop_step be shims cancels rt rt'" "rt_inv {} rt" "acct {} rt" "api_only be shims cancels"
  shows "rt_inv {} rt' \<and> acct {} rt'"
  using assms
proof (induction rule: loop_step.induct)
  case (LApi rt rt')
  then show ?case using api_step_inv [OF LApi.hyps, of "{}"] acct_api_step [OF LApi.hyps, of "{}" "{}"] by blast
next
  case (LTake rt b c rt')
  have "rt_inv {} (rt\<lparr>rt_backend := b\<rparr>)" using LTake.prems(1) by simp
  from take_completion_inv [OF this LTake.prems(3) LTake.hyps(2)]
  show ?case using acct_take [OF LTake.prems(1-3) LTake.hyps] by blast
next
  case (LIdle rt b)
  have "wf (rt_backend rt)" using LIdle.prems(2) by (simp add: acct_def)
  from next_None [OF this LIdle.hyps] show ?case using LIdle.prems by (auto simp: acct_def)
next
  case (LWait rt b r)
  have "wf (rt_backend rt)" using LWait.prems(2) by (simp add: acct_def)
  from wait_law [OF this LWait.hyps] show ?case using LWait.prems by (auto simp: acct_def)
qed

lemma loop_acct:
  assumes "(loop_step be shims cancels)\<^sup>*\<^sup>* (runtime_new b g n) rt" "api_only be shims cancels"
    and "wf b" "due b = {}" "cdue b = {}" "0 < n" "n \<le> MAX_OP_ID"
  shows "rt_inv {} rt \<and> acct {} rt"
  using assms(1)
proof (induction rule: rtranclp_induct)
  case base
  then show ?case using assms(3-) rt_inv_new [OF assms(6,7)] by (simp add: acct_def runtime_new_def)
next
  case (step y z)
  then show ?case using loop_step_acct [OF step.hyps(2) _ _ assms(2)] by blast
qed

text \<open>
  Every completion the backend reports names a live operation with its local (or, for a cancellation,
  a slot of the cancel slab): the assertions of \<^verbatim>\<open>take_completion\<close> hold.
\<close>

lemma completion_names_live:
  assumes "rt_inv {} rt" "acct {} rt" "be_next_completion be (rt_backend rt) = (b, Some c)"
  shows "if cn_cancel c then cn_slot c < length (rt_cancel_slab rt)
    else \<exists>s sh d l. ops rt (cn_slot c) = Some s \<and> os_body s = Live sh d \<and> os_local s = Some l"
proof (cases "cn_cancel c")
  case True
  have "wf (rt_backend rt)" using assms(2) by (simp add: acct_def)
  from next_cancel [OF this assms(3) True] assms(2) True show ?thesis by (auto simp: acct_def)
next
  case False
  have "wf (rt_backend rt)" using assms(2) by (simp add: acct_def)
  from next_op [OF this assms(3) False] assms(2) obtain s where s: "ops rt (cn_slot c) = Some s" by (auto simp: acct_def)
  have maps: "maps_ok {} (rt_next_op_id rt) (ops rt) (cxs rt)" using assms(1) by (simp add: rt_inv_def)
  show ?thesis using False s maps_okD [OF maps] s by fastforce
qed

end

end
