(* ===== verification/Mio_Backend.thy ===== *)
theory Mio_Backend
  imports Io_Buffers Backend_Port Buffer_Views
begin

text \<open>
  The readiness backend (\<^verbatim>\<open>libs/coio-mio/src/mio.rs\<close>, \<^verbatim>\<open>sys.rs\<close>, \<^verbatim>\<open>io.rs\<close>, \<^verbatim>\<open>lib.rs\<close>): armed
  operations wait in a table indexed by the runtime's slot until the poller reports their
  descriptor, then the backend issues the system call and reports the completion itself.

  \<^item> The \<^verbatim>\<open>mio\<close> crate and the kernel are the record \<open>poll_ops\<close> over a world \<open>'w\<close>: registering
    and deregistering a descriptor, polling, and the three system calls.
  \<^item> \<open>mi_regs\<close> is a ghost field: the tokens of the registrations that were made and not
    removed, by descriptor.
  \<^item> \<open>mi_events\<close> is the event buffer of the last poll. Reading its first event does not remove it;
    only the next \<^verbatim>\<open>wait\<close> clears it.
\<close>

section \<open>State\<close>

datatype interest = READABLE | WRITABLE

datatype mio_req =
    ReqRead fd u64 nat
  | ReqWrite fd u64 nat
  | ReqAccept fd

record registration =
  rg_fd :: fd
  rg_token :: nat
  rg_interest :: interest

record pending_op =
  pd_reg :: registration
  pd_req :: mio_req

record 'w mio =
  mi_world :: 'w
  mi_regs :: "(fd \<times> nat) list"
  mi_events :: "nat list"
  mi_pending :: "pending_op option list"
  mi_ready :: "completion list"

record 'w poll_ops =
  pl_register :: "'w \<Rightarrow> fd \<Rightarrow> nat \<Rightarrow> interest \<Rightarrow> 'w \<times> unit io_result"
  pl_deregister :: "'w \<Rightarrow> fd \<Rightarrow> 'w"
  pl_poll :: "'w \<Rightarrow> 'w \<times> nat list io_result"
  pl_read :: "'w \<Rightarrow> fd \<Rightarrow> u64 \<Rightarrow> nat \<Rightarrow> 'w \<times> (errno + nat)"
  pl_write :: "'w \<Rightarrow> fd \<Rightarrow> u64 \<Rightarrow> nat \<Rightarrow> 'w \<times> (errno + nat)"
  pl_accept :: "'w \<Rightarrow> fd \<Rightarrow> 'w \<times> (errno + nat)"

record mio_config =
  mc_capacity :: nat

definition mio_config_default :: mio_config where
  "mio_config_default = \<lparr>mc_capacity = 256\<rparr>"

definition mio_attach :: "'w \<Rightarrow> mio_config \<Rightarrow> 'w mio" where
  "mio_attach w cfg = \<lparr>mi_world = w, mi_regs = [], mi_events = [], mi_pending = [], mi_ready = []\<rparr>"

section \<open>Registrations\<close>

definition registration_attach :: "'w poll_ops \<Rightarrow> 'w mio \<Rightarrow> registration \<Rightarrow> 'w mio \<times> unit io_result" where
  "registration_attach p m reg =
     (let (w, r) = pl_register p (mi_world m) (rg_fd reg) (rg_token reg) (rg_interest reg);
          m = m\<lparr>mi_world := w\<rparr>
      in case r of
           Inl e \<Rightarrow> (m, Inl e)
         | Inr _ \<Rightarrow> (m\<lparr>mi_regs := mi_regs m @ [(rg_fd reg, rg_token reg)]\<rparr>, Inr ()))"

definition registration_detach :: "'w poll_ops \<Rightarrow> 'w mio \<Rightarrow> registration \<Rightarrow> 'w mio" where
  "registration_detach p m reg =
     m\<lparr>mi_world := pl_deregister p (mi_world m) (rg_fd reg),
       mi_regs := filter (\<lambda>(fd, t). fd \<noteq> rg_fd reg) (mi_regs m)\<rparr>"

definition registration_new ::
  "'w poll_ops \<Rightarrow> 'w mio \<Rightarrow> fd \<Rightarrow> nat \<Rightarrow> interest \<Rightarrow> 'w mio \<times> registration io_result"
where
  "registration_new p m fd token what =
     (let reg = \<lparr>rg_fd = fd, rg_token = token, rg_interest = what\<rparr> in
      case registration_attach p m reg of
        (m, Inl e) \<Rightarrow> (m, Inl e)
      | (m, Inr _) \<Rightarrow> (m, Inr reg))"

section \<open>The backend\<close>

definition take_pending :: "'w poll_ops \<Rightarrow> 'w mio \<Rightarrow> nat \<Rightarrow> 'w mio \<times> pending_op option" where
  "take_pending p m slot =
     (case idx (mi_pending m) slot of
        Some (Some op) \<Rightarrow>
          (registration_detach p (m\<lparr>mi_pending := (mi_pending m)[slot := None]\<rparr>) (pd_reg op), Some op)
      | _ \<Rightarrow> (m, None))"

definition mio_push :: "'w mio \<Rightarrow> completion \<Rightarrow> 'w mio" where
  "mio_push m c = m\<lparr>mi_ready := mi_ready m @ [c]\<rparr>"

definition interest_of :: "mio_req \<Rightarrow> fd \<times> interest" where
  "interest_of req =
     (case req of
        ReqRead fd _ _ \<Rightarrow> (fd, READABLE)
      | ReqWrite fd _ _ \<Rightarrow> (fd, WRITABLE)
      | ReqAccept fd \<Rightarrow> (fd, READABLE))"

text \<open>\<^verbatim>\<open>while pending.len() <= idx { pending.push(None) }\<close>.\<close>

definition grow_pending :: "pending_op option list \<Rightarrow> nat \<Rightarrow> pending_op option list" where
  "grow_pending ps i = ps @ replicate (i + 1 - length ps) None"

definition mio_arm :: "'w poll_ops \<Rightarrow> 'w mio \<Rightarrow> nat \<Rightarrow> u8 \<Rightarrow> mio_req \<Rightarrow> 'w mio \<times> unit io_result" where
  "mio_arm p m slot cls req =
     (let (fd, what) = interest_of req in
      case registration_new p m fd slot what of
        (m, Inl e) \<Rightarrow> (m, Inl e)
      | (m, Inr reg) \<Rightarrow>
          (m\<lparr>mi_pending := (grow_pending (mi_pending m) slot)[slot := Some \<lparr>pd_reg = reg, pd_req = req\<rparr>]\<rparr>, Inr ()))"

text \<open>A poll interrupted by a signal is repeated.\<close>

partial_function (option) poll_loop :: "'w poll_ops \<Rightarrow> 'w mio \<Rightarrow> ('w mio \<times> unit io_result) option" where
  "poll_loop p m =
     (case pl_poll p (mi_world m) of
        (w, Inr evs) \<Rightarrow> Some (m\<lparr>mi_world := w, mi_events := evs\<rparr>, Inr ())
      | (w, Inl e) \<Rightarrow> if e = Interrupted then poll_loop p (m\<lparr>mi_world := w\<rparr>) else Some (m\<lparr>mi_world := w\<rparr>, Inl e))"

declare poll_loop.simps [code]

definition mio_wait :: "'w poll_ops \<Rightarrow> 'w mio \<Rightarrow> ('w mio \<times> unit io_result) option" where
  "mio_wait p m = poll_loop p (m\<lparr>mi_events := []\<rparr>)"

text \<open>\<^verbatim>\<open>finish\<close> after the system call, whose errno is kept as the error.\<close>

definition perform :: "'w poll_ops \<Rightarrow> 'w mio \<Rightarrow> mio_req \<Rightarrow> 'w mio \<times> (errno + int)" where
  "perform p m req =
     (let (w, r) = (case req of
                      ReqRead fd addr len \<Rightarrow> pl_read p (mi_world m) fd addr len
                    | ReqWrite fd addr len \<Rightarrow> pl_write p (mi_world m) fd addr len
                    | ReqAccept fd \<Rightarrow> pl_accept p (mi_world m) fd)
      in (m\<lparr>mi_world := w\<rparr>, map_sum (\<lambda>e. e) int r))"

definition plain_completion :: "nat \<Rightarrow> int \<Rightarrow> completion" where
  "plain_completion slot result =
     \<lparr>cn_slot = slot, cn_result = result, cn_flags = 0, cn_class = 0, cn_cancel = False, cn_cancelled = False\<rparr>"

definition mio_next_completion :: "'w poll_ops \<Rightarrow> 'w mio \<Rightarrow> 'w mio \<times> completion option" where
  "mio_next_completion p m =
     (case mi_ready m of
        c # cs \<Rightarrow> (m\<lparr>mi_ready := cs\<rparr>, Some c)
      | [] \<Rightarrow>
          (case mi_events m of
             [] \<Rightarrow> (m, None)
           | token # _ \<Rightarrow>
               (case take_pending p m token of
                  (m, None) \<Rightarrow> (m, None)
                | (m, Some pend) \<Rightarrow>
                    (case perform p m (pd_req pend) of
                       (m, Inr result) \<Rightarrow> (m, Some (plain_completion token result))
                     | (m, Inl e) \<Rightarrow>
                         (if e = EAGAIN
                          then (m\<lparr>mi_pending := (mi_pending m)[token := Some pend]\<rparr>, None)
                          else (m, Some (plain_completion token (- e))))))))"

definition mio_cancel :: "'w poll_ops \<Rightarrow> 'w mio \<Rightarrow> nat \<Rightarrow> nat \<Rightarrow> u8 \<Rightarrow> 'w mio \<times> bool io_result" where
  "mio_cancel p m cancel_slot target_slot cls =
     (case take_pending p m target_slot of
        (m, None) \<Rightarrow> (m, Inr False)
      | (m, Some _) \<Rightarrow>
          (let m = mio_push m \<lparr>cn_slot = cancel_slot, cn_result = 0, cn_flags = 0, cn_class = 0,
                               cn_cancel = True, cn_cancelled = False\<rparr>;
               m = mio_push m \<lparr>cn_slot = target_slot, cn_result = - ECANCELED, cn_flags = 0, cn_class = cls,
                               cn_cancel = False, cn_cancelled = True\<rparr>
           in (m, Inr True)))"

definition mio_begin_teardown :: "'w poll_ops \<Rightarrow> 'w mio \<Rightarrow> 'w mio" where
  "mio_begin_teardown p m =
     (foldl (\<lambda>m op. registration_detach p m (pd_reg op)) m (List.map_filter (\<lambda>op. op) (mi_pending m)))
       \<lparr>mi_pending := [], mi_ready := []\<rparr>"

text \<open>The backend as the runtime sees it.\<close>

definition mio_ops :: "'w poll_ops \<Rightarrow> ('w mio, mio_req) backend_ops" where
  "mio_ops p =
     \<lparr>be_arm = mio_arm p,
      be_wait = mio_wait p,
      be_next_completion = mio_next_completion p,
      be_cancel = mio_cancel p,
      be_begin_teardown = mio_begin_teardown p\<rparr>"

section \<open>The portable operations\<close>

datatype io_shim = ReadShim | WriteShim | AcceptShim

text \<open>What each shim does with a completion: the callbacks are the arguments.\<close>

definition io_shims where
  "io_shims read_done write_done accept_done sh rt args =
     (case sh of
        ReadShim \<Rightarrow> finish_buf_op (\<lambda>e n. vec_from_erased e (word_of_nat n)) read_done rt args
      | WriteShim \<Rightarrow> finish_buf_op (\<lambda>e n. vec_from_erased e (word_of_nat n)) write_done rt args
      | AcceptShim \<Rightarrow> finish_plain_op (\<lambda>fd. fd) accept_done rt args)"

definition mio_read where
  "mio_read p rt fd buf local done =
     (let (addr, len) = vec_writable buf in
      register_op (mio_ops p) rt ReadShim done local 0 [vec_into_erased buf] (ReqRead fd addr (unat len)))"

definition mio_write where
  "mio_write p rt fd buf local done =
     (let (addr, len) = vec_readable buf in
      register_op (mio_ops p) rt WriteShim done local 0 [vec_into_erased buf] (ReqWrite fd addr (unat len)))"

definition mio_accept where
  "mio_accept p rt listener_fd local done =
     register_op (mio_ops p) rt AcceptShim done local 0 [] (ReqAccept listener_fd)"

text \<open>
  \<^verbatim>\<open>block_on\<close>: start, run to the end, take the global state out, drop the runtime, hand the state back. \<open>created\<close> is what creating the
  poller returned; a failure panics.
\<close>

definition mio_block_on where
  "mio_block_on p shims cancels th created cfg global next_id boot = do {
     th \<leftarrow> enter_active_gen th;
     (case created of
        Inl e \<Rightarrow> None
      | Inr w \<Rightarrow> do {
          rt \<leftarrow> boot (runtime_new (mio_attach w cfg) global next_id);
          rt \<leftarrow> drive shims cancels (mio_ops p) rt;
          g \<leftarrow> rt_global rt;
          runtime_drop (mio_ops p) (rt\<lparr>rt_global := None\<rparr>);
          Some (exit_active_gen th, g)
        })
   }"

section \<open>Accounting\<close>

definition armed_in :: "pending_op option list \<Rightarrow> nat set" where
  "armed_in ps = {i. i < length ps \<and> ps ! i \<noteq> None}"

definition pend :: "'w mio \<Rightarrow> nat set" where
  "pend m = armed_in (mi_pending m)"

definition queued :: "'w mio \<Rightarrow> nat list" where
  "queued m = map cn_slot (filter (\<lambda>c. \<not> cn_cancel c) (mi_ready m))"

definition mio_due :: "'w mio \<Rightarrow> nat set" where
  "mio_due m = pend m \<union> set (queued m)"

definition mio_cdue :: "'w mio \<Rightarrow> nat set" where
  "mio_cdue m = set (map cn_slot (filter cn_cancel (mi_ready m)))"

definition mio_wf :: "'w mio \<Rightarrow> bool" where
  "mio_wf m \<longleftrightarrow> distinct (queued m) \<and> pend m \<inter> set (queued m) = {}"

lemmas mio_acct_defs = mio_due_def mio_cdue_def mio_wf_def

lemma mio_frame [simp]:
  "pend (m\<lparr>mi_world := w\<rparr>) = pend m" "queued (m\<lparr>mi_world := w\<rparr>) = queued m"
  "pend (m\<lparr>mi_regs := rs\<rparr>) = pend m" "queued (m\<lparr>mi_regs := rs\<rparr>) = queued m"
  "pend (m\<lparr>mi_events := es\<rparr>) = pend m" "queued (m\<lparr>mi_events := es\<rparr>) = queued m"
  "pend (m\<lparr>mi_ready := cs\<rparr>) = pend m" "queued (m\<lparr>mi_pending := ps\<rparr>) = queued m"
  by (simp_all add: pend_def queued_def)

lemma detach_frame [simp]:
  "pend (registration_detach p m reg) = pend m" "queued (registration_detach p m reg) = queued m"
  "mi_ready (registration_detach p m reg) = mi_ready m" "mi_pending (registration_detach p m reg) = mi_pending m"
  "mi_events (registration_detach p m reg) = mi_events m"
  by (simp_all add: registration_detach_def)

lemma attach_frame:
  assumes "registration_new p m fd t what = (m', r)"
  shows "pend m' = pend m \<and> queued m' = queued m \<and> mi_ready m' = mi_ready m \<and> mi_pending m' = mi_pending m"
  using assms by (auto simp: registration_new_def registration_attach_def Let_def split: prod.splits sum.splits)

lemma armed_in_clear: "armed_in (ps[i := None]) = armed_in ps - {i}"
  by (cases "i < length ps") (auto simp: armed_in_def nth_list_update split: if_splits)

lemma armed_in_set: "i < length ps \<Longrightarrow> armed_in (ps[i := Some x]) = insert i (armed_in ps)"
  by (auto simp: armed_in_def nth_list_update split: if_splits)

lemma armed_in_grow: "armed_in ((grow_pending ps i)[i := Some x]) = insert i (armed_in ps)"
proof -
  have "armed_in (grow_pending ps i) = armed_in ps"
    by (cases "length ps \<le> i") (auto simp: armed_in_def grow_pending_def nth_append split: if_splits)
  moreover have "i < length (grow_pending ps i)" by (simp add: grow_pending_def)
  ultimately show ?thesis by (simp add: armed_in_set)
qed

lemma take_pending_Some:
  assumes "take_pending p m i = (m', Some op)"
  shows "i \<in> pend m" "pend m' = pend m - {i}" "queued m' = queued m" "mi_ready m' = mi_ready m" "i < length (mi_pending m')"
    "mi_events m' = mi_events m"
  using assms
  by (auto simp: take_pending_def idx_def armed_in_clear pend_def armed_in_def [of "mi_pending m"] split: option.splits if_splits)

lemma take_pending_None:
  assumes "take_pending p m i = (m', None)" shows "m' = m" "i \<notin> pend m"
  using assms by (auto simp: take_pending_def idx_def pend_def armed_in_def split: option.splits if_splits)

lemma perform_frame:
  assumes "perform p m req = (m', r)"
  shows "pend m' = pend m \<and> queued m' = queued m \<and> mi_ready m' = mi_ready m \<and> mi_pending m' = mi_pending m \<and>
    mi_regs m' = mi_regs m \<and> mi_events m' = mi_events m"
  using assms by (auto simp: perform_def Let_def split: prod.splits)

lemma mio_arm_law:
  assumes "mio_wf m" "slot \<notin> mio_due m" "mio_arm p m slot cls req = (m', r)"
  shows "mio_wf m' \<and> mio_due m' = (if isl r then mio_due m else insert slot (mio_due m)) \<and> mio_cdue m' = mio_cdue m"
proof -
  obtain fd what where i: "interest_of req = (fd, what)" by fastforce
  obtain m1 r1 where n: "registration_new p m fd slot what = (m1, r1)" by fastforce
  note f = attach_frame [OF n]
  show ?thesis
  proof (cases r1)
    case (Inl e)
    then show ?thesis using assms i n f by (auto simp: mio_arm_def mio_acct_defs)
  next
    case (Inr reg)
    then have "m' = m1\<lparr>mi_pending := (grow_pending (mi_pending m1) slot)[slot := Some \<lparr>pd_reg = reg, pd_req = req\<rparr>]\<rparr>" "r = Inr ()"
      using assms(3) i n by (auto simp: mio_arm_def)
    moreover from this have "pend m' = insert slot (pend m)" using f by (simp add: pend_def armed_in_grow)
    ultimately show ?thesis using assms(1,2) f by (auto simp: mio_acct_defs)
  qed
qed

lemma mio_cancel_law:
  assumes "mio_wf m" "mio_cancel p m c t cls = (m', r)"
  shows "mio_wf m' \<and> mio_due m' = mio_due m \<and> mio_cdue m' \<subseteq> insert c (mio_cdue m)"
proof (cases "take_pending p m t")
  case (Pair m1 op)
  show ?thesis
  proof (cases op)
    case None
    then show ?thesis using assms Pair take_pending_None [of p m t m1] by (auto simp: mio_cancel_def)
  next
    case (Some o1)
    note tp = take_pending_Some [OF Pair [unfolded Some]]
    have "t \<notin> set (queued m)" using assms(1) tp(1) by (auto simp: mio_wf_def)
    moreover have m': "m' = mio_push (mio_push m1
        \<lparr>cn_slot = c, cn_result = 0, cn_flags = 0, cn_class = 0, cn_cancel = True, cn_cancelled = False\<rparr>)
        \<lparr>cn_slot = t, cn_result = - ECANCELED, cn_flags = 0, cn_class = cls, cn_cancel = False, cn_cancelled = True\<rparr>"
      using assms(2) Pair Some by (simp add: mio_cancel_def Let_def)
    have "pend m' = pend m1" "queued m' = queued m1 @ [t]" "mio_cdue m' = insert c (mio_cdue m1)"
      by (auto simp: m' mio_push_def queued_def mio_cdue_def)
    ultimately show ?thesis using assms(1) tp by (auto simp: mio_acct_defs)
  qed
qed

text \<open>The cases of \<^verbatim>\<open>next_completion\<close>.\<close>

lemma mio_next_cases:
  assumes "mio_next_completion p m = (m', r)"
  obtains (queue) c cs where "mi_ready m = c # cs" "m' = m\<lparr>mi_ready := cs\<rparr>" "r = Some c"
  | (nothing) "m' = m" "r = None" "mi_ready m = []"
  | (blocked) t where "mi_ready m = []" "t \<in> pend m" "r = None" "pend m' = pend m" "queued m' = queued m" "mi_ready m' = []"
  | (finished) t res where "mi_ready m = []" "t \<in> pend m" "r = Some (plain_completion t res)" "pend m' = pend m - {t}"
      "queued m' = queued m" "mi_ready m' = []"
proof (cases "mi_ready m")
  case (Cons c cs)
  then show ?thesis using assms queue by (auto simp: mio_next_completion_def)
next
  case ready: Nil
  show ?thesis
  proof (cases "mi_events m")
    case Nil
    then have "m' = m" "r = None" using assms ready by (auto simp: mio_next_completion_def)
    then show ?thesis using ready by (rule nothing)
  next
    case (Cons t ts)
    obtain m1 op where tp: "take_pending p m t = (m1, op)" by fastforce
    show ?thesis
    proof (cases op)
      case None
      then have "m' = m" "r = None"
        using assms ready Cons tp take_pending_None [of p m t m1] by (auto simp: mio_next_completion_def)
      then show ?thesis using ready by (rule nothing)
    next
      case (Some o1)
      obtain m2 res where pf: "perform p m1 (pd_req o1) = (m2, res)" by fastforce
      note a = take_pending_Some [OF tp [unfolded Some]] and b = perform_frame [OF pf]
      have "pend (m2\<lparr>mi_pending := (mi_pending m2)[t := Some o1]\<rparr>) = pend m"
        using a b armed_in_set [of t "mi_pending m2" o1] by (auto simp: pend_def)
      then show ?thesis
        using assms ready Cons tp Some pf a b blocked [of t] finished [of t]
        by (auto simp: mio_next_completion_def split: sum.splits if_splits)
    qed
  qed
qed

lemma mio_next_None:
  assumes "mio_wf m" "mio_next_completion p m = (m', None)"
  shows "mio_wf m' \<and> mio_due m' = mio_due m \<and> mio_cdue m' = mio_cdue m"
  using assms(2) by (rule mio_next_cases) (use assms(1) in \<open>auto simp: mio_acct_defs\<close>)

lemma mio_next_op:
  assumes "mio_wf m" "mio_next_completion p m = (m', Some c)" "\<not> cn_cancel c"
  shows "mio_wf m' \<and> cn_slot c \<in> mio_due m \<and> mio_due m' = mio_due m - {cn_slot c} \<and> mio_cdue m' = mio_cdue m"
  using assms(2)
proof (cases rule: mio_next_cases)
  case (queue c' cs)
  then have "queued m = cn_slot c # queued m'" "pend m' = pend m" "mio_cdue m' = mio_cdue m"
    using assms(3) by (simp_all add: queued_def mio_cdue_def)
  then show ?thesis using assms(1) by (auto simp: mio_due_def mio_wf_def)
qed (use assms(1) in \<open>auto simp: mio_acct_defs plain_completion_def queued_def\<close>)

lemma mio_next_cancel:
  assumes "mio_wf m" "mio_next_completion p m = (m', Some c)" "cn_cancel c"
  shows "mio_wf m' \<and> cn_slot c \<in> mio_cdue m \<and> mio_due m' = mio_due m \<and> mio_cdue m' \<subseteq> mio_cdue m"
  using assms(2)
proof (cases rule: mio_next_cases)
  case (queue c' cs)
  then have "queued m' = queued m" "pend m' = pend m" "mio_cdue m = insert (cn_slot c) (mio_cdue m')"
    using assms(3) by (simp_all add: queued_def mio_cdue_def)
  then show ?thesis using assms(1) by (auto simp: mio_due_def mio_wf_def)
qed (use assms(3) in \<open>auto simp: plain_completion_def\<close>)

lemma poll_loop_frame:
  assumes "poll_loop p m = Some (m', r)"
  shows "mi_ready m' = mi_ready m \<and> mi_pending m' = mi_pending m \<and> mi_regs m' = mi_regs m"
proof -
  let ?P = "\<lambda>p m y. mi_ready (fst y) = mi_ready m \<and> mi_pending (fst y) = mi_pending m \<and> mi_regs (fst y) = mi_regs m"
  have "?P p m (m', r)"
  proof (rule poll_loop.raw_induct [where P = ?P, OF _ assms])
    fix f p m y
    assume IH: "\<And>p m y. f p m = Some y \<Longrightarrow> ?P p m y"
      and body: "(case pl_poll p (mi_world m) of
          (w, Inl e) \<Rightarrow> if e = Interrupted then f p (m\<lparr>mi_world := w\<rparr>) else Some (m\<lparr>mi_world := w\<rparr>, Inl e)
        | (w, Inr evs) \<Rightarrow> Some (m\<lparr>mi_world := w, mi_events := evs\<rparr>, Inr ())) = Some y"
    show "?P p m y"
      using body by (cases "pl_poll p (mi_world m)") (auto split: sum.splits if_splits dest: IH)
  qed
  then show ?thesis by simp
qed

lemma mio_wait_law:
  assumes "mio_wf m" "mio_wait p m = Some (m', r)"
  shows "mio_wf m' \<and> mio_due m' = mio_due m \<and> mio_cdue m' = mio_cdue m"
  using poll_loop_frame [OF assms(2) [unfolded mio_wait_def]] assms(1)
  by (simp add: mio_acct_defs pend_def queued_def)

interpretation mp: backend_port "mio_ops p" mio_wf mio_due mio_cdue
  by unfold_locales
    (auto simp: mio_ops_def dest: mio_arm_law mio_cancel_law mio_next_None mio_next_op mio_next_cancel mio_wait_law)

end
