(* ===== verification/Mio_Safety.thy ===== *)
theory Mio_Safety
  imports Mio_Backend
begin

text \<open>
  What the readiness backend guarantees: with the runtime on top of it no completion names a
  dead slot, waiting survives signals. And where it falls short of its comments: an operation
  whose system call would block loses its registration and is never finished, and only the first
  event of a poll is served.
\<close>

section \<open>Runs of the backend\<close>

text \<open>The operations of the port; an operation is armed on a slot nothing is due for.\<close>

inductive mio_step for p where
  MArm: "slot \<notin> mio_due m \<Longrightarrow> mio_arm p m slot cls req = (m', r) \<Longrightarrow> mio_step p m m'"
| MCancel: "mio_cancel p m c t cls = (m', r) \<Longrightarrow> mio_step p m m'"
| MNext: "mio_next_completion p m = (m', r) \<Longrightarrow> mio_step p m m'"
| MWait: "mio_wait p m = Some (m', r) \<Longrightarrow> mio_step p m m'"

text \<open>Registrations belong to armed operations.\<close>

definition regs_in :: "(fd \<times> nat) list \<Rightarrow> pending_op option list \<Rightarrow> bool" where
  "regs_in rs ps \<longleftrightarrow> (\<forall>fd t. (fd, t) \<in> set rs \<longrightarrow> (\<exists>op. idx ps t = Some (Some op) \<and> rg_fd (pd_reg op) = fd))"

definition regs_ok :: "'w mio \<Rightarrow> bool" where
  "regs_ok m \<longleftrightarrow> regs_in (mi_regs m) (mi_pending m)"

definition tokens :: "'w mio \<Rightarrow> nat set" where
  "tokens m = snd ` set (mi_regs m)"

lemma regs_in_update: "regs_in rs ps \<Longrightarrow> t \<notin> snd ` set rs \<Longrightarrow> regs_in rs (ps[t := x])"
  by (fastforce simp: regs_in_def idx_def nth_list_update image_iff split: if_splits)

lemma regs_in_grow: "regs_in rs ps \<Longrightarrow> regs_in rs (grow_pending ps i)"
  by (fastforce simp: regs_in_def idx_def grow_pending_def nth_append split: if_splits)

lemma regs_in_filter: "regs_in rs ps \<Longrightarrow> regs_in (filter f rs) ps"
  unfolding regs_in_def by auto

lemma regs_in_snoc:
  "regs_in rs ps \<Longrightarrow> idx ps t = Some (Some op) \<Longrightarrow> rg_fd (pd_reg op) = fd \<Longrightarrow> regs_in (rs @ [(fd, t)]) ps"
  by (auto simp: regs_in_def)

lemma regs_in_armed: "regs_in rs ps \<Longrightarrow> t \<notin> armed_in ps \<Longrightarrow> t \<notin> snd ` set rs"
  by (fastforce simp: regs_in_def armed_in_def idx_def split: if_splits)

lemma regs_ok_attach: "regs_ok (mio_attach w cfg)"
  by (simp add: regs_ok_def regs_in_def mio_attach_def)

lemma take_pending_regs:
  assumes "regs_ok m" "take_pending p m t = (m', Some op)"
  shows "regs_ok m'" "t \<notin> tokens m'" "tokens m' \<subseteq> tokens m"
proof -
  have op: "t < length (mi_pending m)" "mi_pending m ! t = Some op"
    and m': "mi_regs m' = filter (\<lambda>(fd, t). fd \<noteq> rg_fd (pd_reg op)) (mi_regs m)"
      "mi_pending m' = (mi_pending m)[t := None]"
    using assms(2) by (auto simp: take_pending_def registration_detach_def idx_def split: option.splits if_splits)
  have "fd = rg_fd (pd_reg op)" if "(fd, t) \<in> set (mi_regs m)" for fd
    using assms(1) op that by (fastforce simp: regs_ok_def regs_in_def idx_in_range)
  then show t: "t \<notin> tokens m'" by (auto simp: tokens_def m')
  show "tokens m' \<subseteq> tokens m" by (auto simp: tokens_def m')
  have "regs_in (mi_regs m') (mi_pending m)" using assms(1) by (simp add: regs_ok_def m' regs_in_filter)
  then show "regs_ok m'" using t by (simp add: regs_ok_def tokens_def m'(2) regs_in_update)
qed

lemma registration_new_regs:
  assumes "registration_new p m fd t what = (m', r)"
  shows "mi_pending m' = mi_pending m \<and>
    (case r of Inl _ \<Rightarrow> mi_regs m' = mi_regs m
     | Inr reg \<Rightarrow> mi_regs m' = mi_regs m @ [(fd, t)] \<and> rg_fd reg = fd)"
  using assms by (auto simp: registration_new_def registration_attach_def Let_def split: prod.splits sum.splits)

lemma mio_arm_regs:
  assumes "regs_ok m" "slot \<notin> mio_due m" "mio_arm p m slot cls req = (m', r)"
  shows "regs_ok m'"
proof -
  obtain fd what where i: "interest_of req = (fd, what)" by fastforce
  obtain m1 r1 where n: "registration_new p m fd slot what = (m1, r1)" by fastforce
  note f = registration_new_regs [OF n]
  show ?thesis
  proof (cases r1)
    case (Inl e)
    then show ?thesis using assms i n f by (auto simp: mio_arm_def regs_ok_def)
  next
    case (Inr reg)
    let ?op = "\<lparr>pd_reg = reg, pd_req = req\<rparr>" and ?ps = "grow_pending (mi_pending m) slot"
    have free: "slot \<notin> snd ` set (mi_regs m)"
      using assms(1,2) regs_in_armed by (fastforce simp: regs_ok_def mio_due_def pend_def)
    have "regs_in (mi_regs m) (?ps[slot := Some ?op])"
      using assms(1) free by (intro regs_in_update regs_in_grow) (auto simp: regs_ok_def)
    moreover have "idx (?ps[slot := Some ?op]) slot = Some (Some ?op)" by (simp add: idx_def grow_pending_def)
    ultimately have "regs_in (mi_regs m @ [(fd, slot)]) (?ps[slot := Some ?op])"
      using f Inr by (intro regs_in_snoc) auto
    moreover have "m' = m1\<lparr>mi_pending := (grow_pending (mi_pending m1) slot)[slot := Some ?op]\<rparr>"
      using assms(3) i n Inr by (simp add: mio_arm_def)
    ultimately show ?thesis using f Inr by (simp add: regs_ok_def)
  qed
qed

lemma mio_next_regs:
  assumes "regs_ok m" "mio_next_completion p m = (m', r)"
  shows "regs_ok m' \<and> tokens m' \<subseteq> tokens m"
proof (cases "mi_ready m")
  case (Cons c cs)
  then show ?thesis using assms by (auto simp: mio_next_completion_def regs_ok_def tokens_def)
next
  case ready: Nil
  show ?thesis
  proof (cases "mi_events m")
    case Nil
    then show ?thesis using assms ready by (auto simp: mio_next_completion_def)
  next
    case (Cons t ts)
    obtain m1 op where tp: "take_pending p m t = (m1, op)" by fastforce
    show ?thesis
    proof (cases op)
      case None
      then show ?thesis using assms ready Cons tp take_pending_None [of p m t m1] by (auto simp: mio_next_completion_def)
    next
      case (Some o1)
      obtain m2 res where pf: "perform p m1 (pd_req o1) = (m2, res)" by fastforce
      note a = take_pending_regs [OF assms(1) tp [unfolded Some]] and b = perform_frame [OF pf]
      have "regs_ok m2" "tokens m2 \<subseteq> tokens m" using a b by (auto simp: regs_ok_def tokens_def)
      moreover have "regs_ok (m2\<lparr>mi_pending := (mi_pending m2)[t := Some o1]\<rparr>)"
        using a(1,2) b by (simp add: regs_ok_def tokens_def regs_in_update)
      ultimately show ?thesis using assms(2) ready Cons tp Some pf
        by (auto simp: mio_next_completion_def tokens_def split: sum.splits if_splits elim!: subsetD)
    qed
  qed
qed

lemma mio_cancel_regs:
  assumes "regs_ok m" "mio_cancel p m c t cls = (m', r)" shows "regs_ok m'"
proof (cases "take_pending p m t")
  case (Pair m1 op)
  show ?thesis
  proof (cases op)
    case None
    then show ?thesis using assms Pair take_pending_None [of p m t m1] by (auto simp: mio_cancel_def)
  next
    case (Some o1)
    then show ?thesis using assms Pair take_pending_regs [OF assms(1) Pair [unfolded Some]]
      by (auto simp: mio_cancel_def mio_push_def Let_def regs_ok_def)
  qed
qed

lemma mio_step_regs: "mio_step p m m' \<Longrightarrow> regs_ok m \<Longrightarrow> regs_ok m'"
proof (induction rule: mio_step.induct)
  case (MWait m m' r)
  then show ?case using poll_loop_frame [of p "m\<lparr>mi_events := []\<rparr>" m' r] by (simp add: mio_wait_def regs_ok_def)
qed (auto dest: mio_arm_regs mio_cancel_regs mio_next_regs)

lemma mio_steps_regs: "(mio_step p)\<^sup>*\<^sup>* m m' \<Longrightarrow> regs_ok m \<Longrightarrow> regs_ok m'"
  by (induction rule: rtranclp_induct) (auto dest: mio_step_regs)

section \<open>The runtime on the readiness backend\<close>

lemma mio_attach_acct: "mio_wf (mio_attach w cfg)" "mio_due (mio_attach w cfg) = {}" "mio_cdue (mio_attach w cfg) = {}"
  by (simp_all add: mio_acct_defs mio_attach_def pend_def armed_in_def queued_def)

text \<open>
  C16. The runtime on the readiness backend: over every run of the event loop (client operations,
  completions, waits, in any order), whatever the poller and the system calls answer, a completion
  the backend reports names a live operation that still owns its callback and its local, or a slot
  of the cancel slab. So the assertions with which \<^verbatim>\<open>take_completion\<close> guards against a confused
  backend never fire.
\<close>

theorem mio_completions_name_live_ops:
  assumes "(loop_step (mio_ops p) shims cancels)\<^sup>*\<^sup>* (runtime_new (mio_attach w cfg) g n) rt"
    and "api_only (mio_ops p) shims cancels" "0 < n" "n \<le> MAX_OP_ID"
    and "mio_next_completion p (rt_backend rt) = (b, Some c)"
  shows "if cn_cancel c then cn_slot c < length (rt_cancel_slab rt)
    else \<exists>s sh d l. ops rt (cn_slot c) = Some s \<and> os_body s = Live sh d \<and> os_local s = Some l"
proof -
  have "rt_inv {} rt \<and> mp.acct {} rt" by (rule mp.loop_acct [OF assms(1,2) mio_attach_acct assms(3,4)])
  then show ?thesis using mp.completion_names_live [of rt p b c] assms(5) by (simp add: mio_ops_def)
qed

text \<open>
  A poller for the examples: every descriptor can be registered, a poll reports the tokens 0 and 1, a
  read of descriptor 5 would block and any other read returns three bytes.
\<close>

definition demo_poll :: "unit poll_ops" where
  "demo_poll = \<lparr>pl_register = \<lambda>w fd t what. (w, Inr ()), pl_deregister = \<lambda>w fd. w, pl_poll = \<lambda>w. (w, Inr [0, 1]),
     pl_read = \<lambda>w fd addr len. (w, if fd = 5 then Inl EAGAIN else Inr 3),
     pl_write = \<lambda>w fd addr len. (w, Inr len), pl_accept = \<lambda>w fd. (w, Inr 9)\<rparr>"

type_synonym demo_mio_rt = "(unit, nat, io_shim, unit option, unit, unit mio) runtime"

definition demo_mio_start :: demo_mio_rt where
  "demo_mio_start = runtime_new (mio_attach () mio_config_default) () 1"

definition demo_mio_slot :: "(nat, io_shim, unit option) io_slot" where
  "demo_mio_slot = \<lparr>os_id = 1, os_local = Some 42, os_buf = BUF_NONE, os_buf_len = 0, os_body = Live AcceptShim (Some ())\<rparr>"

definition demo_mio_backend :: "nat list \<Rightarrow> unit mio" where
  "demo_mio_backend evs = \<lparr>mi_world = (), mi_regs = [(7, 0)], mi_events = evs,
     mi_pending = [Some \<lparr>pd_reg = \<lparr>rg_fd = 7, rg_token = 0, rg_interest = READABLE\<rparr>, pd_req = ReqAccept 7\<rparr>], mi_ready = []\<rparr>"

definition demo_mio_armed :: demo_mio_rt where
  "demo_mio_armed = demo_mio_start\<lparr>rt_io_slab := [demo_mio_slot], rt_inflight_ops := 1, rt_next_op_id := 2,
     rt_backend := demo_mio_backend []\<rparr>"

definition demo_mio_polled :: demo_mio_rt where
  "demo_mio_polled = demo_mio_armed\<lparr>rt_backend := demo_mio_backend [0, 1]\<rparr>"

lemmas demo_mio_defs = demo_mio_start_def demo_mio_slot_def demo_mio_backend_def demo_mio_armed_def demo_mio_polled_def

lemma demo_mio_accept:
  "mio_accept demo_poll demo_mio_start 7 42 (Some ()) = Some (demo_mio_armed, Inr \<lparr>op_slot = 0, op_class = 0, op_id = 1\<rparr>)"
  by (simp add: demo_mio_defs mio_accept_def register_op_def claim_op_def alloc_op_slot_def runtime_new_def next_op_id_def
      alloc_buf_run_def with_io_slot_def io_slot_claim_def io_slot_init_free_def is_free_def idx_def
      MAX_OP_ID_val FREE_NONE_def mio_ops_def mio_arm_def mio_attach_def interest_of_def registration_new_def
      registration_attach_def demo_poll_def grow_pending_def)

lemma demo_mio_api: "api_only (mio_ops p) (\<lambda>sh rt args. Some rt) (\<lambda>dn rt l cl. Some (rt, l))"
  by (simp add: api_only_def)

lemma demo_mio_run:
  "(loop_step (mio_ops demo_poll) (\<lambda>sh rt args. Some rt) (\<lambda>dn rt l cl. Some (rt, l)))\<^sup>*\<^sup>*
     (runtime_new (mio_attach () mio_config_default) () 1) demo_mio_polled"
proof -
  let ?step = "loop_step (mio_ops demo_poll) (\<lambda>sh rt args. Some rt) (\<lambda>dn rt l cl. Some (rt, l))"
  have "api_step (mio_ops demo_poll) demo_mio_start demo_mio_armed"
    using demo_mio_accept unfolding mio_accept_def by (rule api_step.Register)
  then have a: "?step demo_mio_start demo_mio_armed" by (rule loop_step.LApi)
  have "be_wait (mio_ops demo_poll) (rt_backend demo_mio_armed) = Some (demo_mio_backend [0, 1], Inr ())"
    by (simp add: mio_ops_def mio_wait_def poll_loop.simps demo_poll_def demo_mio_defs)
  then have "?step demo_mio_armed demo_mio_polled" unfolding demo_mio_polled_def by (rule loop_step.LWait)
  then have "?step\<^sup>*\<^sup>* demo_mio_start demo_mio_polled"
    by (rule converse_rtranclp_into_rtranclp [of ?step, OF a r_into_rtranclp])
  then show ?thesis by (simp add: demo_mio_start_def)
qed

theorem mio_completions_name_live_ops_witness:
  "\<exists>b. mio_next_completion demo_poll (rt_backend demo_mio_polled) = (b, Some (plain_completion 0 9)) \<and>
     (\<exists>s sh d l. ops demo_mio_polled 0 = Some s \<and> os_body s = Live sh d \<and> os_local s = Some l)"
proof -
  obtain b where b: "mio_next_completion demo_poll (rt_backend demo_mio_polled) = (b, Some (plain_completion 0 9))"
    by (simp add: demo_mio_defs mio_next_completion_def take_pending_def idx_def registration_detach_def perform_def demo_poll_def)
  have "(1 :: u64) \<le> MAX_OP_ID" by (simp add: MAX_OP_ID_val)
  from mio_completions_name_live_ops [OF demo_mio_run demo_mio_api _ this b]
  show ?thesis using b by (simp add: plain_completion_def)
qed

section \<open>Waiting\<close>

text \<open>
  Waiting survives signals: after any number of interrupted polls \<^verbatim>\<open>wait\<close> returns what the first
  poll that was not interrupted answers: its events in the event buffer, or its error. Nothing else
  of the backend changes.
\<close>

theorem mio_wait_returns:
  assumes "\<forall>i < n. pl_poll p (w i) = (w (Suc i), Inl Interrupted)" "pl_poll p (w n) = (w', r)" "r \<noteq> Inl Interrupted"
    and "mi_world m = w 0"
  shows "mio_wait p m = Some (case r of Inr evs \<Rightarrow> (m\<lparr>mi_world := w', mi_events := evs\<rparr>, Inr ())
    | Inl e \<Rightarrow> (m\<lparr>mi_world := w', mi_events := []\<rparr>, Inl e))"
proof -
  have "poll_loop p (m\<lparr>mi_world := w j\<rparr>) = Some (case r of Inr evs \<Rightarrow> (m\<lparr>mi_world := w', mi_events := evs\<rparr>, Inr ())
    | Inl e \<Rightarrow> (m\<lparr>mi_world := w'\<rparr>, Inl e))" if "j \<le> n" for j and m :: "'a mio"
    using that
  proof (induction "n - j" arbitrary: j)
    case 0
    then show ?case using assms(2,3) by (subst poll_loop.simps) (auto split: sum.splits)
  next
    case (Suc k)
    then have "j < n" "k = n - Suc j" by auto
    then show ?case using Suc.hyps(1) [of "Suc j"] assms(1) by (subst poll_loop.simps) auto
  qed
  moreover have "(m\<lparr>mi_events := []\<rparr>)\<lparr>mi_world := w 0\<rparr> = m\<lparr>mi_events := []\<rparr>" using assms(4) by simp
  ultimately have "poll_loop p (m\<lparr>mi_events := []\<rparr>) = Some (case r of
      Inr evs \<Rightarrow> (m\<lparr>mi_events := [], mi_world := w', mi_events := evs\<rparr>, Inr ())
    | Inl e \<Rightarrow> (m\<lparr>mi_events := [], mi_world := w'\<rparr>, Inl e))" by (metis le0)
  then show ?thesis by (simp add: mio_wait_def split: sum.splits)
qed

text \<open>A poller that a signal interrupts three times.\<close>

definition demo_signals :: "nat poll_ops" where
  "demo_signals = \<lparr>pl_register = \<lambda>w fd t what. (w, Inr ()), pl_deregister = \<lambda>w fd. w,
     pl_poll = \<lambda>w. (Suc w, if w < 3 then Inl Interrupted else Inr [4]),
     pl_read = \<lambda>w fd addr len. (w, Inr 0), pl_write = \<lambda>w fd addr len. (w, Inr 0), pl_accept = \<lambda>w fd. (w, Inr 0)\<rparr>"

theorem mio_wait_returns_witness:
  "mio_wait demo_signals (mio_attach 0 mio_config_default) =
     Some ((mio_attach 0 mio_config_default)\<lparr>mi_world := 4, mi_events := [4]\<rparr>, Inr ())"
  using mio_wait_returns [of 3 demo_signals "\<lambda>i. i" 4 "Inr [4]" "mio_attach 0 mio_config_default"]
  by (simp add: demo_signals_def mio_attach_def)

section \<open>Operations that would block\<close>

text \<open>The steps of the event loop that touch only the backend: polling it and waiting.\<close>

inductive mio_quiet for p where
  QNext: "mio_next_completion p m = (m', r) \<Longrightarrow> mio_quiet p m m'"
| QWait: "mio_wait p m = Some (m', Inr u) \<Longrightarrow> mio_quiet p m m'"

text \<open>Armed, but not registered, not reported and not decided.\<close>

definition stranded :: "nat \<Rightarrow> 'w mio \<Rightarrow> bool" where
  "stranded i m \<longleftrightarrow> regs_ok m \<and> i \<in> pend m \<and> i \<notin> tokens m \<and> i \<notin> set (mi_events m) \<and> i \<notin> set (queued m)"

lemma mio_next_events: "mio_next_completion p m = (m', r) \<Longrightarrow> mi_events m' = mi_events m"
  by (auto simp: mio_next_completion_def split: list.splits prod.splits option.splits sum.splits if_splits
      dest!: perform_frame take_pending_Some(6) take_pending_None(1))

lemma stranded_next:
  assumes "stranded i m" "mio_next_completion p m = (m', r)"
  shows "stranded i m' \<and> (case r of Some c \<Rightarrow> cn_cancel c \<or> cn_slot c \<noteq> i | None \<Rightarrow> True)"
proof -
  have base: "regs_ok m'" "i \<notin> tokens m'" "i \<notin> set (mi_events m')"
    using assms mio_next_regs [of m p m' r] mio_next_events [of p m m' r] by (auto simp: stranded_def)
  show ?thesis using assms(2)
  proof (cases rule: mio_next_cases)
    case (queue c cs)
    then show ?thesis using assms(1) base by (auto simp: stranded_def queued_def split: if_splits)
  next
    case nothing
    then show ?thesis using assms(1) by simp
  next
    case (blocked t)
    then show ?thesis using assms(1) base by (auto simp: stranded_def)
  next
    case (finished t res)
    have "mi_events m \<noteq> [] \<and> t = hd (mi_events m)"
      using finished assms(2)
      by (auto simp: mio_next_completion_def plain_completion_def split: list.splits prod.splits option.splits sum.splits if_splits)
    then have "t \<noteq> i" using assms(1) by (cases "mi_events m") (auto simp: stranded_def)
    then show ?thesis using finished assms(1) base by (auto simp: stranded_def plain_completion_def)
  qed
qed

lemma stranded_wait:
  assumes "regs_ok m" "i \<in> pend m" "i \<notin> tokens m" "i \<notin> set (queued m)" "mio_wait p m = Some (m', Inr u)"
    and "set (mi_events m') \<subseteq> tokens m'"
  shows "stranded i m'"
  using poll_loop_frame [OF assms(5) [unfolded mio_wait_def]] assms(1-4,6)
  by (auto simp: stranded_def regs_ok_def tokens_def pend_def queued_def)

text \<open>A poller that reports registered tokens only, along the runs of the backend from \<open>m0\<close>.\<close>

definition poller_sound :: "'w poll_ops \<Rightarrow> 'w mio \<Rightarrow> bool" where
  "poller_sound p m0 \<longleftrightarrow>
     (\<forall>m m' u. (mio_step p)\<^sup>*\<^sup>* m0 m \<and> mio_wait p m = Some (m', Inr u) \<longrightarrow> set (mi_events m') \<subseteq> tokens m')"

lemma quiet_step: "mio_quiet p m m' \<Longrightarrow> mio_step p m m'"
  by (erule mio_quiet.cases) (auto intro: mio_step.intros)

lemma stranded_quiet:
  assumes "(mio_quiet p)\<^sup>*\<^sup>* m m'" "stranded i m" "(mio_step p)\<^sup>*\<^sup>* m0 m" "poller_sound p m0"
  shows "stranded i m' \<and> (mio_step p)\<^sup>*\<^sup>* m0 m'"
  using assms(1-3)
proof (induction rule: rtranclp_induct)
  case (step y z)
  then have y: "stranded i y" "(mio_step p)\<^sup>*\<^sup>* m0 y" by auto
  have "stranded i z" using step.hyps(2)
  proof cases
    case (QNext r)
    then show ?thesis using stranded_next [OF y(1)] by blast
  next
    case (QWait u)
    then have "set (mi_events z) \<subseteq> tokens z" using assms(4) y(2) unfolding poller_sound_def by blast
    then show ?thesis using y(1) QWait stranded_wait [of y i p z u] by (auto simp: stranded_def)
  qed
  moreover have "(mio_step p)\<^sup>*\<^sup>* m0 z" using rtranclp.rtrancl_into_rtrancl [OF y(2) quiet_step [OF step.hyps(2)]] .
  ultimately show ?case ..
qed simp

text \<open>
  An operation whose system call would block is lost. When the first event of a poll names an
  operation whose system call answers \<^verbatim>\<open>EAGAIN\<close>, \<^verbatim>\<open>next_completion\<close> leaves the operation armed, but
  it has already removed its registration. With a poller that reports registered tokens only, no
  later wait reports it and no later poll finishes it, while it stays in flight: the event loop waits
  for it for ever.
\<close>

theorem mio_would_block_strands:
  assumes "(mio_step p)\<^sup>*\<^sup>* (mio_attach w cfg) m" "mi_ready m = []" "mi_events m = i # es" "i \<in> mio_due m"
    and blocked: "mio_next_completion p m = (m1, None)"
    and sound: "poller_sound p (mio_attach w cfg)"
    and "mio_wait p m1 = Some (m2, Inr u)" "(mio_quiet p)\<^sup>*\<^sup>* m2 m3" "mio_next_completion p m3 = (m4, r)"
  shows "i \<in> mio_due m3 \<and> i \<notin> tokens m3 \<and> (case r of Some c \<Rightarrow> cn_cancel c \<or> cn_slot c \<noteq> i | None \<Rightarrow> True)"
proof -
  have regs: "regs_ok m" using mio_steps_regs [OF assms(1) regs_ok_attach] .
  have q: "queued m = []" using assms(2) by (simp add: queued_def)
  then have i: "i \<in> pend m" using assms(4) by (simp add: mio_due_def)
  obtain m' op where tp: "take_pending p m i = (m', Some op)"
    using i take_pending_None [of p m i] by (cases "take_pending p m i"; cases "snd (take_pending p m i)") auto
  obtain m'' where pf: "perform p m' (pd_req op) = (m'', Inl EAGAIN)"
    and m1: "m1 = m''\<lparr>mi_pending := (mi_pending m'')[i := Some op]\<rparr>"
    using blocked assms(2,3) tp by (auto simp: mio_next_completion_def split: prod.splits sum.splits if_splits)
  note t = take_pending_regs [OF regs tp] and f = perform_frame [OF pf] and s = take_pending_Some [OF tp]
  have "regs_ok m1" using mio_next_regs [OF regs blocked] by simp
  moreover have "i \<notin> tokens m1" using t(2) f by (simp add: m1 tokens_def)
  moreover have "i \<in> pend m1" using s(5) f by (simp add: m1 pend_def armed_in_set)
  moreover have "i \<notin> set (queued m1)" using s(3) f q by (simp add: m1)
  moreover have r1: "(mio_step p)\<^sup>*\<^sup>* (mio_attach w cfg) m1"
    using rtranclp.rtrancl_into_rtrancl [OF assms(1) mio_step.MNext [OF blocked]] .
  moreover have "set (mi_events m2) \<subseteq> tokens m2" using sound r1 assms(7) unfolding poller_sound_def by blast
  ultimately have "stranded i m2" using stranded_wait [OF _ _ _ _ assms(7)] by blast
  moreover have "(mio_step p)\<^sup>*\<^sup>* (mio_attach w cfg) m2"
    using rtranclp.rtrancl_into_rtrancl [OF r1 mio_step.MWait [OF assms(7)]] .
  ultimately have s3: "stranded i m3" using stranded_quiet [OF assms(8) _ _ sound] by blast
  then show ?thesis using stranded_next [OF s3 assms(9)] by (simp add: stranded_def mio_due_def)
qed

text \<open>
  A poller that keeps its registrations and reports all of them, over a descriptor whose reads
  always would block.
\<close>

definition demo_epoll :: "(fd \<times> nat) list poll_ops" where
  "demo_epoll = \<lparr>pl_register = \<lambda>w fd t what. (w @ [(fd, t)], Inr ()),
     pl_deregister = \<lambda>w fd. filter (\<lambda>(fd', t). fd' \<noteq> fd) w, pl_poll = \<lambda>w. (w, Inr (map snd w)),
     pl_read = \<lambda>w fd addr len. (w, Inl EAGAIN), pl_write = \<lambda>w fd addr len. (w, Inr 0), pl_accept = \<lambda>w fd. (w, Inr 0)\<rparr>"

lemma demo_epoll_take:
  "take_pending demo_epoll m t = (m', r) \<Longrightarrow> mi_world m = mi_regs m \<Longrightarrow> mi_world m' = mi_regs m'"
  by (auto simp: take_pending_def registration_detach_def demo_epoll_def split: option.splits)

lemma demo_epoll_perform:
  "perform demo_epoll m req = (m', r) \<Longrightarrow> mi_world m = mi_regs m \<Longrightarrow> mi_world m' = mi_regs m'"
  by (auto simp: perform_def demo_epoll_def split: mio_req.splits)

lemma demo_epoll_wait:
  "mio_wait demo_epoll m = Some (m\<lparr>mi_events := map snd (mi_world m)\<rparr>, Inr ())"
  by (simp add: mio_wait_def poll_loop.simps demo_epoll_def)

lemma demo_epoll_step: "mio_step demo_epoll m m' \<Longrightarrow> mi_world m = mi_regs m \<Longrightarrow> mi_world m' = mi_regs m'"
proof (induction rule: mio_step.induct)
  case (MArm slot m cls req m' r)
  then show ?case
    by (auto simp: mio_arm_def registration_new_def registration_attach_def demo_epoll_def Let_def split: prod.splits)
next
  case (MCancel m c t cls m' r)
  then show ?case
    by (auto simp: mio_cancel_def mio_push_def Let_def split: prod.splits option.splits dest!: demo_epoll_take)
next
  case (MNext m m' r)
  then show ?case
    by (auto simp: mio_next_completion_def split: list.splits prod.splits option.splits sum.splits if_splits
        dest!: demo_epoll_take demo_epoll_perform)
next
  case (MWait m m' r)
  then show ?case by (auto simp: demo_epoll_wait)
qed

lemma demo_epoll_sound: "poller_sound demo_epoll (mio_attach [] cfg)"
proof -
  have "mi_world m = mi_regs m" if "(mio_step demo_epoll)\<^sup>*\<^sup>* (mio_attach [] cfg) m" for m
    using that by (induction rule: rtranclp_induct) (auto simp: mio_attach_def dest: demo_epoll_step)
  then show ?thesis by (auto simp: poller_sound_def demo_epoll_wait tokens_def)
qed

definition demo_blocked :: "(fd \<times> nat) list \<Rightarrow> nat list \<Rightarrow> (fd \<times> nat) list mio" where
  "demo_blocked regs evs = \<lparr>mi_world = regs, mi_regs = regs, mi_events = evs,
     mi_pending = [Some \<lparr>pd_reg = \<lparr>rg_fd = 5, rg_token = 0, rg_interest = READABLE\<rparr>, pd_req = ReqRead 5 64 8\<rparr>], mi_ready = []\<rparr>"

theorem mio_would_block_strands_witness:
  "0 \<in> mio_due (demo_blocked [] []) \<and> 0 \<notin> tokens (demo_blocked [] []) \<and>
     mio_wait demo_epoll (demo_blocked [] []) = Some (demo_blocked [] [], Inr ())"
proof -
  let ?m = "demo_blocked [(5, 0)] [0]"
  have arm: "mio_arm demo_epoll (mio_attach [] cfg) 0 0 (ReqRead 5 64 8) = (demo_blocked [(5, 0)] [], Inr ())" for cfg
    by (simp add: mio_arm_def interest_of_def registration_new_def registration_attach_def mio_attach_def demo_blocked_def
        demo_epoll_def grow_pending_def)
  have wait: "mio_wait demo_epoll (demo_blocked [(5, 0)] []) = Some (?m, Inr ())"
    by (simp add: demo_epoll_wait demo_blocked_def)
  have "mio_step demo_epoll (mio_attach [] cfg) (demo_blocked [(5, 0)] [])" for cfg
    by (rule mio_step.MArm [OF _ arm]) (simp add: mio_attach_acct)
  then have "(mio_step demo_epoll)\<^sup>*\<^sup>* (mio_attach [] cfg) ?m" for cfg
    using mio_step.MWait [OF wait] by (meson converse_rtranclp_into_rtranclp r_into_rtranclp)
  moreover have "mio_next_completion demo_epoll ?m = (demo_blocked [] [0], None)"
    by (simp add: mio_next_completion_def demo_blocked_def take_pending_def idx_def registration_detach_def perform_def
        demo_epoll_def)
  moreover have "0 \<in> mio_due ?m" by (simp add: mio_due_def pend_def armed_in_def demo_blocked_def)
  moreover have "mio_wait demo_epoll (demo_blocked [] [0]) = Some (demo_blocked [] [], Inr ())"
    by (simp add: demo_epoll_wait demo_blocked_def)
  moreover have "mio_next_completion demo_epoll (demo_blocked [] []) = (demo_blocked [] [], None)"
    by (simp add: mio_next_completion_def demo_blocked_def)
  ultimately have "0 \<in> mio_due (demo_blocked [] []) \<and> 0 \<notin> tokens (demo_blocked [] [])"
    using mio_would_block_strands [of demo_epoll "[]" mio_config_default ?m 0 "[]" "demo_blocked [] [0]" "demo_blocked [] []" "()"
        "demo_blocked [] []" "demo_blocked [] []" None] demo_epoll_sound
    by (simp add: demo_blocked_def)
  then show ?thesis by (simp add: demo_epoll_wait demo_blocked_def)
qed

section \<open>Only the first event is served\<close>

text \<open>
  One completion per wait. The event buffer is read, not consumed: once the operation of the first
  event was finished, \<^verbatim>\<open>next_completion\<close> answers \<^verbatim>\<open>None\<close> until the next wait (or until the same slot is
  armed again), although the operations of the other events are ready.
\<close>

theorem mio_serves_first_event:
  assumes "mi_ready m = []" "mi_events m = i # j # es" "mio_next_completion p m = (m1, Some c)"
  shows "mio_next_completion p m1 = (m1, None) \<and> mi_events m1 = i # j # es \<and> (j \<in> pend m1 \<longleftrightarrow> j \<in> pend m \<and> j \<noteq> i)"
proof -
  have ev: "mi_events m1 = i # j # es" using mio_next_events [OF assms(3)] assms(2) by simp
  show ?thesis using assms(3)
  proof (cases rule: mio_next_cases)
    case (finished t res)
    have "t = i"
      using finished assms
      by (auto simp: mio_next_completion_def plain_completion_def split: list.splits prod.splits option.splits sum.splits if_splits)
    then have "take_pending p m1 i = (m1, None)" "pend m1 = pend m - {i}"
      using finished by (auto simp: take_pending_def pend_def armed_in_def idx_def split: option.splits if_splits)
    then show ?thesis using ev finished(6) by (auto simp: mio_next_completion_def)
  qed (use assms in auto)
qed

theorem mio_serves_first_event_witness:
  "\<exists>m1. mio_next_completion demo_poll (rt_backend demo_mio_polled) = (m1, Some (plain_completion 0 9)) \<and>
     mio_next_completion demo_poll m1 = (m1, None) \<and> mi_events m1 = [0, 1]"
proof -
  obtain m1 where m1: "mio_next_completion demo_poll (rt_backend demo_mio_polled) = (m1, Some (plain_completion 0 9))"
    by (simp add: demo_mio_defs mio_next_completion_def take_pending_def idx_def registration_detach_def perform_def demo_poll_def)
  from mio_serves_first_event [OF _ _ m1, of 0 1 "[]"] show ?thesis using m1 by (simp add: demo_mio_defs)
qed

end
