(* ===== verification/Uring_Backend.thy ===== *)
theory Uring_Backend
  imports Io_Buffers Buffer_Views
begin

text \<open>
  The io_uring backend (\<^verbatim>\<open>libs/coio-uring/src/uring.rs\<close>) and the operations on it
  (\<^verbatim>\<open>libs/coio-uring/src/io.rs\<close>): a completion is named by 64 bits of user data that the backend
  packs when an entry is pushed and unpacks when its completion is popped.

  \<^item> The \<^verbatim>\<open>io_uring\<close> crate is the record \<open>ring_ops\<close> over a ring state \<open>'q\<close>.
  \<^item> A panic (a closed ring, a class that does not fit the tag) is \<^term>\<open>None\<close>.
  \<^item> The pools of a running runtime are the thread's published ones; \<open>ur_pools\<close> are the pools as
    they were built, of which only the class tables are read afterwards.
\<close>

section \<open>Configuration\<close>

record uring_config =
  uc_ring_entries :: nat
  uc_provided_size_classes :: "size_class list"
  uc_size_classes :: "size_class list"

definition uring_config_default :: uring_config where
  "uring_config_default = \<lparr>uc_ring_entries = 1024, uc_provided_size_classes = DEFAULT_SIZE_CLASSES,
     uc_size_classes = DEFAULT_SIZE_CLASSES\<rparr>"

section \<open>User data\<close>

record user_data =
  ud_index :: u32
  ud_tag :: u32

definition CANCEL_TAG :: u32 where
  "CANCEL_TAG = push_bit 31 1"

definition CLASS_MASK :: u32 where
  "CLASS_MASK = 0x7f"

definition user_data_to_u64 :: "user_data \<Rightarrow> u64" where
  "user_data_to_u64 ud = ucast (ud_index ud) OR push_bit 32 (ucast (ud_tag ud))"

definition user_data_of_u64 :: "u64 \<Rightarrow> user_data" where
  "user_data_of_u64 w = \<lparr>ud_index = ucast w, ud_tag = ucast (drop_bit 32 w)\<rparr>"

definition op_user_data :: "nat \<Rightarrow> u8 \<Rightarrow> u64 option" where
  "op_user_data slot cls = do {
     ensure (ucast cls \<le> CLASS_MASK);
     Some (user_data_to_u64 \<lparr>ud_index = word_of_nat slot, ud_tag = ucast cls\<rparr>)
   }"

definition cancel_user_data :: "nat \<Rightarrow> u64" where
  "cancel_user_data cancel_slot = user_data_to_u64 \<lparr>ud_index = word_of_nat cancel_slot, ud_tag = CANCEL_TAG\<rparr>"

section \<open>The ring\<close>

datatype sqe_op =
    SqRead fd u64 nat
  | SqReadProvided fd nat nat
  | SqWrite fd u64 nat
  | SqAccept fd
  | SqWriteFixed fd u64 nat nat
  | SqRecvMsg fd u64 u32
  | SqSendMsg fd u64
  | SqAsyncCancel u64

record sqe =
  sq_op :: sqe_op
  sq_user_data :: u64

record cqe =
  cq_user_data :: u64
  cq_result :: int
  cq_flags :: u32

record 'q ring_ops =
  ro_build :: "bool \<Rightarrow> nat \<Rightarrow> 'q io_result"
  ro_push :: "'q \<Rightarrow> sqe \<Rightarrow> 'q \<times> bool"
  ro_submit_and_wait :: "'q \<Rightarrow> nat \<Rightarrow> ('q \<times> nat io_result) option"
  ro_submit :: "'q \<Rightarrow> 'q \<times> nat io_result"
  ro_next :: "'q \<Rightarrow> 'q \<times> cqe option"
  ro_unregister_all :: "'q \<Rightarrow> pools \<Rightarrow> 'q"
  ro_unregister_buffers :: "'q \<Rightarrow> 'q"
  ro_register_ring :: "'q \<Rightarrow> provided_slab \<Rightarrow> bool"
  ro_register_slab :: "'q \<Rightarrow> nat \<Rightarrow> nat \<Rightarrow> bool"

record 'q uring =
  ur_ring :: "'q option"
  ur_pools :: pools

text \<open>The ring is built with the two optional flags, and without them when the kernel refuses.\<close>

definition uring_attach :: "'q ring_ops \<Rightarrow> (nat \<Rightarrow> nat \<Rightarrow> nat option) \<Rightarrow> uring_config \<Rightarrow> 'q uring io_result option" where
  "uring_attach q allocate cfg =
     (case (case ro_build q True (uc_ring_entries cfg) of Inr r \<Rightarrow> Inr r | Inl _ \<Rightarrow> ro_build q False (uc_ring_entries cfg)) of
        Inl e \<Rightarrow> Some (Inl e)
      | Inr ring \<Rightarrow> do {
          P \<leftarrow> build_pools allocate (ro_register_ring q ring) (ro_register_slab q ring)
                 (uc_provided_size_classes cfg) (uc_size_classes cfg);
          Some (Inr \<lparr>ur_ring = Some ring, ur_pools = P\<rparr>)
        })"

definition EBUSY :: errno where
  "EBUSY = 16"

definition ENOBUFS :: errno where
  "ENOBUFS = 105"

text \<open>Pushing an entry: a full submission queue is reported as \<^verbatim>\<open>EAGAIN\<close>.\<close>

definition uring_push :: "'q ring_ops \<Rightarrow> 'q uring \<Rightarrow> sqe \<Rightarrow> ('q uring \<times> unit io_result) option" where
  "uring_push q u e = do {
     ring \<leftarrow> ur_ring u;
     let (ring, pushed) = ro_push q ring e;
     Some (u\<lparr>ur_ring := Some ring\<rparr>, if pushed then Inr () else Inl (Os EAGAIN))
   }"

definition uring_arm :: "'q ring_ops \<Rightarrow> 'q uring \<Rightarrow> nat \<Rightarrow> u8 \<Rightarrow> sqe_op \<Rightarrow> ('q uring \<times> unit io_result) option" where
  "uring_arm q u slot cls req = do {
     ud \<leftarrow> op_user_data slot cls;
     uring_push q u \<lparr>sq_op = req, sq_user_data = ud\<rparr>
   }"

text \<open>A wait that blocks for ever has no result; \<^verbatim>\<open>EBUSY\<close> is not an error.\<close>

definition uring_wait :: "'q ring_ops \<Rightarrow> 'q uring \<Rightarrow> ('q uring \<times> unit io_result) option" where
  "uring_wait q u = do {
     ring \<leftarrow> ur_ring u;
     (ring, r) \<leftarrow> ro_submit_and_wait q ring 1;
     Some (u\<lparr>ur_ring := Some ring\<rparr>,
           (case r of Inr _ \<Rightarrow> Inr () | Inl e \<Rightarrow> if e = Os EBUSY then Inr () else Inl e))
   }"

definition completion_of_cqe :: "cqe \<Rightarrow> completion" where
  "completion_of_cqe c =
     (let ud = user_data_of_u64 (cq_user_data c) in
      \<lparr>cn_slot = unat (ud_index ud), cn_result = cq_result c, cn_flags = cq_flags c,
       cn_class = ucast (ud_tag ud AND CLASS_MASK),
       cn_cancel = (ud_tag ud AND CANCEL_TAG \<noteq> 0),
       cn_cancelled = (ud_tag ud AND CANCEL_TAG = 0 \<and> cq_result c = - ECANCELED)\<rparr>)"

definition uring_next_completion :: "'q ring_ops \<Rightarrow> 'q uring \<Rightarrow> ('q uring \<times> completion option) option" where
  "uring_next_completion q u = do {
     ring \<leftarrow> ur_ring u;
     let (ring, c) = ro_next q ring;
     Some (u\<lparr>ur_ring := Some ring\<rparr>, map_option completion_of_cqe c)
   }"

definition uring_cancel :: "'q ring_ops \<Rightarrow> 'q uring \<Rightarrow> nat \<Rightarrow> nat \<Rightarrow> u8 \<Rightarrow> ('q uring \<times> bool io_result) option" where
  "uring_cancel q u cancel_slot target_slot cls = do {
     ud \<leftarrow> op_user_data target_slot cls;
     (u, r) \<leftarrow> uring_push q u \<lparr>sq_op = SqAsyncCancel ud, sq_user_data = cancel_user_data cancel_slot\<rparr>;
     Some (u, (case r of Inr _ \<Rightarrow> Inr True | Inl e \<Rightarrow> Inl e))
   }"

text \<open>Everything is unregistered while the ring is open, then the ring is closed.\<close>

definition uring_begin_teardown :: "'q ring_ops \<Rightarrow> 'q uring \<Rightarrow> 'q uring \<times> 'q option" where
  "uring_begin_teardown q u =
     (u\<lparr>ur_ring := None\<rparr>,
      map_option (\<lambda>ring. ro_unregister_buffers q (ro_unregister_all q ring (ur_pools u))) (ur_ring u))"

definition uring_submit :: "'q ring_ops \<Rightarrow> 'q uring \<Rightarrow> ('q uring \<times> nat io_result) option" where
  "uring_submit q u = do {
     ring \<leftarrow> ur_ring u;
     let (ring, r) = ro_submit q ring;
     Some (u\<lparr>ur_ring := Some ring\<rparr>, r)
   }"

section \<open>Operations\<close>

text \<open>
  Each operation builds its entry and registers it. The runtime's backend is the argument \<open>be\<close>,
  whose requests are the entries above; a null callback (teardown) is \<^term>\<open>None\<close>.
\<close>

datatype uring_shim = UReadShim | UWriteShim | UAcceptShim | UProvidedShim | UPlainShim

definition uring_read where
  "uring_read be rt fd buf local done =
     (let (addr, len) = vec_writable buf in
      register_op be rt UReadShim done local 0 [vec_into_erased buf] (SqRead fd addr (unat len)))"

definition uring_write where
  "uring_write be rt fd buf local done =
     (let (addr, len) = vec_readable buf in
      register_op be rt UWriteShim done local 0 [vec_into_erased buf] (SqWrite fd addr (unat len)))"

definition uring_accept where
  "uring_accept be rt listener_fd local done =
     register_op be rt UAcceptShim done local 0 [] (SqAccept listener_fd)"

text \<open>
  The class travels in the operation: the completion needs it to find the buffer. A length no class
  holds is refused before anything is registered, and the local is dropped.
\<close>

definition read_provided where
  "read_provided be u rt fd max_len local done =
     (case pool_class_for (pp_provided (ur_pools u)) max_len of
        None \<Rightarrow> Some (drop_local local rt, Inl (Os EFBIG))
      | Some cls \<Rightarrow>
          register_op be rt UProvidedShim done local (word_of_nat cls) [] (SqReadProvided fd (max_len mod 2 ^ 32) cls))"

definition write_fixed where
  "write_fixed be rt fd addr len local done =
     register_op be rt UPlainShim done local 0 [] (SqWriteFixed fd addr (len mod 2 ^ 32) 0)"

text \<open>
  \<open>hdrs\<close> are the control length and flags of the message headers by address: before the entry is
  built the header offers the kernel exactly the declared control bytes.
\<close>

definition recvmsg where
  "recvmsg be rt hdrs fd msg ctrl_cap flags local done =
     (let hdrs = hdrs(msg := (ctrl_cap, 0 :: u32)) in
      map_option (\<lambda>(rt, r). (rt, hdrs, r)) (register_op be rt UPlainShim done local 0 [] (SqRecvMsg fd msg flags)))"

definition sendmsg where
  "sendmsg be rt fd msg local done =
     register_op be rt UPlainShim done local 0 [] (SqSendMsg fd msg)"

text \<open>
  The completion of a provided read: the id of the buffer the kernel picked is in the flags, where
  \<open>buffer_select\<close> finds it; the view of that buffer is taken from the thread's pools.
\<close>

definition provided_result ::
  "(u32 \<Rightarrow> nat option) \<Rightarrow> op_outcome \<Rightarrow> u8 \<Rightarrow> thread \<Rightarrow> (thread \<times> buf_slice io_result) option"
where
  "provided_result buffer_select outcome cls th =
     (case outcome of
        Completed result flags \<Rightarrow>
          (case errno_of result of
             Some e \<Rightarrow> Some (th, Inl e)
           | None \<Rightarrow>
               (case buffer_select flags of
                  Some slot \<Rightarrow> do {
                    (th, v) \<leftarrow> provided_bytes (unat cls) slot (nat result) th;
                    Some (th, Inr v)
                  }
                | None \<Rightarrow> Some (th, Inl (Os ENOBUFS))))
      | Cancelled \<Rightarrow> Some (th, Inl Interrupted))"

text \<open>With a null callback the local is dropped, and with it the view just taken.\<close>

definition read_provided_shim where
  "read_provided_shim buffer_select run_done th rt args = do {
     (th, res) \<leftarrow> provided_result buffer_select (sa_outcome args) (sa_class args) th;
     if sa_done args = None then do {
       th \<leftarrow> (case res of Inr v \<Rightarrow> slice_drop th False v | Inl _ \<Rightarrow> Some th);
       Some (th, drop_local (sa_local args) rt)
     }
     else run_done th rt (sa_local args) res
   }"

text \<open>The other shims: the callbacks are the arguments.\<close>

definition uring_shims where
  "uring_shims buf_done accept_done plain_done sh rt args =
     (case sh of
        UReadShim \<Rightarrow> finish_buf_op (\<lambda>e n. vec_from_erased e (word_of_nat n)) buf_done rt args
      | UWriteShim \<Rightarrow> finish_buf_op (\<lambda>e n. vec_from_erased e (word_of_nat n)) buf_done rt args
      | UAcceptShim \<Rightarrow> finish_plain_op (\<lambda>fd. fd) accept_done rt args
      | UPlainShim \<Rightarrow> finish_plain_op nat plain_done rt args
      | UProvidedShim \<Rightarrow> None)"

section \<open>Running\<close>

text \<open>
  \<^verbatim>\<open>block_on\<close>: the generation is entered first and left last, the pools are published before
  anything runs and withdrawn after the runtime was dropped.
\<close>

definition uring_block_on where
  "uring_block_on q allocate cfg th run = do {
     th \<leftarrow> enter_active_gen th;
     r \<leftarrow> uring_attach q allocate cfg;
     (case r of
        Inl e \<Rightarrow> None
      | Inr u \<Rightarrow> do {
          (th, g) \<leftarrow> run (set_current_pools (ur_pools u) th) u;
          Some (exit_active_gen (clear_current_pools th), g)
        })
   }"

section \<open>Properties\<close>

lemma user_data_roundtrip [simp]: "user_data_of_u64 (user_data_to_u64 ud) = ud"
proof -
  have "(ucast (user_data_to_u64 ud) :: u32) = ud_index ud"
    by (rule bit_word_eqI) (auto simp: user_data_to_u64_def bit_simps)
  moreover have "(ucast (drop_bit 32 (user_data_to_u64 ud)) :: u32) = ud_tag ud"
    by (rule bit_word_eqI) (auto simp: user_data_to_u64_def bit_simps dest: bit_imp_le_length)
  ultimately show ?thesis by (simp add: user_data_of_u64_def)
qed

lemma bit_CANCEL_TAG: "bit CANCEL_TAG n \<longleftrightarrow> n = 31"
  by (auto simp add: CANCEL_TAG_def bit_simps simp del: push_bit_of_1)

lemma class_tag:
  assumes "(ucast (cls :: u8) :: u32) \<le> CLASS_MASK"
  shows "ucast (ucast cls AND CLASS_MASK) = cls" "(ucast cls :: u32) AND CANCEL_TAG = 0"
proof -
  have "unat (ucast cls :: u32) \<le> 127" using assms by (simp add: CLASS_MASK_def word_le_nat_alt)
  moreover have "unat cls < 2 ^ LENGTH(8)" by (rule unsigned_less)
  then have "take_bit 32 (unat cls) = unat cls" by (intro take_bit_nat_eq_self) simp
  ultimately have "unat cls < 128" by (simp add: unsigned_ucast_eq)
  then have "\<not> bit (unat cls) 7" by (simp add: bit_iff_odd)
  then have hi: "\<not> bit cls 7" by (simp add: bit_unsigned_iff)
  have mask: "CLASS_MASK = mask 7" by (simp add: CLASS_MASK_def mask_eq_exp_minus_1)
  show "ucast (ucast cls AND CLASS_MASK) = cls"
  proof (rule bit_word_eqI)
    fix n assume "n < LENGTH(8)"
    then have "n < 7 \<or> n = 7" by auto
    then show "bit (ucast (ucast cls AND CLASS_MASK) :: u8) n = bit cls n" using hi by (auto simp: mask bit_simps)
  qed
  show "(ucast cls :: u32) AND CANCEL_TAG = 0"
    by (rule bit_word_eqI) (auto simp: bit_CANCEL_TAG bit_simps dest: bit_imp_le_length)
qed

text \<open>
  Completions keep their names. The user data an entry is pushed with comes back in its
  completion, from which the backend recovers the operation's slot and class exactly and never takes
  it for a cancellation; the completion of a cancel entry is recovered as such, with its cancel slot,
  and is never taken for an operation that was cancelled.
\<close>

theorem uring_completion_names_op:
  assumes "op_user_data slot cls = Some ud" "slot < 2 ^ 32" "cslot < 2 ^ 32"
  shows "completion_of_cqe \<lparr>cq_user_data = ud, cq_result = res, cq_flags = fl\<rparr> =
      \<lparr>cn_slot = slot, cn_result = res, cn_flags = fl, cn_class = cls, cn_cancel = False,
       cn_cancelled = (res = - ECANCELED)\<rparr> \<and>
    cn_slot (completion_of_cqe \<lparr>cq_user_data = cancel_user_data cslot, cq_result = res, cq_flags = fl\<rparr>) = cslot \<and>
    cn_cancel (completion_of_cqe \<lparr>cq_user_data = cancel_user_data cslot, cq_result = res, cq_flags = fl\<rparr>) \<and>
    \<not> cn_cancelled (completion_of_cqe \<lparr>cq_user_data = cancel_user_data cslot, cq_result = res, cq_flags = fl\<rparr>)"
proof -
  have ud: "ud = user_data_to_u64 \<lparr>ud_index = word_of_nat slot, ud_tag = ucast cls\<rparr>" "(ucast cls :: u32) \<le> CLASS_MASK"
    using assms(1) by (auto simp: op_user_data_def bind_eq_Some_conv)
  have "unat (word_of_nat slot :: u32) = slot" "unat (word_of_nat cslot :: u32) = cslot"
    using assms(2,3) by (simp_all add: unsigned_of_nat take_bit_nat_eq_self)
  moreover have "CANCEL_TAG AND CANCEL_TAG \<noteq> 0" by (simp add: CANCEL_TAG_def)
  ultimately show ?thesis using class_tag [OF ud(2)]
    by (simp add: completion_of_cqe_def cancel_user_data_def ud(1) Let_def)
qed

theorem uring_completion_names_op_witness:
  "\<exists>ud. op_user_data 70000 127 = Some ud \<and>
     cn_slot (completion_of_cqe \<lparr>cq_user_data = ud, cq_result = -125, cq_flags = 0\<rparr>) = 70000 \<and>
     cn_class (completion_of_cqe \<lparr>cq_user_data = ud, cq_result = -125, cq_flags = 0\<rparr>) = 127"
proof -
  obtain ud where ud: "op_user_data 70000 127 = Some ud" by (simp add: op_user_data_def CLASS_MASK_def ensure_def)
  from uring_completion_names_op [OF this, of 5 "-125" 0] show ?thesis using ud by simp
qed

lemma layout_loop_length: "layout_loop b off cs = Some ls \<Longrightarrow> length ls = length cs"
  by (induction b off cs arbitrary: ls rule: layout_loop.induct) (auto simp: bind_eq_Some_conv)

lemma layout_classes_length: "layout_classes cs b = Some ls \<Longrightarrow> length ls \<le> 128"
  by (auto simp: layout_classes_def bind_eq_Some_conv ensure_def Let_def dest: layout_loop_length split: if_splits)

lemma build_pools_classes:
  assumes "build_pools allocate rr rs pspec fspec = Some P" shows "length (pl_classes (pp_provided P)) \<le> 128"
  using assms
  by (auto simp: build_pools_def bind_eq_Some_conv Let_def pool_new_def dest!: layout_classes_length)

text \<open>
  A provided read never trips the tag check. Whatever class tables the pools were built from, the
  class \<^verbatim>\<open>read_provided\<close> picks for a length fits the seven class bits of the tag, so arming the
  operation does not panic, and the completion carries the same class.
\<close>

theorem provided_class_fits_tag:
  assumes "build_pools allocate rr rs pspec fspec = Some P" "pool_class_for (pp_provided P) n = Some cls"
  shows "cls < length (pl_classes (pp_provided P)) \<and>
    op_user_data slot (word_of_nat cls) = Some (user_data_to_u64 \<lparr>ud_index = word_of_nat slot, ud_tag = word_of_nat cls\<rparr>)"
proof -
  have len: "length (pl_classes (pp_provided P)) \<le> 128" by (rule build_pools_classes [OF assms(1)])
  obtain i where i: "position (\<lambda>c. n \<le> sc_size c) (pl_classes (pp_provided P)) = Some i" "cls = i mod 256"
    using assms(2) by (auto simp: pool_class_for_def class_for_def)
  then have "i < length (pl_classes (pp_provided P))" using position_SomeD [OF i(1)] by auto
  then have c: "cls < length (pl_classes (pp_provided P))" "cls < 128" using i(2) len by auto
  have "unat (word_of_nat cls :: u8) = cls" "unat (word_of_nat cls :: u32) = cls"
    using c(2) by (simp_all add: unsigned_of_nat take_bit_nat_eq_self)
  then have "(ucast (word_of_nat cls :: u8) :: u32) = word_of_nat cls" by (metis of_nat_unat)
  moreover have "(word_of_nat cls :: u32) \<le> CLASS_MASK"
    using c(2) \<open>unat (word_of_nat cls :: u32) = cls\<close> by (simp add: CLASS_MASK_def word_le_nat_alt)
  ultimately show ?thesis using c(1) by (simp add: op_user_data_def ensure_def)
qed

theorem provided_class_fits_tag_witness:
  "\<exists>P. build_pools (\<lambda>_ _. Some 0) (\<lambda>_. True) (\<lambda>_ _. True) [\<lparr>sc_size = 4, sc_count = 2\<rparr>] [\<lparr>sc_size = 8, sc_count = 2\<rparr>] = Some P \<and>
     pool_class_for (pp_provided P) 3 = Some 0 \<and> op_user_data 3 0 \<noteq> None"
proof -
  obtain P where P: "build_pools (\<lambda>_ _. Some 0) (\<lambda>_. True) (\<lambda>_ _. True) [\<lparr>sc_size = 4, sc_count = 2\<rparr>] [\<lparr>sc_size = 8, sc_count = 2\<rparr>] = Some P"
    "pool_class_for (pp_provided P) 3 = Some 0"
    by (simp add: build_pools_def layout_classes_def layout_class_def is_power_of_two.simps div_ceil_def
        build_align_def BUFFER_MAX_ALIGN_def BID_LOCAL_MASK_def pool_new_def provided_slab_new_def fixed_slab_new_def
        class_of_layout_def pool_class_for_def class_for_def panic_simps Let_def idx_def)
  from provided_class_fits_tag [OF P, of 3] show ?thesis using P by auto
qed

end
