(* ===== verification/Uring_Safety.thy ===== *)
theory Uring_Safety
  imports Uring_Backend Backend_Port "HOL-Library.Multiset"
begin

text \<open>
  The io_uring backend as a provider of the runtime's backend contract. The ring is a parameter; what
  the code relies on in it is \<open>ring_laws\<close>: the kernel reports every entry that was pushed exactly once,
  under the user data it was pushed with. The backend packs slots into that user data and unpacks them,
  and keeps no table of its own, so the contract rests on the encoding alone.
\<close>

section \<open>What the code relies on in the ring\<close>

text \<open>\<open>inflight\<close> is the user data of the entries that were pushed and not yet reported.\<close>

definition ring_laws :: "'q ring_ops \<Rightarrow> ('q \<Rightarrow> u64 multiset) \<Rightarrow> bool" where
  "ring_laws q inflight \<longleftrightarrow>
     (\<forall>flags entries r. ro_build q flags entries = Inr r \<longrightarrow> inflight r = {#}) \<and>
     (\<forall>r e r' ok. ro_push q r e = (r', ok) \<longrightarrow>
        inflight r' = (if ok then add_mset (sq_user_data e) (inflight r) else inflight r)) \<and>
     (\<forall>r n r' x. ro_submit_and_wait q r n = Some (r', x) \<longrightarrow> inflight r' = inflight r) \<and>
     (\<forall>r r' x. ro_next q r = (r', x) \<longrightarrow>
        inflight r = (case x of None \<Rightarrow> inflight r' | Some c \<Rightarrow> add_mset (cq_user_data c) (inflight r')))"

lemma ring_lawsD:
  assumes "ring_laws q inflight"
  shows "ro_build q flags entries = Inr r \<Longrightarrow> inflight r = {#}"
    and "ro_push q r e = (r', ok) \<Longrightarrow> inflight r' = (if ok then add_mset (sq_user_data e) (inflight r) else inflight r)"
    and "ro_submit_and_wait q r k = Some (r', w) \<Longrightarrow> inflight r' = inflight r"
    and "ro_next q r = (r', x) \<Longrightarrow>
      inflight r = (case x of None \<Rightarrow> inflight r' | Some c \<Rightarrow> add_mset (cq_user_data c) (inflight r'))"
  using assms unfolding ring_laws_def by blast+

section \<open>The names in flight\<close>

definition names_cancel :: "u64 \<Rightarrow> bool" where
  "names_cancel w \<longleftrightarrow> ud_tag (user_data_of_u64 w) AND CANCEL_TAG \<noteq> 0"

definition named_slot :: "u64 \<Rightarrow> nat" where
  "named_slot w = unat (ud_index (user_data_of_u64 w))"

definition op_slots :: "u64 multiset \<Rightarrow> nat multiset" where
  "op_slots M = image_mset named_slot (filter_mset (\<lambda>w. \<not> names_cancel w) M)"

definition cancel_slots :: "u64 multiset \<Rightarrow> nat multiset" where
  "cancel_slots M = image_mset named_slot (filter_mset names_cancel M)"

lemma slots_empty [simp]: "op_slots {#} = {#}" "cancel_slots {#} = {#}"
  by (simp_all add: op_slots_def cancel_slots_def)

lemma slots_add:
  "op_slots (add_mset w M) = (if names_cancel w then op_slots M else add_mset (named_slot w) (op_slots M))"
  "cancel_slots (add_mset w M) = (if names_cancel w then add_mset (named_slot w) (cancel_slots M) else cancel_slots M)"
  by (simp_all add: op_slots_def cancel_slots_def)

text \<open>What the backend packs is what it unpacks.\<close>

lemma op_user_data_names:
  assumes "op_user_data slot cls = Some w" "slot < 2 ^ 32"
  shows "\<not> names_cancel w \<and> named_slot w = slot"
proof -
  have w: "w = user_data_to_u64 \<lparr>ud_index = word_of_nat slot, ud_tag = ucast cls\<rparr>" "(ucast cls :: u32) \<le> CLASS_MASK"
    using assms(1) by (auto simp: op_user_data_def bind_eq_Some_conv)
  have "unat (word_of_nat slot :: u32) = slot" using assms(2) by (simp add: unsigned_of_nat take_bit_nat_eq_self)
  then show ?thesis using class_tag(2) [OF w(2)] by (simp add: w(1) names_cancel_def named_slot_def)
qed

lemma cancel_user_data_names:
  assumes "slot < 2 ^ 32"
  shows "names_cancel (cancel_user_data slot) \<and> named_slot (cancel_user_data slot) = slot"
proof -
  have "unat (word_of_nat slot :: u32) = slot" using assms by (simp add: unsigned_of_nat take_bit_nat_eq_self)
  moreover have "CANCEL_TAG AND CANCEL_TAG \<noteq> 0" by (simp add: CANCEL_TAG_def)
  ultimately show ?thesis by (simp add: cancel_user_data_def names_cancel_def named_slot_def)
qed

lemma completion_of_cqe_names:
  "cn_slot (completion_of_cqe c) = named_slot (cq_user_data c)"
  "cn_cancel (completion_of_cqe c) = names_cancel (cq_user_data c)"
  by (simp_all add: completion_of_cqe_def named_slot_def names_cancel_def Let_def)

section \<open>The contract\<close>

text \<open>
  The backend as the runtime sees it. A panic (a class that does not fit the tag, a closed ring) and a
  slot beyond 32 bits stand as refusals that change nothing: the runs of the loop then include every
  run of the code up to its panic.
\<close>

definition uring_ops :: "'q ring_ops \<Rightarrow> ('q uring, sqe_op) backend_ops" where
  "uring_ops q =
     \<lparr>be_arm = \<lambda>u slot cls req.
        (case (if slot < 2 ^ 32 then uring_arm q u slot cls req else None) of
           Some ur \<Rightarrow> ur | None \<Rightarrow> (u, Inl (Os EAGAIN))),
      be_wait = uring_wait q,
      be_next_completion = \<lambda>u. (case uring_next_completion q u of Some uc \<Rightarrow> uc | None \<Rightarrow> (u, None)),
      be_cancel = \<lambda>u c t cls.
        (case (if c < 2 ^ 32 \<and> t < 2 ^ 32 then uring_cancel q u c t cls else None) of
           Some ur \<Rightarrow> ur | None \<Rightarrow> (u, Inl (Os EAGAIN))),
      be_begin_teardown = \<lambda>u. fst (uring_begin_teardown q u)\<rparr>"

definition ur_inflight :: "('q \<Rightarrow> u64 multiset) \<Rightarrow> 'q uring \<Rightarrow> u64 multiset" where
  "ur_inflight inflight u = (case ur_ring u of None \<Rightarrow> {#} | Some r \<Rightarrow> inflight r)"

definition uring_wf :: "('q \<Rightarrow> u64 multiset) \<Rightarrow> 'q uring \<Rightarrow> bool" where
  "uring_wf inflight u \<longleftrightarrow> (\<forall>i. count (op_slots (ur_inflight inflight u)) i \<le> 1)"

definition uring_due :: "('q \<Rightarrow> u64 multiset) \<Rightarrow> 'q uring \<Rightarrow> nat set" where
  "uring_due inflight u = set_mset (op_slots (ur_inflight inflight u))"

definition uring_cdue :: "('q \<Rightarrow> u64 multiset) \<Rightarrow> 'q uring \<Rightarrow> nat set" where
  "uring_cdue inflight u = set_mset (cancel_slots (ur_inflight inflight u))"

lemmas uring_acct_defs = uring_wf_def uring_due_def uring_cdue_def

lemma count_le_1_remove:
  assumes "\<forall>i. count (add_mset a M) i \<le> 1" shows "(\<forall>i. count M i \<le> 1) \<and> a \<notin># M"
proof -
  have "count M i \<le> 1" for i using spec [OF assms, of i] by (simp split: if_splits)
  moreover have "count M a = 0" using spec [OF assms, of a] by simp
  ultimately show ?thesis by (simp add: not_in_iff)
qed

lemma uring_push_inflight:
  assumes "ring_laws q inflight" "uring_push q u e = Some (u', r)"
  shows "ur_inflight inflight u' = (if isl r then ur_inflight inflight u else add_mset (sq_user_data e) (ur_inflight inflight u))"
proof -
  obtain ring ring' ok where "ur_ring u = Some ring" "ro_push q ring e = (ring', ok)"
    "u' = u\<lparr>ur_ring := Some ring'\<rparr>" "r = (if ok then Inr () else Inl (Os EAGAIN))"
    using assms(2) by (cases "ur_ring u"; cases "ro_push q (the (ur_ring u)) e") (auto simp: uring_push_def)
  then show ?thesis using ring_lawsD(2) [OF assms(1)] by (simp add: ur_inflight_def)
qed

lemma uring_arm_law:
  assumes laws: "ring_laws q inflight" and wf: "uring_wf inflight u" and fresh: "slot \<notin> uring_due inflight u"
    and ret: "be_arm (uring_ops q) u slot cls req = (u', r)"
  shows "uring_wf inflight u' \<and> uring_cdue inflight u' = uring_cdue inflight u \<and>
    uring_due inflight u' = (if isl r then uring_due inflight u else insert slot (uring_due inflight u))"
proof (cases "if slot < 2 ^ 32 then uring_arm q u slot cls req else None")
  case None
  then have "u' = u" "isl r" using ret by (auto simp: uring_ops_def)
  then show ?thesis using wf by simp
next
  case (Some ur)
  then have "ur = (u', r)" using ret by (simp add: uring_ops_def)
  then obtain w where s: "slot < 2 ^ 32" "op_user_data slot cls = Some w"
    "uring_push q u \<lparr>sq_op = req, sq_user_data = w\<rparr> = Some (u', r)"
    using Some by (auto simp: uring_arm_def bind_eq_Some_conv split: if_splits)
  show ?thesis
    using op_user_data_names [OF s(2,1)] uring_push_inflight [OF laws s(3)] wf fresh
    by (auto simp: uring_acct_defs slots_add not_in_iff)
qed

lemma uring_cancel_law:
  assumes laws: "ring_laws q inflight" and wf: "uring_wf inflight u"
    and ret: "be_cancel (uring_ops q) u c t cls = (u', r)"
  shows "uring_wf inflight u' \<and> uring_due inflight u' = uring_due inflight u \<and>
    uring_cdue inflight u' \<subseteq> insert c (uring_cdue inflight u)"
proof (cases "if c < 2 ^ 32 \<and> t < 2 ^ 32 then uring_cancel q u c t cls else None")
  case None
  then have "u' = u" using ret by (auto simp: uring_ops_def)
  then show ?thesis using wf by auto
next
  case (Some ur)
  then have "ur = (u', r)" using ret by (simp add: uring_ops_def)
  then obtain e r1 where s: "c < 2 ^ 32" "uring_push q u e = Some (u', r1)" "sq_user_data e = cancel_user_data c"
    using Some by (fastforce simp: uring_cancel_def bind_eq_Some_conv split: if_splits)
  show ?thesis
    using cancel_user_data_names [OF s(1)] uring_push_inflight [OF laws s(2)] s(3) wf
    by (auto simp: uring_acct_defs slots_add)
qed

lemma uring_next_inflight:
  assumes "ring_laws q inflight" "be_next_completion (uring_ops q) u = (u', x)"
  shows "case x of None \<Rightarrow> ur_inflight inflight u' = ur_inflight inflight u
    | Some cn \<Rightarrow> \<exists>w. ur_inflight inflight u = add_mset w (ur_inflight inflight u') \<and>
        cn_slot cn = named_slot w \<and> cn_cancel cn = names_cancel w"
proof (cases "ur_ring u")
  case None
  then show ?thesis using assms(2) by (auto simp: uring_ops_def uring_next_completion_def)
next
  case (Some ring)
  obtain ring' c where n: "ro_next q ring = (ring', c)" by fastforce
  then have "u' = u\<lparr>ur_ring := Some ring'\<rparr>" "x = map_option completion_of_cqe c"
    using assms(2) Some by (auto simp: uring_ops_def uring_next_completion_def)
  then show ?thesis using ring_lawsD(4) [OF assms(1) n] Some
    by (auto simp: ur_inflight_def completion_of_cqe_names split: option.splits)
qed

lemma uring_wait_law:
  assumes "ring_laws q inflight" "uring_wait q u = Some (u', r)"
  shows "ur_inflight inflight u' = ur_inflight inflight u"
proof -
  obtain ring ring' x where "ur_ring u = Some ring" "ro_submit_and_wait q ring 1 = Some (ring', x)" "u' = u\<lparr>ur_ring := Some ring'\<rparr>"
    using assms(2) by (auto simp: uring_wait_def bind_eq_Some_conv)
  then show ?thesis using ring_lawsD(3) [OF assms(1)] by (simp add: ur_inflight_def)
qed

lemma uring_port:
  assumes laws: "ring_laws q inflight"
  shows "backend_port (uring_ops q) (uring_wf inflight) (uring_due inflight) (uring_cdue inflight)"
proof unfold_locales
  fix u slot cls req u' r
  assume "uring_wf inflight u" "slot \<notin> uring_due inflight u" "be_arm (uring_ops q) u slot cls req = (u', r)"
  from uring_arm_law [OF laws this] show "uring_wf inflight u' \<and>
    uring_due inflight u' = (if isl r then uring_due inflight u else insert slot (uring_due inflight u)) \<and>
    uring_cdue inflight u' = uring_cdue inflight u" by simp
next
  fix u c t cls u' r
  assume "uring_wf inflight u" "be_cancel (uring_ops q) u c t cls = (u', r)"
  then show "uring_wf inflight u' \<and> uring_due inflight u' = uring_due inflight u \<and>
    uring_cdue inflight u' \<subseteq> insert c (uring_cdue inflight u)" by (rule uring_cancel_law [OF laws])
next
  fix u u'
  assume "uring_wf inflight u" "be_next_completion (uring_ops q) u = (u', None)"
  with uring_next_inflight [OF laws this(2)] show "uring_wf inflight u' \<and>
    uring_due inflight u' = uring_due inflight u \<and> uring_cdue inflight u' = uring_cdue inflight u"
    by (simp add: uring_acct_defs)
next
  fix u u' cn
  assume a: "uring_wf inflight u" "be_next_completion (uring_ops q) u = (u', Some cn)" "\<not> cn_cancel cn"
  obtain w where "ur_inflight inflight u = add_mset w (ur_inflight inflight u')" "cn_slot cn = named_slot w" "\<not> names_cancel w"
    using uring_next_inflight [OF laws a(2)] a(3) by auto
  then show "uring_wf inflight u' \<and> cn_slot cn \<in> uring_due inflight u \<and>
    uring_due inflight u' = uring_due inflight u - {cn_slot cn} \<and> uring_cdue inflight u' = uring_cdue inflight u"
    using a(1) count_le_1_remove [of "named_slot w" "op_slots (ur_inflight inflight u')"]
    by (auto simp: uring_acct_defs slots_add)
next
  fix u u' cn
  assume a: "uring_wf inflight u" "be_next_completion (uring_ops q) u = (u', Some cn)" "cn_cancel cn"
  obtain w where "ur_inflight inflight u = add_mset w (ur_inflight inflight u')" "cn_slot cn = named_slot w" "names_cancel w"
    using uring_next_inflight [OF laws a(2)] a(3) by auto
  then show "uring_wf inflight u' \<and> cn_slot cn \<in> uring_cdue inflight u \<and>
    uring_due inflight u' = uring_due inflight u \<and> uring_cdue inflight u' \<subseteq> uring_cdue inflight u"
    using a(1) by (auto simp: uring_acct_defs slots_add)
next
  fix u u' r
  assume "uring_wf inflight u" "be_wait (uring_ops q) u = Some (u', r)"
  then show "uring_wf inflight u' \<and> uring_due inflight u' = uring_due inflight u \<and> uring_cdue inflight u' = uring_cdue inflight u"
    using uring_wait_law [OF laws, of u u' r] by (simp add: uring_acct_defs uring_ops_def)
qed

lemma uring_attach_acct:
  assumes "ring_laws q inflight" "uring_attach q allocate cfg = Some (Inr u)"
  shows "ur_inflight inflight u = {#}"
proof -
  obtain flags ring P where "ro_build q flags (uc_ring_entries cfg) = Inr ring" "u = \<lparr>ur_ring = Some ring, ur_pools = P\<rparr>"
    using assms(2)
    by (cases "ro_build q True (uc_ring_entries cfg)"; cases "ro_build q False (uc_ring_entries cfg)")
       (auto simp: uring_attach_def bind_eq_Some_conv)
  then show ?thesis using ring_lawsD(1) [OF assms(1)] by (simp add: ur_inflight_def)
qed

section \<open>The runtime on the ring\<close>

text \<open>
  C17. The runtime on the io_uring backend: over every run of the event loop (client operations,
  completions, waits, in any order), whatever results the kernel reports, a completion popped from
  the ring names a live operation that still owns its callback and its local, or a slot of the cancel
  slab. The backend keeps no table: the slot packed into the user data is always that of an operation
  still live, although slots are reused, because no slot is ever in flight twice.
\<close>

theorem uring_completions_name_live_ops:
  assumes "ring_laws q inflight" "uring_attach q allocate cfg = Some (Inr u)"
    and "(loop_step (uring_ops q) shims cancels)\<^sup>*\<^sup>* (runtime_new u g n) rt"
    and "api_only (uring_ops q) shims cancels" "0 < n" "n \<le> MAX_OP_ID"
    and "uring_next_completion q (rt_backend rt) = Some (b, Some c)"
  shows "if cn_cancel c then cn_slot c < length (rt_cancel_slab rt)
    else \<exists>s sh d l. ops rt (cn_slot c) = Some s \<and> os_body s = Live sh d \<and> os_local s = Some l"
proof -
  note port = uring_port [OF assms(1)]
  have u: "uring_wf inflight u" "uring_due inflight u = {}" "uring_cdue inflight u = {}"
    using uring_attach_acct [OF assms(1,2)] by (simp_all add: uring_acct_defs)
  note a = backend_port.loop_acct [OF port assms(3,4) u assms(5,6)]
  have "be_next_completion (uring_ops q) (rt_backend rt) = (b, Some c)" using assms(7) by (simp add: uring_ops_def)
  then show ?thesis by (rule backend_port.completion_names_live [OF port conjunct1 [OF a] conjunct2 [OF a]])
qed

text \<open>
  A ring for the example: two queues, of entries to submit and of completions; a wait submits every
  entry and the kernel completes each at once, with result 9.
\<close>

definition demo_ring :: "(sqe list \<times> cqe list) ring_ops" where
  "demo_ring = \<lparr>ro_build = \<lambda>flags n. if flags then Inl (Os 22) else Inr ([], []),
     ro_push = \<lambda>(sq, cq) e. if length sq < 4 then ((sq @ [e], cq), True) else ((sq, cq), False),
     ro_submit_and_wait = \<lambda>(sq, cq) n. if sq = [] \<and> cq = [] then None
       else Some (([], cq @ map (\<lambda>e. \<lparr>cq_user_data = sq_user_data e, cq_result = 9, cq_flags = 0\<rparr>) sq), Inr (length sq)),
     ro_submit = \<lambda>(sq, cq). (([], cq @ map (\<lambda>e. \<lparr>cq_user_data = sq_user_data e, cq_result = 9, cq_flags = 0\<rparr>) sq), Inr (length sq)),
     ro_next = \<lambda>(sq, cq). (case cq of [] \<Rightarrow> ((sq, []), None) | c # cs \<Rightarrow> ((sq, cs), Some c)),
     ro_unregister_all = \<lambda>r P. r, ro_unregister_buffers = \<lambda>r. r,
     ro_register_ring = \<lambda>r p. True, ro_register_slab = \<lambda>r b n. True\<rparr>"

definition demo_ring_inflight :: "sqe list \<times> cqe list \<Rightarrow> u64 multiset" where
  "demo_ring_inflight r = image_mset sq_user_data (mset (fst r)) + image_mset cq_user_data (mset (snd r))"

lemma demo_ring_laws: "ring_laws demo_ring demo_ring_inflight"
  unfolding ring_laws_def demo_ring_inflight_def demo_ring_def
  by (auto simp: ac_simps multiset.map_comp comp_def split: if_splits list.splits)

definition demo_uring_config :: uring_config where
  "demo_uring_config = \<lparr>uc_ring_entries = 4, uc_provided_size_classes = [\<lparr>sc_size = 4, sc_count = 2\<rparr>],
     uc_size_classes = [\<lparr>sc_size = 8, sc_count = 2\<rparr>]\<rparr>"

lemma demo_uring_attach:
  obtains P where "uring_attach demo_ring (\<lambda>_ _. Some 0) demo_uring_config = Some (Inr \<lparr>ur_ring = Some ([], []), ur_pools = P\<rparr>)"
  by (simp add: uring_attach_def demo_uring_config_def demo_ring_def
      build_pools_def layout_classes_def layout_class_def is_power_of_two.simps div_ceil_def
      build_align_def BUFFER_MAX_ALIGN_def BID_LOCAL_MASK_def pool_new_def provided_slab_new_def fixed_slab_new_def
      class_of_layout_def pool_class_for_def class_for_def panic_simps Let_def idx_def)

text \<open>One accept on descriptor 7: registered, then completed by a wait.\<close>

type_synonym demo_uring_rt = "(unit, nat, uring_shim, unit option, unit, (sqe list \<times> cqe list) uring) runtime"

definition demo_uring_armed :: "pools \<Rightarrow> demo_uring_rt" where
  "demo_uring_armed P = (runtime_new \<lparr>ur_ring = Some ([\<lparr>sq_op = SqAccept 7, sq_user_data = 0\<rparr>], []), ur_pools = P\<rparr> () 1)
     \<lparr>rt_io_slab := [\<lparr>os_id = 1, os_local = Some 42, os_buf = BUF_NONE, os_buf_len = 0, os_body = Live UAcceptShim (Some ())\<rparr>],
      rt_inflight_ops := 1, rt_next_op_id := 2\<rparr>"

definition demo_uring_served :: "pools \<Rightarrow> demo_uring_rt" where
  "demo_uring_served P = demo_uring_armed P
     \<lparr>rt_backend := \<lparr>ur_ring = Some ([], [\<lparr>cq_user_data = 0, cq_result = 9, cq_flags = 0\<rparr>]), ur_pools = P\<rparr>\<rparr>"

lemma op_user_data_0: "op_user_data 0 0 = Some 0"
  by (simp add: op_user_data_def CLASS_MASK_def ensure_def user_data_to_u64_def)

lemma demo_uring_accept:
  "uring_accept (uring_ops demo_ring) (runtime_new \<lparr>ur_ring = Some ([], []), ur_pools = P\<rparr> () 1) 7 42 (Some ()) =
     Some (demo_uring_armed P, Inr \<lparr>op_slot = 0, op_class = 0, op_id = 1\<rparr>)"
  by (simp add: demo_uring_armed_def uring_accept_def register_op_def claim_op_def alloc_op_slot_def runtime_new_def
      next_op_id_def alloc_buf_run_def with_io_slot_def io_slot_claim_def io_slot_init_free_def is_free_def idx_def
      MAX_OP_ID_val FREE_NONE_def uring_ops_def uring_arm_def uring_push_def op_user_data_0 demo_ring_def)

lemma demo_uring_run:
  "(loop_step (uring_ops demo_ring) (\<lambda>sh rt args. Some rt) (\<lambda>dn rt l cl. Some (rt, l)))\<^sup>*\<^sup>*
     (runtime_new \<lparr>ur_ring = Some ([], []), ur_pools = P\<rparr> () 1) (demo_uring_served P)"
proof -
  let ?step = "loop_step (uring_ops demo_ring) (\<lambda>sh rt args. Some rt) (\<lambda>dn rt l cl. Some (rt, l))"
  have "api_step (uring_ops demo_ring) (runtime_new \<lparr>ur_ring = Some ([], []), ur_pools = P\<rparr> () 1) (demo_uring_armed P)"
    using demo_uring_accept unfolding uring_accept_def by (rule api_step.Register)
  then have a: "?step (runtime_new \<lparr>ur_ring = Some ([], []), ur_pools = P\<rparr> () 1) (demo_uring_armed P)"
    by (rule loop_step.LApi)
  have "be_wait (uring_ops demo_ring) (rt_backend (demo_uring_armed P)) = Some (rt_backend (demo_uring_served P), Inr ())"
    by (simp add: uring_ops_def uring_wait_def demo_ring_def demo_uring_served_def demo_uring_armed_def runtime_new_def)
  from loop_step.LWait [OF this] have "?step (demo_uring_armed P) (demo_uring_served P)"
    by (simp add: demo_uring_served_def)
  then show ?thesis by (rule converse_rtranclp_into_rtranclp [of ?step, OF a r_into_rtranclp])
qed

theorem uring_completions_name_live_ops_witness:
  "\<exists>P b c. uring_attach demo_ring (\<lambda>_ _. Some 0) demo_uring_config = Some (Inr \<lparr>ur_ring = Some ([], []), ur_pools = P\<rparr>) \<and>
     uring_next_completion demo_ring (rt_backend (demo_uring_served P)) = Some (b, Some c) \<and>
     cn_slot c = 0 \<and> cn_result c = 9 \<and>
     (\<exists>s sh d l. ops (demo_uring_served P) 0 = Some s \<and> os_body s = Live sh d \<and> os_local s = Some l)"
proof -
  obtain P where P: "uring_attach demo_ring (\<lambda>_ _. Some 0) demo_uring_config = Some (Inr \<lparr>ur_ring = Some ([], []), ur_pools = P\<rparr>)"
    by (rule demo_uring_attach)
  obtain b c where b: "uring_next_completion demo_ring (rt_backend (demo_uring_served P)) = Some (b, Some c)"
    and c: "c = completion_of_cqe \<lparr>cq_user_data = 0, cq_result = 9, cq_flags = 0\<rparr>"
    by (simp add: uring_next_completion_def demo_ring_def demo_uring_served_def)
  have c0: "cn_slot c = 0" "cn_result c = 9" "\<not> cn_cancel c"
    by (simp_all add: c completion_of_cqe_def user_data_of_u64_def Let_def)
  have "api_only (uring_ops demo_ring) (\<lambda>sh rt args. Some rt) (\<lambda>dn (rt :: demo_uring_rt) l cl. Some (rt, l))"
    by (simp add: api_only_def)
  moreover have "(1 :: u64) \<le> MAX_OP_ID" by (simp add: MAX_OP_ID_val)
  ultimately show ?thesis
    using uring_completions_name_live_ops [OF demo_ring_laws P demo_uring_run [of P] _ _ _ b] P b c0 by auto
qed

end
