(* ===== verification/Buffer_Arena.thy ===== *)
theory Buffer_Arena
  imports Runtime_Delivery "HOL-Library.Multiset"
begin

text \<open>
  The buffer arena of the runtime (\<^verbatim>\<open>BufArena\<close> in \<^verbatim>\<open>libs/coio-core/src/runtime.rs\<close>): the erased buffers
  of an operation lie in one run of blocks, and a released run is linked into the free list of its size
  class through the first word of its first block. The invariant is that the live runs and the free
  runs tile the blocks without overlap; from it follow that a run keeps its contents until it is
  released, and what becomes of a caller's buffers when an operation is registered.
\<close>

section \<open>Size classes and tiles\<close>

lemma BUF_CLASSES_length [simp]: "length BUF_CLASSES = 8" "last BUF_CLASSES = 1024"
  by (simp_all add: BUF_CLASSES_def)

lemma class_size_pos: "c < 8 \<Longrightarrow> 0 < BUF_CLASSES ! c \<and> BUF_CLASSES ! c \<le> 1024"
  by (auto simp: BUF_CLASSES_def less_Suc_eq numeral_eq_Suc)

lemma arena_class:
  assumes "len \<le> 1024" obtains c where "arena_class_for len = Some c" "c < 8" "len \<le> BUF_CLASSES ! c"
proof (cases "arena_class_for len")
  case None
  then have "\<forall>n \<in> set BUF_CLASSES. \<not> len \<le> n" by (simp add: arena_class_for_def position_None)
  moreover have "1024 \<in> set BUF_CLASSES" by (simp add: BUF_CLASSES_def)
  ultimately show ?thesis using assms by blast
next
  case (Some c)
  then have "c < length BUF_CLASSES \<and> len \<le> BUF_CLASSES ! c"
    unfolding arena_class_for_def by (rule position_SomeD)
  then show ?thesis using that Some by simp
qed

text \<open>A tile is a size class with the index of its first block.\<close>

definition tile_cells :: "nat \<times> nat \<Rightarrow> nat multiset" where
  "tile_cells t = mset [snd t ..< snd t + BUF_CLASSES ! fst t]"

definition cover :: "(nat \<times> nat) multiset \<Rightarrow> nat multiset" where
  "cover M = sum_mset (image_mset tile_cells M)"

definition tiles_ok :: "nat \<Rightarrow> (nat \<times> nat) multiset \<Rightarrow> bool" where
  "tiles_ok n M \<longleftrightarrow> (\<forall>t \<in># M. fst t < 8 \<and> snd t + BUF_CLASSES ! fst t \<le> n) \<and> (\<forall>x. count (cover M) x \<le> 1)"

lemma cover_add: "cover (add_mset t M) = tile_cells t + cover M"
  by (simp add: cover_def)

lemma in_tile: "x \<in># tile_cells t \<longleftrightarrow> snd t \<le> x \<and> x < snd t + BUF_CLASSES ! fst t"
  by (auto simp: tile_cells_def)

lemma in_cover: "x \<in># cover M \<longleftrightarrow> (\<exists>t \<in># M. x \<in># tile_cells t)"
  by (simp add: cover_def)

lemma tile_start: "fst t < 8 \<Longrightarrow> snd t \<in># tile_cells t"
  using class_size_pos [of "fst t"] by (simp add: in_tile)

lemma tiles_ok_disjoint:
  assumes ok: "tiles_ok n (add_mset t M)" and u: "u \<in># M" "x \<in># tile_cells u"
  shows "x \<notin># tile_cells t"
proof
  assume "x \<in># tile_cells t"
  then have "0 < count (tile_cells t) x" "0 < count (cover M) x"
    unfolding count_greater_zero_iff using u in_cover [of x M] by auto
  moreover have "count (tile_cells t) x + count (cover M) x \<le> 1"
    using ok unfolding tiles_ok_def cover_add count_union by blast
  ultimately show False by linarith
qed

lemma tiles_ok_extend:
  assumes ok: "tiles_ok n M" and c: "c < 8" and m: "m = n + BUF_CLASSES ! c"
  shows "tiles_ok m (add_mset (c, n) M)"
proof -
  have out: "x < n" if "x \<in># cover M" for x
    using that ok unfolding in_cover by (auto simp: tiles_ok_def in_tile dest!: bspec)
  have "count (tile_cells (c, n)) x + count (cover M) x \<le> 1" for x
  proof (cases "x < n")
    case True
    then have "count (tile_cells (c, n)) x = 0" by (simp add: count_eq_zero_iff in_tile)
    then show ?thesis using ok by (simp add: tiles_ok_def)
  next
    case False
    then have "count (cover M) x = 0" using out by (auto simp: count_eq_zero_iff)
    moreover have "count (tile_cells (c, n)) x \<le> 1"
      by (simp add: tile_cells_def count_mset_set')
    ultimately show ?thesis by simp
  qed
  moreover have "snd t + BUF_CLASSES ! fst t \<le> m" if "t \<in># M" for t
    using that ok m by (fastforce simp: tiles_ok_def)
  ultimately show ?thesis using ok c m by (auto simp: tiles_ok_def cover_add)
qed

section \<open>Free lists\<close>

fun linked :: "erased list \<Rightarrow> nat \<Rightarrow> nat list \<Rightarrow> bool" where
  "linked blocks h [] \<longleftrightarrow> h = BUF_NONE"
| "linked blocks h (x # xs) \<longleftrightarrow> h = x \<and> x \<noteq> BUF_NONE \<and> x < length blocks \<and>
     (\<exists>n. next_link blocks x = Some n \<and> linked blocks n xs)"

lemma linked_cong:
  assumes "linked blocks h xs" "length blocks \<le> length blocks'" "\<And>x. x \<in> set xs \<Longrightarrow> blocks' ! x = blocks ! x"
  shows "linked blocks' h xs"
  using assms by (induction blocks h xs rule: linked.induct) (auto simp: next_link_def idx_def)

lemma linked_head: "linked blocks h xs \<Longrightarrow> length blocks \<le> BUF_NONE \<Longrightarrow> h \<le> BUF_NONE"
  by (cases xs) auto

definition free_tiles :: "(nat \<Rightarrow> nat list) \<Rightarrow> (nat \<times> nat) multiset" where
  "free_tiles F = (\<Sum>c \<in> {..<8}. image_mset (Pair c) (mset (F c)))"

lemma free_tiles_upd:
  assumes "c < 8" shows "free_tiles (F(c := xs)) + image_mset (Pair c) (mset (F c)) = free_tiles F + image_mset (Pair c) (mset xs)"
proof -
  have "free_tiles G = image_mset (Pair c) (mset (G c)) + (\<Sum>c \<in> {..<8} - {c}. image_mset (Pair c) (mset (G c)))" for G
    unfolding free_tiles_def using assms by (subst sum.remove [of _ c]) auto
  moreover have "(\<Sum>k \<in> {..<8} - {c}. image_mset (Pair k) (mset ((F(c := xs)) k))) =
      (\<Sum>k \<in> {..<8} - {c}. image_mset (Pair k) (mset (F k)))"
    by (rule sum.cong) auto
  ultimately show ?thesis by simp
qed

lemma free_tiles_cons: "c < 8 \<Longrightarrow> free_tiles (F(c := x # F c)) = add_mset (c, x) (free_tiles F)"
  using free_tiles_upd [of c F "x # F c"] by simp

lemma free_tiles_tl: "c < 8 \<Longrightarrow> F c = x # xs \<Longrightarrow> add_mset (c, x) (free_tiles (F(c := xs))) = free_tiles F"
  using free_tiles_upd [of c F xs] by simp

lemma in_free_tiles: "(c, x) \<in># free_tiles F \<longleftrightarrow> c < 8 \<and> x \<in> set (F c)"
  by (auto simp: free_tiles_def set_mset_sum)

section \<open>The invariant\<close>

text \<open>A live run is the index of its first block with its length.\<close>

definition run_tile :: "nat \<times> nat \<Rightarrow> nat \<times> nat" where
  "run_tile r = (the (arena_class_for (snd r)), fst r)"

definition contents :: "buf_arena \<Rightarrow> nat \<times> nat \<Rightarrow> erased list" where
  "contents a r = take (snd r) (drop (fst r) (ba_blocks a))"

definition arena_ok :: "buf_arena \<Rightarrow> (nat \<times> nat) multiset \<Rightarrow> bool" where
  "arena_ok a R \<longleftrightarrow> length (ba_free a) = 8 \<and> length (ba_blocks a) \<le> BUF_NONE \<and>
     (\<forall>r \<in># R. 0 < snd r \<and> snd r \<le> 1024) \<and>
     (\<exists>F. (\<forall>c < 8. linked (ba_blocks a) (ba_free a ! c) (F c)) \<and>
          tiles_ok (length (ba_blocks a)) (image_mset run_tile R + free_tiles F))"

lemma arena_okI:
  assumes "length (ba_free a) = 8" "length (ba_blocks a) \<le> BUF_NONE" "\<forall>r \<in># R. 0 < snd r \<and> snd r \<le> 1024"
    and "\<And>k. k < 8 \<Longrightarrow> linked (ba_blocks a) (ba_free a ! k) (F k)"
    and "tiles_ok (length (ba_blocks a)) (image_mset run_tile R + free_tiles F)"
  shows "arena_ok a R"
  using assms unfolding arena_ok_def by blast

lemma arena_ok_new: "arena_ok arena_new {#}"
  unfolding arena_ok_def
  by (intro conjI exI [of _ "\<lambda>_. []"])
     (auto simp: arena_new_def free_tiles_def tiles_ok_def cover_def nth_replicate)

lemma run_in_range:
  assumes "arena_ok a R" "r \<in># R"
  shows "fst r + snd r \<le> length (ba_blocks a)" "snd r \<le> BUF_CLASSES ! fst (run_tile r)" "fst (run_tile r) < 8"
proof -
  have l: "snd r \<le> 1024" using assms by (auto simp: arena_ok_def)
  obtain c where c: "arena_class_for (snd r) = Some c" "c < 8" "snd r \<le> BUF_CLASSES ! c" by (rule arena_class [OF l])
  then show "snd r \<le> BUF_CLASSES ! fst (run_tile r)" "fst (run_tile r) < 8" by (simp_all add: run_tile_def)
  have "snd (run_tile r) + BUF_CLASSES ! fst (run_tile r) \<le> length (ba_blocks a)"
    using assms unfolding arena_ok_def tiles_ok_def by (metis imageI set_image_mset union_iff)
  then show "fst r + snd r \<le> length (ba_blocks a)" using c by (simp add: run_tile_def)
qed

lemma run_cells: "arena_ok a R \<Longrightarrow> r \<in># R \<Longrightarrow> fst r \<le> x \<Longrightarrow> x < fst r + snd r \<Longrightarrow> x \<in># tile_cells (run_tile r)"
  using run_in_range(2) [of a R r] by (simp add: in_tile run_tile_def)

lemma contents_cong:
  assumes "\<And>x. fst r \<le> x \<Longrightarrow> x < fst r + snd r \<Longrightarrow> ba_blocks b ! x = ba_blocks a ! x"
    and "fst r + snd r \<le> length (ba_blocks a)" "length (ba_blocks a) \<le> length (ba_blocks b)"
  shows "contents b r = contents a r"
  using assms by (intro nth_equalityI) (auto simp: contents_def)

section \<open>Allocating, writing and releasing a run\<close>

lemma arena_alloc_ok:
  assumes ok: "arena_ok a R" and ret: "arena_alloc a len = Some (a', s)"
  shows "arena_ok a' (add_mset (s, len) R) \<and> s \<noteq> BUF_NONE \<and> (\<forall>q \<in># R. contents a' q = contents a q)"
proof -
  have len: "0 < len" "len \<le> 1024" using ret by (auto simp: arena_alloc_def bind_eq_Some_conv)
  obtain c where c: "arena_class_for len = Some c" "c < 8" by (rule arena_class [OF len(2)])
  have lf: "length (ba_free a) = 8" using ok by (simp add: arena_ok_def)
  obtain F where F: "\<And>k. k < 8 \<Longrightarrow> linked (ba_blocks a) (ba_free a ! k) (F k)"
    and tiles: "tiles_ok (length (ba_blocks a)) (image_mset run_tile R + free_tiles F)"
    and R: "\<forall>r \<in># R. 0 < snd r \<and> snd r \<le> 1024" and lb: "length (ba_blocks a) \<le> BUF_NONE"
    using ok by (auto simp: arena_ok_def)
  have t: "run_tile (s, len) = (c, s)" using c by (simp add: run_tile_def)
  show ?thesis
  proof (cases "ba_free a ! c = BUF_NONE")
    case False
    then obtain link where a': "s = ba_free a ! c" "next_link (ba_blocks a) s = Some link" "a' = a\<lparr>ba_free := (ba_free a)[c := link]\<rparr>"
      using ret c lf by (auto simp: arena_alloc_def bind_eq_Some_conv)
    obtain xs where xs: "F c = s # xs" "linked (ba_blocks a) link xs"
      using F [OF c(2)] False a'(1,2) by (cases "F c") auto
    have e: "add_mset (c, s) (free_tiles (F(c := xs))) = free_tiles F" by (rule free_tiles_tl [where F = F, OF c(2) xs(1)])
    have "image_mset run_tile (add_mset (s, len) R) + free_tiles (F(c := xs)) = image_mset run_tile R + free_tiles F"
      by (simp add: t flip: e)
    then have "tiles_ok (length (ba_blocks a)) (image_mset run_tile (add_mset (s, len) R) + free_tiles (F(c := xs)))"
      using tiles by metis
    moreover have "linked (ba_blocks a') (ba_free a' ! k) ((F(c := xs)) k)" if "k < 8" for k
      using F [OF that] xs(2) lf c(2) that by (cases "k = c") (simp_all add: a')
    ultimately have "arena_ok a' (add_mset (s, len) R)"
      using R len lb lf by (intro arena_okI [where F = "F(c := xs)"]) (auto simp: a' simp del: image_mset_add_mset)
    then show ?thesis using False a' by (simp add: contents_def)
  next
    case True
    let ?n = "length (ba_blocks a)"
    have a': "s = ?n" "?n + BUF_CLASSES ! c < BUF_NONE"
      "a' = a\<lparr>ba_blocks := ba_blocks a @ replicate (BUF_CLASSES ! c) erased_none\<rparr>"
      using ret c lf True by (auto simp: arena_alloc_def bind_eq_Some_conv Let_def)
    have "linked (ba_blocks a') (ba_free a' ! k) (F k)" if "k < 8" for k
    proof (rule linked_cong [of "ba_blocks a"])
      fix x assume "x \<in> set (F k)"
      then have "(k, x) \<in># image_mset run_tile R + free_tiles F" using that by (simp add: in_free_tiles)
      then have "x + BUF_CLASSES ! k \<le> ?n" using tiles unfolding tiles_ok_def by (metis fst_conv snd_conv)
      then show "ba_blocks a' ! x = ba_blocks a ! x" using class_size_pos [OF that] by (simp add: a' nth_append)
    qed (use F that in \<open>simp_all add: a'\<close>)
    moreover have "tiles_ok (length (ba_blocks a')) (image_mset run_tile (add_mset (s, len) R) + free_tiles F)"
      using tiles_ok_extend [OF tiles c(2), of "length (ba_blocks a')"] t a' by simp
    ultimately have "arena_ok a' (add_mset (s, len) R)"
      using R len lf a' unfolding arena_ok_def by auto
    moreover have "contents a' q = contents a q" if "q \<in># R" for q
      using run_in_range(1) [OF ok that] by (intro contents_cong) (auto simp: a' nth_append)
    ultimately show ?thesis using a' by simp
  qed
qed

lemma arena_write_ok:
  assumes ok: "arena_ok a (add_mset r R)" and len: "length bs = length (ba_blocks a)"
    and same: "\<And>x. x < fst r \<or> fst r + snd r \<le> x \<Longrightarrow> bs ! x = ba_blocks a ! x"
  shows "arena_ok (a\<lparr>ba_blocks := bs\<rparr>) (add_mset r R) \<and> (\<forall>q \<in># R. contents (a\<lparr>ba_blocks := bs\<rparr>) q = contents a q)"
proof -
  obtain F where F: "\<And>k. k < 8 \<Longrightarrow> linked (ba_blocks a) (ba_free a ! k) (F k)"
    and tiles: "tiles_ok (length (ba_blocks a)) (add_mset (run_tile r) (image_mset run_tile R + free_tiles F))"
    using ok by (auto simp: arena_ok_def)
  have out: "bs ! x = ba_blocks a ! x" if "u \<in># image_mset run_tile R + free_tiles F" "x \<in># tile_cells u" for u x
  proof (rule same)
    have "x \<notin># tile_cells (run_tile r)" by (rule tiles_ok_disjoint [OF tiles that])
    then show "x < fst r \<or> fst r + snd r \<le> x" using run_cells [OF ok, of r x] by (metis leI union_single_eq_member)
  qed
  have "linked bs (ba_free a ! k) (F k)" if "k < 8" for k
  proof (rule linked_cong [OF F [OF that]])
    fix x assume "x \<in> set (F k)"
    then have "(k, x) \<in># image_mset run_tile R + free_tiles F" using that by (simp add: in_free_tiles)
    then show "bs ! x = ba_blocks a ! x" using out tile_start [of "(k, x)"] that by simp
  qed (simp add: len)
  then have "arena_ok (a\<lparr>ba_blocks := bs\<rparr>) (add_mset r R)"
    using ok tiles len unfolding arena_ok_def by auto
  moreover have "contents (a\<lparr>ba_blocks := bs\<rparr>) q = contents a q" if q: "q \<in># R" for q
  proof (rule contents_cong)
    fix x assume "fst q \<le> x" "x < fst q + snd q"
    then have "x \<in># tile_cells (run_tile q)" using run_cells [OF ok, of q x] q by simp
    then show "ba_blocks (a\<lparr>ba_blocks := bs\<rparr>) ! x = ba_blocks a ! x" using out [of "run_tile q" x] q by simp
  next
    show "fst q + snd q \<le> length (ba_blocks a)" using run_in_range(1) [OF ok, of q] q by simp
  qed (simp add: len)
  ultimately show ?thesis by blast
qed

lemma arena_release_ok:
  assumes ok: "arena_ok a (add_mset (s, len) R)"
  shows "\<exists>a'. arena_release a s len = Some a' \<and> arena_ok a' R \<and> (\<forall>q \<in># R. contents a' q = contents a q)"
proof -
  have l: "0 < len" "len \<le> 1024" and lf: "length (ba_free a) = 8" and lb: "length (ba_blocks a) \<le> BUF_NONE"
    using ok by (auto simp: arena_ok_def)
  obtain c where c: "arena_class_for len = Some c" "c < 8" by (rule arena_class [OF l(2)])
  have s: "s + len \<le> length (ba_blocks a)" using run_in_range(1) [OF ok, of "(s, len)"] by simp
  let ?h = "ba_free a ! c" and ?bs = "(ba_blocks a)[s := (ba_blocks a ! s)\<lparr>eb_a := word_of_nat (ba_free a ! c)\<rparr>]"
  have same: "?bs ! x = ba_blocks a ! x" if "x < fst (s, len) \<or> fst (s, len) + snd (s, len) \<le> x" for x
    using that l by (auto simp: nth_list_update_neq)
  note wr = arena_write_ok [OF ok length_list_update same]
  have w: "arena_ok (a\<lparr>ba_blocks := ?bs\<rparr>) (add_mset (s, len) R)"
    "\<forall>q \<in># R. contents (a\<lparr>ba_blocks := ?bs\<rparr>) q = contents a q"
    using wr by blast+
  then obtain F where F: "\<And>k. k < 8 \<Longrightarrow> linked ?bs (ba_free a ! k) (F k)"
    and tiles: "tiles_ok (length (ba_blocks a)) (add_mset (c, s) (image_mset run_tile R + free_tiles F))"
    using c by (auto simp: arena_ok_def run_tile_def)
  have "?h \<le> BUF_NONE" using linked_head [OF F [OF c(2)]] lb by simp
  then have "next_link ?bs s = Some ?h"
    using s l by (simp add: next_link_def idx_def unat_of_nat BUF_NONE_def)
  then have "linked ?bs ((ba_free a)[c := s] ! k) ((F(c := s # F c)) k)" if "k < 8" for k
    using F [OF that] F [OF c(2)] that c(2) lf s l lb by (cases "k = c") (auto simp: BUF_NONE_def)
  moreover have "tiles_ok (length (ba_blocks a)) (image_mset run_tile R + free_tiles (F(c := s # F c)))"
    using tiles free_tiles_cons [OF c(2), of F s] by simp
  ultimately have "arena_ok (a\<lparr>ba_blocks := ?bs, ba_free := (ba_free a)[c := s]\<rparr>) R"
    using ok lf lb by (intro arena_okI [where F = "F(c := s # F c)"]) (auto simp: arena_ok_def simp del: fun_upd_apply)
  moreover have "contents (a\<lparr>ba_blocks := ?bs, ba_free := (ba_free a)[c := s]\<rparr>) q = contents (a\<lparr>ba_blocks := ?bs\<rparr>) q" for q
    by (simp add: contents_def)
  moreover have "arena_release a s len = Some (a\<lparr>ba_blocks := ?bs, ba_free := (ba_free a)[c := s]\<rparr>)"
    using c lf s l by (simp add: arena_release_def idx_def)
  ultimately show ?thesis using w(2) by auto
qed

text \<open>Storing buffers: a run is taken and written (\<^verbatim>\<open>alloc_buf_run\<close> on the arena alone).\<close>

definition arena_put :: "buf_arena \<Rightarrow> erased list \<Rightarrow> (buf_arena \<times> nat) option" where
  "arena_put a bufs = do {
     (a, start) \<leftarrow> arena_alloc a (length bufs);
     ensure (start + length bufs \<le> length (ba_blocks a));
     Some (a\<lparr>ba_blocks := take start (ba_blocks a) @ bufs @ drop (start + length bufs) (ba_blocks a)\<rparr>, start)
   }"


lemma arena_put_ok:
  assumes ok: "arena_ok a R" and ret: "arena_put a bufs = Some (a', s)"
  shows "arena_ok a' (add_mset (s, length bufs) R) \<and> s \<noteq> BUF_NONE \<and> contents a' (s, length bufs) = bufs \<and>
    (\<forall>q \<in># R. contents a' q = contents a q)"
proof -
  obtain a1 where al: "arena_alloc a (length bufs) = Some (a1, s)" and le: "s + length bufs \<le> length (ba_blocks a1)"
    and a': "a' = a1\<lparr>ba_blocks := take s (ba_blocks a1) @ bufs @ drop (s + length bufs) (ba_blocks a1)\<rparr>"
    using ret by (auto simp: arena_put_def bind_eq_Some_conv)
  note o = arena_alloc_ok [OF ok al]
  let ?bs = "take s (ba_blocks a1) @ bufs @ drop (s + length bufs) (ba_blocks a1)"
  have "length ?bs = length (ba_blocks a1)" using le by simp
  moreover have "?bs ! x = ba_blocks a1 ! x" if "x < fst (s, length bufs) \<or> fst (s, length bufs) + snd (s, length bufs) \<le> x" for x
    using that le by (auto simp: nth_append)
  ultimately have "arena_ok a' (add_mset (s, length bufs) R)" "\<forall>q \<in># R. contents a' q = contents a1 q"
    using arena_write_ok [OF conjunct1 [OF o], of ?bs] unfolding a' by blast+
  moreover have "contents a' (s, length bufs) = bufs" using le by (simp add: a' contents_def)
  ultimately show ?thesis using o by simp
qed

lemma arena_put_ret:
  assumes ok: "arena_ok a R" and bufs: "bufs \<noteq> []" "length bufs \<le> 1024" and room: "length (ba_blocks a) + 1024 < BUF_NONE"
  shows "\<exists>a' s. arena_put a bufs = Some (a', s)"
proof -
  obtain c where c: "arena_class_for (length bufs) = Some c" "c < 8" by (rule arena_class [OF bufs(2)])
  have lf: "length (ba_free a) = 8" using ok by (simp add: arena_ok_def)
  have "\<exists>a1 s. arena_alloc a (length bufs) = Some (a1, s)"
  proof (cases "ba_free a ! c = BUF_NONE")
    case True
    then show ?thesis using bufs c lf room class_size_pos [OF c(2)]
      by (simp add: arena_alloc_def idx_def panic_simps Let_def)
  next
    case False
    obtain F where "linked (ba_blocks a) (ba_free a ! c) F" using ok c(2) by (auto simp: arena_ok_def)
    then obtain n where "next_link (ba_blocks a) (ba_free a ! c) = Some n" using False by (cases F) auto
    then show ?thesis using False bufs c lf by (simp add: arena_alloc_def idx_def panic_simps Let_def)
  qed
  then obtain a1 s where al: "arena_alloc a (length bufs) = Some (a1, s)" by blast
  have "s + length bufs \<le> length (ba_blocks a1)"
    using run_in_range(1) [OF conjunct1 [OF arena_alloc_ok [OF ok al]], of "(s, length bufs)"] by simp
  then show ?thesis using al by (simp add: arena_put_def panic_simps)
qed

section \<open>The arena against a table of runs\<close>

text \<open>
  The specification: a collection of buffer lists with the index each was stored under. Storing adds
  one, releasing removes one; nothing is said of blocks, classes or links.
\<close>

inductive arena_step :: "buf_arena \<times> (nat \<times> erased list) multiset \<Rightarrow> buf_arena \<times> (nat \<times> erased list) multiset \<Rightarrow> bool" where
  Put: "arena_put a bufs = Some (a', s) \<Longrightarrow> arena_step (a, T) (a', add_mset (s, bufs) T)"
| Release: "arena_release a s (length bufs) = Some a' \<Longrightarrow> arena_step (a, add_mset (s, bufs) T) (a', T)"

definition run_of :: "nat \<times> erased list \<Rightarrow> nat \<times> nat" where
  "run_of e = (fst e, length (snd e))"

definition stores :: "buf_arena \<Rightarrow> (nat \<times> erased list) multiset \<Rightarrow> bool" where
  "stores a T \<longleftrightarrow> arena_ok a (image_mset run_of T) \<and> (\<forall>e \<in># T. contents a (run_of e) = snd e)"

lemma arena_step_stores: "arena_step x y \<Longrightarrow> stores (fst x) (snd x) \<Longrightarrow> stores (fst y) (snd y)"
proof (induction rule: arena_step.induct)
  case (Put a bufs a' s T)
  then have ok: "arena_ok a (image_mset run_of T)" and c: "\<forall>e \<in># T. contents a (run_of e) = snd e"
    by (auto simp: stores_def)
  from arena_put_ok [OF ok Put.hyps] c show ?case by (auto simp: stores_def run_of_def)
next
  case (Release a s bufs a' T)
  then have ok: "arena_ok a (add_mset (s, length bufs) (image_mset run_of T))" and c: "\<forall>e \<in># T. contents a (run_of e) = snd e"
    by (auto simp: stores_def run_of_def)
  from arena_release_ok [OF ok] c Release.hyps show ?case by (auto simp: stores_def)
qed

lemma arena_steps_stores:
  assumes "arena_step\<^sup>*\<^sup>* x y" "stores (fst x) (snd x)" shows "stores (fst y) (snd y)"
  using assms by (induction rule: rtranclp_induct) (auto dest: arena_step_stores)

lemma stores_new: "stores arena_new {#}"
  using arena_ok_new by (simp add: stores_def)

lemma stored_apart:
  assumes "stores a (add_mset e T)" "q \<in># T"
  shows "fst e + length (snd e) \<le> fst q \<or> fst q + length (snd q) \<le> fst e"
proof (rule ccontr)
  assume no: "\<not> ?thesis"
  have ok: "arena_ok a (add_mset (run_of e) (image_mset run_of T))" using assms(1) by (simp add: stores_def)
  then obtain F where tiles: "tiles_ok (length (ba_blocks a)) (add_mset (run_tile (run_of e)) (image_mset run_tile (image_mset run_of T) + free_tiles F))"
    by (auto simp: arena_ok_def)
  have len: "0 < length (snd e)" "0 < length (snd q)" using ok assms(2) by (auto simp: arena_ok_def run_of_def)
  let ?x = "max (fst e) (fst q)"
  have "?x \<in># tile_cells (run_tile (run_of q))"
    using assms(2) no len by (intro run_cells [OF ok]) (auto simp: run_of_def)
  then have "?x \<notin># tile_cells (run_tile (run_of e))"
    using assms(2) by (intro tiles_ok_disjoint [OF tiles, of "run_tile (run_of q)"]) auto
  moreover have "?x \<in># tile_cells (run_tile (run_of e))"
    using no len by (intro run_cells [OF ok]) (auto simp: run_of_def)
  ultimately show False by contradiction
qed

text \<open>
  C19. The arena implements its specification. After any sequence of stores and releases every run
  that was not released still holds exactly the buffers it was stored with, in blocks no other run
  shares, and can be released; and as long as the arena is below its limit of blocks a store of up to
  1024 buffers succeeds.
\<close>

theorem arena_keeps_runs:
  assumes "arena_step\<^sup>*\<^sup>* (arena_new, {#}) (a, add_mset (s, bufs) T)"
  shows "slice_of (ba_blocks a) s (s + length bufs) = Some bufs \<and> arena_release a s (length bufs) \<noteq> None \<and>
    (\<forall>q \<in># T. s + length bufs \<le> fst q \<or> fst q + length (snd q) \<le> s) \<and>
    (\<forall>more. more \<noteq> [] \<and> length more \<le> 1024 \<and> length (ba_blocks a) + 1024 < BUF_NONE \<longrightarrow> arena_put a more \<noteq> None)"
proof -
  have st: "stores a (add_mset (s, bufs) T)" using arena_steps_stores [OF assms] stores_new by simp
  then have ok: "arena_ok a (add_mset (s, length bufs) (image_mset run_of T))"
    and c: "contents a (s, length bufs) = bufs" by (auto simp: stores_def run_of_def)
  have "slice_of (ba_blocks a) s (s + length bufs) = Some bufs"
    using run_in_range(1) [OF ok, of "(s, length bufs)"] c by (simp add: contents_def)
  moreover have "arena_release a s (length bufs) \<noteq> None" using arena_release_ok [OF ok] by auto
  moreover have "\<forall>q \<in># T. s + length bufs \<le> fst q \<or> fst q + length (snd q) \<le> s" using stored_apart [OF st] by simp
  moreover have "arena_put a more \<noteq> None" if "more \<noteq> []" "length more \<le> 1024" "length (ba_blocks a) + 1024 < BUF_NONE" for more
    using arena_put_ret [OF ok that] by auto
  ultimately show ?thesis by blast
qed

lemmas arena_eval = arena_put_def arena_alloc_def arena_release_def arena_class_for_def arena_new_def next_link_def
  BUF_CLASSES_def BUF_NONE_def idx_def panic_simps

definition demo_buf :: "u64 \<Rightarrow> erased" where
  "demo_buf n = \<lparr>eb_a = n, eb_b = 16\<rparr>"

lemma replicate_2: "replicate 2 x = [x, x]"
  by (simp add: numeral_2_eq_2)

abbreviation heads :: "nat \<Rightarrow> nat list" where
  "heads h \<equiv> [h, BUF_NONE, BUF_NONE, BUF_NONE, BUF_NONE, BUF_NONE, BUF_NONE, BUF_NONE]"

text \<open>Two stores, the release of the first run, and a store that takes its place.\<close>

lemma demo_arena_run:
  "\<exists>a. arena_step\<^sup>*\<^sup>* (arena_new, {#}) (a, add_mset (1, [demo_buf 2, demo_buf 3]) {#(0, [demo_buf 4])#}) \<and> length (ba_blocks a) = 3"
proof -
  obtain a1 where a1: "arena_put arena_new [demo_buf 1] = Some (a1, 0)" "a1 = \<lparr>ba_blocks = [demo_buf 1], ba_free = heads BUF_NONE\<rparr>"
    by (simp add: arena_eval demo_buf_def Let_def replicate_2)
  obtain a2 where a2: "arena_put a1 [demo_buf 2, demo_buf 3] = Some (a2, 1)"
    "a2 = \<lparr>ba_blocks = [demo_buf 1, demo_buf 2, demo_buf 3], ba_free = heads BUF_NONE\<rparr>"
    by (simp add: a1 arena_eval demo_buf_def Let_def replicate_2)
  obtain a3 where a3: "arena_release a2 0 (length [demo_buf 1]) = Some a3"
    "a3 = \<lparr>ba_blocks = [\<lparr>eb_a = 4294967295, eb_b = 16\<rparr>, demo_buf 2, demo_buf 3], ba_free = heads 0\<rparr>"
    by (simp add: a2 arena_eval demo_buf_def Let_def replicate_2)
  obtain a4 where a4: "arena_put a3 [demo_buf 4] = Some (a4, 0)" "length (ba_blocks a4) = 3"
    by (simp add: a3 arena_eval demo_buf_def Let_def replicate_2)
  have "arena_step (arena_new, {#}) (a1, {#(0, [demo_buf 1])#})" using a1(1) by (rule arena_step.Put)
  moreover have "arena_step (a1, {#(0, [demo_buf 1])#}) (a2, add_mset (0, [demo_buf 1]) {#(1, [demo_buf 2, demo_buf 3])#})"
    using arena_step.Put [OF a2(1), of "{#(0, [demo_buf 1])#}"] by (simp add: add_mset_commute)
  moreover have "arena_step (a2, add_mset (0, [demo_buf 1]) {#(1, [demo_buf 2, demo_buf 3])#}) (a3, {#(1, [demo_buf 2, demo_buf 3])#})"
    using a3(1) by (rule arena_step.Release)
  moreover have "arena_step (a3, {#(1, [demo_buf 2, demo_buf 3])#}) (a4, add_mset (1, [demo_buf 2, demo_buf 3]) {#(0, [demo_buf 4])#})"
    using arena_step.Put [OF a4(1), of "{#(1, [demo_buf 2, demo_buf 3])#}"] by (simp add: add_mset_commute)
  ultimately show ?thesis using a4(2) by (meson rtranclp.intros)
qed

theorem arena_keeps_runs_witness:
  "\<exists>a. slice_of (ba_blocks a) 1 3 = Some [demo_buf 2, demo_buf 3] \<and> length (ba_blocks a) = 3 \<and>
     arena_put a [demo_buf 5] \<noteq> None"
proof -
  obtain a where a: "arena_step\<^sup>*\<^sup>* (arena_new, {#}) (a, add_mset (1, [demo_buf 2, demo_buf 3]) {#(0, [demo_buf 4])#})"
    "length (ba_blocks a) = 3" using demo_arena_run by blast
  from arena_keeps_runs [OF a(1)] a(2) show ?thesis by (intro exI [of _ a]) (auto simp: BUF_NONE_def)
qed

section \<open>The buffers of a runtime\<close>

definition live_runs :: "(nat \<rightharpoonup> ('l, 'sh, 'd) io_slot) \<Rightarrow> (nat \<times> nat) multiset" where
  "live_runs M = image_mset (\<lambda>i. (os_buf (the (M i)), os_buf_len (the (M i))))
     (mset_set {i. \<exists>s. M i = Some s \<and> os_buf s \<noteq> BUF_NONE})"

definition bufs_ok :: "('g, 'l, 'sh, 'd, 'cd, 'b) runtime \<Rightarrow> bool" where
  "bufs_ok rt \<longleftrightarrow> arena_ok (rt_buf_arena rt) (live_runs (ops rt))"

text \<open>The buffers the runtime holds for an operation.\<close>

definition slot_bufs :: "buf_arena \<Rightarrow> ('l, 'sh, 'd) io_slot \<Rightarrow> erased list" where
  "slot_bufs a s = (if os_buf s = BUF_NONE then [] else contents a (os_buf s, os_buf_len s))"

definition held :: "('g, 'l, 'sh, 'd, 'cd, 'b) runtime \<Rightarrow> nat \<rightharpoonup> erased list" where
  "held rt i = map_option (slot_bufs (rt_buf_arena rt)) (ops rt i)"









lemma bufs_irrelevant [simp]:
  "bufs_ok (rt\<lparr>rt_backend := b\<rparr>) = bufs_ok rt" "held (rt\<lparr>rt_backend := b\<rparr>) = held rt"
  "bufs_ok (rt\<lparr>rt_global := g\<rparr>) = bufs_ok rt" "held (rt\<lparr>rt_global := g\<rparr>) = held rt"
  by (auto simp: bufs_ok_def held_def)

















end
