(* ===== verification/Ring_Lifecycle.thy ===== *)
theory Ring_Lifecycle
  imports Conrt_Prelude
begin

text \<open>
  The life of the resources of an io_uring runtime, from \<^verbatim>\<open>block_on\<close> to its last destructor
  (\<^verbatim>\<open>libs/coio-uring/src/uring.rs\<close>, \<^verbatim>\<open>pools.rs\<close>, \<^verbatim>\<open>buf/pool.rs\<close>, \<^verbatim>\<open>buf/provided.rs\<close>): the ring, the slab of
  buffers, the descriptor rings shared with the kernel, the registrations, the published pools and the
  active generation. A function is the list of what it does to these resources, in order; destructors
  stand where Rust runs them, also when a panic unwinds. The kernel's answers to a registration or an
  unregistration are arguments.
\<close>

section \<open>The code\<close>

datatype life_event =
    GenEnter | GenExit | RingOpen | RingClose | SlabAlloc | SlabFree
  | BufRingAlloc nat | BufRingFree nat | BufRingRegister nat | BufRingUnregister nat
  | BuffersRegister | BuffersUnregister | PoolsSet | PoolsClear | LocalsDropped | GlobalDropped

text \<open>One slab per provided class; a call the kernel refuses changes nothing.\<close>

definition provided_register :: "(nat \<Rightarrow> bool) \<Rightarrow> nat \<Rightarrow> life_event list \<times> bool" where
  "provided_register reg cls = (if reg cls then ([BufRingRegister cls], True) else ([], False))"

definition provided_unregister :: "(nat \<Rightarrow> bool) \<Rightarrow> nat \<Rightarrow> life_event list \<times> bool" where
  "provided_unregister unreg cls = (if unreg cls then ([BufRingUnregister cls], True) else ([], False))"

fun register_all :: "(nat \<Rightarrow> bool) \<Rightarrow> nat list \<Rightarrow> life_event list \<times> bool" where
  "register_all reg [] = ([], True)"
| "register_all reg (cls # slabs) =
     (case provided_register reg cls of
        (es, True) \<Rightarrow> (case register_all reg slabs of (fs, r) \<Rightarrow> (es @ fs, r))
      | (es, False) \<Rightarrow> (es, False))"

fun unregister_all :: "(nat \<Rightarrow> bool) \<Rightarrow> nat list \<Rightarrow> life_event list \<times> bool" where
  "unregister_all unreg [] = ([], True)"
| "unregister_all unreg (cls # slabs) =
     (case provided_unregister unreg cls of
        (es, True) \<Rightarrow> (case unregister_all unreg slabs of (fs, r) \<Rightarrow> (es @ fs, r))
      | (es, False) \<Rightarrow> (es, False))"

definition provided_slab_drop :: "nat \<Rightarrow> life_event list" where
  "provided_slab_drop cls = [BufRingFree cls]"

definition provided_pool_drop :: "nat list \<Rightarrow> life_event list" where
  "provided_pool_drop slabs = concat (map provided_slab_drop slabs)"

text \<open>The slab is freed by \<^verbatim>\<open>Drop for Pools\<close>, before the fields are dropped.\<close>

definition pools_drop :: "nat list \<Rightarrow> life_event list" where
  "pools_drop slabs = SlabFree # provided_pool_drop slabs"

text \<open>
  A refused registration panics: the pool that was built is dropped as the panic unwinds, the slab is a
  bare pointer until \<^verbatim>\<open>Pools\<close> owns it.
\<close>

definition build_pools_life :: "(nat \<Rightarrow> bool) \<Rightarrow> bool \<Rightarrow> nat list \<Rightarrow> life_event list \<times> bool" where
  "build_pools_life reg bufreg slabs =
     (case register_all reg slabs of
        (es, r) \<Rightarrow>
          (let built = SlabAlloc # map BufRingAlloc slabs @ es in
           if \<not> r \<or> \<not> bufreg then (built @ provided_pool_drop slabs, False)
           else (built @ [BuffersRegister], True)))"

definition attach_life :: "(nat \<Rightarrow> bool) \<Rightarrow> bool \<Rightarrow> nat list \<Rightarrow> life_event list \<times> bool" where
  "attach_life reg bufreg slabs =
     (case build_pools_life reg bufreg slabs of
        (es, True) \<Rightarrow> (RingOpen # es, True)
      | (es, False) \<Rightarrow> (RingOpen # es @ [RingClose], False))"

definition begin_teardown_life :: "(nat \<Rightarrow> bool) \<Rightarrow> bool \<Rightarrow> nat list \<Rightarrow> life_event list" where
  "begin_teardown_life unreg bufunreg slabs =
     fst (unregister_all unreg slabs) @ (if bufunreg then [BuffersUnregister] else []) @ [RingClose]"

text \<open>
  \<^verbatim>\<open>Drop for Runtime\<close>, then the fields in the order of their declaration: the backend, which owns the
  pools, is the first, the global state the last; \<^verbatim>\<open>into_global\<close> has taken it out unless a panic unwinds.
\<close>

definition runtime_drop_life :: "(nat \<Rightarrow> bool) \<Rightarrow> bool \<Rightarrow> bool \<Rightarrow> nat list \<Rightarrow> life_event list" where
  "runtime_drop_life unreg bufunreg panics slabs =
     begin_teardown_life unreg bufunreg slabs @ [LocalsDropped] @ pools_drop slabs @
     (if panics then [GlobalDropped] else [])"

text \<open>
  \<^verbatim>\<open>DropGuard\<close> runs its closure once; the guards of \<^verbatim>\<open>block_on\<close> are dropped last, in the reverse order of
  their declaration. \<^verbatim>\<open>boot\<close> and the event loop touch none of these resources; \<open>panics\<close> says whether a
  panic unwinds from them.
\<close>

definition guards_drop :: "life_event list" where
  "guards_drop = [PoolsClear, GenExit]"

definition block_on_life ::
  "(nat \<Rightarrow> bool) \<Rightarrow> bool \<Rightarrow> (nat \<Rightarrow> bool) \<Rightarrow> bool \<Rightarrow> bool \<Rightarrow> nat list \<Rightarrow> life_event list"
where
  "block_on_life reg bufreg unreg bufunreg panics slabs =
     GenEnter #
     (case attach_life reg bufreg slabs of
        (es, True) \<Rightarrow> es @ [PoolsSet] @ runtime_drop_life unreg bufunreg panics slabs
      | (es, False) \<Rightarrow> es) @
     guards_drop"

section \<open>The rules\<close>

text \<open>
  What is held, and what each event needs: memory is freed once, never while the kernel may still use
  it; a registration needs an open ring and live memory; the locals of operations that never completed
  may return buffers, so they are dropped when the ring is closed and the slab, the published pools and
  the generation are still there. The global state may own buffers too: while the generation is active
  their destructors go to the published pools, afterwards they do nothing. Closing the ring ends every registration.
\<close>

record life =
  lf_running :: bool
  lf_open :: bool
  lf_slab :: bool
  lf_rings :: "nat set"
  lf_registered :: "nat set"
  lf_buffers :: bool
  lf_published :: bool

definition nothing_held :: life where
  "nothing_held = \<lparr>lf_running = False, lf_open = False, lf_slab = False, lf_rings = {}, lf_registered = {},
     lf_buffers = False, lf_published = False\<rparr>"

fun life_step :: "life \<Rightarrow> life_event \<Rightarrow> life option" where
  "life_step s GenEnter = (if lf_running s then None else Some (s\<lparr>lf_running := True\<rparr>))"
| "life_step s GenExit = (if lf_running s \<and> \<not> lf_published s then Some (s\<lparr>lf_running := False\<rparr>) else None)"
| "life_step s RingOpen = (if lf_open s then None else Some (s\<lparr>lf_open := True\<rparr>))"
| "life_step s RingClose =
     (if lf_open s then Some (s\<lparr>lf_open := False, lf_registered := {}, lf_buffers := False\<rparr>) else None)"
| "life_step s SlabAlloc = (if lf_slab s then None else Some (s\<lparr>lf_slab := True\<rparr>))"
| "life_step s SlabFree = (if lf_slab s \<and> \<not> lf_open s then Some (s\<lparr>lf_slab := False\<rparr>) else None)"
| "life_step s (BufRingAlloc c) =
     (if lf_slab s \<and> c \<notin> lf_rings s then Some (s\<lparr>lf_rings := insert c (lf_rings s)\<rparr>) else None)"
| "life_step s (BufRingFree c) =
     (if c \<in> lf_rings s \<and> c \<notin> lf_registered s then Some (s\<lparr>lf_rings := lf_rings s - {c}\<rparr>) else None)"
| "life_step s (BufRingRegister c) =
     (if lf_open s \<and> c \<in> lf_rings s \<and> c \<notin> lf_registered s
      then Some (s\<lparr>lf_registered := insert c (lf_registered s)\<rparr>) else None)"
| "life_step s (BufRingUnregister c) =
     (if lf_open s \<and> c \<in> lf_registered s then Some (s\<lparr>lf_registered := lf_registered s - {c}\<rparr>) else None)"
| "life_step s BuffersRegister = (if lf_open s \<and> lf_slab s \<and> \<not> lf_buffers s then Some (s\<lparr>lf_buffers := True\<rparr>) else None)"
| "life_step s BuffersUnregister = (if lf_open s \<and> lf_buffers s then Some (s\<lparr>lf_buffers := False\<rparr>) else None)"
| "life_step s PoolsSet = (if lf_running s \<and> lf_slab s then Some (s\<lparr>lf_published := True\<rparr>) else None)"
| "life_step s PoolsClear = Some (s\<lparr>lf_published := False\<rparr>)"
| "life_step s LocalsDropped =
     (if \<not> lf_open s \<and> lf_slab s \<and> lf_published s \<and> lf_running s then Some s else None)"
| "life_step s GlobalDropped = (if lf_running s \<and> \<not> (lf_published s \<and> lf_slab s) then None else Some s)"

fun life_run :: "life \<Rightarrow> life_event list \<Rightarrow> life option" where
  "life_run s [] = Some s"
| "life_run s (e # es) = (case life_step s e of None \<Rightarrow> None | Some s' \<Rightarrow> life_run s' es)"

lemma life_run_append: "life_run s (es @ fs) = (case life_run s es of None \<Rightarrow> None | Some s' \<Rightarrow> life_run s' fs)"
  by (induction es arbitrary: s) (auto split: option.splits)

section \<open>The parts\<close>

lemma register_all_ok: "(\<forall>c \<in> set slabs. reg c) \<Longrightarrow> register_all reg slabs = (map BufRingRegister slabs, True)"
  by (induction slabs) (auto simp: provided_register_def)

lemma register_all_fail:
  "(\<forall>c \<in> set slabs. reg c) \<Longrightarrow> \<not> reg k \<Longrightarrow> register_all reg (slabs @ k # rest) = (map BufRingRegister slabs, False)"
  by (induction slabs) (auto simp: provided_register_def)

lemma life_alloc:
  "lf_slab s \<Longrightarrow> distinct slabs \<Longrightarrow> set slabs \<inter> lf_rings s = {} \<Longrightarrow>
     life_run s (map BufRingAlloc slabs) = Some (s\<lparr>lf_rings := set slabs \<union> lf_rings s\<rparr>)"
proof (induction slabs arbitrary: s)
  case (Cons c slabs)
  have "set (c # slabs) \<union> lf_rings s = set slabs \<union> insert c (lf_rings s)" by auto
  then show ?case using Cons.prems Cons.IH [of "s\<lparr>lf_rings := insert c (lf_rings s)\<rparr>"] by simp
qed simp

lemma life_register:
  "lf_open s \<Longrightarrow> distinct slabs \<Longrightarrow> set slabs \<subseteq> lf_rings s \<Longrightarrow> set slabs \<inter> lf_registered s = {} \<Longrightarrow>
     life_run s (map BufRingRegister slabs) = Some (s\<lparr>lf_registered := set slabs \<union> lf_registered s\<rparr>)"
proof (induction slabs arbitrary: s)
  case (Cons c slabs)
  have "set (c # slabs) \<union> lf_registered s = set slabs \<union> insert c (lf_registered s)" by auto
  then show ?case using Cons.prems Cons.IH [of "s\<lparr>lf_registered := insert c (lf_registered s)\<rparr>"] by simp
qed simp

lemma life_unregister:
  "lf_open s \<Longrightarrow> distinct slabs \<Longrightarrow> set slabs \<subseteq> lf_registered s \<Longrightarrow>
     \<exists>R. life_run s (fst (unregister_all unreg slabs)) = Some (s\<lparr>lf_registered := R\<rparr>)"
proof (induction slabs arbitrary: s)
  case Nil
  show ?case by (intro exI [of _ "lf_registered s"]) simp
next
  case (Cons c slabs)
  show ?case
  proof (cases "unreg c")
    case True
    obtain R where "life_run (s\<lparr>lf_registered := lf_registered s - {c}\<rparr>) (fst (unregister_all unreg slabs)) =
        Some (s\<lparr>lf_registered := R\<rparr>)"
      using Cons.prems Cons.IH [of "s\<lparr>lf_registered := lf_registered s - {c}\<rparr>"] by auto
    then show ?thesis using True Cons.prems by (auto simp: provided_unregister_def split_def)
  next
    case False
    then show ?thesis by (intro exI [of _ "lf_registered s"]) (simp add: provided_unregister_def)
  qed
qed

lemma life_free:
  "distinct slabs \<Longrightarrow> set slabs \<subseteq> lf_rings s \<Longrightarrow> lf_registered s = {} \<Longrightarrow>
     life_run s (provided_pool_drop slabs) = Some (s\<lparr>lf_rings := lf_rings s - set slabs\<rparr>)"
proof (induction slabs arbitrary: s)
  case (Cons c slabs)
  have "lf_rings s - set (c # slabs) = lf_rings s - {c} - set slabs" by auto
  then show ?case using Cons.prems Cons.IH [of "s\<lparr>lf_rings := lf_rings s - {c}\<rparr>"]
    by (auto simp: provided_pool_drop_def provided_slab_drop_def)
qed (simp add: provided_pool_drop_def)

section \<open>Properties\<close>

definition all_held :: "nat list \<Rightarrow> life" where
  "all_held slabs = \<lparr>lf_running = True, lf_open = True, lf_slab = True, lf_rings = set slabs, lf_registered = set slabs,
     lf_buffers = True, lf_published = True\<rparr>"

abbreviation set_up :: "nat list \<Rightarrow> life_event list" where
  "set_up slabs \<equiv> GenEnter # RingOpen # SlabAlloc # map BufRingAlloc slabs @ map BufRingRegister slabs @ [BuffersRegister, PoolsSet]"

lemma life_set_up: "distinct slabs \<Longrightarrow> life_run nothing_held (set_up slabs) = Some (all_held slabs)"
  by (simp add: nothing_held_def all_held_def life_run_append life_alloc life_register)

lemma block_on_life_ok:
  "(\<forall>c \<in> set slabs. reg c) \<Longrightarrow> bufreg \<Longrightarrow> block_on_life reg bufreg unreg bufunreg panics slabs =
     set_up slabs @ runtime_drop_life unreg bufunreg panics slabs @ guards_drop"
  by (simp add: block_on_life_def attach_life_def build_pools_life_def register_all_ok)

lemma life_drop:
  assumes "distinct slabs"
  shows "life_run (all_held slabs) (runtime_drop_life unreg bufunreg False slabs) =
    Some (nothing_held\<lparr>lf_running := True, lf_published := True\<rparr>)"
proof -
  obtain R where "life_run (all_held slabs) (fst (unregister_all unreg slabs)) = Some (all_held slabs\<lparr>lf_registered := R\<rparr>)"
    using life_unregister [of "all_held slabs" slabs unreg] assms by (auto simp: all_held_def)
  then show ?thesis using assms
    by (simp add: runtime_drop_life_def begin_teardown_life_def pools_drop_def life_run_append life_free
        nothing_held_def all_held_def)
qed



text \<open>
  A panic drops the global state too late. When \<^verbatim>\<open>boot\<close> or the event loop panics, the runtime's
  global state is dropped after the backend and its pools: the slab is freed by then, but the generation
  is still active and the pools are still published, so the destructor of a buffer the global state owns
  goes through a pointer to freed pools.
\<close>

theorem panic_drops_global_late:
  assumes "distinct slabs" "\<forall>c \<in> set slabs. reg c" "bufreg"
  shows "\<exists>es s. block_on_life reg bufreg unreg bufunreg True slabs = es @ GlobalDropped # guards_drop \<and>
    life_run nothing_held es = Some s \<and> lf_running s \<and> lf_published s \<and> \<not> lf_slab s \<and> life_step s GlobalDropped = None"
proof (intro exI conjI)
  show "block_on_life reg bufreg unreg bufunreg True slabs =
      (set_up slabs @ runtime_drop_life unreg bufunreg False slabs) @ GlobalDropped # guards_drop"
    by (simp add: block_on_life_ok [OF assms(2,3)] runtime_drop_life_def)
  show "life_run nothing_held (set_up slabs @ runtime_drop_life unreg bufunreg False slabs) =
      Some (nothing_held\<lparr>lf_running := True, lf_published := True\<rparr>)"
    unfolding life_run_append life_set_up [OF assms(1)] option.case by (rule life_drop [OF assms(1)])
qed (simp_all add: nothing_held_def)

theorem panic_drops_global_late_witness:
  "\<exists>es s. block_on_life (\<lambda>_. True) True (\<lambda>_. True) True True [0, 1] = es @ GlobalDropped # guards_drop \<and>
     life_run nothing_held es = Some s \<and> lf_running s \<and> lf_published s \<and> \<not> lf_slab s \<and> life_step s GlobalDropped = None"
  by (rule panic_drops_global_late) simp_all

text \<open>
  A refused registration breaks the order. When the kernel refuses to register a descriptor ring,
  the panic frees the memory of the rings that were registered before it, while the ring is still open
  and the kernel may still use them; and the slab is never freed.
\<close>

theorem refused_registration_unsafe:
  assumes "distinct (ok @ k # rest)" "\<forall>c \<in> set ok. reg c" "\<not> reg k"
  shows "life_run nothing_held (block_on_life reg bufreg unreg bufunreg panics (ok @ k # rest)) =
      (if ok = [] then Some (nothing_held\<lparr>lf_slab := True\<rparr>) else None) \<and>
    SlabFree \<notin> set (block_on_life reg bufreg unreg bufunreg panics (ok @ k # rest))"
proof -
  let ?slabs = "ok @ k # rest"
  let ?s = "\<lparr>lf_running = True, lf_open = True, lf_slab = True, lf_rings = set ?slabs, lf_registered = set ok,
      lf_buffers = False, lf_published = False\<rparr>"
  have tr: "block_on_life reg bufreg unreg bufunreg panics ?slabs =
      (GenEnter # RingOpen # SlabAlloc # map BufRingAlloc ?slabs @ map BufRingRegister ok) @
      provided_pool_drop ?slabs @ RingClose # guards_drop"
    using register_all_fail [OF assms(2,3), of rest]
    by (simp add: block_on_life_def attach_life_def build_pools_life_def)
  have "life_run nothing_held (GenEnter # RingOpen # SlabAlloc # map BufRingAlloc ?slabs) = Some (?s\<lparr>lf_registered := {}\<rparr>)"
    using life_alloc [of _ ?slabs] assms(1) by (simp add: nothing_held_def)
  moreover have "life_run (?s\<lparr>lf_registered := {}\<rparr>) (map BufRingRegister ok) = Some ?s"
    using life_register [of "?s\<lparr>lf_registered := {}\<rparr>" ok] assms(1) by auto
  ultimately have up: "life_run nothing_held (GenEnter # RingOpen # SlabAlloc # map BufRingAlloc ?slabs @ map BufRingRegister ok) = Some ?s"
    using life_run_append [of nothing_held "GenEnter # RingOpen # SlabAlloc # map BufRingAlloc ?slabs"] by simp
  have "life_run ?s (provided_pool_drop ?slabs @ RingClose # guards_drop) =
      (if ok = [] then Some (nothing_held\<lparr>lf_slab := True\<rparr>) else None)"
  proof (cases ok)
    case Nil
    then show ?thesis using assms(1) life_free [of ?slabs ?s]
      by (simp add: life_run_append guards_drop_def nothing_held_def)
  next
    case (Cons c cs)
    then show ?thesis by (simp add: provided_pool_drop_def provided_slab_drop_def)
  qed
  then have "life_run nothing_held (block_on_life reg bufreg unreg bufunreg panics ?slabs) =
      (if ok = [] then Some (nothing_held\<lparr>lf_slab := True\<rparr>) else None)"
    unfolding tr life_run_append up by simp
  moreover have "SlabFree \<notin> set (block_on_life reg bufreg unreg bufunreg panics ?slabs)"
    unfolding tr by (auto simp: provided_pool_drop_def provided_slab_drop_def guards_drop_def)
  ultimately show ?thesis by blast
qed

theorem refused_registration_unsafe_witness:
  "life_run nothing_held (block_on_life (\<lambda>c. c \<noteq> 1) True (\<lambda>_. True) True False [0, 1, 2]) = None \<and>
   life_run nothing_held (block_on_life (\<lambda>c. c \<noteq> 0) True (\<lambda>_. True) True False [0, 1, 2]) = Some (nothing_held\<lparr>lf_slab := True\<rparr>)"
  using refused_registration_unsafe [of "[0]" 1 "[2]" "\<lambda>c. c \<noteq> 1" True "\<lambda>_. True" True False]
    refused_registration_unsafe [of "[]" 0 "[1, 2]" "\<lambda>c. c \<noteq> 0" True "\<lambda>_. True" True False]
  by simp

end
