(* ===== verification/C_Strings.thy ===== *)
theory C_Strings
  imports Conrt_Prelude
begin

text \<open>
  Owned C strings (\<^verbatim>\<open>libs/cstring/src/lib.rs\<close>): one pointer to a null-terminated allocation. The heap
  maps the address of an allocation to its bytes; reading outside an allocation, and deallocating
  with another layout than it was allocated with, has no result.
\<close>

section \<open>The heap\<close>

record cheap =
  ch_next :: nat
  ch_blocks :: "(nat \<times> bytes) list"

definition block :: "cheap \<Rightarrow> nat \<Rightarrow> bytes option" where
  "block h p = map_of (ch_blocks h) p"

text \<open>Addresses are never null and never reused.\<close>

definition heap_alloc :: "cheap \<Rightarrow> bytes \<Rightarrow> cheap \<times> nat" where
  "heap_alloc h bs = (h\<lparr>ch_next := ch_next h + length bs, ch_blocks := (ch_next h, bs) # ch_blocks h\<rparr>, ch_next h)"

definition heap_dealloc :: "cheap \<Rightarrow> nat \<Rightarrow> nat \<Rightarrow> cheap option" where
  "heap_dealloc h p len = do {
     bs \<leftarrow> block h p;
     ensure (length bs = len);
     Some (h\<lparr>ch_blocks := filter (\<lambda>(q, _). q \<noteq> p) (ch_blocks h)\<rparr>)
   }"

definition heap_ok :: "cheap \<Rightarrow> bool" where
  "heap_ok h \<longleftrightarrow> 0 < ch_next h \<and> (\<forall>(p, bs) \<in> set (ch_blocks h). 0 < p \<and> 0 < length bs \<and> p + length bs \<le> ch_next h)"

section \<open>The strings\<close>

datatype cstring_error = ContainsNull nat

text \<open>\<^verbatim>\<open>core::ffi::CStr::from_ptr\<close> walks to the terminator.\<close>

function nul_scan :: "bytes \<Rightarrow> nat \<Rightarrow> nat option" where
  "nul_scan bs i = (if i < length bs then (if bs ! i = 0 then Some i else nul_scan bs (i + 1)) else None)"
  by pat_completeness auto
termination
  by (relation "measure (\<lambda>(bs, i). length bs - i)") auto

declare nul_scan.simps [simp del]

definition as_std_c_str :: "cheap \<Rightarrow> nat \<Rightarrow> bytes option" where
  "as_std_c_str h p = do {
     bs \<leftarrow> block h p;
     n \<leftarrow> nul_scan bs 0;
     Some (take n bs)
   }"

definition to_bytes :: "cheap \<Rightarrow> nat \<Rightarrow> bytes option" where
  "to_bytes h p = as_std_c_str h p"

definition from_bytes_unchecked :: "cheap \<Rightarrow> bytes \<Rightarrow> cheap \<times> nat" where
  "from_bytes_unchecked h s = heap_alloc h (s @ [0])"

definition try_from_bytes :: "cheap \<Rightarrow> bytes \<Rightarrow> cheap \<times> (cstring_error + nat)" where
  "try_from_bytes h s =
     (case position (\<lambda>b. b = 0) s of
        Some pos \<Rightarrow> (h, Inl (ContainsNull pos))
      | None \<Rightarrow> (case from_bytes_unchecked h s of (h, p) \<Rightarrow> (h, Inr p)))"

text \<open>\<^verbatim>\<open>From<T: AsRef<str>>\<close> and \<^verbatim>\<open>FromStr\<close>, on the bytes of the string.\<close>

definition from_str :: "cheap \<Rightarrow> bytes \<Rightarrow> cheap \<times> nat" where
  "from_str h s = from_bytes_unchecked h s"

definition cstring_drop :: "cheap \<Rightarrow> nat \<Rightarrow> cheap option" where
  "cstring_drop h p = do {
     s \<leftarrow> to_bytes h p;
     heap_dealloc h p (length s + 1)
   }"

definition cstring_clone :: "cheap \<Rightarrow> nat \<Rightarrow> (cheap \<times> nat) option" where
  "cstring_clone h p = map_option (from_str h) (to_bytes h p)"

text \<open>The comparison loop of \<^verbatim>\<open>CStr\<close>, byte by byte.\<close>

function eq_loop :: "bytes \<Rightarrow> bytes \<Rightarrow> nat \<Rightarrow> bool option" where
  "eq_loop a b i =
     (if i < length a \<and> i < length b then
        (if a ! i \<noteq> b ! i then Some False
         else if a ! i = 0 then Some True
         else eq_loop a b (i + 1))
      else None)"
  by pat_completeness auto
termination
  by (relation "measure (\<lambda>(a, b, i). length a - i)") auto

declare eq_loop.simps [simp del]

definition c_str_eq :: "cheap \<Rightarrow> nat \<Rightarrow> nat \<Rightarrow> bool option" where
  "c_str_eq h p q = do {
     a \<leftarrow> block h p;
     b \<leftarrow> block h q;
     eq_loop a b 0
   }"

text \<open>Raw pointers: the null pointer is zero, and an optional string has the same representation.\<close>

definition into_raw_option :: "nat option \<Rightarrow> nat" where
  "into_raw_option this = (case this of Some s \<Rightarrow> s | None \<Rightarrow> 0)"

definition into_raw_vec :: "nat list \<Rightarrow> nat list" where
  "into_raw_vec v = v"

definition into_vec_of_options :: "nat list \<Rightarrow> nat option list" where
  "into_vec_of_options v = map (\<lambda>p. if p = 0 then None else Some p) v"

section \<open>Lemmas\<close>

lemma nul_scan_correct:
  "nul_scan bs i = map_option (\<lambda>k. i + k) (position (\<lambda>b. b = 0) (drop i bs))"
proof (induction bs i rule: nul_scan.induct)
  case (1 bs i)
  show ?case
  proof (cases "i < length bs")
    case True
    then have "drop i bs = bs ! i # drop (i + 1) bs" by (simp add: Cons_nth_drop_Suc)
    then show ?thesis using 1 True by (subst nul_scan.simps) (auto simp: option.map_comp o_def)
  next
    case False
    then show ?thesis by (subst nul_scan.simps) simp
  qed
qed

lemma position_zero_append: "0 \<notin> set s \<Longrightarrow> position (\<lambda>b. b = 0) (s @ [0 :: byte]) = Some (length s)"
  by (induction s) auto

lemma position_zero_None: "position (\<lambda>b. b = 0) (s :: bytes) = None \<longleftrightarrow> 0 \<notin> set s"
  using position_None [of "\<lambda>b. b = 0" s] by auto

lemma heap_alloc_block:
  assumes "heap_ok h" "bs \<noteq> []" "heap_alloc h bs = (h', p)"
  shows "heap_ok h'" "block h p = None" "block h' p = Some bs" "0 < p" "q \<noteq> p \<Longrightarrow> block h' q = block h q"
proof -
  have h': "h' = h\<lparr>ch_next := ch_next h + length bs, ch_blocks := (ch_next h, bs) # ch_blocks h\<rparr>" "p = ch_next h"
    using assms(3) by (auto simp: heap_alloc_def)
  have "ch_next h \<notin> fst ` set (ch_blocks h)" using assms(1) by (fastforce simp: heap_ok_def)
  then show "block h p = None" by (simp add: block_def h' map_of_eq_None_iff)
  show "heap_ok h'" using assms(1,2) by (fastforce simp: heap_ok_def h')
  show "block h' p = Some bs" "q \<noteq> p \<Longrightarrow> block h' q = block h q" by (simp_all add: block_def h')
  show "0 < p" using assms(1) by (simp add: heap_ok_def h')
qed

lemma block_dealloc: "heap_dealloc h p n = Some h' \<Longrightarrow> block h' q = (if q = p then None else block h q)"
proof -
  assume "heap_dealloc h p n = Some h'"
  then have "h' = h\<lparr>ch_blocks := filter (\<lambda>(q, _). q \<noteq> p) (ch_blocks h)\<rparr>"
    by (auto simp: heap_dealloc_def bind_eq_Some_conv)
  moreover have "map_of (filter (\<lambda>(q, _). q \<noteq> p) xs) q = (if q = p then None else map_of xs q)" for xs :: "(nat \<times> bytes) list"
    by (induction xs) auto
  ultimately show ?thesis by (simp add: block_def)
qed

lemma to_bytes_terminated: "block h p = Some (s @ 0 # r) \<Longrightarrow> 0 \<notin> set s \<Longrightarrow> to_bytes h p = Some s"
proof -
  assume b: "block h p = Some (s @ 0 # r)" and s: "0 \<notin> set s"
  have "position (\<lambda>b. b = 0) (s @ 0 # r) = Some (length s)" using s by (induction s) auto
  then show ?thesis using b by (simp add: to_bytes_def as_std_c_str_def nul_scan_correct)
qed

lemma to_bytes_split: "to_bytes h p = Some s \<Longrightarrow> \<exists>r. block h p = Some (s @ 0 # r) \<and> 0 \<notin> set s"
proof -
  assume "to_bytes h p = Some s"
  then obtain bs n where b: "block h p = Some bs" "position (\<lambda>b. b = 0) bs = Some n" "s = take n bs"
    by (auto simp: to_bytes_def as_std_c_str_def nul_scan_correct bind_eq_Some_conv)
  from b(2) have n: "n < length bs" "bs ! n = 0" "\<forall>j < n. bs ! j \<noteq> 0" by (auto simp: position_Some)
  have "bs = s @ 0 # drop (n + 1) bs" using id_take_nth_drop [OF n(1)] n(2) b(3) by simp
  moreover have "0 \<notin> set s" using n b(3) by (auto simp: in_set_conv_nth)
  ultimately show ?thesis using b(1) by metis
qed

text \<open>A reference for the loop: the rest of two terminated strings are compared from the front.\<close>

lemma eq_loop_shift: "eq_loop (x # a) (y # b) (Suc i) = eq_loop a b i"
proof (induction a b i rule: eq_loop.induct)
  case (1 a b i)
  show ?case
    using 1 by (subst eq_loop.simps, subst (2) eq_loop.simps) auto
qed

lemma eq_loop_terminated:
  assumes "0 \<notin> set s" "0 \<notin> set t" shows "eq_loop (s @ 0 # r) (t @ 0 # r') 0 = Some (s = t)"
  using assms
proof (induction s arbitrary: t)
  case Nil
  then show ?case by (cases t) (subst eq_loop.simps; simp)+
next
  case (Cons x s)
  show ?case
  proof (cases t)
    case Nil
    then show ?thesis using Cons by (subst eq_loop.simps) simp
  next
    case (Cons y t')
    then show ?thesis using Cons.prems Cons.IH [of t'] eq_loop_shift [of x "s @ 0 # r" y "t' @ 0 # r'" 0]
      by (subst eq_loop.simps) auto
  qed
qed

section \<open>Properties\<close>

text \<open>
  Checked construction. \<^verbatim>\<open>try_from_bytes\<close> rejects bytes with a null, naming its first position, and
  changes nothing then. Otherwise it returns a fresh, non-null string that reads back as exactly the
  bytes, leaves every other string as it was, and whose drop deallocates exactly what was allocated:
  afterwards the heap holds the blocks it held before.
\<close>

theorem cstring_roundtrip:
  assumes "heap_ok h"
  shows "case try_from_bytes h s of
      (h', Inl (ContainsNull pos)) \<Rightarrow> h' = h \<and> pos < length s \<and> s ! pos = 0 \<and> 0 \<notin> set (take pos s)
    | (h', Inr p) \<Rightarrow> 0 \<notin> set s \<and> heap_ok h' \<and> p \<noteq> 0 \<and> block h p = None \<and> to_bytes h' p = Some s \<and>
        (\<forall>q. q = p \<or> block h' q = block h q) \<and>
        (\<exists>h''. cstring_drop h' p = Some h'' \<and> block h'' = block h)"
proof (cases "position (\<lambda>b. b = 0) s")
  case (Some pos)
  then have "pos < length s \<and> s ! pos = 0 \<and> (\<forall>j < pos. s ! j \<noteq> 0)" by (simp add: position_Some)
  moreover from this have "0 \<notin> set (take pos s)" by (auto simp: in_set_conv_nth)
  ultimately show ?thesis using Some by (simp add: try_from_bytes_def)
next
  case None
  then have z: "0 \<notin> set s" by (simp add: position_zero_None)
  obtain h' p where a: "heap_alloc h (s @ [0]) = (h', p)" by fastforce
  note b = heap_alloc_block [OF assms _ a]
  have t: "to_bytes h' p = Some s" using b(3) z by (intro to_bytes_terminated) auto
  have "heap_dealloc h' p (length s + 1) = Some (h'\<lparr>ch_blocks := filter (\<lambda>(q, _). q \<noteq> p) (ch_blocks h')\<rparr>)" (is "_ = Some ?h")
    using b(3) by (simp add: heap_dealloc_def ensure_def)
  then have d: "cstring_drop h' p = Some ?h" "block ?h q = (if q = p then None else block h' q)" for q
    using t block_dealloc by (auto simp: cstring_drop_def)
  have "block ?h = block h" using d(2) b(2,5) by (auto simp: fun_eq_iff)
  then show ?thesis using None z a b t d(1) by (auto simp: try_from_bytes_def from_bytes_unchecked_def)
qed

theorem cstring_roundtrip_witness:
  "\<exists>h' p. try_from_bytes \<lparr>ch_next = 16, ch_blocks = []\<rparr> [104, 105] = (h', Inr p) \<and> to_bytes h' p = Some [104, 105]"
proof -
  have ok: "heap_ok \<lparr>ch_next = 16, ch_blocks = []\<rparr>" by (simp add: heap_ok_def)
  show ?thesis using cstring_roundtrip [OF ok, of "[104, 105]"]
    by (simp add: try_from_bytes_def from_bytes_unchecked_def heap_alloc_def)
qed

text \<open>
  C40. Comparison. The byte-by-byte loop of \<^verbatim>\<open>CStr\<close>'s equality terminates inside both allocations
  and decides whether the two strings have the same bytes.
\<close>

theorem c_str_eq_equiv:
  assumes "to_bytes h p = Some s" "to_bytes h q = Some t" shows "c_str_eq h p q = Some (s = t)"
proof -
  obtain r r' where "block h p = Some (s @ 0 # r)" "0 \<notin> set s" "block h q = Some (t @ 0 # r')" "0 \<notin> set t"
    using to_bytes_split [OF assms(1)] to_bytes_split [OF assms(2)] by blast
  then show ?thesis by (simp add: c_str_eq_def eq_loop_terminated)
qed

theorem c_str_eq_equiv_witness:
  "c_str_eq \<lparr>ch_next = 9, ch_blocks = [(1, [97, 98, 0]), (4, [97, 0, 98, 0])]\<rparr> 1 4 = Some False"
proof -
  let ?h = "\<lparr>ch_next = 9, ch_blocks = [(1, [97, 98, 0]), (4, [97, 0, 98, 0])]\<rparr>"
  have "to_bytes ?h 1 = Some [97, 98]" "to_bytes ?h 4 = Some [97]"
    by (simp_all add: to_bytes_def as_std_c_str_def block_def nul_scan_correct)
  from c_str_eq_equiv [OF this] show ?thesis by simp
qed

text \<open>
  Strings with an interior null. A Rust string may contain the null character; the conversion from
  \<^verbatim>\<open>&str\<close> does not check for it. The string then reads back cut at the first null, and dropping it
  deallocates with a layout shorter than the allocation, which has no defined result.
\<close>

theorem str_with_nul_unsound:
  assumes "heap_ok h" "0 \<notin> set a"
  shows "case from_str h (a @ 0 # b) of (h', p) \<Rightarrow>
    to_bytes h' p = Some a \<and> block h' p = Some (a @ 0 # b @ [0]) \<and> cstring_drop h' p = None"
proof -
  obtain h' p where e: "heap_alloc h (a @ 0 # b @ [0]) = (h', p)" by fastforce
  note k = heap_alloc_block [OF assms(1) _ e]
  have t: "to_bytes h' p = Some a" using k(3) assms(2) by (intro to_bytes_terminated) auto
  then show ?thesis using e k(3) by (simp add: from_str_def from_bytes_unchecked_def cstring_drop_def heap_dealloc_def ensure_def)
qed

theorem str_with_nul_unsound_witness:
  "\<exists>h' p. from_str \<lparr>ch_next = 16, ch_blocks = []\<rparr> [97, 0, 98] = (h', p) \<and> to_bytes h' p = Some [97] \<and> cstring_drop h' p = None"
proof -
  have ok: "heap_ok \<lparr>ch_next = 16, ch_blocks = []\<rparr>" by (simp add: heap_ok_def)
  show ?thesis using str_with_nul_unsound [OF ok, of "[97]" "[98]"]
    by (cases "from_str \<lparr>ch_next = 16, ch_blocks = []\<rparr> [97, 0, 98]") simp
qed

end
