(* ===== verification/Log_Cache.thy ===== *)
theory Log_Cache
  imports Conrt_Prelude
begin

text \<open>
  The log cache of the daemon (\<^verbatim>\<open>LogCache\<close> in \<^verbatim>\<open>libs/core/src/daemon.rs\<close>): one byte vector
  used as a ring that holds \<^verbatim>\<open>\n\<close>-terminated lines; pushing a line evicts whole lines from the
  oldest end until the new one fits. The two nested \<^verbatim>\<open>loop\<close>s of \<^verbatim>\<open>push\<close> need not end, so they
  are \<^theory_text>\<open>partial_function (option)\<close>: \<^term>\<open>None\<close> is a panic or a loop that never ends.

  The abstract view is the list of lines held; the invariant \<open>cache_inv\<close>
  says that the ring spells exactly those lines. The operations are shown to implement the
  list operations \<open>push_lines\<close>, concatenation and identity. \<open>line_store\<close> is the
  interface the log gateway and the daemon rely on.
\<close>

section \<open>The ring\<close>

record log_cache =
  lc_buf :: bytes
  lc_start :: nat
  lc_end :: nat
  lc_bytes :: nat

definition log_cache_new :: "nat \<Rightarrow> log_cache" where
  "log_cache_new cap = \<lparr>lc_buf = replicate cap 0, lc_start = 0, lc_end = 0, lc_bytes = 0\<rparr>"

definition log_cache_is_empty :: "log_cache \<Rightarrow> bool" where
  "log_cache_is_empty c \<longleftrightarrow> lc_bytes c = 0"

text \<open>The inner loop of \<^verbatim>\<open>push\<close>: walk the ring from \<open>i\<close> to the next newline.\<close>

partial_function (option) find_nl :: "bytes \<Rightarrow> nat \<Rightarrow> nat option" where
  "find_nl buf i =
     (if length buf \<le> i then None
      else if buf ! i = NL then Some i
      else find_nl buf ((i + 1) mod length buf))"

text \<open>The number of bytes from \<open>start\<close> to the newline at \<open>i\<close>, the newline included.\<close>

definition line_span :: "nat \<Rightarrow> nat \<Rightarrow> nat \<Rightarrow> nat" where
  "line_span len start i = (if start \<le> i then i - start + 1 else (len - start) + i + 1)"

text \<open>The outer loop of \<^verbatim>\<open>push\<close>: evict the oldest line until \<open>need\<close> bytes are free.\<close>

partial_function (option) evict :: "nat \<Rightarrow> log_cache \<Rightarrow> log_cache option" where
  "evict need c =
     (case checked_sub (length (lc_buf c)) (lc_bytes c) of
        None \<Rightarrow> None
      | Some avail \<Rightarrow>
          (if need \<le> avail then Some c
           else (case find_nl (lc_buf c) (lc_start c) of
                   None \<Rightarrow> None
                 | Some i \<Rightarrow>
                     (case checked_sub (lc_bytes c) (line_span (length (lc_buf c)) (lc_start c) i) of
                        None \<Rightarrow> None
                      | Some left \<Rightarrow>
                          evict need
                            (c\<lparr>lc_start :=
                                 (lc_start c + line_span (length (lc_buf c)) (lc_start c) i)
                                   mod length (lc_buf c),
                               lc_bytes := left\<rparr>)))))"

text \<open>The write loop of \<^verbatim>\<open>push\<close>.\<close>

fun put_bytes :: "log_cache \<Rightarrow> bytes \<Rightarrow> log_cache option" where
  "put_bytes c [] = Some c"
| "put_bytes c (b # bs) =
     (if lc_end c < length (lc_buf c)
      then put_bytes (c\<lparr>lc_buf := (lc_buf c)[lc_end c := b],
                        lc_end := (lc_end c + 1) mod length (lc_buf c)\<rparr>) bs
      else None)"

definition log_cache_push :: "log_cache \<Rightarrow> bytes \<Rightarrow> log_cache option" where
  "log_cache_push c line = do {
     let need = length line + 1;
     c \<leftarrow> evict need c;
     c \<leftarrow> put_bytes c (line @ [NL]);
     Some (c\<lparr>lc_bytes := lc_bytes c + need\<rparr>)
   }"

definition log_cache_snapshot :: "log_cache \<Rightarrow> bytes option" where
  "log_cache_snapshot c =
     (if lc_bytes c = 0 then Some []
      else if lc_start c < lc_end c then slice_of (lc_buf c) (lc_start c) (lc_end c)
      else do {
        old \<leftarrow> slice_of (lc_buf c) (lc_start c) (length (lc_buf c));
        new \<leftarrow> slice_of (lc_buf c) 0 (lc_end c);
        Some (old @ new)
      })"

text \<open>
  The loop of \<^verbatim>\<open>collect_lines\<close>, over \<open>pos\<close>, \<open>i\<close>, \<open>remaining\<close> and the lines
  found so far. A line is reported as its raw bytes; the \<^verbatim>\<open>String::from_utf8_lossy\<close> of the
  source is applied to each by the caller-supplied \<open>lossy\<close>.
\<close>

definition ring_line :: "bytes \<Rightarrow> nat \<Rightarrow> nat \<Rightarrow> bytes option" where
  "ring_line buf pos i =
     (if pos \<le> i then slice_of buf pos i
      else do {
        old \<leftarrow> slice_of buf pos (length buf);
        new \<leftarrow> slice_of buf 0 i;
        Some (old @ new)
      })"

partial_function (option) collect_loop ::
  "(bytes \<Rightarrow> 's) \<Rightarrow> bytes \<Rightarrow> nat \<Rightarrow> nat \<Rightarrow> nat \<Rightarrow> 's list \<Rightarrow> 's list option"
where
  "collect_loop lossy buf pos i remaining acc =
     (if remaining = 0 then Some acc
      else if length buf \<le> i then None
      else if buf ! i = NL then
        (case ring_line buf pos i of
           None \<Rightarrow> None
         | Some l \<Rightarrow>
             (case checked_sub remaining (line_span (length buf) pos i) of
                None \<Rightarrow> None
              | Some left \<Rightarrow>
                  collect_loop lossy buf ((i + 1) mod length buf) ((i + 1) mod length buf)
                    left (acc @ [lossy l])))
      else collect_loop lossy buf pos ((i + 1) mod length buf) remaining acc)"

definition log_cache_collect_lines :: "(bytes \<Rightarrow> 's) \<Rightarrow> log_cache \<Rightarrow> 's list option" where
  "log_cache_collect_lines lossy c =
     (if lc_bytes c = 0 then Some []
      else collect_loop lossy (lc_buf c) (lc_start c) (lc_start c) (lc_bytes c) [])"

declare find_nl.simps [code] evict.simps [code] collect_loop.simps [code]

section \<open>The abstract view: a bounded list of lines\<close>

definition render :: "bytes list \<Rightarrow> bytes" where
  "render ls = concat (map (\<lambda>l. l @ [NL]) ls)"

text \<open>Drop the oldest lines until the rest occupies at most \<open>room\<close> bytes.\<close>

fun fit :: "nat \<Rightarrow> bytes list \<Rightarrow> bytes list" where
  "fit room [] = []"
| "fit room (l # ls) = (if length (render (l # ls)) \<le> room then l # ls else fit room ls)"

definition push_lines :: "nat \<Rightarrow> bytes list \<Rightarrow> bytes \<Rightarrow> bytes list" where
  "push_lines cap ls line = fit (cap - (length line + 1)) ls @ [line]"

text \<open>The bytes the ring holds, oldest first.\<close>

definition contents :: "log_cache \<Rightarrow> bytes" where
  "contents c = map (\<lambda>k. lc_buf c ! ((lc_start c + k) mod length (lc_buf c))) [0..<lc_bytes c]"

definition ring_ok :: "log_cache \<Rightarrow> bool" where
  "ring_ok c \<longleftrightarrow>
     lc_start c < length (lc_buf c) \<and> lc_bytes c \<le> length (lc_buf c) \<and>
     lc_end c = (lc_start c + lc_bytes c) mod length (lc_buf c)"

definition cache_inv :: "log_cache \<Rightarrow> bytes list \<Rightarrow> bool" where
  "cache_inv c ls \<longleftrightarrow> ring_ok c \<and> contents c = render ls \<and> (\<forall>l \<in> set ls. NL \<notin> set l)"

lemma render_simps [simp]:
  "render [] = []" "render (l # ls) = l @ NL # render ls" "render (ls @ ms) = render ls @ render ms"
  by (simp_all add: render_def)

lemma length_contents [simp]: "length (contents c) = lc_bytes c"
  by (simp add: contents_def)

lemma contents_nth:
  "k < lc_bytes c \<Longrightarrow> contents c ! k = lc_buf c ! ((lc_start c + k) mod length (lc_buf c))"
  by (simp add: contents_def)

lemma length_fit: "length (render (fit room ls)) \<le> room"
  by (induction ls) auto

lemma set_fit: "set (fit room ls) \<subseteq> set ls"
  by (induction ls) auto

lemma fit_id: "length (render ls) \<le> room \<Longrightarrow> fit room ls = ls"
  by (cases ls) auto

lemma fit_suffix: "\<exists>dropped. ls = dropped @ fit room ls"
proof (induction ls)
  case Nil
  then show ?case by simp
next
  case (Cons l ls)
  then obtain d where d: "ls = d @ fit room ls" by blast
  show ?case
  proof (cases "length (render (l # ls)) \<le> room")
    case True
    then show ?thesis by (simp add: fit_id)
  next
    case False
    then have "fit room (l # ls) = fit room ls" by simp
    then show ?thesis using d by (metis append_Cons)
  qed
qed

section \<open>Walking the ring\<close>

text \<open>
  If the ring spells \<open>l @ [NL]\<close> from position \<open>p\<close> on, the newline search started
  anywhere inside the line ends at its newline.
\<close>

lemma mod_Suc_step: "(p + Suc k) mod n = ((p + k) mod n + 1) mod (n::nat)"
  by (simp add: mod_Suc_eq)

lemma find_nl_finds:
  assumes pos: "0 < length buf" and "k \<le> length l"
    and spell: "\<forall>j < length l. buf ! ((p + j) mod length buf) = l ! j"
    and nl: "buf ! ((p + length l) mod length buf) = NL" and clean: "NL \<notin> set l"
  shows "find_nl buf ((p + k) mod length buf) = Some ((p + length l) mod length buf)"
  using assms(2)
proof (induction "length l - k" arbitrary: k)
  case 0
  then have "k = length l" by simp
  then show ?case using pos nl mod_less_divisor [OF pos, of "p + length l"]
    by (subst find_nl.simps) (simp add: not_le)
next
  case (Suc d)
  then have k: "k < length l" by simp
  then have "l ! k \<noteq> NL" using clean nth_mem by fastforce
  then have ne: "buf ! ((p + k) mod length buf) \<noteq> NL" using spell k by simp
  have "find_nl buf ((p + Suc k) mod length buf) = Some ((p + length l) mod length buf)"
    using Suc k by (intro Suc.hyps(1)) auto
  then show ?case
    using pos ne mod_less_divisor [OF pos, of "p + k"]
    by (subst find_nl.simps) (simp add: mod_Suc_eq not_le)
qed

lemma line_span_mod:
  assumes "start < len" "m < len" "i = (start + m) mod len"
  shows "line_span len start i = m + 1"
  using assms by (auto simp: line_span_def mod_if)

lemma ring_line_spells:
  assumes p: "p < length buf" and m: "m < length buf"
  shows "ring_line buf p ((p + m) mod length buf)
           = Some (map (\<lambda>k. buf ! ((p + k) mod length buf)) [0..<m])"
proof -
  let ?n = "length buf"
  show ?thesis
  proof (cases "p + m < ?n")
    case True
    have "take m (drop p buf) = map (\<lambda>k. buf ! ((p + k) mod ?n)) [0..<m]"
      using True by (intro nth_equalityI) auto
    then show ?thesis using True p by (simp add: ring_line_def slice_of_def)
  next
    case False
    then have i: "(p + m) mod ?n = p + m - ?n" using p m by (simp add: mod_if)
    have "drop p buf @ take (p + m - ?n) buf = map (\<lambda>k. buf ! ((p + k) mod ?n)) [0..<m]"
    proof (rule nth_equalityI)
      show "length (drop p buf @ take (p + m - ?n) buf)
              = length (map (\<lambda>k. buf ! ((p + k) mod ?n)) [0..<m])"
        using False p m by simp
    next
      fix k assume "k < length (drop p buf @ take (p + m - ?n) buf)"
      then have "k < m" using False p m by simp
      then show "(drop p buf @ take (p + m - ?n) buf) ! k
                   = map (\<lambda>k. buf ! ((p + k) mod ?n)) [0..<m] ! k"
        using False p m by (auto simp: nth_append mod_if add.commute)
    qed
    moreover have "\<not> p \<le> p + m - ?n" using False p m by simp
    ultimately show ?thesis using p m i False by (simp add: ring_line_def slice_of_def)
  qed
qed

text \<open>The ring from \<open>start\<close> on spells the first line, and the rest is the ring after it.\<close>

lemma contents_split:
  assumes ok: "ring_ok c" and eq: "contents c = l @ NL # rest"
  shows "\<forall>j < length l. lc_buf c ! ((lc_start c + j) mod length (lc_buf c)) = l ! j"
    and "lc_buf c ! ((lc_start c + length l) mod length (lc_buf c)) = NL"
    and "length l < lc_bytes c"
    and "lc_bytes c = length l + 1 + length rest"
proof -
  show len: "lc_bytes c = length l + 1 + length rest"
    using arg_cong [OF eq, of length] by simp
  show "length l < lc_bytes c" using len by simp
  show "\<forall>j < length l. lc_buf c ! ((lc_start c + j) mod length (lc_buf c)) = l ! j"
  proof (intro allI impI)
    fix j assume j: "j < length l"
    then have "contents c ! j = l ! j" using eq by (simp add: nth_append)
    then show "lc_buf c ! ((lc_start c + j) mod length (lc_buf c)) = l ! j"
      using contents_nth [of j c] j len by simp
  qed
  have "contents c ! length l = NL" using eq by simp
  then show "lc_buf c ! ((lc_start c + length l) mod length (lc_buf c)) = NL"
    using contents_nth [of "length l" c] len by simp
qed

lemma contents_advance:
  assumes ok: "ring_ok c" and eq: "contents c = xs @ rest"
  shows "contents (c\<lparr>lc_start := (lc_start c + length xs) mod length (lc_buf c),
                     lc_bytes := lc_bytes c - length xs\<rparr>) = rest"
    (is "contents ?d = rest")
proof (rule nth_equalityI)
  have len: "lc_bytes c = length xs + length rest" using arg_cong [OF eq, of length] by simp
  show "length (contents ?d) = length rest" using len by simp
  fix k assume "k < length (contents ?d)"
  then have k: "k < length rest" using len by simp
  have "contents ?d ! k = lc_buf c ! ((lc_start c + (length xs + k)) mod length (lc_buf c))"
    using k len by (simp add: contents_def mod_add_left_eq add.assoc)
  also have "\<dots> = contents c ! (length xs + k)"
    using contents_nth [of "length xs + k" c] k len by simp
  also have "\<dots> = rest ! k" using eq by simp
  finally show "contents ?d ! k = rest ! k" .
qed

lemma ring_ok_advance:
  assumes "ring_ok c" "n \<le> lc_bytes c"
  shows "ring_ok (c\<lparr>lc_start := (lc_start c + n) mod length (lc_buf c), lc_bytes := lc_bytes c - n\<rparr>)"
proof -
  have "((lc_start c + n) mod length (lc_buf c) + (lc_bytes c - n)) mod length (lc_buf c)
          = (lc_start c + lc_bytes c) mod length (lc_buf c)"
    using assms(2) mod_add_left_eq [of "lc_start c + n" "length (lc_buf c)" "lc_bytes c - n"] by simp
  then show ?thesis using assms by (auto simp: ring_ok_def intro!: mod_less_divisor)
qed

section \<open>Eviction\<close>

lemma evict_step:
  assumes inv: "cache_inv c (l # ls)" and no_room: "length (lc_buf c) - lc_bytes c < need"
  shows "\<exists>d. evict need c = evict need d \<and> cache_inv d ls \<and> lc_buf d = lc_buf c"
proof -
  let ?n = "length (lc_buf c)"
  let ?i = "(lc_start c + length l) mod ?n"
  let ?d = "c\<lparr>lc_start := (lc_start c + length (l @ [NL])) mod ?n,
              lc_bytes := lc_bytes c - length (l @ [NL])\<rparr>"
  from inv have ok: "ring_ok c" and eq: "contents c = l @ NL # render ls"
    and clean: "NL \<notin> set l" by (auto simp: cache_inv_def)
  note spell = contents_split [OF ok eq]
  have start: "lc_start c < ?n" and bytes: "lc_bytes c \<le> ?n" using ok by (auto simp: ring_ok_def)
  have "find_nl (lc_buf c) ((lc_start c + 0) mod ?n) = Some ?i"
    using start spell(1,2) clean by (intro find_nl_finds) auto
  then have nl: "find_nl (lc_buf c) (lc_start c) = Some ?i" using start by simp
  have sp: "line_span ?n (lc_start c) ?i = length l + 1"
    using start bytes spell(3) by (intro line_span_mod) auto
  have "evict need c = evict need ?d"
    using no_room bytes nl sp spell(4) by (subst evict.simps) (simp add: checked_sub_def)
  moreover have "ring_ok ?d" using ok spell(4) by (intro ring_ok_advance) auto
  moreover have "contents ?d = render ls"
    using contents_advance [OF ok, of "l @ [NL]" "render ls"] eq by simp
  ultimately show ?thesis using inv by (intro exI [of _ ?d]) (auto simp: cache_inv_def)
qed

lemma evict_correct:
  assumes "cache_inv c ls" "need \<le> length (lc_buf c)"
  shows "\<exists>d. evict need c = Some d \<and> cache_inv d (fit (length (lc_buf c) - need) ls) \<and>
             lc_buf d = lc_buf c"
  using assms
proof (induction ls arbitrary: c)
  case Nil
  then have "lc_bytes c = 0"
    using length_contents [of c] by (simp add: cache_inv_def)
  then show ?case using Nil by (subst evict.simps) (simp add: checked_sub_def)
next
  case (Cons l ls)
  have bytes: "lc_bytes c \<le> length (lc_buf c)" and
    len: "lc_bytes c = length (render (l # ls))"
    using Cons.prems(1) length_contents [of c] by (auto simp: cache_inv_def ring_ok_def)
  show ?case
  proof (cases "need \<le> length (lc_buf c) - lc_bytes c")
    case True
    then have "evict need c = Some c"
      using bytes by (subst evict.simps) (simp add: checked_sub_def)
    moreover have "fit (length (lc_buf c) - need) (l # ls) = l # ls"
      using True bytes len Cons.prems(2) by (intro fit_id) auto
    ultimately show ?thesis using Cons.prems by simp
  next
    case False
    then obtain d where d: "evict need c = evict need d" "cache_inv d ls" "lc_buf d = lc_buf c"
      using evict_step [OF Cons.prems(1), of need] by auto
    have "fit (length (lc_buf c) - need) (l # ls) = fit (length (lc_buf c) - need) ls"
      using False len Cons.prems(2) by auto
    then show ?thesis using Cons.IH [of d] d Cons.prems(2) by auto
  qed
qed

text \<open>Eviction never returns when the request exceeds the whole buffer.\<close>

lemma evict_room:
  assumes ret: "evict need c = Some d"
  shows "lc_buf d = lc_buf c \<and> lc_bytes d \<le> length (lc_buf d) \<and>
         need \<le> length (lc_buf d) - lc_bytes d"
proof (rule evict.raw_induct [where P = "\<lambda>need c d. lc_buf d = lc_buf c \<and>
    lc_bytes d \<le> length (lc_buf d) \<and> need \<le> length (lc_buf d) - lc_bytes d", OF _ ret])
qed (fastforce split: option.splits if_splits)

section \<open>Writing\<close>

lemma contents_put:
  assumes ok: "ring_ok c" and room: "lc_bytes c < length (lc_buf c)"
  shows "contents (c\<lparr>lc_buf := (lc_buf c)[lc_end c := b],
                     lc_end := (lc_end c + 1) mod length (lc_buf c),
                     lc_bytes := lc_bytes c + 1\<rparr>) = contents c @ [b]"
    (is "contents ?d = _")
proof (rule nth_equalityI)
  let ?n = "length (lc_buf c)"
  show "length (contents ?d) = length (contents c @ [b])" by simp
  fix k assume "k < length (contents ?d)"
  then have k: "k \<le> lc_bytes c" by simp
  have e: "lc_end c = (lc_start c + lc_bytes c) mod ?n" and s: "lc_start c < ?n"
    using ok by (auto simp: ring_ok_def)
  have d: "contents ?d ! k = (lc_buf c)[lc_end c := b] ! ((lc_start c + k) mod ?n)"
    using k by (subst contents_nth) auto
  have lt: "(lc_start c + k) mod ?n < ?n" using le_less_trans [OF le0 s] by (intro mod_less_divisor)
  show "contents ?d ! k = (contents c @ [b]) ! k"
  proof (cases "k = lc_bytes c")
    case True
    then show ?thesis using d e lt by (simp add: nth_append)
  next
    case False
    then have k': "k < lc_bytes c" using k by simp
    have "(lc_start c + k) mod ?n \<noteq> lc_end c"
      unfolding e using s k' room by (auto simp: mod_add_once)
    then show ?thesis using d k' by (simp add: nth_append contents_nth)
  qed
qed

lemma ring_ok_put:
  assumes "ring_ok c" "lc_bytes c < length (lc_buf c)"
  shows "ring_ok (c\<lparr>lc_buf := (lc_buf c)[lc_end c := b],
                    lc_end := (lc_end c + 1) mod length (lc_buf c),
                    lc_bytes := lc_bytes c + 1\<rparr>)"
  using assms by (auto simp: ring_ok_def mod_Suc_eq)

lemma put_bytes_bytes [simp]:
  "put_bytes (c\<lparr>lc_bytes := n\<rparr>) bs = map_option (\<lambda>d. d\<lparr>lc_bytes := n\<rparr>) (put_bytes c bs)"
proof (induction bs arbitrary: c)
  case Nil
  then show ?case by simp
next
  case (Cons b bs)
  have swap: "c\<lparr>lc_bytes := n, lc_buf := x, lc_end := y\<rparr> = (c\<lparr>lc_buf := x, lc_end := y\<rparr>)\<lparr>lc_bytes := n\<rparr>"
    for x y by simp
  show ?case by (simp add: Cons.IH swap del: log_cache.update_convs)
qed

lemma put_bytes_keeps_bytes: "put_bytes c bs = Some d \<Longrightarrow> lc_bytes d = lc_bytes c"
  by (induction c bs rule: put_bytes.induct) (auto split: if_splits)

lemma put_bytes_correct:
  assumes "ring_ok c" "lc_bytes c + length bs \<le> length (lc_buf c)"
  shows "\<exists>d. put_bytes c bs = Some d \<and> ring_ok (d\<lparr>lc_bytes := lc_bytes c + length bs\<rparr>) \<and>
             contents (d\<lparr>lc_bytes := lc_bytes c + length bs\<rparr>) = contents c @ bs \<and>
             length (lc_buf d) = length (lc_buf c) \<and> lc_bytes d = lc_bytes c"
  using assms
proof (induction bs arbitrary: c)
  case Nil
  then show ?case by simp
next
  case (Cons b bs)
  let ?w = "c\<lparr>lc_buf := (lc_buf c)[lc_end c := b], lc_end := (lc_end c + 1) mod length (lc_buf c)\<rparr>"
  let ?c = "?w\<lparr>lc_bytes := lc_bytes c + 1\<rparr>"
  have room: "lc_bytes c < length (lc_buf c)" using Cons.prems by simp
  have ok: "ring_ok ?c" using ring_ok_put [OF Cons.prems(1) room, of b] by simp
  have ct: "contents ?c = contents c @ [b]" using contents_put [OF Cons.prems(1) room, of b] by simp
  obtain d where d: "put_bytes ?c bs = Some d"
    "ring_ok (d\<lparr>lc_bytes := lc_bytes c + 1 + length bs\<rparr>)"
    "contents (d\<lparr>lc_bytes := lc_bytes c + 1 + length bs\<rparr>) = contents c @ [b] @ bs"
    "length (lc_buf d) = length (lc_buf c)"
    using Cons.IH [OF ok] Cons.prems(2) ct by auto
  then obtain e where e: "put_bytes ?w bs = Some e" "d = e\<lparr>lc_bytes := lc_bytes c + 1\<rparr>"
    by auto
  have "lc_end c < length (lc_buf c)"
    using Cons.prems(1) by (auto simp: ring_ok_def intro!: mod_less_divisor)
  then have "put_bytes c (b # bs) = Some e" using e by simp
  moreover have "lc_bytes e = lc_bytes c"
    using put_bytes_keeps_bytes [OF e(1)] by simp
  ultimately show ?case using d e by (intro exI [of _ e]) auto
qed

section \<open>The operations implement the list of lines\<close>

lemma cache_inv_new: "0 < cap \<Longrightarrow> cache_inv (log_cache_new cap) []"
  by (simp add: cache_inv_def ring_ok_def log_cache_new_def contents_def)

lemma cache_inv_is_empty: "cache_inv c ls \<Longrightarrow> log_cache_is_empty c \<longleftrightarrow> ls = []"
  using length_contents [of c] by (cases ls) (auto simp: cache_inv_def log_cache_is_empty_def)

lemma cache_inv_push:
  assumes inv: "cache_inv c ls" and clean: "NL \<notin> set line"
    and short: "length line + 1 \<le> length (lc_buf c)"
  shows "\<exists>d. log_cache_push c line = Some d \<and>
             cache_inv d (push_lines (length (lc_buf c)) ls line) \<and>
             length (lc_buf d) = length (lc_buf c)"
proof -
  let ?need = "length line + 1"
  let ?ls = "fit (length (lc_buf c) - ?need) ls"
  obtain d where d: "evict ?need c = Some d" "cache_inv d ?ls" "lc_buf d = lc_buf c"
    using evict_correct [OF inv short] by blast
  have "lc_bytes d = length (render ?ls)"
    using d(2) length_contents [of d] by (simp add: cache_inv_def)
  then have room: "lc_bytes d + length (line @ [NL]) \<le> length (lc_buf d)"
    using length_fit [of "length (lc_buf c) - ?need" ls] short d(3) by simp
  have ok: "ring_ok d" using d(2) by (simp add: cache_inv_def)
  obtain e where e: "put_bytes d (line @ [NL]) = Some e"
    "ring_ok (e\<lparr>lc_bytes := lc_bytes d + length (line @ [NL])\<rparr>)"
    "contents (e\<lparr>lc_bytes := lc_bytes d + length (line @ [NL])\<rparr>) = contents d @ line @ [NL]"
    "length (lc_buf e) = length (lc_buf d)" "lc_bytes e = lc_bytes d"
    using put_bytes_correct [OF ok room] by blast
  let ?r = "e\<lparr>lc_bytes := lc_bytes d + length (line @ [NL])\<rparr>"
  have "log_cache_push c line = Some ?r"
    using d(1) e(1,5) by (simp add: log_cache_push_def)
  moreover have "cache_inv ?r (push_lines (length (lc_buf c)) ls line)"
    using e(2,3) d(2) clean by (auto simp: cache_inv_def push_lines_def)
  ultimately show ?thesis using e(4) d(3) by auto
qed

lemma push_too_long:
  assumes "length (lc_buf c) < length line + 1"
  shows "log_cache_push c line = None"
proof (cases "evict (length line + 1) c")
  case None
  then show ?thesis by (simp add: log_cache_push_def)
next
  case (Some d)
  then have False using evict_room [OF Some] assms by auto
  then show ?thesis ..
qed

lemma snapshot_contents:
  assumes ok: "ring_ok c"
  shows "log_cache_snapshot c = Some (contents c)"
proof -
  let ?n = "length (lc_buf c)"
  have s: "lc_start c < ?n" and b: "lc_bytes c \<le> ?n"
    and e: "lc_end c = (lc_start c + lc_bytes c) mod ?n" using ok by (auto simp: ring_ok_def)
  consider (empty) "lc_bytes c = 0" | (full) "lc_bytes c = ?n" | (part) "0 < lc_bytes c" "lc_bytes c < ?n"
    using b by linarith
  then show ?thesis
  proof cases
    case empty
    then show ?thesis by (simp add: log_cache_snapshot_def contents_def)
  next
    case full
    have "drop (lc_start c) (lc_buf c) @ take (lc_start c) (lc_buf c) = contents c"
      using s full by (intro nth_equalityI) (auto simp: nth_append contents_nth mod_add_once add.commute)
    moreover have "lc_end c = lc_start c" using e s full by simp
    ultimately show ?thesis using full s by (auto simp: log_cache_snapshot_def slice_of_def)
  next
    case part
    have "ring_line (lc_buf c) (lc_start c) (lc_end c) = Some (contents c)"
      using ring_line_spells [OF s part(2)] e by (simp add: contents_def)
    moreover have "lc_end c \<noteq> lc_start c" unfolding e using s part by (auto simp: mod_add_once)
    ultimately show ?thesis using part by (auto simp: log_cache_snapshot_def ring_line_def split: if_splits)
  qed
qed

lemma cache_inv_snapshot: "cache_inv c ls \<Longrightarrow> log_cache_snapshot c = Some (render ls)"
  by (simp add: cache_inv_def snapshot_contents)

lemma collect_walk:
  assumes pos: "0 < length buf" and rem: "0 < remaining" and "k \<le> length l"
    and spell: "\<forall>j < length l. buf ! ((p + j) mod length buf) = l ! j" and clean: "NL \<notin> set l"
  shows "collect_loop lossy buf q ((p + k) mod length buf) remaining acc
           = collect_loop lossy buf q ((p + length l) mod length buf) remaining acc"
  using assms(3)
proof (induction "length l - k" arbitrary: k)
  case 0
  then show ?case by simp
next
  case (Suc d)
  then have k: "k < length l" by simp
  then have ne: "buf ! ((p + k) mod length buf) \<noteq> NL"
    using spell clean nth_mem by fastforce
  have "collect_loop lossy buf q ((p + Suc k) mod length buf) remaining acc
          = collect_loop lossy buf q ((p + length l) mod length buf) remaining acc"
    using Suc k by (intro Suc.hyps(1)) auto
  moreover have "collect_loop lossy buf q ((p + k) mod length buf) remaining acc
      = collect_loop lossy buf q ((p + Suc k) mod length buf) remaining acc"
    using pos ne rem mod_less_divisor [OF pos, of "p + k"]
    by (subst collect_loop.simps) (auto simp: mod_Suc_eq dest: leD)
  ultimately show ?case by simp
qed

lemma collect_step:
  assumes ok: "ring_ok c" and eq: "contents c = l @ NL # rest" and clean: "NL \<notin> set l"
  shows "collect_loop lossy (lc_buf c) (lc_start c) (lc_start c) (lc_bytes c) acc =
         collect_loop lossy (lc_buf c) ((lc_start c + (length l + 1)) mod length (lc_buf c))
           ((lc_start c + (length l + 1)) mod length (lc_buf c)) (lc_bytes c - (length l + 1))
           (acc @ [lossy l])"
proof -
  let ?n = "length (lc_buf c)" and ?s = "lc_start c"
  let ?i = "(?s + length l) mod ?n"
  note spell = contents_split [OF ok eq]
  have s: "?s < ?n" and len: "length l < ?n" using ok spell(3) by (auto simp: ring_ok_def)
  have pos: "0 < ?n" using s by linarith
  have "map (\<lambda>k. lc_buf c ! ((?s + k) mod ?n)) [0..<length l] = l"
    using spell(1) by (intro nth_equalityI) auto
  then have line: "ring_line (lc_buf c) ?s ?i = Some l"
    using ring_line_spells [OF s len] by simp
  have span: "line_span ?n ?s ?i = length l + 1" by (rule line_span_mod [OF s len refl])
  have "collect_loop lossy (lc_buf c) ?s ?s (lc_bytes c) acc
          = collect_loop lossy (lc_buf c) ?s ?i (lc_bytes c) acc"
    using collect_walk [OF pos _ le0 spell(1) clean, of "lc_bytes c"] spell(3) s by simp
  also have "\<dots> = collect_loop lossy (lc_buf c) ((?i + 1) mod ?n) ((?i + 1) mod ?n)
                    (lc_bytes c - (length l + 1)) (acc @ [lossy l])"
    using spell(2,4) line span mod_less_divisor [OF pos, of "?s + length l"]
    by (subst collect_loop.simps) (simp add: checked_sub_def not_le)
  finally show ?thesis by (simp add: mod_Suc_eq)
qed

lemma collect_loop_correct:
  "cache_inv c ls \<Longrightarrow>
   collect_loop lossy (lc_buf c) (lc_start c) (lc_start c) (lc_bytes c) acc = Some (acc @ map lossy ls)"
proof (induction ls arbitrary: c acc)
  case Nil
  then have "lc_bytes c = 0" using length_contents [of c] by (simp add: cache_inv_def)
  then show ?case by (subst collect_loop.simps) simp
next
  case (Cons l ls)
  let ?d = "c\<lparr>lc_start := (lc_start c + length (l @ [NL])) mod length (lc_buf c),
              lc_bytes := lc_bytes c - length (l @ [NL])\<rparr>"
  have ok: "ring_ok c" and eq: "contents c = l @ NL # render ls" and clean: "NL \<notin> set l"
    using Cons.prems by (auto simp: cache_inv_def)
  have "ring_ok ?d" using contents_split(4) [OF ok eq] by (intro ring_ok_advance [OF ok]) simp
  moreover have "contents ?d = render ls"
    using contents_advance [OF ok, of "l @ [NL]" "render ls"] eq by simp
  ultimately have "cache_inv ?d ls" using Cons.prems by (simp add: cache_inv_def)
  from Cons.IH [OF this, of "acc @ [lossy l]"] show ?case
    using collect_step [OF ok eq clean, of lossy acc] by simp
qed

lemma cache_inv_collect: "cache_inv c ls \<Longrightarrow> log_cache_collect_lines lossy c = Some (map lossy ls)"
  using collect_loop_correct [of c ls lossy "[]"] length_contents [of c]
  by (cases ls) (auto simp: log_cache_collect_lines_def cache_inv_def)

section \<open>The interface the gateway and the daemon rely on\<close>

lemma push_lines_fit:
  assumes "length l + 1 \<le> cap"
  shows "push_lines cap (fit cap ls) l = fit cap (ls @ [l])"
proof (induction ls)
  case Nil
  then show ?case using assms by (simp add: push_lines_def)
next
  case (Cons x xs)
  show ?case
  proof (cases "length (render (x # xs @ [l])) \<le> cap")
    case True
    then have "length (render (x # xs)) \<le> cap - (length l + 1)" "length (render (x # xs)) \<le> cap"
      by auto
    then show ?thesis using True by (simp add: push_lines_def fit_id)
  next
    case False
    then have "\<not> length (render (x # xs)) \<le> cap - (length l + 1)" by simp
    then have "push_lines cap (fit cap (x # xs)) l = push_lines cap (fit cap xs) l"
      by (auto simp: push_lines_def fit_id)
    then show ?thesis using False Cons by simp
  qed
qed

text \<open>Pushing a sequence of lines, the way a drain does.\<close>

fun push_all :: "('c \<Rightarrow> bytes \<Rightarrow> 'c option) \<Rightarrow> 'c \<Rightarrow> bytes list \<Rightarrow> 'c option" where
  "push_all push c [] = Some c"
| "push_all push c (l # ls) = Option.bind (push c l) (\<lambda>d. push_all push d ls)"

text \<open>
  A store of lines of bounded size. \<open>holds c ls\<close> says that \<open>c\<close> stores the lines
  \<open>ls\<close>, oldest first, and \<open>room c\<close> is its capacity in bytes.
\<close>

locale line_store =
  fixes push :: "'c \<Rightarrow> bytes \<Rightarrow> 'c option"
    and snapshot :: "'c \<Rightarrow> bytes option"
    and room :: "'c \<Rightarrow> nat"
    and holds :: "'c \<Rightarrow> bytes list \<Rightarrow> bool"
  assumes push_ok: "holds c ls \<Longrightarrow> NL \<notin> set l \<Longrightarrow> length l + 1 \<le> room c \<Longrightarrow>
      \<exists>d. push c l = Some d \<and> holds d (push_lines (room c) ls l) \<and> room d = room c"
    and snapshot_ok: "holds c ls \<Longrightarrow> snapshot c = Some (render ls)"
begin

lemma push_all_ok:
  assumes "holds c (fit (room c) old)"
    and "\<forall>l \<in> set ls. NL \<notin> set l \<and> length l + 1 \<le> room c"
  shows "\<exists>d. push_all push c ls = Some d \<and> holds d (fit (room c) (old @ ls)) \<and> room d = room c"
  using assms
proof (induction ls arbitrary: c old)
  case Nil
  then show ?case by simp
next
  case (Cons l ls)
  then obtain d where d: "push c l = Some d" "holds d (fit (room c) (old @ [l]))" "room d = room c"
    using push_ok [OF Cons.prems(1), of l] push_lines_fit [of l "room c" old] by auto
  have "holds d (fit (room d) (old @ [l]))" "\<forall>l \<in> set ls. NL \<notin> set l \<and> length l + 1 \<le> room d"
    using d Cons.prems(2) by auto
  from Cons.IH [OF this] show ?case using d by auto
qed

lemma snapshot_push_all:
  assumes "holds c []" and "\<forall>l \<in> set ls. NL \<notin> set l \<and> length l + 1 \<le> room c"
  shows "Option.bind (push_all push c ls) snapshot = Some (render (fit (room c) ls))"
  using push_all_ok [of c "[]" ls] assms snapshot_ok by fastforce

end

abbreviation log_cache_room :: "log_cache \<Rightarrow> nat" where
  "log_cache_room c \<equiv> length (lc_buf c)"

interpretation lc: line_store log_cache_push log_cache_snapshot log_cache_room cache_inv
  by unfold_locales (auto intro: cache_inv_push cache_inv_snapshot)

section \<open>Properties\<close>

text \<open>
  C26. Refinement of one \<^verbatim>\<open>push\<close>: on a cache that holds the lines \<open>ls\<close>, pushing a
  newline-free line that fits the buffer returns, and the cache then holds the longest suffix of
  \<open>ls\<close> that leaves room for the line, followed by the line; the capacity is unchanged, and
  \<^verbatim>\<open>snapshot\<close> and \<^verbatim>\<open>collect_lines\<close> report exactly those lines.
\<close>

theorem log_cache_push_refines:
  assumes "cache_inv c ls" and "NL \<notin> set line" and "length line + 1 \<le> length (lc_buf c)"
  shows "\<exists>d. log_cache_push c line = Some d \<and>
             cache_inv d (push_lines (length (lc_buf c)) ls line) \<and>
             length (lc_buf d) = length (lc_buf c) \<and>
             log_cache_snapshot d = Some (render (push_lines (length (lc_buf c)) ls line)) \<and>
             log_cache_collect_lines lossy d
               = Some (map lossy (push_lines (length (lc_buf c)) ls line))"
  using cache_inv_push [OF assms] cache_inv_snapshot cache_inv_collect by blast

theorem log_cache_push_refines_witness:
  "\<exists>d. log_cache_push (log_cache_new 4) [97, 98] = Some d \<and>
       log_cache_snapshot d = Some [97, 98, 10]"
  using log_cache_push_refines [of "log_cache_new 4" "[]" "[97, 98]"] cache_inv_new [of 4]
  by (auto simp: push_lines_def log_cache_new_def)

text \<open>
  Replaying any sequence of newline-free lines, each of which fits, into a fresh cache of
  capacity \<open>cap\<close> never fails, and what \<^verbatim>\<open>snapshot\<close> then returns is the longest suffix of
  the sequence that fits in \<open>cap\<close> bytes, each line followed by its newline.
\<close>

theorem log_cache_replay:
  assumes "0 < cap" and "\<forall>l \<in> set ls. NL \<notin> set l \<and> length l + 1 \<le> cap"
  shows "Option.bind (push_all log_cache_push (log_cache_new cap) ls) log_cache_snapshot
           = Some (render (fit cap ls))"
  using lc.snapshot_push_all [of "log_cache_new cap" ls] assms cache_inv_new
  by (simp add: log_cache_new_def)

theorem log_cache_replay_witness:
  "Option.bind (push_all log_cache_push (log_cache_new 6) [[97, 98], [99], [100, 101]])
     log_cache_snapshot = Some [99, 10, 100, 101, 10]"
  using log_cache_replay [of 6 "[[97, 98], [99], [100, 101]]"] by simp

text \<open>
  C28. A line longer than the capacity minus its newline never gets stored, whatever the state of
  the cache: \<^verbatim>\<open>push\<close> does not return (its eviction loop underflows the byte count or spins).
\<close>

theorem log_cache_push_oversized:
  assumes "length (lc_buf c) < length line + 1"
  shows "log_cache_push c line = None"
  by (rule push_too_long [OF assms])

theorem log_cache_push_oversized_witness: "log_cache_push (log_cache_new 2) [97, 98] = None"
  using log_cache_push_oversized [of "log_cache_new 2" "[97, 98]"] by (simp add: log_cache_new_def)

end
