(* ===== verification/Log_Gateway.thy ===== *)
theory Log_Gateway
  imports Log_Cache
begin

text \<open>
  The log gateway of a container (\<^verbatim>\<open>AsyncPipeWriter\<close> and \<^verbatim>\<open>LogGateway\<close> in
  \<^verbatim>\<open>libs/core/src/daemon.rs\<close>): the log cache and the pipes of the followers. The writes
  themselves are dispatched by the caller; an operation that closes descriptors returns the list
  of descriptors it closes, in order. The relation \<open>gw_step\<close> interleaves the operations of the
  gateway with the completions of the writes it asked for, and the invariant of its reachable
  states is the promise of the source's comment: at most one write per pipe is outstanding.
\<close>

section \<open>Pipe writers\<close>

record pipe_writer =
  pw_id :: u64
  pw_fd :: fd
  pw_in_flight :: bool

definition pipe_writer_new :: "u64 \<Rightarrow> fd \<Rightarrow> pipe_writer" where
  "pipe_writer_new pipe_id fd = \<lparr>pw_id = pipe_id, pw_fd = fd, pw_in_flight = False\<rparr>"

text \<open>The writer, the descriptors closed, and whether the pipe is still alive.\<close>

definition pipe_writer_complete :: "pipe_writer \<Rightarrow> bool \<Rightarrow> pipe_writer \<times> fd list \<times> bool" where
  "pipe_writer_complete p ok =
     (let p = p\<lparr>pw_in_flight := False\<rparr> in
      if \<not> ok then (p\<lparr>pw_fd := -1\<rparr>, [pw_fd p], False) else (p, [], True))"

section \<open>The gateway\<close>

record log_gateway =
  lg_cache :: log_cache
  lg_pipes :: "pipe_writer list"

definition log_gateway_new :: "nat \<Rightarrow> log_gateway" where
  "log_gateway_new cap = \<lparr>lg_cache = log_cache_new cap, lg_pipes = []\<rparr>"

definition idle_ids :: "pipe_writer list \<Rightarrow> u64 list" where
  "idle_ids ps = map pw_id (filter (\<lambda>p. \<not> pw_in_flight p) ps)"

definition log_gateway_push :: "log_gateway \<Rightarrow> bytes \<Rightarrow> (log_gateway \<times> u64 list) option" where
  "log_gateway_push g line = do {
     cache \<leftarrow> log_cache_push (lg_cache g) line;
     Some (\<lparr>lg_cache = cache, lg_pipes = map (\<lambda>p. p\<lparr>pw_in_flight := True\<rparr>) (lg_pipes g)\<rparr>,
           idle_ids (lg_pipes g))
   }"

text \<open>The gateway and the descriptors closed.\<close>

definition log_gateway_complete_write ::
  "log_gateway \<Rightarrow> u64 \<Rightarrow> bool \<Rightarrow> (log_gateway \<times> fd list) option"
where
  "log_gateway_complete_write g pipe_id ok =
     (case position (\<lambda>p. pw_id p = pipe_id) (lg_pipes g) of
        None \<Rightarrow> Some (g, [])
      | Some i \<Rightarrow>
          (let (p, closed, alive) = pipe_writer_complete (lg_pipes g ! i) ok;
               pipes = (lg_pipes g)[i := p] in
           if \<not> alive
           then map_option (\<lambda>ps. (g\<lparr>lg_pipes := ps\<rparr>, closed)) (swap_remove i pipes)
           else Some (g\<lparr>lg_pipes := pipes\<rparr>, closed)))"

definition log_gateway_pipe_fd :: "log_gateway \<Rightarrow> u64 \<Rightarrow> fd option" where
  "log_gateway_pipe_fd g pipe_id = map_option pw_fd (find (\<lambda>p. pw_id p = pipe_id) (lg_pipes g))"

definition log_gateway_collect_lines :: "(bytes \<Rightarrow> 's) \<Rightarrow> log_gateway \<Rightarrow> 's list option" where
  "log_gateway_collect_lines lossy g = log_cache_collect_lines lossy (lg_cache g)"

definition log_gateway_snapshot :: "log_gateway \<Rightarrow> bytes option" where
  "log_gateway_snapshot g = log_cache_snapshot (lg_cache g)"

definition log_gateway_close_all_pipes :: "log_gateway \<Rightarrow> log_gateway \<times> fd list" where
  "log_gateway_close_all_pipes g =
     (g\<lparr>lg_pipes := []\<rparr>, filter (\<lambda>fd. 0 \<le> fd) (map pw_fd (lg_pipes g)))"

text \<open>Registering a follower (\<^verbatim>\<open>pipes.push(AsyncPipeWriter::new(..))\<close> in \<^verbatim>\<open>handle_follow\<close>).\<close>

definition log_gateway_add_pipe :: "log_gateway \<Rightarrow> u64 \<Rightarrow> fd \<Rightarrow> log_gateway" where
  "log_gateway_add_pipe g pipe_id fd = g\<lparr>lg_pipes := lg_pipes g @ [pipe_writer_new pipe_id fd]\<rparr>"

section \<open>The gateway as a store of lines\<close>

definition gateway_inv :: "log_gateway \<Rightarrow> bytes list \<Rightarrow> bool" where
  "gateway_inv g ls \<longleftrightarrow> cache_inv (lg_cache g) ls"

definition log_gateway_record :: "log_gateway \<Rightarrow> bytes \<Rightarrow> log_gateway option" where
  "log_gateway_record g line = map_option fst (log_gateway_push g line)"

lemma log_gateway_push_Some:
  "log_gateway_push g line = Some (h, ids) \<longleftrightarrow>
     (\<exists>cache. log_cache_push (lg_cache g) line = Some cache \<and>
       h = \<lparr>lg_cache = cache, lg_pipes = map (\<lambda>p. p\<lparr>pw_in_flight := True\<rparr>) (lg_pipes g)\<rparr> \<and>
       ids = idle_ids (lg_pipes g))"
  by (cases "log_cache_push (lg_cache g) line") (auto simp: log_gateway_push_def)

interpretation gw: line_store log_gateway_record log_gateway_snapshot
  "\<lambda>g. log_cache_room (lg_cache g)" gateway_inv
proof
  fix c :: log_gateway and ls l
  assume "gateway_inv c ls" "NL \<notin> set l" "length l + 1 \<le> log_cache_room (lg_cache c)"
  then obtain d where "log_cache_push (lg_cache c) l = Some d"
    "cache_inv d (push_lines (log_cache_room (lg_cache c)) ls l)"
    "log_cache_room d = log_cache_room (lg_cache c)"
    using cache_inv_push [of "lg_cache c" ls l] by (auto simp: gateway_inv_def)
  then show "\<exists>d. log_gateway_record c l = Some d \<and>
      gateway_inv d (push_lines (log_cache_room (lg_cache c)) ls l) \<and>
      log_cache_room (lg_cache d) = log_cache_room (lg_cache c)"
    by (simp add: log_gateway_record_def log_gateway_push_def gateway_inv_def)
next
  fix c :: log_gateway and ls
  assume "gateway_inv c ls"
  then show "log_gateway_snapshot c = Some (render ls)"
    by (simp add: gateway_inv_def log_gateway_snapshot_def cache_inv_snapshot)
qed

section \<open>Interleaved writes\<close>

text \<open>
  A gateway together with the pipe ids whose write has been dispatched and has not completed
  (a list, so that a second write to the same pipe would show). \<open>Follow\<close> takes an id that is
  not in use, \<open>Close\<close> leaves the outstanding writes to complete later.
\<close>

type_synonym gw_state = "log_gateway \<times> u64 list"

inductive gw_step :: "gw_state \<Rightarrow> gw_state \<Rightarrow> bool" where
  Push: "log_gateway_push g line = Some (h, ids) \<Longrightarrow> gw_step (g, out) (h, out @ ids)"
| Complete: "pipe_id \<in> set out \<Longrightarrow> log_gateway_complete_write g pipe_id ok = Some (h, closed) \<Longrightarrow>
    gw_step (g, out) (h, remove1 pipe_id out)"
| Follow: "pipe_id \<notin> set out \<Longrightarrow> pipe_id \<notin> pw_id ` set (lg_pipes g) \<Longrightarrow>
    gw_step (g, out) (log_gateway_add_pipe g pipe_id fd, out)"
| Close: "log_gateway_close_all_pipes g = (h, closed) \<Longrightarrow> gw_step (g, out) (h, out)"

inductive_cases gw_stepE: "gw_step s t"

definition gw_inv :: "gw_state \<Rightarrow> bool" where
  "gw_inv s \<longleftrightarrow>
     (let (g, out) = s in
      distinct out \<and> distinct (map pw_id (lg_pipes g)) \<and>
      (\<forall>p \<in> set (lg_pipes g). pw_in_flight p \<longleftrightarrow> pw_id p \<in> set out))"

lemma set_idle_ids: "set (idle_ids ps) = pw_id ` {p \<in> set ps. \<not> pw_in_flight p}"
  by (auto simp: idle_ids_def)

lemma distinct_idle_ids: "distinct (map pw_id ps) \<Longrightarrow> distinct (idle_ids ps)"
  by (simp add: idle_ids_def distinct_map_filter)

lemma swap_remove_pipes:
  assumes "swap_remove i ps = Some qs" "distinct (map pw_id ps)"
  shows "set qs = {p \<in> set ps. pw_id p \<noteq> pw_id (ps ! i)} \<and> distinct (map pw_id qs)"
proof -
  have i: "i < length ps" using assms(1) by (auto simp: swap_remove_def split: if_splits)
  have d: "distinct ps" using assms(2) by (simp add: distinct_map)
  have qs: "set qs = set ps - {ps ! i}" "distinct qs" using set_swap_remove [OF assms(1) d] by auto
  have inj: "inj_on pw_id (set ps)" using assms(2) by (simp add: distinct_map)
  have "distinct (map pw_id qs)"
    using qs inj by (auto simp: distinct_map intro: inj_on_subset)
  moreover have "{p \<in> set ps. pw_id p \<noteq> pw_id (ps ! i)} = set ps - {ps ! i}"
    using inj i by (auto simp: inj_on_def)
  ultimately show ?thesis using qs by simp
qed

text \<open>What one completed write does to the pipes.\<close>

lemma complete_write_pipes:
  assumes d: "distinct (map pw_id (lg_pipes g))"
    and ret: "log_gateway_complete_write g pipe_id ok = Some (h, closed)"
  shows "distinct (map pw_id (lg_pipes h)) \<and>
    set (lg_pipes h) =
      {p \<in> set (lg_pipes g). pw_id p \<noteq> pipe_id} \<union>
      (if ok then (\<lambda>p. p\<lparr>pw_in_flight := False\<rparr>) ` {p \<in> set (lg_pipes g). pw_id p = pipe_id} else {})"
proof (cases "position (\<lambda>p. pw_id p = pipe_id) (lg_pipes g)")
  case None
  then have "h = g" "\<forall>p \<in> set (lg_pipes g). pw_id p \<noteq> pipe_id"
    using ret None by (auto simp: log_gateway_complete_write_def position_None [symmetric])
  then show ?thesis using d by auto
next
  case (Some i)
  let ?ps = "lg_pipes g" and ?p = "lg_pipes g ! i"
  have i: "i < length ?ps" "pw_id ?p = pipe_id" using position_SomeD [OF Some] by auto
  have inj: "inj_on pw_id (set ?ps)" using d by (simp add: distinct_map)
  have only: "{p \<in> set ?ps. pw_id p = pipe_id} = {?p}"
    using i(2) nth_mem [OF i(1)] inj unfolding inj_on_def by blast
  have ids: "map pw_id (?ps[i := q]) = map pw_id ?ps" if "pw_id q = pipe_id" for q
    using that i by (metis list_update_id map_update nth_map)
  have upd: "set (?ps[i := q]) = insert q {p \<in> set ?ps. pw_id p \<noteq> pipe_id}" for q
  proof -
    have "set (?ps[i := q]) = insert q (set ?ps - {?p})"
      using i(1) d by (simp add: set_update_distinct distinct_map)
    then show ?thesis using only by blast
  qed
  show ?thesis
  proof (cases ok)
    case True
    then have "lg_pipes h = ?ps[i := ?p\<lparr>pw_in_flight := False\<rparr>]"
      using ret Some by (auto simp: log_gateway_complete_write_def pipe_writer_complete_def)
    then show ?thesis using ids upd only d i True by simp
  next
    case False
    let ?q = "?p\<lparr>pw_in_flight := False, pw_fd := -1\<rparr>"
    have sr: "swap_remove i (?ps[i := ?q]) = Some (lg_pipes h)"
      using ret Some False by (auto simp: log_gateway_complete_write_def pipe_writer_complete_def)
    have "distinct (map pw_id (?ps[i := ?q]))" using ids [of ?q] d i by simp
    from swap_remove_pipes [OF sr this] show ?thesis
      using False i upd [of ?q] by auto
  qed
qed

lemma gw_inv_step: "gw_step s t \<Longrightarrow> gw_inv s \<Longrightarrow> gw_inv t"
proof (induction rule: gw_step.induct)
  case (Push g line h ids out)
  then have h: "lg_pipes h = map (\<lambda>p. p\<lparr>pw_in_flight := True\<rparr>) (lg_pipes g)"
    and ids: "ids = idle_ids (lg_pipes g)" by (auto simp: log_gateway_push_Some)
  have "set ids \<inter> set out = {}" using Push.prems ids by (auto simp: gw_inv_def set_idle_ids)
  moreover have "distinct ids" using Push.prems ids by (simp add: gw_inv_def distinct_idle_ids)
  ultimately show ?case
    using Push.prems h ids by (auto simp: gw_inv_def set_idle_ids o_def)
next
  case (Complete pipe_id out g ok h closed)
  then have d: "distinct (map pw_id (lg_pipes g))" by (simp add: gw_inv_def)
  show ?case using complete_write_pipes [OF d Complete.hyps(2)] Complete.prems
    by (auto simp: gw_inv_def split: if_splits)
next
  case (Follow pipe_id out g fd)
  then show ?case by (auto simp: gw_inv_def log_gateway_add_pipe_def pipe_writer_new_def)
next
  case (Close g h closed out)
  then show ?case by (auto simp: gw_inv_def log_gateway_close_all_pipes_def)
qed

lemma gw_inv_reachable: "gw_step\<^sup>*\<^sup>* s t \<Longrightarrow> gw_inv s \<Longrightarrow> gw_inv t"
  by (induction rule: rtranclp_induct) (auto intro: gw_inv_step)

section \<open>Properties\<close>

text \<open>
  C27. At most one write per follower pipe is outstanding: in every state reachable from a fresh
  gateway by pushing lines, completing outstanding writes (successfully or not), adding followers
  under unused ids and closing all pipes, the outstanding writes go to pairwise different pipes,
  and a pipe of the gateway is marked in-flight exactly when its write is outstanding.
\<close>

theorem one_write_per_pipe:
  assumes "gw_step\<^sup>*\<^sup>* (log_gateway_new cap, []) (g, out)"
  shows "distinct out \<and> distinct (map pw_id (lg_pipes g)) \<and>
         (\<forall>p \<in> set (lg_pipes g). pw_in_flight p \<longleftrightarrow> pw_id p \<in> set out)"
proof -
  have "gw_inv (log_gateway_new cap, [])" by (simp add: gw_inv_def log_gateway_new_def)
  from gw_inv_reachable [OF assms this] show ?thesis by (simp add: gw_inv_def)
qed

lemma one_write_run:
  "gw_step\<^sup>*\<^sup>* (log_gateway_new 8, [])
     (log_gateway_add_pipe (log_gateway_add_pipe (log_gateway_new 8) 1 10) 2 11, [])"
proof -
  have "gw_step (log_gateway_new 8, []) (log_gateway_add_pipe (log_gateway_new 8) 1 10, [])"
    by (rule gw_step.Follow) (auto simp: log_gateway_new_def)
  moreover have "gw_step (log_gateway_add_pipe (log_gateway_new 8) 1 10, [])
      (log_gateway_add_pipe (log_gateway_add_pipe (log_gateway_new 8) 1 10) 2 11, [])"
    by (rule gw_step.Follow)
      (auto simp: log_gateway_new_def log_gateway_add_pipe_def pipe_writer_new_def)
  ultimately show ?thesis by (meson rtranclp.rtrancl_into_rtrancl rtranclp.rtrancl_refl)
qed

theorem one_write_per_pipe_witness:
  "distinct (map pw_id (lg_pipes
     (log_gateway_add_pipe (log_gateway_add_pipe (log_gateway_new 8) 1 10) 2 11)))"
  using one_write_per_pipe [OF one_write_run] by blast

text \<open>
  A line pushed while a follower's write is in flight is not sent to that follower: the ids
  \<^verbatim>\<open>push\<close> returns are exactly those of the idle pipes, so with every pipe busy the line reaches
  no follower (it is in the cache only).
\<close>

theorem busy_followers_skip_lines:
  assumes "\<forall>p \<in> set (lg_pipes g). pw_in_flight p" and "log_gateway_push g line = Some (h, ids)"
  shows "ids = [] \<and> log_cache_push (lg_cache g) line = Some (lg_cache h)"
  using assms by (auto simp: log_gateway_push_Some idle_ids_def filter_empty_conv)

lemma push_twice_run:
  "log_gateway_push
     \<lparr>lg_cache = log_cache_new 8, lg_pipes = [\<lparr>pw_id = 1, pw_fd = 10, pw_in_flight = True\<rparr>]\<rparr> [97]
   = Some (\<lparr>lg_cache = \<lparr>lc_buf = [97, 10, 0, 0, 0, 0, 0, 0], lc_start = 0, lc_end = 2, lc_bytes = 2\<rparr>,
            lg_pipes = [\<lparr>pw_id = 1, pw_fd = 10, pw_in_flight = True\<rparr>]\<rparr>, [])"
  by code_simp

theorem busy_followers_skip_lines_witness:
  "log_cache_push (log_cache_new 8) [97]
     = Some \<lparr>lc_buf = [97, 10, 0, 0, 0, 0, 0, 0], lc_start = 0, lc_end = 2, lc_bytes = 2\<rparr>"
  using busy_followers_skip_lines [OF _ push_twice_run] by simp

end
