(* ===== verification/Line_Drain.thy ===== *)
theory Line_Drain
  imports Conrt_Prelude
begin

text \<open>
  From a byte stream to log lines and back to bytes (\<^verbatim>\<open>drain_lines\<close>, \<^verbatim>\<open>split_line\<close> of
  \<^verbatim>\<open>libs/core/src/daemon.rs\<close>). The buffer pool is a parameter \<open>alloc w n\<close>: it hands out a buffer of
  \<open>n\<close> bytes, whose contents are whatever its slot last held, or panics.
\<close>

definition WRITE_CHUNK_PAYLOAD :: nat where
  "WRITE_CHUNK_PAYLOAD = 65535"

section \<open>Assembling lines\<close>

function drain_scan :: "bytes \<Rightarrow> nat \<Rightarrow> nat \<Rightarrow> nat \<Rightarrow> bytes list \<Rightarrow> nat \<times> bytes list" where
  "drain_scan buf tot i start lines =
     (if i < tot then
        (if buf ! i = NL then drain_scan buf tot (i + 1) (i + 1) (lines @ [take (i - start) (drop start buf)])
         else drain_scan buf tot (i + 1) start lines)
      else (start, lines))"
  by pat_completeness auto
termination
  by (relation "measure (\<lambda>(buf, tot, i, start, lines). tot - i)") auto

declare drain_scan.simps [simp del]

definition drain_lines :: "bytes \<Rightarrow> bytes \<Rightarrow> bytes list \<Rightarrow> bytes \<times> bytes list" where
  "drain_lines line_buf bytes lines =
     (let line_buf = line_buf @ bytes;
          tot = length line_buf;
          (start, lines) = drain_scan line_buf tot 0 0 lines
      in (if start < tot then drop start line_buf else [], lines))"

text \<open>The specification: complete lines and the unfinished rest, by recursion on the bytes.\<close>

fun lines_of :: "bytes \<Rightarrow> bytes list \<times> bytes" where
  "lines_of [] = ([], [])"
| "lines_of (b # bs) =
     (let (ls, r) = lines_of bs in
      if b = NL then ([] # ls, r)
      else (case ls of [] \<Rightarrow> ([], b # r) | l # ls \<Rightarrow> ((b # l) # ls, r)))"

lemma lines_of_join: "concat (map (\<lambda>l. l @ [NL]) (fst (lines_of bs))) @ snd (lines_of bs) = bs"
  by (induction bs) (auto simp: split_def Let_def split: list.splits)

lemma lines_of_no_nl: "NL \<notin> set (snd (lines_of bs)) \<and> (\<forall>l \<in> set (fst (lines_of bs)). NL \<notin> set l)"
  by (induction bs) (auto simp: split_def Let_def split: list.splits)

lemma lines_of_append_nonl: "NL \<notin> set xs \<Longrightarrow> lines_of xs = ([], xs)"
  by (induction xs) auto

lemma lines_of_line: "NL \<notin> set xs \<Longrightarrow> lines_of (xs @ NL # ys) = (xs # fst (lines_of ys), snd (lines_of ys))"
  by (induction xs) (auto simp: split_def Let_def)

lemma lines_of_append:
  "lines_of (xs @ ys) = (fst (lines_of xs) @ fst (lines_of (snd (lines_of xs) @ ys)), snd (lines_of (snd (lines_of xs) @ ys)))"
proof (induction "fst (lines_of xs)" arbitrary: xs)
  case Nil
  then have "snd (lines_of xs) = xs" using lines_of_join [of xs] by simp
  then show ?case using Nil by simp
next
  case (Cons l ls)
  define t where "t = concat (map (\<lambda>l. l @ [NL]) ls) @ snd (lines_of xs)"
  have xs: "xs = l @ NL # t" using lines_of_join [of xs] Cons(2) [symmetric] by (simp add: t_def)
  have l: "NL \<notin> set l" using lines_of_no_nl [of xs] Cons(2) [symmetric] by simp
  have lt: "lines_of xs = (l # fst (lines_of t), snd (lines_of t))"
    using lines_of_line [OF l, of t] xs by simp
  then have "ls = fst (lines_of t)" using Cons(2) by (metis fst_conv list.inject)
  from Cons(1) [OF this] have IH: "lines_of (t @ ys) =
      (fst (lines_of t) @ fst (lines_of (snd (lines_of t) @ ys)), snd (lines_of (snd (lines_of t) @ ys)))" .
  have "lines_of (xs @ ys) = (l # fst (lines_of (t @ ys)), snd (lines_of (t @ ys)))"
    using lines_of_line [OF l, of "t @ ys"] xs by simp
  then show ?case using IH lt by simp
qed

lemma drain_scan_spec:
  assumes "start \<le> i" "i \<le> length buf" "NL \<notin> set (take (i - start) (drop start buf))"
  shows "\<exists>st. drain_scan buf (length buf) i start lines = (st, lines @ fst (lines_of (drop start buf))) \<and>
     st \<le> length buf \<and> drop st buf = snd (lines_of (drop start buf))"
  using assms
proof (induction "length buf - i" arbitrary: i start lines)
  case 0
  then have "i = length buf" by simp
  then have "NL \<notin> set (drop start buf)" using 0 by simp
  then show ?case using 0 \<open>i = length buf\<close> by (subst drain_scan.simps) (auto simp: lines_of_append_nonl)
next
  case (Suc n)
  let ?pre = "take (i - start) (drop start buf)"
  have i: "i < length buf" using Suc(2) by simp
  have split: "drop start buf = ?pre @ buf ! i # drop (Suc i) buf"
  proof -
    have "drop start buf = ?pre @ drop i buf" using Suc.prems(1)
      by (metis append_take_drop_id drop_drop le_add_diff_inverse2)
    then show ?thesis using Cons_nth_drop_Suc [OF i] by simp
  qed
  show ?case
  proof (cases "buf ! i = NL")
    case True
    have "\<exists>st. drain_scan buf (length buf) (Suc i) (Suc i) (lines @ [?pre]) =
        (st, (lines @ [?pre]) @ fst (lines_of (drop (Suc i) buf))) \<and>
        st \<le> length buf \<and> drop st buf = snd (lines_of (drop (Suc i) buf))"
      using Suc(2) i by (intro Suc(1)) auto
    moreover have "lines_of (drop start buf) = (?pre # fst (lines_of (drop (Suc i) buf)), snd (lines_of (drop (Suc i) buf)))"
      using lines_of_line [OF Suc.prems(3), of "drop (Suc i) buf"] split True by metis
    ultimately show ?thesis using i True by (subst drain_scan.simps) simp
  next
    case False
    have "take (Suc i - start) (drop start buf) = ?pre @ [buf ! i]"
      using Suc.prems(1) i by (simp add: Suc_diff_le take_Suc_conv_app_nth)
    then have "NL \<notin> set (take (Suc i - start) (drop start buf))" using Suc.prems(3) False by simp
    then have "\<exists>st. drain_scan buf (length buf) (Suc i) start lines = (st, lines @ fst (lines_of (drop start buf))) \<and>
        st \<le> length buf \<and> drop st buf = snd (lines_of (drop start buf))"
      using Suc(2) Suc.prems(1) i by (intro Suc(1)) auto
    then show ?thesis using i False by (subst drain_scan.simps) simp
  qed
qed

lemma drain_lines_spec:
  "drain_lines buf bs lines = (snd (lines_of (buf @ bs)), lines @ fst (lines_of (buf @ bs)))"
proof -
  obtain st where "drain_scan (buf @ bs) (length (buf @ bs)) 0 0 lines = (st, lines @ fst (lines_of (buf @ bs)))"
    "st \<le> length (buf @ bs)" "drop st (buf @ bs) = snd (lines_of (buf @ bs))"
    using drain_scan_spec [of 0 0 "buf @ bs" lines] by auto
  then show ?thesis by (auto simp: drain_lines_def Let_def)
qed

fun drain_chunks :: "bytes \<Rightarrow> bytes list \<Rightarrow> bytes list \<Rightarrow> bytes \<times> bytes list" where
  "drain_chunks buf [] lines = (buf, lines)"
| "drain_chunks buf (c # cs) lines = (let (buf, lines) = drain_lines buf c lines in drain_chunks buf cs lines)"

lemma drain_chunks_spec:
  "NL \<notin> set buf \<Longrightarrow>
   drain_chunks buf cs lines = (snd (lines_of (buf @ concat cs)), lines @ fst (lines_of (buf @ concat cs)))"
proof (induction cs arbitrary: buf lines)
  case Nil
  then show ?case by (simp add: lines_of_append_nonl)
next
  case (Cons c cs)
  have "NL \<notin> set (snd (lines_of (buf @ c)))" using lines_of_no_nl by blast
  from Cons.IH [OF this, of "lines @ fst (lines_of (buf @ c))"] show ?case
    using lines_of_append [of "buf @ c" "concat cs"] by (simp add: drain_lines_spec)
qed

text \<open>
  Line assembly. However the output of a container is cut into reads, draining the reads one
  after the other, each with the partial line the one before left, yields the lines of the
  whole output: the lines contain no newline, and joining them with newlines and appending the
  leftover gives back exactly the bytes read.
\<close>

theorem drain_lines_reassemble:
  "case drain_chunks [] chunks [] of (rest, lines) \<Rightarrow>
     concat (map (\<lambda>l. l @ [NL]) lines) @ rest = concat chunks \<and> NL \<notin> set rest \<and>
     list_all (\<lambda>l. NL \<notin> set l) lines"
  using drain_chunks_spec [of "[]" chunks "[]"] lines_of_join [of "concat chunks"] lines_of_no_nl [of "concat chunks"]
  by (simp add: list_all_iff)

section \<open>Cutting a line into write buffers\<close>

function split_loop :: "('w \<Rightarrow> nat \<Rightarrow> ('w \<times> bytes) option) \<Rightarrow> 'w \<Rightarrow> bytes \<Rightarrow> bytes list \<Rightarrow> ('w \<times> bytes list) option" where
  "split_loop alloc w rest chunks =
     (let take_n = min (length rest) WRITE_CHUNK_PAYLOAD;
          last = (take_n = length rest)
      in case alloc w (take_n + 1) of
           None \<Rightarrow> None
         | Some (w, stale) \<Rightarrow>
             (let buf = take take_n rest @ drop take_n (take (take_n + 1) stale);
                  buf = (if last then buf[take_n := NL] else buf);
                  chunks = chunks @ [buf]
              in if last then Some (w, chunks) else split_loop alloc w (drop take_n rest) chunks))"
  by pat_completeness auto
termination
  by (relation "measure (\<lambda>(alloc, w, rest, chunks). length rest)") (auto simp: WRITE_CHUNK_PAYLOAD_def min_def)

declare split_loop.simps [simp del]

definition split_line :: "('w \<Rightarrow> nat \<Rightarrow> ('w \<times> bytes) option) \<Rightarrow> 'w \<Rightarrow> bytes \<Rightarrow> ('w \<times> bytes list) option" where
  "split_line alloc w line = split_loop alloc w line []"

text \<open>What the pool promises: a buffer has the length that was asked for.\<close>

definition pool_sized :: "('w \<Rightarrow> nat \<Rightarrow> ('w \<times> bytes) option) \<Rightarrow> bool" where
  "pool_sized alloc \<longleftrightarrow> (\<forall>w n w' b. alloc w n = Some (w', b) \<longrightarrow> length b = n)"

lemma split_loop_step:
  "split_loop alloc w rest chunks = Some (w', cs) \<Longrightarrow> n = min (length rest) WRITE_CHUNK_PAYLOAD \<Longrightarrow>
   \<exists>w1 st. alloc w (Suc n) = Some (w1, st) \<and>
     (if n = length rest then w' = w1 \<and> cs = chunks @ [(rest @ drop n (take (Suc n) st))[n := NL]]
      else split_loop alloc w1 (drop n rest) (chunks @ [take n rest @ drop n (take (Suc n) st)]) = Some (w', cs))"
  by (subst (asm) split_loop.simps) (auto simp: Let_def split: option.splits if_splits)

lemma split_loop_lengths:
  assumes sized: "pool_sized alloc" and ret: "split_loop alloc w rest chunks = Some (w', cs)"
  shows "length (concat cs) = length (concat chunks) + length rest + (length cs - length chunks) \<and>
    length chunks < length cs \<and> (WRITE_CHUNK_PAYLOAD < length rest \<longrightarrow> Suc (length chunks) < length cs)"
  using ret
proof (induction "length rest" arbitrary: w rest chunks rule: less_induct)
  case less
  define n where "n = min (length rest) WRITE_CHUNK_PAYLOAD"
  obtain w1 st where st: "alloc w (Suc n) = Some (w1, st)"
    and br: "if n = length rest then w' = w1 \<and> cs = chunks @ [(rest @ drop n (take (Suc n) st))[n := NL]]
      else split_loop alloc w1 (drop n rest) (chunks @ [take n rest @ drop n (take (Suc n) st)]) = Some (w', cs)"
    using split_loop_step [OF less.prems n_def] by blast
  have lst: "length st = Suc n" using st sized by (auto simp: pool_sized_def)
  show ?case
  proof (cases "n = length rest")
    case True
    then show ?thesis using br lst n_def by auto
  next
    case False
    then have n: "n = WRITE_CHUNK_PAYLOAD" "n < length rest" using n_def by auto
    let ?b = "take n rest @ drop n (take (Suc n) st)"
    have lb: "length ?b = Suc n" using lst n by simp
    have dec: "length (drop n rest) < length rest" using n by (simp add: WRITE_CHUNK_PAYLOAD_def)
    have rec: "split_loop alloc w1 (drop n rest) (chunks @ [?b]) = Some (w', cs)" using br False by simp
    from less.hyps [OF dec rec] show ?thesis using lb n by auto
  qed
qed

text \<open>
  A line that fits one buffer is written as one chunk: the line and a newline.
\<close>

theorem split_line_short:
  assumes "pool_sized alloc" "length line \<le> WRITE_CHUNK_PAYLOAD" "split_line alloc w line = Some (w', chunks)"
  shows "chunks = [line @ [NL]]"
proof -
  obtain st where "alloc w (Suc (length line)) = Some (w', st)"
    and c: "chunks = [(line @ drop (length line) (take (Suc (length line)) st))[length line := NL]]"
    using split_loop_step [OF assms(3) [unfolded split_line_def], of "length line"] assms(2) by auto
  then have "length st = Suc (length line)" using assms(1) by (auto simp: pool_sized_def)
  then have l: "length (drop (length line) st) = 1" "take (Suc (length line)) st = st" by simp_all
  then obtain b where "drop (length line) st = [b]" by (cases "drop (length line) st") auto
  then show ?thesis using c l(2) by (simp add: list_update_append)
qed

text \<open>A pool whose slots still hold the letter x.\<close>

definition stale_pool :: "unit \<Rightarrow> nat \<Rightarrow> (unit \<times> bytes) option" where
  "stale_pool w n = Some ((), replicate n 120)"

lemma stale_pool_sized: "pool_sized stale_pool"
  by (auto simp: pool_sized_def stale_pool_def)

lemma stale_split: "split_line stale_pool () [97, 98] = Some ((), [[97, 98, 10]])"
  unfolding split_line_def
  by (subst split_loop.simps) (simp add: stale_pool_def WRITE_CHUNK_PAYLOAD_def Let_def)

theorem split_line_short_witness: "[[97, 98, 10]] = [[97, 98] @ [NL :: byte]]"
  by (rule split_line_short [OF stale_pool_sized _ stale_split]) (simp add: WRITE_CHUNK_PAYLOAD_def)

text \<open>
  A line longer than one buffer is not delivered as it is: every buffer but the last is one byte
  too long, so the chunks together carry one stray byte of old buffer contents per extra buffer, and
  the bytes written are more than the line and its newline.
\<close>

theorem split_line_long_stray_bytes:
  assumes "pool_sized alloc" "WRITE_CHUNK_PAYLOAD < length line" "split_line alloc w line = Some (w', chunks)"
  shows "length (concat chunks) = length line + length chunks \<and> 1 < length chunks \<and>
     length (line @ [NL]) < length (concat chunks)"
  using split_loop_lengths [OF assms(1) assms(3) [unfolded split_line_def]] assms(2) by auto

definition long_line :: bytes where
  "long_line = replicate (Suc WRITE_CHUNK_PAYLOAD) 97"

definition long_chunks :: "bytes list" where
  "long_chunks = [replicate WRITE_CHUNK_PAYLOAD 97 @ [120], [97, 10]]"

lemma long_line_split: "split_line stale_pool () long_line = Some ((), long_chunks)"
proof -
  have pos: "0 < WRITE_CHUNK_PAYLOAD" by (simp add: WRITE_CHUNK_PAYLOAD_def)
  have one: "split_loop stale_pool () [97] cs = Some ((), cs @ [[97, 10]])" for cs
    using pos by (subst split_loop.simps) (simp add: stale_pool_def Let_def min_def Suc_leI)
  have "split_loop stale_pool () long_line [] = split_loop stale_pool () [97] [replicate WRITE_CHUNK_PAYLOAD 97 @ [120]]"
    unfolding long_line_def
    by (subst split_loop.simps) (simp add: stale_pool_def Let_def min_def drop_replicate take_replicate del: replicate_Suc, simp)
  then show ?thesis by (simp add: split_line_def one long_chunks_def)
qed

theorem split_line_long_stray_bytes_witness:
  "length (concat long_chunks) = length long_line + length long_chunks \<and> 1 < length long_chunks \<and>
   length (long_line @ [NL]) < length (concat long_chunks)"
  by (rule split_line_long_stray_bytes [OF stale_pool_sized _ long_line_split]) (simp add: long_line_def)

end
