(* ===== verification/Frame_Codec.thy ===== *)
theory Frame_Codec
  imports Conrt_Prelude
begin

text \<open>
  The framing of the attach protocol (\<^verbatim>\<open>libs/core/src/lib.rs\<close>): a type byte, a little-endian
  16-bit length, the payload. The stream is a parameter: \<open>rd s n\<close> is \<^verbatim>\<open>read(fd, buf)\<close> with a buffer
  of \<open>n\<close> bytes, and returns at most \<open>n\<close> bytes; \<open>wr s b\<close> is \<^verbatim>\<open>write(fd, b)\<close> and returns the number of
  bytes written.
\<close>

section \<open>The operations\<close>

definition build_frame :: "u8 \<Rightarrow> bytes \<Rightarrow> bytes" where
  "build_frame ty payload = [ty] @ u16_to_le_bytes (length payload) @ payload"

definition send_frame :: "('s \<Rightarrow> bytes \<Rightarrow> 's \<times> nat io_result) \<Rightarrow> 's \<Rightarrow> u8 \<Rightarrow> bytes \<Rightarrow> 's \<times> unit io_result" where
  "send_frame wr s ty payload =
     (let frame = build_frame ty payload in
      case wr s frame of
        (s, Inl e) \<Rightarrow> (s, Inl e)
      | (s, Inr written) \<Rightarrow> if written \<noteq> length frame then (s, Inl WriteZero) else (s, Inr ()))"

text \<open>
  The loop that fills a buffer of \<open>len\<close> bytes, \<open>acc\<close> being what is there already. A read never
  returns more than was asked for.
\<close>

function read_exact_loop ::
  "('s \<Rightarrow> nat \<Rightarrow> 's \<times> bytes io_result) \<Rightarrow> 's \<Rightarrow> bytes \<Rightarrow> nat \<Rightarrow> 's \<times> bytes io_result"
where
  "read_exact_loop rd s acc len =
     (if length acc < len then
        (case rd s (len - length acc) of
           (s, Inl e) \<Rightarrow> (s, Inl e)
         | (s, Inr chunk) \<Rightarrow>
             if chunk = [] then (s, Inl UnexpectedEof)
             else read_exact_loop rd s (acc @ take (len - length acc) chunk) len)
      else (s, Inr acc))"
  by pat_completeness auto
termination
  by (relation "measure (\<lambda>(rd, s, acc, len). len - length acc)") (auto simp: min_def intro: diff_less_mono2)

declare read_exact_loop.simps [simp del]

definition read_frame ::
  "('s \<Rightarrow> nat \<Rightarrow> 's \<times> bytes io_result) \<Rightarrow> 's \<Rightarrow> 's \<times> (u8 \<times> bytes) io_result"
where
  "read_frame rd s =
     (case read_exact_loop rd s [] 3 of
        (s, Inl e) \<Rightarrow> (s, Inl e)
      | (s, Inr header) \<Rightarrow>
          (let ty = header ! 0; len = u16_from_le_bytes (header ! 1) (header ! 2) in
           if len = 0 then (s, Inr (ty, []))
           else (case read_exact_loop rd s [] len of
                   (s, Inl e) \<Rightarrow> (s, Inl e)
                 | (s, Inr buf) \<Rightarrow> (s, Inr (ty, buf)))))"

section \<open>Streams\<close>

text \<open>
  What a connected stream socket does: a read returns a non-empty prefix of what is to come, at
  most as long as asked for, unless nothing is left, and leaves the rest.
\<close>

definition stream_reader :: "('s \<Rightarrow> nat \<Rightarrow> 's \<times> bytes io_result) \<Rightarrow> ('s \<Rightarrow> bytes) \<Rightarrow> bool" where
  "stream_reader rd content \<longleftrightarrow>
     (\<forall>s n. 0 < n \<and> content s \<noteq> [] \<longrightarrow>
        (\<exists>s' k. 0 < k \<and> k \<le> n \<and> k \<le> length (content s) \<and>
           rd s n = (s', Inr (take k (content s))) \<and> content s' = drop k (content s)))"

lemma stream_readerD:
  assumes "stream_reader rd content" "0 < n" "content s \<noteq> []"
  obtains s' k where "0 < k" "k \<le> n" "k \<le> length (content s)"
    "rd s n = (s', Inr (take k (content s)))" "content s' = drop k (content s)"
  using assms unfolding stream_reader_def by metis

lemma read_exact_stream:
  assumes str: "stream_reader rd content"
  shows "length acc \<le> len \<Longrightarrow> len - length acc \<le> length (content s) \<Longrightarrow>
    \<exists>s'. read_exact_loop rd s acc len = (s', Inr (acc @ take (len - length acc) (content s))) \<and>
         content s' = drop (len - length acc) (content s)"
proof (induction "len - length acc" arbitrary: s acc rule: less_induct)
  case less
  show ?case
  proof (cases "length acc < len")
    case False
    then show ?thesis using less.prems by (subst read_exact_loop.simps) auto
  next
    case True
    let ?n = "len - length acc"
    have "content s \<noteq> []" using True less.prems(2) by auto
    then obtain s1 k where k: "0 < k" "k \<le> ?n" "k \<le> length (content s)"
      "rd s ?n = (s1, Inr (take k (content s)))" "content s1 = drop k (content s)"
      using stream_readerD [OF str, of ?n s] True by (metis zero_less_diff)
    let ?acc = "acc @ take k (content s)"
    have la: "length ?acc = length acc + k" using k(3) by simp
    have step: "read_exact_loop rd s acc len = read_exact_loop rd s1 ?acc len"
      using True k by (subst read_exact_loop.simps) (auto simp: min_def)
    have "\<exists>s'. read_exact_loop rd s1 ?acc len = (s', Inr (?acc @ take (len - length ?acc) (content s1))) \<and>
         content s' = drop (len - length ?acc) (content s1)"
      using less.hyps [of ?acc s1] la k less.prems True by (simp add: algebra_simps)
    moreover have "take k (content s) @ take (len - (length acc + k)) (drop k (content s)) = take ?n (content s)"
      using k(2) by (metis Nat.diff_diff_right add.commute diff_diff_left le_add_diff_inverse take_add)
    moreover have "k + (len - (length acc + k)) = ?n" using k(2) by simp
    ultimately show ?thesis using step la k(5) by (simp add: ac_simps)
  qed
qed

lemma take_append_frame: "length h = n \<Longrightarrow> take n (h @ t) = h" "length h = n \<Longrightarrow> drop n (h @ t) = t"
  by auto

lemma read_frame_stream:
  assumes "stream_reader rd content" "content s = build_frame ty payload @ rest" "length payload < 65536"
  shows "\<exists>s'. read_frame rd s = (s', Inr (ty, payload)) \<and> content s' = rest"
proof -
  let ?h = "[ty] @ u16_to_le_bytes (length payload)"
  have c: "content s = ?h @ payload @ rest" using assms(2) by (simp add: build_frame_def)
  obtain s1 where s1: "read_exact_loop rd s [] 3 = (s1, Inr ?h)" "content s1 = payload @ rest"
    using read_exact_stream [OF assms(1), of "[]" 3 s] c by auto
  have len: "u16_from_le_bytes (?h ! 1) (?h ! 2) = length payload"
    using u16_le_bytes_roundtrip [of "length payload"] assms(3) by simp
  show ?thesis
  proof (cases "payload = []")
    case True
    then show ?thesis using s1 len by (simp add: read_frame_def)
  next
    case False
    obtain s2 where s2: "read_exact_loop rd s1 [] (length payload) = (s2, Inr payload)" "content s2 = rest"
      using read_exact_stream [OF assms(1), of "[]" "length payload" s1] s1(2) by auto
    then show ?thesis using s1 len False by (simp add: read_frame_def)
  qed
qed

text \<open>
  Framing round-trips. Whatever the sizes of the pieces in which the stream delivers them,
  reading a frame from a stream that starts with a frame built from a payload of fewer than 65536
  bytes returns its type and payload and leaves exactly the bytes that follow it.
\<close>

theorem read_frame_roundtrip:
  assumes "stream_reader rd content" "content s = build_frame ty payload @ rest" "length payload < 65536"
  shows "\<exists>s'. read_frame rd s = (s', Inr (ty, payload)) \<and> content s' = rest"
  by (rule read_frame_stream [OF assms])

text \<open>A stream that delivers two bytes at a time at most.\<close>

definition dribble :: "bytes \<Rightarrow> nat \<Rightarrow> bytes \<times> bytes io_result" where
  "dribble s n = (drop (min 2 n) s, Inr (take (min 2 n) s))"

lemma dribble_stream: "stream_reader dribble (\<lambda>s. s)"
  unfolding stream_reader_def
proof (intro allI impI)
  fix s :: bytes and n :: nat assume a: "0 < n \<and> s \<noteq> []"
  then show "\<exists>s' k. 0 < k \<and> k \<le> n \<and> k \<le> length s \<and> dribble s n = (s', Inr (take k s)) \<and> s' = drop k s"
    by (cases "min 2 n \<le> length s"; intro exI [of _ "drop (min 2 n) s"] exI [of _ "min (min 2 n) (length s)"])
      (auto simp: dribble_def Suc_leI min_def split: if_splits)
qed

theorem read_frame_roundtrip_witness:
  "\<exists>s'. read_frame dribble (build_frame 16 [1, 2, 3, 4] @ [9, 9]) = (s', Inr (16, [1, 2, 3, 4])) \<and> s' = [9, 9]"
  by (rule read_frame_roundtrip [OF dribble_stream]) simp_all

text \<open>
  A payload of 65536 bytes or more is not framed faithfully: the length field is truncated to
  16 bits, so the frame's reader gets only the payload's first \<open>length payload mod 65536\<close> bytes, and
  the rest of the payload stays in the stream where the next frame should start.
\<close>

theorem long_payload_truncated:
  assumes "stream_reader rd content" "content s = build_frame ty payload @ rest" "65536 \<le> length payload"
  shows "\<exists>s' p t. read_frame rd s = (s', Inr (ty, p)) \<and> length p = length payload mod 65536 \<and>
     payload = p @ t \<and> t \<noteq> [] \<and> content s' = t @ rest"
proof -
  let ?h = "[ty] @ u16_to_le_bytes (length payload)" and ?n = "length payload mod 65536"
  have c: "content s = ?h @ payload @ rest" using assms(2) by (simp add: build_frame_def)
  obtain s1 where s1: "read_exact_loop rd s [] 3 = (s1, Inr ?h)" "content s1 = payload @ rest"
    using read_exact_stream [OF assms(1), of "[]" 3 s] c by auto
  have len: "u16_from_le_bytes (?h ! 1) (?h ! 2) = ?n"
    using u16_le_bytes_roundtrip [of "length payload"] by simp
  have lt: "?n < length payload" using assms(3) mod_less_divisor [of 65536 "length payload"] by linarith
  obtain s2 where s2: "read_exact_loop rd s1 [] ?n = (s2, Inr (take ?n payload))"
    "content s2 = drop ?n payload @ rest"
    using read_exact_stream [OF assms(1), of "[]" ?n s1] s1(2) lt by auto
  have "\<exists>s'. read_frame rd s = (s', Inr (ty, take ?n payload)) \<and> content s' = drop ?n payload @ rest"
  proof (cases "?n = 0")
    case True
    then show ?thesis using s1 len by (simp add: read_frame_def)
  next
    case False
    then show ?thesis using s1 s2 len by (simp add: read_frame_def)
  qed
  then obtain s' where s': "read_frame rd s = (s', Inr (ty, take ?n payload))" "content s' = drop ?n payload @ rest"
    by blast
  have "length (take ?n payload) = ?n" "payload = take ?n payload @ drop ?n payload" "drop ?n payload \<noteq> []"
    using lt by (auto simp: min_def)
  with s' show ?thesis by blast
qed

theorem long_payload_truncated_witness:
  "\<exists>s' p t. read_frame dribble (build_frame 16 (replicate 65540 7)) = (s', Inr (16, p)) \<and>
     length p = 65540 mod 65536 \<and> replicate 65540 7 = p @ t \<and> t \<noteq> [] \<and> s' = t @ []"
  using long_payload_truncated [OF dribble_stream, of "build_frame 16 (replicate 65540 7)" 16 "replicate 65540 7" "[]"]
  by simp

end
