(* ===== verification/Daemon_State.thy ===== *)
theory Daemon_State
  imports Log_Gateway Line_Drain Frame_Codec "HOL-Library.AList"
begin

text \<open>
  The daemon's data (\<^verbatim>\<open>libs/core/src/daemon.rs\<close>): the protocol types, the locals its operations
  carry, containers, attach sessions and the shared state, and the primitives its handlers are
  built from.

  \<^item> The kernel, the memory of the buffer pool, the JSON library and the runtime's backend are the
    record \<open>kernel\<close> over a world \<open>'w\<close>, an argument of every definition that uses it.
  \<^item> The runtime is seen through its contract: a submitted operation becomes an entry of \<open>d_ops\<close>
    with its request, local and callback, until its completion is delivered.
  \<^item> A \<^verbatim>\<open>HashMap\<close> is an association list with distinct keys. The order in which the source
    iterates over a map is unspecified; the model's order is that of the list.
  \<^item> Messages are kept as data: a text and the values formatted into it.
  \<^item> \<open>d_trace\<close> is a ghost field: the visible effects, in order.
\<close>

section \<open>Protocol\<close>

type_synonym sockaddr = bytes
type_synonym cstring = bytes
type_synonym path = bytes

datatype message = Text string | ErrText string io_error | PidText string pid | Prefixed string message

record run_request =
  rq_rootfs :: "path option"
  rq_net_pid :: "pid option"
  rq_save :: bool
  rq_command :: "cstring list"
  rq_interactive :: "bool option"
  rq_tty :: "bool option"
  rq_no_init :: bool
  rq_init_path :: "path option"

datatype request = Run run_request | ReqList | Kill pid | Logs pid bool | Attach pid

record container_summary =
  sm_pid :: pid
  sm_command :: bytes
  sm_age :: nat

datatype response =
    RunResponse bool "pid option" "message option"
  | ListResponse "container_summary list"
  | KillResponse bool "message option"
  | LogsResponse "bytes list"
  | ErrorResponse bool message

record run_args =
  ra_rootfs :: "path option"
  ra_net_pid :: "pid option"
  ra_save :: bool
  ra_command :: "cstring list"
  ra_tty :: bool
  ra_interactive :: bool
  ra_no_init :: bool
  ra_init_path :: "path option"

section \<open>Operation locals\<close>

datatype op_local =
    LDatagram
  | LDatagramPeek
  | LFollowSend fd
  | LAccept
  | LSigchld
  | LContainerOutput pid bytes
  | LContainerPtyOutput pid bytes
  | LFollowWrite pid u64 fd "bytes list"
  | LSessionHeader nat bytes
  | LSessionPayload nat u8 bytes nat
  | LSessionFrame nat fd bytes nat
  | LSessionDataHeader nat fd bytes bytes nat
  | LSessionDataPayload nat fd bytes nat
  | LSessionOutputRead nat
  | LSessionStdin nat bytes nat
  | LCancelled

datatype callback =
    On_datagram | On_datagram_peek | On_follow_send | On_accept | On_sigchld | On_container_output
  | On_container_pty_output | On_follow_write | On_session_header | On_session_payload
  | On_session_frame | On_session_data_header | On_session_data_payload | On_session_output
  | On_session_stdin

datatype io_request =
    ReadProvided fd nat
  | WriteFixed fd bytes
  | RecvMsg fd bool
  | SendMsg fd
  | AcceptOn fd

record pending =
  po_req :: io_request
  po_local :: op_local
  po_cb :: callback
  po_cancel :: bool

section \<open>Containers, sessions, state\<close>

definition LOG_CAPACITY :: nat where
  "LOG_CAPACITY = 65536"

record container_info =
  ci_pid :: pid
  ci_command :: bytes
  ci_overlay_dir :: "path option"
  ci_save :: bool
  ci_start_time :: nat
  ci_gateway :: log_gateway
  ci_stdin_fd :: fd
  ci_ptm_fd :: fd
  ci_death_pipe_write :: fd
  ci_drains_pending :: nat

record attach_session =
  as_stream_fd :: fd
  as_ptm_fd :: fd
  as_input_fd :: fd
  as_log_read_fd :: fd
  as_container_pid :: pid
  as_child_exited :: bool
  as_exit_code :: "int option"
  as_drain_done :: bool
  as_exit_sent :: bool
  as_read_op :: "nat option"
  as_output_op :: "nat option"

datatype event =
    Closed fd
  | Armed nat io_request
  | Refused io_request
  | CancelAsked nat
  | Replied sockaddr response
  | FrameNow fd bytes
  | Killed pid
  | OverlayCleaned path
  | Resized fd u16 u16
  | ExitFrame nat

record 'w daemon =
  d_datagram_fd :: fd
  d_attach_listener_fd :: fd
  d_sigchld_fd :: fd
  d_containers :: "(pid \<times> container_info) list"
  d_outputs :: "(pid \<times> fd) list"
  d_log_graveyard :: "(pid \<times> log_cache) list"
  d_next_pipe_id :: u64
  d_sessions :: "(nat \<times> attach_session) list"
  d_next_session_id :: nat
  d_ops :: "(nat \<times> pending) list"
  d_next_op :: nat
  d_world :: 'w
  d_trace :: "event list"

definition daemon_state_new :: "'w \<Rightarrow> 'w daemon" where
  "daemon_state_new w =
     \<lparr>d_datagram_fd = -1, d_attach_listener_fd = -1, d_sigchld_fd = -1, d_containers = [], d_outputs = [],
      d_log_graveyard = [], d_next_pipe_id = 0, d_sessions = [], d_next_session_id = 0, d_ops = [],
      d_next_op = 1, d_world = w, d_trace = []\<rparr>"

section \<open>The kernel\<close>

record 'w kernel =
  k_arm :: "'w \<Rightarrow> io_request \<Rightarrow> 'w \<times> unit io_result"
  k_cancel :: "'w \<Rightarrow> nat \<Rightarrow> 'w \<times> bool"
  k_alloc :: "'w \<Rightarrow> nat \<Rightarrow> ('w \<times> bytes) option"
  k_close :: "'w \<Rightarrow> fd \<Rightarrow> 'w"
  k_write :: "'w \<Rightarrow> fd \<Rightarrow> bytes \<Rightarrow> 'w \<times> nat io_result"
  k_sendto :: "'w \<Rightarrow> fd \<Rightarrow> sockaddr \<Rightarrow> bytes \<Rightarrow> 'w \<times> nat io_result"
  k_pipe2 :: "'w \<Rightarrow> 'w \<times> (fd \<times> fd) io_result"
  k_open_pty :: "'w \<Rightarrow> 'w \<times> (fd \<times> fd) io_result"
  k_clone3 :: "'w \<Rightarrow> u64 \<Rightarrow> 'w \<times> pid io_result"
  k_wait4 :: "'w \<Rightarrow> 'w \<times> (pid \<times> int) io_result"
  k_kill :: "'w \<Rightarrow> pid \<Rightarrow> int \<Rightarrow> 'w \<times> unit io_result"
  k_now :: "'w \<Rightarrow> 'w \<times> nat"
  k_canonicalize :: "'w \<Rightarrow> path \<Rightarrow> 'w \<times> path io_result"
  k_tempdir :: "'w \<Rightarrow> 'w \<times> path io_result"
  k_remove_tree :: "'w \<Rightarrow> path \<Rightarrow> 'w"
  k_open_ns :: "'w \<Rightarrow> pid \<Rightarrow> string \<Rightarrow> 'w \<times> fd io_result"
  k_setns :: "'w \<Rightarrow> fd \<Rightarrow> u64 \<Rightarrow> 'w \<times> unit io_result"
  k_write_file :: "'w \<Rightarrow> pid \<Rightarrow> string \<Rightarrow> 'w \<times> unit io_result"
  k_ioctl_winsize :: "'w \<Rightarrow> fd \<Rightarrow> u16 \<Rightarrow> u16 \<Rightarrow> 'w"
  k_json :: "response \<Rightarrow> bytes"
  k_exit_json :: "int \<Rightarrow> bytes"
  k_parse_request :: "bytes \<Rightarrow> request option"
  k_parse_winsize :: "bytes \<Rightarrow> (u16 \<times> u16) option"
  k_lossy :: "bytes \<Rightarrow> bytes"

section \<open>Primitives\<close>

definition emit :: "event \<Rightarrow> 'w daemon \<Rightarrow> 'w daemon" where
  "emit e d = d\<lparr>d_trace := d_trace d @ [e]\<rparr>"

definition close_fd :: "'w kernel \<Rightarrow> 'w daemon \<Rightarrow> fd \<Rightarrow> 'w daemon" where
  "close_fd k d fd = emit (Closed fd) (d\<lparr>d_world := k_close k (d_world d) fd\<rparr>)"

definition close_fds :: "'w kernel \<Rightarrow> 'w daemon \<Rightarrow> fd list \<Rightarrow> 'w daemon" where
  "close_fds k d fds = foldl (close_fd k) d fds"

text \<open>\<^verbatim>\<open>if fd >= 0 { close(fd) }\<close>.\<close>

definition close_if_open :: "'w kernel \<Rightarrow> 'w daemon \<Rightarrow> fd \<Rightarrow> 'w daemon" where
  "close_if_open k d fd = (if 0 \<le> fd then close_fd k d fd else d)"

text \<open>\<^verbatim>\<open>pool_alloc(size)\<close> followed by \<^verbatim>\<open>set_len(size)\<close>; the contents are what the slot last held.\<close>

definition pool_alloc :: "'w kernel \<Rightarrow> 'w daemon \<Rightarrow> nat \<Rightarrow> ('w daemon \<times> bytes) option" where
  "pool_alloc k d n =
     map_option (\<lambda>(w, b). (d\<lparr>d_world := w\<rparr>, b)) (k_alloc k (d_world d) n)"

text \<open>An operation of the runtime: on success it is in flight and its handle is returned.\<close>

definition submit ::
  "'w kernel \<Rightarrow> 'w daemon \<Rightarrow> io_request \<Rightarrow> op_local \<Rightarrow> callback \<Rightarrow> 'w daemon \<times> nat option"
where
  "submit k d req local cb =
     (let (w, r) = k_arm k (d_world d) req;
          i = d_next_op d;
          d = d\<lparr>d_world := w, d_next_op := i + 1\<rparr>
      in case r of
           Inr _ \<Rightarrow> (emit (Armed i req) (d\<lparr>d_ops := d_ops d @ [(i, \<lparr>po_req = req, po_local = local, po_cb = cb, po_cancel = False\<rparr>)]\<rparr>), Some i)
         | Inl _ \<Rightarrow> (emit (Refused req) d, None))"

definition cancel_op :: "'w kernel \<Rightarrow> 'w daemon \<Rightarrow> nat \<Rightarrow> 'w daemon" where
  "cancel_op k d i =
     (case map_of (d_ops d) i of
        None \<Rightarrow> d
      | Some p \<Rightarrow>
          (if po_cancel p then d
           else let (w, ok) = k_cancel k (d_world d) i; d = emit (CancelAsked i) (d\<lparr>d_world := w\<rparr>) in
             if ok then d\<lparr>d_ops := AList.map_entry i (\<lambda>p. p\<lparr>po_cancel := True\<rparr>) (d_ops d)\<rparr> else d))"

definition get_container :: "'w daemon \<Rightarrow> pid \<Rightarrow> container_info option" where
  "get_container d pid = map_of (d_containers d) pid"

definition upd_container :: "'w daemon \<Rightarrow> pid \<Rightarrow> (container_info \<Rightarrow> container_info) \<Rightarrow> 'w daemon" where
  "upd_container d pid f = d\<lparr>d_containers := AList.map_entry pid f (d_containers d)\<rparr>"

definition get_session :: "'w daemon \<Rightarrow> nat \<Rightarrow> attach_session option" where
  "get_session d sid = map_of (d_sessions d) sid"

definition upd_session :: "'w daemon \<Rightarrow> nat \<Rightarrow> (attach_session \<Rightarrow> attach_session) \<Rightarrow> 'w daemon" where
  "upd_session d sid f = d\<lparr>d_sessions := AList.map_entry sid f (d_sessions d)\<rparr>"

definition reply_datagram :: "'w kernel \<Rightarrow> 'w daemon \<Rightarrow> sockaddr \<Rightarrow> response \<Rightarrow> 'w daemon" where
  "reply_datagram k d sender resp =
     (let data = k_json k resp;
          (w, r) = k_sendto k (d_world d) (d_datagram_fd d) sender data
      in emit (Replied sender resp) (d\<lparr>d_world := w\<rparr>))"

text \<open>\<^verbatim>\<open>WIFEXITED\<close>, \<^verbatim>\<open>WEXITSTATUS\<close>, \<^verbatim>\<open>WIFSIGNALED\<close>, \<^verbatim>\<open>WTERMSIG\<close> of the C library.\<close>

definition wtermsig :: "int \<Rightarrow> int" where
  "wtermsig status = status mod 128"

definition wexitstatus :: "int \<Rightarrow> int" where
  "wexitstatus status = status div 256 mod 256"

definition wifsignaled :: "int \<Rightarrow> bool" where
  "wifsignaled status \<longleftrightarrow> wtermsig status \<noteq> 0 \<and> wtermsig status \<noteq> 127"

text \<open>The exit code the reaper and the built-in init compute from a wait status.\<close>

definition exit_code_of :: "int \<Rightarrow> int" where
  "exit_code_of status =
     (if wtermsig status = 0 then wexitstatus status
      else if wifsignaled status then 128 + wtermsig status
      else 1)"

end
