(* ===== verification/Daemon_Sessions.thy ===== *)
theory Daemon_Sessions
  imports Daemon_State
begin

text \<open>
  Attach sessions (\<^verbatim>\<open>libs/core/src/daemon.rs\<close>): accepting a client, closing a session, writing
  frames to its stream, feeding its client's input to the container, draining the container's output
  into data frames, and the exit handshake. A callback takes its local and the operation's result; a
  local of another kind makes it return at once, as in the source.
\<close>

section \<open>Lookups\<close>

datatype session_op = SRead | SOutput

definition store_session_op :: "'w daemon \<Rightarrow> nat \<Rightarrow> session_op \<Rightarrow> nat option \<Rightarrow> 'w daemon" where
  "store_session_op d sid which op =
     upd_session d sid (\<lambda>s. case which of SRead \<Rightarrow> s\<lparr>as_read_op := op\<rparr> | SOutput \<Rightarrow> s\<lparr>as_output_op := op\<rparr>)"

definition session_is_exit :: "'w daemon \<Rightarrow> nat \<Rightarrow> bool" where
  "session_is_exit d sid = (case get_session d sid of None \<Rightarrow> False | Some s \<Rightarrow> as_exit_sent s)"

definition session_stream_fd :: "'w daemon \<Rightarrow> nat \<Rightarrow> fd option" where
  "session_stream_fd d sid =
     (case get_session d sid of None \<Rightarrow> None | Some s \<Rightarrow> if 0 \<le> as_stream_fd s then Some (as_stream_fd s) else None)"

text \<open>\<^verbatim>\<open>.map(|s| s.stream_fd).unwrap_or(-1)\<close>.\<close>

definition stream_fd_or :: "'w daemon \<Rightarrow> nat \<Rightarrow> fd" where
  "stream_fd_or d sid = (case get_session d sid of None \<Rightarrow> -1 | Some s \<Rightarrow> as_stream_fd s)"

text \<open>Where client input goes: the pty master, else the input pipe.\<close>

definition session_input_fd :: "'w daemon \<Rightarrow> nat \<Rightarrow> fd" where
  "session_input_fd d sid =
     (case get_session d sid of
        None \<Rightarrow> -1
      | Some s \<Rightarrow> if 0 \<le> as_ptm_fd s then as_ptm_fd s else as_input_fd s)"

section \<open>Closing\<close>

definition close_session :: "'w kernel \<Rightarrow> 'w daemon \<Rightarrow> nat \<Rightarrow> 'w daemon" where
  "close_session k d sid =
     (case get_session d sid of
        None \<Rightarrow> d
      | Some s \<Rightarrow>
          (let d = d\<lparr>d_sessions := AList.delete sid (d_sessions d)\<rparr>;
               d = (case as_read_op s of None \<Rightarrow> d | Some i \<Rightarrow> cancel_op k d i);
               d = (case as_output_op s of None \<Rightarrow> d | Some i \<Rightarrow> cancel_op k d i)
           in close_if_open k d (as_stream_fd s)))"

definition on_cancelled :: "'w daemon \<Rightarrow> op_local \<Rightarrow> op_local \<Rightarrow> 'w daemon \<times> op_local" where
  "on_cancelled d op_local local = (d, op_local)"

definition write_frame_now :: "'w kernel \<Rightarrow> 'w daemon \<Rightarrow> fd \<Rightarrow> u8 \<Rightarrow> bytes \<Rightarrow> 'w daemon" where
  "write_frame_now k d stream_fd frame_type payload =
     (let frame = [frame_type] @ u16_to_le_bytes (length payload) @ payload;
          (w, r) = k_write k (d_world d) stream_fd frame
      in emit (FrameNow stream_fd frame) (d\<lparr>d_world := w\<rparr>))"

section \<open>Writing frames\<close>

definition arm_session_frame :: "'w kernel \<Rightarrow> 'w daemon \<Rightarrow> nat \<Rightarrow> fd \<Rightarrow> u8 \<Rightarrow> bytes \<Rightarrow> 'w daemon option" where
  "arm_session_frame k d sid stream_fd frame_type payload = do {
     let len = 3 + length payload;
     (d, buf) \<leftarrow> pool_alloc k d len;
     let buf = [frame_type] @ u16_to_le_bytes (length payload) @ payload;
     let (d, op) = submit k d (WriteFixed stream_fd buf) (LSessionFrame sid stream_fd buf 0) On_session_frame;
     Some d
   }"

definition on_session_frame :: "'w kernel \<Rightarrow> 'w daemon \<Rightarrow> op_local \<Rightarrow> nat io_result \<Rightarrow> 'w daemon option" where
  "on_session_frame k d local res =
     (case local of
        LSessionFrame sid stream_fd buf off \<Rightarrow>
          (case res of
             Inr n \<Rightarrow>
               (let off = off + n in
                if length buf \<le> off then
                  (if session_is_exit d sid then Some (close_session k d sid) else Some d)
                else
                  Some (fst (submit k d (WriteFixed stream_fd (drop off buf))
                              (LSessionFrame sid stream_fd buf off) On_session_frame)))
           | Inl e \<Rightarrow> Some (close_session k d sid))
      | _ \<Rightarrow> Some d)"

definition maybe_finish_session :: "'w kernel \<Rightarrow> 'w daemon \<Rightarrow> nat \<Rightarrow> 'w daemon option" where
  "maybe_finish_session k d sid =
     (case get_session d sid of
        None \<Rightarrow> Some d
      | Some s \<Rightarrow>
          (if \<not> (as_drain_done s \<and> as_child_exited s) \<or> as_exit_sent s then Some d
           else
             (let d = emit (ExitFrame sid) (upd_session d sid (\<lambda>s. s\<lparr>as_exit_sent := True\<rparr>));
                  exit_code = (case as_exit_code s of Some c \<Rightarrow> c | None \<Rightarrow> 0)
              in arm_session_frame k d sid (as_stream_fd s) 2 (k_exit_json k exit_code))))"

section \<open>Draining output into data frames\<close>

definition finish_session_output :: "'w kernel \<Rightarrow> 'w daemon \<Rightarrow> nat \<Rightarrow> 'w daemon option" where
  "finish_session_output k d sid =
     maybe_finish_session k (upd_session d sid (\<lambda>s. s\<lparr>as_drain_done := True\<rparr>)) sid"

definition arm_session_output :: "'w kernel \<Rightarrow> 'w daemon \<Rightarrow> nat \<Rightarrow> 'w daemon option" where
  "arm_session_output k d sid =
     (let fd = (case get_session d sid of
                  Some s \<Rightarrow> if 0 \<le> as_ptm_fd s then as_ptm_fd s else as_log_read_fd s
                | None \<Rightarrow> -1)
      in if fd < 0 then finish_session_output k d sid
         else case submit k d (ReadProvided fd 4096) (LSessionOutputRead sid) On_session_output of
                (d, Some op) \<Rightarrow> Some (store_session_op d sid SOutput (Some op))
              | (d, None) \<Rightarrow> Some d)"

definition on_session_output :: "'w kernel \<Rightarrow> 'w daemon \<Rightarrow> op_local \<Rightarrow> bytes io_result \<Rightarrow> 'w daemon option" where
  "on_session_output k d local res =
     (case local of
        LSessionOutputRead sid \<Rightarrow>
          (let d = store_session_op d sid SOutput None in
           case res of
             Inl e \<Rightarrow> finish_session_output k d sid
           | Inr bs \<Rightarrow>
               (if bs = [] then finish_session_output k d sid
                else case session_stream_fd d sid of
                       None \<Rightarrow> finish_session_output k d sid
                     | Some stream_fd \<Rightarrow> do {
                         (d, header) \<leftarrow> pool_alloc k d 3;
                         let header = [16] @ u16_to_le_bytes (length bs);
                         (case submit k d (WriteFixed stream_fd header)
                                 (LSessionDataHeader sid stream_fd header bs 0) On_session_data_header of
                            (d, None) \<Rightarrow> finish_session_output k d sid
                          | (d, Some op) \<Rightarrow> Some d)
                       }))
      | _ \<Rightarrow> Some d)"

definition on_session_data_header :: "'w kernel \<Rightarrow> 'w daemon \<Rightarrow> op_local \<Rightarrow> nat io_result \<Rightarrow> 'w daemon option" where
  "on_session_data_header k d local res =
     (case local of
        LSessionDataHeader sid stream_fd header payload off \<Rightarrow>
          (case res of
             Inr n \<Rightarrow>
               (let off = off + n in
                if off < length header then
                  Some (fst (submit k d (WriteFixed stream_fd (drop off header))
                               (LSessionDataHeader sid stream_fd header payload off) On_session_data_header))
                else
                  Some (fst (submit k d (WriteFixed stream_fd payload)
                               (LSessionDataPayload sid stream_fd payload 0) On_session_data_payload)))
           | Inl e \<Rightarrow> finish_session_output k d sid)
      | _ \<Rightarrow> Some d)"

definition on_session_data_payload :: "'w kernel \<Rightarrow> 'w daemon \<Rightarrow> op_local \<Rightarrow> nat io_result \<Rightarrow> 'w daemon option" where
  "on_session_data_payload k d local res =
     (case local of
        LSessionDataPayload sid stream_fd payload off \<Rightarrow>
          (case res of
             Inr n \<Rightarrow>
               (let off = off + n in
                if length payload \<le> off then arm_session_output k d sid
                else
                  Some (fst (submit k d (WriteFixed stream_fd (drop off payload))
                               (LSessionDataPayload sid stream_fd payload off) On_session_data_payload)))
           | Inl e \<Rightarrow> finish_session_output k d sid)
      | _ \<Rightarrow> Some d)"

section \<open>Client input\<close>

definition arm_session_stdin :: "'w kernel \<Rightarrow> 'w daemon \<Rightarrow> nat \<Rightarrow> fd \<Rightarrow> bytes \<Rightarrow> 'w daemon" where
  "arm_session_stdin k d sid fd buf =
     fst (submit k d (WriteFixed fd buf) (LSessionStdin sid buf 0) On_session_stdin)"

definition on_session_stdin :: "'w kernel \<Rightarrow> 'w daemon \<Rightarrow> op_local \<Rightarrow> nat io_result \<Rightarrow> 'w daemon" where
  "on_session_stdin k d local res =
     (case local of
        LSessionStdin sid buf off \<Rightarrow>
          (case res of
             Inr n \<Rightarrow>
               (let off = off + n in
                if off < length buf then
                  fst (submit k d (WriteFixed (session_input_fd d sid) (drop off buf))
                         (LSessionStdin sid buf off) On_session_stdin)
                else d)
           | Inl e \<Rightarrow> d)
      | _ \<Rightarrow> d)"

section \<open>Accepting clients and reading their frames\<close>

definition arm_session_read :: "'w kernel \<Rightarrow> 'w daemon \<Rightarrow> nat \<Rightarrow> 'w daemon" where
  "arm_session_read k d sid =
     (case get_session d sid of
        None \<Rightarrow> d
      | Some s \<Rightarrow>
          (case submit k d (ReadProvided (as_stream_fd s) 3) (LSessionHeader sid []) On_session_header of
             (d, Some op) \<Rightarrow> store_session_op d sid SRead (Some op)
           | (d, None) \<Rightarrow> d))"

definition arm_accept :: "'w kernel \<Rightarrow> 'w daemon \<Rightarrow> 'w daemon" where
  "arm_accept k d = fst (submit k d (AcceptOn (d_attach_listener_fd d)) LAccept On_accept)"

definition session_new :: "fd \<Rightarrow> attach_session" where
  "session_new stream_fd =
     \<lparr>as_stream_fd = stream_fd, as_ptm_fd = -1, as_input_fd = -1, as_log_read_fd = -1, as_container_pid = 0,
      as_child_exited = False, as_exit_code = None, as_drain_done = False, as_exit_sent = False,
      as_read_op = None, as_output_op = None\<rparr>"

definition on_accept :: "'w kernel \<Rightarrow> 'w daemon \<Rightarrow> op_local \<Rightarrow> fd io_result \<Rightarrow> 'w daemon" where
  "on_accept k d local res =
     (case local of
        LAccept \<Rightarrow>
          (case res of
             Inl e \<Rightarrow> arm_accept k d
           | Inr stream_fd \<Rightarrow>
               (let sid = d_next_session_id d;
                    d = d\<lparr>d_next_session_id := sid + 1,
                          d_sessions := AList.update sid (session_new stream_fd) (d_sessions d)\<rparr>
                in arm_accept k (arm_session_read k d sid)))
      | _ \<Rightarrow> d)"

definition on_session_header :: "'w kernel \<Rightarrow> 'w daemon \<Rightarrow> op_local \<Rightarrow> bytes io_result \<Rightarrow> 'w daemon" where
  "on_session_header k d local res =
     (case local of
        LSessionHeader sid acc \<Rightarrow>
          (case res of
             Inl e \<Rightarrow> close_session k d sid
           | Inr b \<Rightarrow>
               (if b = [] then close_session k d sid
                else
                  (let acc = acc @ b in
                   if length acc < 3 then
                     (case submit k d (ReadProvided (stream_fd_or d sid) 3) (LSessionHeader sid acc) On_session_header of
                        (d, Some op) \<Rightarrow> store_session_op d sid SRead (Some op)
                      | (d, None) \<Rightarrow> d)
                   else
                     (let frame_type = acc ! 0;
                          frame_len = u16_from_le_bytes (acc ! 1) (acc ! 2);
                          stream_fd = stream_fd_or d sid;
                          d = store_session_op d sid SRead None
                      in case submit k d (ReadProvided stream_fd (max frame_len 1))
                                (LSessionPayload sid frame_type [] frame_len) On_session_payload of
                           (d, Some op) \<Rightarrow> store_session_op d sid SRead (Some op)
                         | (d, None) \<Rightarrow> d))))
      | _ \<Rightarrow> d)"

end
