(* ===== verification/Daemon_Containers.thy ===== *)
theory Daemon_Containers
  imports Daemon_Sessions
begin

text \<open>
  The life of a container inside the daemon (\<^verbatim>\<open>libs/core/src/daemon.rs\<close>): its output is drained
  into its log gateway and on to the follow pipes, its exit is reaped, and it is removed when it has
  exited or its drains are done.
\<close>

section \<open>Follow pipes\<close>

text \<open>\<^verbatim>\<open>info.gateway.complete_write(pipe_id, ok)\<close> on the container, if it is still there.\<close>

definition complete_write :: "'w kernel \<Rightarrow> 'w daemon \<Rightarrow> pid \<Rightarrow> u64 \<Rightarrow> bool \<Rightarrow> 'w daemon option" where
  "complete_write k d pid pipe_id ok =
     (case get_container d pid of
        None \<Rightarrow> Some d
      | Some info \<Rightarrow> do {
          (g, closed) \<leftarrow> log_gateway_complete_write (ci_gateway info) pipe_id ok;
          Some (close_fds k (upd_container d pid (\<lambda>i. i\<lparr>ci_gateway := g\<rparr>)) closed)
        })"

definition arm_follow_write :: "'w kernel \<Rightarrow> 'w daemon \<Rightarrow> pid \<Rightarrow> u64 \<Rightarrow> fd \<Rightarrow> bytes list \<Rightarrow> 'w daemon option" where
  "arm_follow_write k d pid pipe_id fd chunks =
     (case chunks of
        [] \<Rightarrow> complete_write k d pid pipe_id True
      | chunk # _ \<Rightarrow>
          Some (fst (submit k d (WriteFixed fd chunk) (LFollowWrite pid pipe_id fd chunks) On_follow_write)))"

definition on_follow_write :: "'w kernel \<Rightarrow> 'w daemon \<Rightarrow> op_local \<Rightarrow> nat io_result \<Rightarrow> 'w daemon option" where
  "on_follow_write k d local res =
     (case local of
        LFollowWrite pid pipe_id fd chunks \<Rightarrow>
          (case res of
             Inr n \<Rightarrow>
               (let len = (case chunks of [] \<Rightarrow> 0 | c # _ \<Rightarrow> length c);
                    chunks = (if len \<le> n then tl chunks
                              else if 0 < n then drop n (hd chunks) # tl chunks
                              else chunks)
                in if chunks = [] then complete_write k d pid pipe_id True
                   else arm_follow_write k d pid pipe_id fd chunks)
           | Inl e \<Rightarrow> complete_write k d pid pipe_id False)
      | _ \<Rightarrow> Some d)"

fun arm_follow_writes :: "'w kernel \<Rightarrow> 'w daemon \<Rightarrow> pid \<Rightarrow> bytes \<Rightarrow> (u64 \<times> fd) list \<Rightarrow> 'w daemon option" where
  "arm_follow_writes k d pid line [] = Some d"
| "arm_follow_writes k d pid line ((pipe_id, fd) # pending) = do {
     (w, chunks) \<leftarrow> split_line (k_alloc k) (d_world d) line;
     d \<leftarrow> arm_follow_write k (d\<lparr>d_world := w\<rparr>) pid pipe_id fd chunks;
     arm_follow_writes k d pid line pending
   }"

text \<open>The ids a push returned, with the descriptors of the pipes that are still there.\<close>

definition pipes_of :: "log_gateway \<Rightarrow> u64 list \<Rightarrow> (u64 \<times> fd) list" where
  "pipes_of g ids =
     concat (map (\<lambda>i. case log_gateway_pipe_fd g i of None \<Rightarrow> [] | Some fd \<Rightarrow> [(i, fd)]) ids)"

definition write_line :: "'w kernel \<Rightarrow> 'w daemon \<Rightarrow> pid \<Rightarrow> bytes \<Rightarrow> 'w daemon option" where
  "write_line k d pid line =
     (case get_container d pid of
        Some info \<Rightarrow> do {
          (g, ids) \<leftarrow> log_gateway_push (ci_gateway info) line;
          let d = upd_container d pid (\<lambda>i. i\<lparr>ci_gateway := g\<rparr>);
          arm_follow_writes k d pid line (pipes_of g ids)
        }
      | None \<Rightarrow>
          (case map_of (d_log_graveyard d) pid of
             None \<Rightarrow> Some d
           | Some cache \<Rightarrow> do {
               cache \<leftarrow> log_cache_push cache line;
               Some (d\<lparr>d_log_graveyard := AList.map_entry pid (\<lambda>_. cache) (d_log_graveyard d)\<rparr>)
             }))"

fun write_lines :: "'w kernel \<Rightarrow> 'w daemon \<Rightarrow> pid \<Rightarrow> bytes list \<Rightarrow> 'w daemon option" where
  "write_lines k d pid [] = Some d"
| "write_lines k d pid (line # lines) = do {
     d \<leftarrow> write_line k d pid line;
     write_lines k d pid lines
   }"

section \<open>Removing a container\<close>

text \<open>The container leaves the map; its log goes to the graveyard.\<close>

definition bury :: "'w daemon \<Rightarrow> pid \<Rightarrow> container_info \<Rightarrow> 'w daemon" where
  "bury d pid info =
     d\<lparr>d_containers := AList.delete pid (d_containers d),
       d_log_graveyard := AList.update pid (lg_cache (ci_gateway info)) (d_log_graveyard d)\<rparr>"

definition cleanup_unless_saved :: "'w kernel \<Rightarrow> 'w daemon \<Rightarrow> container_info \<Rightarrow> 'w daemon" where
  "cleanup_unless_saved k d info =
     (case ci_overlay_dir info of
        Some overlay \<Rightarrow>
          (if \<not> ci_save info
           then emit (OverlayCleaned overlay) (d\<lparr>d_world := k_remove_tree k (d_world d) overlay\<rparr>)
           else d)
      | None \<Rightarrow> d)"

definition finish_drain :: "'w kernel \<Rightarrow> 'w daemon \<Rightarrow> pid \<Rightarrow> 'w daemon" where
  "finish_drain k d pid =
     (case get_container d pid of
        None \<Rightarrow> d
      | Some info \<Rightarrow>
          (let n = ci_drains_pending info - 1 in
           if 0 < n then upd_container d pid (\<lambda>i. i\<lparr>ci_drains_pending := n\<rparr>)
           else
             (let d = bury d pid info;
                  d = close_if_open k d (ci_ptm_fd info);
                  d = close_if_open k d (ci_stdin_fd info);
                  d = close_fds k d (snd (log_gateway_close_all_pipes (ci_gateway info)))
              in cleanup_unless_saved k d info)))"

text \<open>The reaper's removal, which also closes the death pipe.\<close>

definition reap_container :: "'w kernel \<Rightarrow> 'w daemon \<Rightarrow> pid \<Rightarrow> 'w daemon" where
  "reap_container k d pid =
     (case get_container d pid of
        None \<Rightarrow> d
      | Some info \<Rightarrow>
          (if 0 < ci_drains_pending info then d
           else
             (let d = bury d pid info;
                  d = close_if_open k d (ci_ptm_fd info);
                  d = close_if_open k d (ci_stdin_fd info);
                  d = close_if_open k d (ci_death_pipe_write info);
                  d = close_fds k d (snd (log_gateway_close_all_pipes (ci_gateway info)))
              in cleanup_unless_saved k d info)))"

section \<open>Reaping\<close>

text \<open>One exited child: record the exit in a session attached to it, remove its container.\<close>

definition reap_one :: "'w kernel \<Rightarrow> 'w daemon \<Rightarrow> pid \<Rightarrow> int \<Rightarrow> 'w daemon \<times> nat list" where
  "reap_one k d pid status =
     (let exit_code = exit_code_of status;
          found = map_option fst (find (\<lambda>(sid, s). as_container_pid s = pid) (d_sessions d))
      in if found = None \<and> get_container d pid = None then (d, [])
         else
           (let (d, finished) =
                  (case found of
                     Some sid \<Rightarrow>
                       (upd_session d sid (\<lambda>s. s\<lparr>as_child_exited := True, as_exit_code := Some exit_code\<rparr>), [sid])
                   | None \<Rightarrow> (d, []))
            in (reap_container k d pid, finished)))"

partial_function (option) reap_loop ::
  "'w kernel \<Rightarrow> 'w daemon \<Rightarrow> nat list \<Rightarrow> ('w daemon \<times> nat list) option"
where
  "reap_loop k d finished =
     (case k_wait4 k (d_world d) of
        (w, Inl e) \<Rightarrow> Some (d\<lparr>d_world := w\<rparr>, finished)
      | (w, Inr (pid, status)) \<Rightarrow>
          (if 0 < pid then
             (case reap_one k (d\<lparr>d_world := w\<rparr>) pid status of
                (d, sids) \<Rightarrow> reap_loop k d (finished @ sids))
           else Some (d\<lparr>d_world := w\<rparr>, finished)))"

declare reap_loop.simps [code]

fun finish_sessions :: "'w kernel \<Rightarrow> 'w daemon \<Rightarrow> nat list \<Rightarrow> 'w daemon option" where
  "finish_sessions k d [] = Some d"
| "finish_sessions k d (sid # sids) = do {
     d \<leftarrow> maybe_finish_session k d sid;
     finish_sessions k d sids
   }"

definition reap_children :: "'w kernel \<Rightarrow> 'w daemon \<Rightarrow> 'w daemon option" where
  "reap_children k d = do {
     (d, finished) \<leftarrow> reap_loop k d [];
     finish_sessions k d finished
   }"

text \<open>The signal buffer is allocated from the pool; a failure ends the reaper.\<close>

definition arm_sigchld :: "'w kernel \<Rightarrow> 'w daemon \<Rightarrow> 'w daemon" where
  "arm_sigchld k d =
     (case k_alloc k (d_world d) 128 of
        None \<Rightarrow> d
      | Some (w, b) \<Rightarrow> fst (submit k (d\<lparr>d_world := w\<rparr>) (ReadProvided (d_sigchld_fd d) 128) LSigchld On_sigchld))"

definition on_sigchld :: "'w kernel \<Rightarrow> 'w daemon \<Rightarrow> op_local \<Rightarrow> bytes io_result \<Rightarrow> 'w daemon option" where
  "on_sigchld k d local res =
     (case local of
        LSigchld \<Rightarrow>
          (case res of
             Inr bs \<Rightarrow> do {
               d \<leftarrow> (if bs \<noteq> [] then reap_children k d else Some d);
               Some (arm_sigchld k d)
             }
           | Inl e \<Rightarrow> Some d)
      | _ \<Rightarrow> Some d)"

section \<open>Draining output\<close>

definition arm_container_output :: "'w kernel \<Rightarrow> 'w daemon \<Rightarrow> pid \<Rightarrow> 'w daemon" where
  "arm_container_output k d pid =
     (case map_of (d_outputs d) pid of
        None \<Rightarrow> finish_drain k d pid
      | Some fd \<Rightarrow> fst (submit k d (ReadProvided fd 4096) (LContainerOutput pid []) On_container_output))"

definition finish_container_output :: "'w kernel \<Rightarrow> 'w daemon \<Rightarrow> pid \<Rightarrow> 'w daemon" where
  "finish_container_output k d pid =
     (let d = (case map_of (d_outputs d) pid of
                 None \<Rightarrow> d
               | Some fd \<Rightarrow> close_if_open k (d\<lparr>d_outputs := AList.delete pid (d_outputs d)\<rparr>) fd)
      in finish_drain k d pid)"

definition on_container_output :: "'w kernel \<Rightarrow> 'w daemon \<Rightarrow> op_local \<Rightarrow> bytes io_result \<Rightarrow> 'w daemon option" where
  "on_container_output k d local res =
     (case local of
        LContainerOutput pid line_buf \<Rightarrow>
          (case res of
             Inl e \<Rightarrow> Some (finish_container_output k d pid)
           | Inr bs \<Rightarrow>
               (if bs = [] then Some (finish_container_output k d pid)
                else do {
                  let (line_buf, lines) = drain_lines line_buf bs [];
                  d \<leftarrow> (if lines \<noteq> [] then write_lines k d pid lines else Some d);
                  let fd = (case map_of (d_outputs d) pid of Some fd \<Rightarrow> fd | None \<Rightarrow> -1);
                  Some (fst (submit k d (ReadProvided fd 4096) (LContainerOutput pid line_buf) On_container_output))
                }))
      | _ \<Rightarrow> Some d)"

definition arm_container_pty_output :: "'w kernel \<Rightarrow> 'w daemon \<Rightarrow> pid \<Rightarrow> 'w daemon" where
  "arm_container_pty_output k d pid =
     (case get_container d pid of
        Some info \<Rightarrow>
          (if 0 \<le> ci_ptm_fd info
           then fst (submit k d (ReadProvided (ci_ptm_fd info) 4096) (LContainerPtyOutput pid []) On_container_pty_output)
           else finish_drain k d pid)
      | None \<Rightarrow> finish_drain k d pid)"

definition finish_container_pty_output :: "'w kernel \<Rightarrow> 'w daemon \<Rightarrow> pid \<Rightarrow> 'w daemon" where
  "finish_container_pty_output k d pid =
     (let d = (case get_container d pid of
                 None \<Rightarrow> d
               | Some info \<Rightarrow>
                   (if 0 \<le> ci_ptm_fd info
                    then upd_container (close_fd k d (ci_ptm_fd info)) pid (\<lambda>i. i\<lparr>ci_ptm_fd := -1\<rparr>)
                    else d))
      in finish_drain k d pid)"

definition on_container_pty_output :: "'w kernel \<Rightarrow> 'w daemon \<Rightarrow> op_local \<Rightarrow> bytes io_result \<Rightarrow> 'w daemon option" where
  "on_container_pty_output k d local res =
     (case local of
        LContainerPtyOutput pid line_buf \<Rightarrow>
          (case res of
             Inl e \<Rightarrow> Some (finish_container_pty_output k d pid)
           | Inr bs \<Rightarrow>
               (if bs = [] then Some (finish_container_pty_output k d pid)
                else do {
                  let (line_buf, lines) = drain_lines line_buf bs [];
                  d \<leftarrow> (if lines \<noteq> [] then write_lines k d pid lines else Some d);
                  let fd = (case get_container d pid of Some info \<Rightarrow> ci_ptm_fd info | None \<Rightarrow> -1);
                  Some (fst (submit k d (ReadProvided fd 4096) (LContainerPtyOutput pid line_buf) On_container_pty_output))
                }))
      | _ \<Rightarrow> Some d)"

end
