(* ===== verification/Msg_Headers.thy ===== *)
theory Msg_Headers
  imports Conrt_Prelude
begin

text \<open>
  The pooled message arguments of \<^verbatim>\<open>sendmsg\<close> and \<^verbatim>\<open>recvmsg\<close> (\<^verbatim>\<open>Msg\<close> and \<^verbatim>\<open>MsgMut\<close> in
  \<^verbatim>\<open>libs/coio-uring/src/io.rs\<close>): an \<^verbatim>\<open>iovec\<close> array and a control buffer of declared capacities, filled
  by pushing. The two types have the same representation and differ in the operations they offer;
  one record models both. A pool allocation is a parameter that returns the slot's address and old
  contents, or fails.
\<close>

section \<open>Sizes\<close>

definition CMSGHDR_SIZE :: nat where
  "CMSGHDR_SIZE = 16"

definition CMSGHDR_ALIGN :: nat where
  "CMSGHDR_ALIGN = 8"

definition MSGHDR_SIZE :: nat where
  "MSGHDR_SIZE = 56"

definition IOVEC_SIZE :: nat where
  "IOVEC_SIZE = 16"

text \<open>\<open>(len + align - 1) & !(align - 1)\<close> for the power of two \<open>align\<close>.\<close>

definition cmsg_space :: "nat \<Rightarrow> nat" where
  "cmsg_space payload = (CMSGHDR_SIZE + payload + CMSGHDR_ALIGN - 1) div CMSGHDR_ALIGN * CMSGHDR_ALIGN"

definition MAX_IOV_CAP :: nat where
  "MAX_IOV_CAP = 1024"

definition SCM_MAX_FD :: nat where
  "SCM_MAX_FD = 253"

definition MAX_CTRL_CAP :: nat where
  "MAX_CTRL_CAP = cmsg_space (SCM_MAX_FD * 4)"

section \<open>Messages\<close>

record iovec =
  iov_base :: nat
  iov_len :: nat

text \<open>
  \<open>mg_iov\<close> is the initialised prefix of the array, so its length is \<^verbatim>\<open>msg_iovlen\<close>; \<open>mg_ctrl\<close> is the
  whole control buffer, at address \<open>mg_ctrl_addr\<close>. A capacity of zero is a missing array.
\<close>

record msg =
  mg_iov_cap :: nat
  mg_iov :: "iovec list"
  mg_ctrl_addr :: nat
  mg_ctrl :: bytes
  mg_controllen :: nat
  mg_flags :: u32

text \<open>
  When a later allocation fails, the slots allocated before it are dropped, the array before the
  header; \<open>release\<close> takes the address of a slot back.
\<close>

definition msg_with_capacity ::
  "('w \<Rightarrow> nat \<Rightarrow> 'w \<times> (nat \<times> bytes) option) \<Rightarrow> ('w \<Rightarrow> nat \<Rightarrow> 'w) \<Rightarrow> 'w \<Rightarrow> nat \<Rightarrow> nat \<Rightarrow>
   ('w \<times> msg option) option"
where
  "msg_with_capacity alloc release w iovs ctrl_bytes = do {
     ensure (iovs \<le> MAX_IOV_CAP);
     ensure (ctrl_bytes \<le> MAX_CTRL_CAP);
     (case alloc w MSGHDR_SIZE of
        (w, None) \<Rightarrow> Some (w, None)
      | (w, Some (hdr, _)) \<Rightarrow>
          (case (if iovs = 0 then (w, Some (0, [])) else alloc w (IOVEC_SIZE * iovs)) of
             (w, None) \<Rightarrow> Some (release w hdr, None)
           | (w, Some (iov, _)) \<Rightarrow>
               (case (if ctrl_bytes = 0 then (w, Some (0, [])) else alloc w ctrl_bytes) of
                  (w, None) \<Rightarrow> Some (release (if iovs = 0 then w else release w iov) hdr, None)
                | (w, Some (addr, old)) \<Rightarrow>
                    Some (w, Some \<lparr>mg_iov_cap = iovs, mg_iov = [], mg_ctrl_addr = addr, mg_ctrl = old,
                                   mg_controllen = 0, mg_flags = 0\<rparr>))))
   }"

definition iov_capacity :: "msg \<Rightarrow> nat" where
  "iov_capacity m = mg_iov_cap m"

definition ctrl_capacity :: "msg \<Rightarrow> nat" where
  "ctrl_capacity m = length (mg_ctrl m)"

definition push_iov :: "msg \<Rightarrow> iovec \<Rightarrow> msg \<times> bool" where
  "push_iov m iov =
     (if iov_capacity m \<le> length (mg_iov m) then (m, False)
      else (m\<lparr>mg_iov := mg_iov m @ [iov]\<rparr>, True))"

text \<open>Little-endian encodings of the header's fields: a 64-bit length and two 32-bit integers.\<close>

fun le_bytes :: "nat \<Rightarrow> nat \<Rightarrow> bytes" where
  "le_bytes 0 v = []"
| "le_bytes (Suc n) v = word_of_nat (v mod 256) # le_bytes n (v div 256)"

fun le_value :: "bytes \<Rightarrow> nat" where
  "le_value [] = 0"
| "le_value (b # bs) = unat b + 256 * le_value bs"

definition cmsg_bytes :: "nat \<Rightarrow> nat \<Rightarrow> bytes \<Rightarrow> bytes" where
  "cmsg_bytes level kind payload =
     le_bytes 8 (CMSGHDR_SIZE + length payload) @ le_bytes 4 level @ le_bytes 4 kind @ payload"

definition push_cmsg :: "msg \<Rightarrow> nat \<Rightarrow> nat \<Rightarrow> bytes \<Rightarrow> (msg \<times> bool) option" where
  "push_cmsg m level kind payload =
     (let space = cmsg_space (length payload); used = mg_controllen m in
      if ctrl_capacity m < used + space then Some (m, False)
      else do {
        ensure (mg_ctrl_addr m mod CMSGHDR_ALIGN = 0);
        ensure (used mod CMSGHDR_ALIGN = 0);
        let entry = cmsg_bytes level kind payload;
        Some (m\<lparr>mg_ctrl := take used (mg_ctrl m) @ entry @ drop (used + length entry) (mg_ctrl m),
                mg_controllen := used + space\<rparr>, True)
      })"

definition SOL_SOCKET :: nat where
  "SOL_SOCKET = 1"

definition SCM_RIGHTS :: nat where
  "SCM_RIGHTS = 1"

definition fd_bytes :: "nat list \<Rightarrow> bytes" where
  "fd_bytes fds = concat (map (le_bytes 4) fds)"

definition push_scm_rights :: "msg \<Rightarrow> nat list \<Rightarrow> (msg \<times> bool) option" where
  "push_scm_rights m fds = push_cmsg m SOL_SOCKET SCM_RIGHTS (fd_bytes fds)"

definition msg_clear :: "msg \<Rightarrow> msg" where
  "msg_clear m = m\<lparr>mg_iov := [], mg_controllen := 0\<rparr>"

definition msg_iov :: "msg \<Rightarrow> nat \<Rightarrow> iovec option" where
  "msg_iov m i = (if length (mg_iov m) \<le> i then None else Some (mg_iov m ! i))"

definition msg_ctrl :: "msg \<Rightarrow> bytes option" where
  "msg_ctrl m =
     (let cap = ctrl_capacity m in
      if cap = 0 then None else Some (take (min (mg_controllen m) cap) (mg_ctrl m)))"

definition take_iov :: "msg \<Rightarrow> msg \<times> iovec list" where
  "take_iov m = (m\<lparr>mg_iov := []\<rparr>, mg_iov m)"

text \<open>What \<^verbatim>\<open>recvmsg\<close> does to the header before it is submitted.\<close>

definition recvmsg_prepare :: "msg \<Rightarrow> nat \<Rightarrow> msg" where
  "recvmsg_prepare m ctrl_cap = m\<lparr>mg_controllen := ctrl_cap, mg_flags := 0\<rparr>"

section \<open>Invariant\<close>

definition msg_ok :: "msg \<Rightarrow> bool" where
  "msg_ok m \<longleftrightarrow> length (mg_iov m) \<le> mg_iov_cap m \<and> mg_iov_cap m \<le> MAX_IOV_CAP \<and>
     mg_controllen m \<le> length (mg_ctrl m) \<and> mg_controllen m mod CMSGHDR_ALIGN = 0 \<and>
     mg_ctrl_addr m mod CMSGHDR_ALIGN = 0"

lemma cmsg_space_bounds:
  "CMSGHDR_SIZE + n \<le> cmsg_space n" "cmsg_space n mod CMSGHDR_ALIGN = 0"
  unfolding cmsg_space_def CMSGHDR_SIZE_def CMSGHDR_ALIGN_def by presburger simp

lemma length_le_bytes [simp]: "length (le_bytes n v) = n"
  by (induction n arbitrary: v) auto

lemma length_cmsg_bytes [simp]: "length (cmsg_bytes level kind payload) = CMSGHDR_SIZE + length payload"
  by (simp add: cmsg_bytes_def CMSGHDR_SIZE_def)

lemma length_fd_bytes [simp]: "length (fd_bytes fds) = 4 * length fds"
  by (induction fds) (auto simp: fd_bytes_def)

lemma le_bytes_value: "v < 256 ^ n \<Longrightarrow> le_value (le_bytes n v) = v"
proof (induction n arbitrary: v)
  case (Suc n)
  have "v div 256 < 256 ^ n" using Suc.prems by (simp add: less_mult_imp_div_less ac_simps)
  then show ?case using Suc.IH [of "v div 256"] by (simp add: unat_byte_of_nat)
qed simp

lemma msg_ok_new:
  assumes "msg_with_capacity alloc release w iovs ctrl_bytes = Some (w', Some m)"
    and "\<And>w n w' a b. alloc w n = (w', Some (a, b)) \<Longrightarrow> a mod CMSGHDR_ALIGN = 0 \<and> length b = n"
  shows "msg_ok m \<and> ctrl_capacity m = ctrl_bytes \<and> iov_capacity m = iovs"
  using assms(1)
  by (auto simp: msg_with_capacity_def bind_eq_Some_conv msg_ok_def ctrl_capacity_def iov_capacity_def
      CMSGHDR_ALIGN_def split: prod.splits option.splits if_splits dest!: assms(2))

lemma msg_ok_push_iov: "msg_ok m \<Longrightarrow> msg_ok (fst (push_iov m v))"
  by (auto simp: msg_ok_def push_iov_def iov_capacity_def)

lemma push_cmsg_spec:
  assumes ok: "msg_ok m"
  shows "\<exists>m' b. push_cmsg m level kind payload = Some (m', b) \<and> msg_ok m' \<and>
     (b \<longleftrightarrow> mg_controllen m + cmsg_space (length payload) \<le> ctrl_capacity m) \<and>
     (if b then mg_controllen m' = mg_controllen m + cmsg_space (length payload) \<and>
          take (mg_controllen m) (mg_ctrl m') = take (mg_controllen m) (mg_ctrl m) \<and>
          take (CMSGHDR_SIZE + length payload) (drop (mg_controllen m) (mg_ctrl m')) = cmsg_bytes level kind payload
      else m' = m)"
proof (cases "ctrl_capacity m < mg_controllen m + cmsg_space (length payload)")
  case True
  then show ?thesis using ok by (intro exI [of _ m] exI [of _ False]) (simp add: push_cmsg_def)
next
  case False
  let ?u = "mg_controllen m" and ?e = "cmsg_bytes level kind payload"
  let ?m = "m\<lparr>mg_ctrl := take ?u (mg_ctrl m) @ ?e @ drop (?u + length ?e) (mg_ctrl m),
              mg_controllen := ?u + cmsg_space (length payload)\<rparr>"
  have fits: "?u + cmsg_space (length payload) \<le> length (mg_ctrl m)" using False by (simp add: ctrl_capacity_def)
  then have u: "?u + length ?e \<le> length (mg_ctrl m)"
    using cmsg_space_bounds(1) [of "length payload"] by simp
  have "push_cmsg m level kind payload = Some (?m, True)"
    using False ok by (simp add: push_cmsg_def msg_ok_def Let_def)
  moreover have "msg_ok ?m"
    using ok fits u cmsg_space_bounds(2) [of "length payload"] by (simp add: msg_ok_def mod_add_eq [symmetric])
  moreover have "take ?u (mg_ctrl ?m) = take ?u (mg_ctrl m)"
    "take (CMSGHDR_SIZE + length payload) (drop ?u (mg_ctrl ?m)) = ?e" using u by auto
  ultimately show ?thesis using False by auto
qed

section \<open>Properties\<close>

text \<open>
  Control messages. On a well-formed message, pushing a control message never panics and keeps
  the message well-formed; it is accepted exactly when its aligned size still fits the declared
  capacity, and then what was pushed before is untouched and the new entry's header and payload stand
  at the old end; a refused push changes nothing.
\<close>

theorem push_cmsg_sound:
  assumes "msg_ok m"
  shows "\<exists>m' b. push_cmsg m level kind payload = Some (m', b) \<and> msg_ok m' \<and>
     (b \<longleftrightarrow> mg_controllen m + cmsg_space (length payload) \<le> ctrl_capacity m) \<and>
     (if b then mg_controllen m' = mg_controllen m + cmsg_space (length payload) \<and>
          take (mg_controllen m) (mg_ctrl m') = take (mg_controllen m) (mg_ctrl m) \<and>
          take (CMSGHDR_SIZE + length payload) (drop (mg_controllen m) (mg_ctrl m')) = cmsg_bytes level kind payload
      else m' = m)"
  by (rule push_cmsg_spec [OF assms])

definition demo_msg :: msg where
  "demo_msg = \<lparr>mg_iov_cap = 0, mg_iov = [], mg_ctrl_addr = 64, mg_ctrl = replicate 24 0, mg_controllen = 0, mg_flags = 0\<rparr>"

lemma demo_msg_ok: "msg_ok demo_msg"
  by (simp add: msg_ok_def demo_msg_def MAX_IOV_CAP_def CMSGHDR_ALIGN_def)

theorem push_cmsg_sound_witness:
  "\<exists>m' b. push_cmsg demo_msg 1 1 [7, 0, 0, 0] = Some (m', b) \<and> msg_ok m' \<and>
     (b \<longleftrightarrow> mg_controllen demo_msg + cmsg_space (length [7, 0, 0, 0 :: byte]) \<le> ctrl_capacity demo_msg) \<and>
     (if b then mg_controllen m' = mg_controllen demo_msg + cmsg_space (length [7, 0, 0, 0 :: byte]) \<and>
          take (mg_controllen demo_msg) (mg_ctrl m') = take (mg_controllen demo_msg) (mg_ctrl demo_msg) \<and>
          take (CMSGHDR_SIZE + length [7, 0, 0, 0 :: byte]) (drop (mg_controllen demo_msg) (mg_ctrl m')) = cmsg_bytes 1 1 [7, 0, 0, 0]
      else m' = demo_msg)"
  by (rule push_cmsg_sound [OF demo_msg_ok])

text \<open>
  The control buffer the daemon declares for passing one descriptor to a follower is exactly
  big enough: on a fresh message with no \<^verbatim>\<open>iovec\<close> and \<open>cmsg_space 4\<close> control bytes, pushing one
  descriptor succeeds, the descriptor can be read back from the control bytes, and a second one
  does not fit.
\<close>

theorem one_fd_fits:
  assumes "msg_with_capacity alloc release w 0 (cmsg_space 4) = Some (w', Some m)"
    and "\<forall>w n w' a b. alloc w n = (w', Some (a, b)) \<longrightarrow> a mod CMSGHDR_ALIGN = 0 \<and> length b = n"
    and "fd < 2 ^ 32"
  shows "\<exists>m' c. push_scm_rights m [fd] = Some (m', True) \<and> msg_ctrl m' = Some c \<and>
     le_value (take 4 (drop CMSGHDR_SIZE c)) = fd \<and> push_scm_rights m' [fd'] = Some (m', False)"
proof -
  have ok: "msg_ok m" and cap: "ctrl_capacity m = cmsg_space 4"
    using msg_ok_new [OF assms(1)] assms(2) by blast+
  have z: "mg_controllen m = 0" using assms(1)
    by (auto simp: msg_with_capacity_def bind_eq_Some_conv split: prod.splits option.splits if_splits)
  have sp: "cmsg_space 4 = 24" by (simp add: cmsg_space_def CMSGHDR_SIZE_def CMSGHDR_ALIGN_def)
  obtain m' where p: "push_scm_rights m [fd] = Some (m', True)" "msg_ok m'" "mg_controllen m' = 24"
    "take 20 (mg_ctrl m') = cmsg_bytes SOL_SOCKET SCM_RIGHTS (fd_bytes [fd])"
    using push_cmsg_spec [OF ok, of SOL_SOCKET SCM_RIGHTS "fd_bytes [fd]"] cap z sp
    by (auto simp: push_scm_rights_def CMSGHDR_SIZE_def)
  have cap': "ctrl_capacity m' = 24"
    using p(1) cap sp z by (auto simp: push_scm_rights_def push_cmsg_def ctrl_capacity_def Let_def CMSGHDR_SIZE_def
        bind_eq_Some_conv split: if_splits)
  have c: "msg_ctrl m' = Some (mg_ctrl m')" using cap' p(3) by (simp add: msg_ctrl_def ctrl_capacity_def)
  have "take 4 (drop 16 (mg_ctrl m')) = drop 16 (take 20 (mg_ctrl m'))" by (simp add: drop_take)
  also have "\<dots> = fd_bytes [fd]" unfolding p(4) by (simp add: cmsg_bytes_def)
  finally have "le_value (take 4 (drop CMSGHDR_SIZE (mg_ctrl m'))) = fd"
    using le_bytes_value [of fd 4] assms(3) by (simp add: CMSGHDR_SIZE_def fd_bytes_def)
  moreover have "push_scm_rights m' [fd'] = Some (m', False)"
    using cap' p(3) sp by (simp add: push_scm_rights_def push_cmsg_def)
  ultimately show ?thesis using p(1) c by blast
qed

definition demo_alloc :: "unit \<Rightarrow> nat \<Rightarrow> unit \<times> (nat \<times> bytes) option" where
  "demo_alloc w n = ((), Some (64, replicate n 0))"

lemma demo_msg_new: "msg_with_capacity demo_alloc (\<lambda>w _. w) () 0 (cmsg_space 4) = Some ((), Some demo_msg)"
  by (simp add: msg_with_capacity_def demo_alloc_def demo_msg_def cmsg_space_def CMSGHDR_SIZE_def CMSGHDR_ALIGN_def
      MAX_CTRL_CAP_def SCM_MAX_FD_def)

theorem one_fd_fits_witness:
  "\<exists>m' c. push_scm_rights demo_msg [7] = Some (m', True) \<and> msg_ctrl m' = Some c \<and>
     le_value (take 4 (drop CMSGHDR_SIZE c)) = 7 \<and> push_scm_rights m' [8] = Some (m', False)"
  by (rule one_fd_fits [OF demo_msg_new]) (auto simp: demo_alloc_def CMSGHDR_ALIGN_def)

end
