(* ===== verification/Daemon_Requests.thy ===== *)
theory Daemon_Requests
  imports Daemon_Containers Msg_Headers
begin

text \<open>
  The request handlers of the daemon (\<^verbatim>\<open>libs/core/src/daemon.rs\<close>): the datagram loop, following a
  log, starting a container detached or inside an attach session, attaching to a running one, and the
  dispatch of a client's frames. The clone of a container is seen from the parent; what the
  child does is in \<open>Container_Child\<close>. Values with a destructor (the start signal's pipe, the two
  ends of a pty, the namespace files) are closed where Rust drops them.
\<close>

section \<open>The datagram loop\<close>

text \<open>A message header is taken from the pool; when that fails the receive is not armed.\<close>

definition pool_msg :: "'w kernel \<Rightarrow> 'w \<Rightarrow> nat \<Rightarrow> 'w \<times> (nat \<times> bytes) option" where
  "pool_msg k w n = (case k_alloc k w n of None \<Rightarrow> (w, None) | Some (w, b) \<Rightarrow> (w, Some (0, b)))"

text \<open>
  Which slots of the pool are free is the world's affair (\<^term>\<open>k_alloc\<close> answers as it likes), so a
  slot given back leaves no trace in the daemon's state.
\<close>

definition pool_release :: "'w \<Rightarrow> nat \<Rightarrow> 'w" where
  "pool_release w addr = w"

definition arm_datagram :: "'w kernel \<Rightarrow> 'w daemon \<Rightarrow> 'w daemon option" where
  "arm_datagram k d = do {
     (w, recv) \<leftarrow> msg_with_capacity (pool_msg k) pool_release (d_world d) 1 0;
     let d = d\<lparr>d_world := w\<rparr>;
     (case recv of
        None \<Rightarrow> Some d
      | Some m \<Rightarrow> Some (fst (submit k d (RecvMsg (d_datagram_fd d) True) LDatagramPeek On_datagram_peek)))
   }"

text \<open>The one declared iovec always fits the fresh message.\<close>

definition on_datagram_peek :: "'w kernel \<Rightarrow> 'w daemon \<Rightarrow> op_local \<Rightarrow> nat io_result \<Rightarrow> 'w daemon option" where
  "on_datagram_peek k d local res =
     (case local of
        LDatagramPeek \<Rightarrow>
          (case res of
             Inl e \<Rightarrow> arm_datagram k d
           | Inr n \<Rightarrow>
               (case submit k d (RecvMsg (d_datagram_fd d) False) LDatagram On_datagram of
                  (d, Some op) \<Rightarrow> Some d
                | (d, None) \<Rightarrow> arm_datagram k d))
      | _ \<Rightarrow> Some d)"

section \<open>Following a log\<close>

function write_backlog :: "'w kernel \<Rightarrow> 'w \<Rightarrow> fd \<Rightarrow> bytes \<Rightarrow> nat \<Rightarrow> 'w \<times> bool" where
  "write_backlog k w fd backlog written =
     (if written < length backlog then
        (case k_write k w fd (drop written backlog) of
           (w, Inl e) \<Rightarrow> (w, False)
         | (w, Inr n) \<Rightarrow> if n = 0 then (w, True) else write_backlog k w fd backlog (written + n))
      else (w, True))"
  by pat_completeness auto
termination
  by (relation "measure (\<lambda>(k, w, fd, backlog, written). length backlog - written)") auto

declare write_backlog.simps [simp del]

definition not_found :: "pid \<Rightarrow> message" where
  "not_found pid = PidText ''container not found'' pid"

text \<open>
  \<^verbatim>\<open>handle_follow\<close> after the pipe exists: write the backlog, attach the writer, pass the read end.
\<close>

definition follow_attach :: "'w kernel \<Rightarrow> 'w daemon \<Rightarrow> sockaddr \<Rightarrow> pid \<Rightarrow> bytes \<Rightarrow> fd \<Rightarrow> fd \<Rightarrow> 'w daemon option" where
  "follow_attach k d sender pid backlog rfd wfd =
     (let (w, ok) = (if backlog \<noteq> [] then write_backlog k (d_world d) wfd backlog 0 else (d_world d, True));
          d = d\<lparr>d_world := w\<rparr>
      in if \<not> ok then Some (close_fd k (close_fd k d wfd) rfd)
         else
           (let pipe_id = d_next_pipe_id d;
                d = d\<lparr>d_next_pipe_id := pipe_id + 1\<rparr>
            in case get_container d pid of
                 None \<Rightarrow> Some (close_fd k (close_fd k d wfd) rfd)
               | Some info \<Rightarrow> do {
                   let d = upd_container d pid (\<lambda>i. i\<lparr>ci_gateway := log_gateway_add_pipe (ci_gateway i) pipe_id wfd\<rparr>);
                   (w, slot) \<leftarrow> msg_with_capacity (pool_msg k) pool_release (d_world d) 0 (cmsg_space 4);
                   let d = d\<lparr>d_world := w\<rparr>;
                   (case slot of
                      None \<Rightarrow> Some d
                    | Some m \<Rightarrow> do {
                        (m, fits) \<leftarrow> push_scm_rights m [nat rfd];
                        if \<not> fits then Some (close_fd k (close_fd k d wfd) rfd)
                        else Some (fst (submit k d (SendMsg (d_datagram_fd d)) (LFollowSend rfd) On_follow_send))
                      })
                 }))"

definition handle_follow :: "'w kernel \<Rightarrow> 'w daemon \<Rightarrow> sockaddr \<Rightarrow> pid \<Rightarrow> 'w daemon option" where
  "handle_follow k d sender pid =
     (case get_container d pid of
        None \<Rightarrow> Some (reply_datagram k d sender (ErrorResponse False (not_found pid)))
      | Some info \<Rightarrow> do {
          backlog \<leftarrow> log_gateway_snapshot (ci_gateway info);
          (case k_pipe2 k (d_world d) of
             (w, Inl e) \<Rightarrow>
               Some (reply_datagram k (d\<lparr>d_world := w\<rparr>) sender (ErrorResponse False (ErrText ''pipe creation failed'' e)))
           | (w, Inr (rfd, wfd)) \<Rightarrow> follow_attach k (d\<lparr>d_world := w\<rparr>) sender pid backlog rfd wfd)
        })"

definition on_follow_send :: "'w kernel \<Rightarrow> 'w daemon \<Rightarrow> op_local \<Rightarrow> nat io_result \<Rightarrow> 'w daemon" where
  "on_follow_send k d local res =
     (case local of LFollowSend close_after \<Rightarrow> close_fd k d close_after | _ \<Rightarrow> d)"

section \<open>Preparing a run\<close>

definition CLONE_NEWNS :: u64 where "CLONE_NEWNS = 0x00020000"
definition CLONE_NEWUTS :: u64 where "CLONE_NEWUTS = 0x04000000"
definition CLONE_NEWIPC :: u64 where "CLONE_NEWIPC = 0x08000000"
definition CLONE_NEWUSER :: u64 where "CLONE_NEWUSER = 0x10000000"
definition CLONE_NEWPID :: u64 where "CLONE_NEWPID = 0x20000000"
definition CLONE_NEWNET :: u64 where "CLONE_NEWNET = 0x40000000"

record prepared =
  pr_rootfs :: "path option"
  pr_overlay_dir :: "path option"
  pr_signal :: "fd \<times> fd"
  pr_clone_flags :: u64
  pr_needs_userns_maps :: bool
  pr_command :: "cstring list"
  pr_death_pipe :: "(fd \<times> fd) option"
  pr_init_argv :: "cstring list option"
  pr_no_init :: bool

text \<open>\<^verbatim>\<open>OneshotSignal\<close>: dropped unused, both ends are closed.\<close>

definition signal_drop :: "'w kernel \<Rightarrow> 'w daemon \<Rightarrow> fd \<times> fd \<Rightarrow> 'w daemon" where
  "signal_drop k d s = close_fd k (close_fd k d (fst s)) (snd s)"

definition signal_signal :: "'w kernel \<Rightarrow> 'w daemon \<Rightarrow> fd \<times> fd \<Rightarrow> 'w daemon" where
  "signal_signal k d s =
     (let d = close_fd k d (fst s);
          (w, r) = k_write k (d_world d) (snd s) [1]
      in close_fd k (d\<lparr>d_world := w\<rparr>) (snd s))"

text \<open>Joining the namespaces of another process; the two files are closed when they go out of scope.\<close>

definition join_ns :: "'w kernel \<Rightarrow> 'w daemon \<Rightarrow> pid \<Rightarrow> 'w daemon \<times> (message + unit)" where
  "join_ns k d pid =
     (case k_open_ns k (d_world d) pid ''user'' of
        (w, Inl e) \<Rightarrow> (d\<lparr>d_world := w\<rparr>, Inl (ErrText ''cannot open user ns'' e))
      | (w, Inr user_f) \<Rightarrow>
          (case k_open_ns k w pid ''net'' of
             (w, Inl e) \<Rightarrow> (close_fd k (d\<lparr>d_world := w\<rparr>) user_f, Inl (ErrText ''cannot open net ns'' e))
           | (w, Inr net_f) \<Rightarrow>
               (case k_setns k w user_f CLONE_NEWUSER of
                  (w, Inl e) \<Rightarrow> (close_fd k (close_fd k (d\<lparr>d_world := w\<rparr>) net_f) user_f, Inl (ErrText ''setns user failed'' e))
                | (w, Inr _) \<Rightarrow>
                    (case k_setns k w net_f CLONE_NEWNET of
                       (w, Inl e) \<Rightarrow> (close_fd k (close_fd k (d\<lparr>d_world := w\<rparr>) net_f) user_f, Inl (ErrText ''setns net failed'' e))
                     | (w, Inr _) \<Rightarrow> (close_fd k (close_fd k (d\<lparr>d_world := w\<rparr>) net_f) user_f, Inr ())))))"

definition prepare_rootfs :: "'w kernel \<Rightarrow> 'w daemon \<Rightarrow> path option \<Rightarrow> 'w daemon \<times> (message + path option \<times> path option)" where
  "prepare_rootfs k d rootfs =
     (case rootfs of
        None \<Rightarrow> (d, Inr (None, None))
      | Some p \<Rightarrow>
          (case k_canonicalize k (d_world d) p of
             (w, Inl e) \<Rightarrow> (d\<lparr>d_world := w\<rparr>, Inl (ErrText ''invalid rootfs path'' e))
           | (w, Inr path) \<Rightarrow>
               (case k_tempdir k w of
                  (w, Inl e) \<Rightarrow> (d\<lparr>d_world := w\<rparr>, Inl (ErrText ''cannot create overlay tempdir'' e))
                | (w, Inr dir) \<Rightarrow> (d\<lparr>d_world := w\<rparr>, Inr (Some path, Some dir)))))"

definition prepare_flags :: "'w kernel \<Rightarrow> 'w daemon \<Rightarrow> pid option \<Rightarrow> 'w daemon \<times> (message + u64 \<times> bool)" where
  "prepare_flags k d net_pid =
     (let base = CLONE_NEWPID OR CLONE_NEWNS OR CLONE_NEWUTS OR CLONE_NEWIPC in
      case net_pid of
        Some pid \<Rightarrow>
          (case join_ns k d pid of
             (d, Inl m) \<Rightarrow> (d, Inl m)
           | (d, Inr _) \<Rightarrow> (d, Inr (base, False)))
      | None \<Rightarrow> (d, Inr (base OR CLONE_NEWUSER OR CLONE_NEWNET, True)))"

definition prepare_death_pipe :: "'w kernel \<Rightarrow> 'w daemon \<Rightarrow> run_args \<Rightarrow> 'w daemon \<times> (message + (fd \<times> fd) option)" where
  "prepare_death_pipe k d args =
     (if ra_init_path args = None \<and> \<not> ra_no_init args then
        (case k_pipe2 k (d_world d) of
           (w, Inl e) \<Rightarrow> (d\<lparr>d_world := w\<rparr>, Inl (ErrText ''death pipe creation failed'' e))
         | (w, Inr p) \<Rightarrow> (d\<lparr>d_world := w\<rparr>, Inr (Some p)))
      else (d, Inr None))"

definition init_argv_of :: "run_args \<Rightarrow> cstring list option" where
  "init_argv_of args =
     map_option (\<lambda>path. [path, map of_char ''--''] @ ra_command args) (ra_init_path args)"

definition prepare_run :: "'w kernel \<Rightarrow> 'w daemon \<Rightarrow> run_args \<Rightarrow> 'w daemon \<times> (message + prepared)" where
  "prepare_run k d args =
     (if ra_no_init args \<and> ra_init_path args \<noteq> None
      then (d, Inl (Text ''--init and --no-init are mutually exclusive''))
      else case prepare_rootfs k d (ra_rootfs args) of
        (d, Inl m) \<Rightarrow> (d, Inl m)
      | (d, Inr (rootfs, overlay)) \<Rightarrow>
          (case k_pipe2 k (d_world d) of
             (w, Inl e) \<Rightarrow> (d\<lparr>d_world := w\<rparr>, Inl (ErrText ''sync pipe creation failed'' e))
           | (w, Inr sig) \<Rightarrow>
               (case prepare_flags k (d\<lparr>d_world := w\<rparr>) (ra_net_pid args) of
                  (d, Inl m) \<Rightarrow> (signal_drop k d sig, Inl m)
                | (d, Inr (flags, maps)) \<Rightarrow>
                    (case prepare_death_pipe k d args of
                       (d, Inl m) \<Rightarrow> (signal_drop k d sig, Inl m)
                     | (d, Inr death) \<Rightarrow>
                         (d, Inr \<lparr>pr_rootfs = rootfs, pr_overlay_dir = overlay, pr_signal = sig,
                                  pr_clone_flags = flags, pr_needs_userns_maps = maps,
                                  pr_command = ra_command args, pr_death_pipe = death,
                                  pr_init_argv = init_argv_of args, pr_no_init = ra_no_init args\<rparr>)))))"

text \<open>\<^verbatim>\<open>setup_userns_maps\<close>: a failure to write \<^verbatim>\<open>setgroups\<close> is ignored.\<close>

definition setup_userns_maps :: "'w kernel \<Rightarrow> 'w daemon \<Rightarrow> pid \<Rightarrow> 'w daemon \<times> unit io_result" where
  "setup_userns_maps k d pid =
     (let (w, r) = k_write_file k (d_world d) pid ''setgroups'' in
      case k_write_file k w pid ''uid_map'' of
        (w, Inl e) \<Rightarrow> (d\<lparr>d_world := w\<rparr>, Inl e)
      | (w, Inr _) \<Rightarrow>
          (let (w, r) = k_write_file k w pid ''gid_map'' in (d\<lparr>d_world := w\<rparr>, r)))"

definition parent_setup_maps_and_signal ::
  "'w kernel \<Rightarrow> 'w daemon \<Rightarrow> pid \<Rightarrow> bool \<Rightarrow> fd \<times> fd \<Rightarrow> 'w daemon \<times> (message + unit)"
where
  "parent_setup_maps_and_signal k d pid needs sig =
     (case (if needs then setup_userns_maps k d pid else (d, Inr ())) of
        (d, Inl e) \<Rightarrow> (signal_drop k d sig, Inl (ErrText ''uid_map write failed'' e))
      | (d, Inr _) \<Rightarrow> (signal_signal k d sig, Inr ()))"

section \<open>Running a container detached\<close>

definition close_pair :: "'w kernel \<Rightarrow> 'w daemon \<Rightarrow> fd \<times> fd \<Rightarrow> 'w daemon" where
  "close_pair k d p = close_fd k (close_fd k d (fst p)) (snd p)"

definition close_pair_opt :: "'w kernel \<Rightarrow> 'w daemon \<Rightarrow> (fd \<times> fd) option \<Rightarrow> 'w daemon" where
  "close_pair_opt k d p = (case p of None \<Rightarrow> d | Some p \<Rightarrow> close_pair k d p)"

definition join_command :: "cstring list \<Rightarrow> bytes" where
  "join_command cmd = (case cmd of [] \<Rightarrow> [] | c # cs \<Rightarrow> c @ concat (map (\<lambda>c. 32 # c) cs))"

definition container_new :: "pid \<Rightarrow> prepared \<Rightarrow> bool \<Rightarrow> nat \<Rightarrow> fd \<Rightarrow> fd \<Rightarrow> fd \<Rightarrow> container_info" where
  "container_new pid prep save now stdin_fd ptm_fd death_fd =
     \<lparr>ci_pid = pid, ci_command = join_command (pr_command prep), ci_overlay_dir = pr_overlay_dir prep,
      ci_save = save, ci_start_time = now, ci_gateway = log_gateway_new LOG_CAPACITY,
      ci_stdin_fd = stdin_fd, ci_ptm_fd = ptm_fd, ci_death_pipe_write = death_fd, ci_drains_pending = 0\<rparr>"

definition add_drain :: "'w daemon \<Rightarrow> pid \<Rightarrow> 'w daemon" where
  "add_drain d pid = upd_container d pid (\<lambda>i. i\<lparr>ci_drains_pending := ci_drains_pending i + 1\<rparr>)"

text \<open>The parent's side once the container runs and its start signal was given.\<close>

definition run_started ::
  "'w kernel \<Rightarrow> 'w daemon \<Rightarrow> sockaddr \<Rightarrow> bool \<Rightarrow> prepared \<Rightarrow> pid \<Rightarrow> fd \<Rightarrow> fd \<Rightarrow> fd \<Rightarrow> fd \<Rightarrow> 'w daemon"
where
  "run_started k d sender save prep pid log_read stdin_write ptm_fd death_write =
     (let (w, now) = k_now k (d_world d);
          d = d\<lparr>d_world := w,
                d_outputs := AList.update pid log_read (d_outputs d),
                d_containers := AList.update pid (container_new pid prep save now stdin_write ptm_fd death_write) (d_containers d)\<rparr>;
          d = arm_container_output k (add_drain d pid) pid;
          d = (if 0 \<le> ptm_fd then arm_container_pty_output k (add_drain d pid) pid else d)
      in reply_datagram k d sender (RunResponse True (Some pid) None))"

text \<open>The parent's side after the clone.\<close>

definition run_parent ::
  "'w kernel \<Rightarrow> 'w daemon \<Rightarrow> sockaddr \<Rightarrow> bool \<Rightarrow> prepared \<Rightarrow> pid \<Rightarrow> fd \<times> fd \<Rightarrow> (fd \<times> fd) option \<Rightarrow> (fd \<times> fd) option \<Rightarrow> 'w daemon"
where
  "run_parent k d sender save prep pid log_pipe stdin_pipe pty =
     (let d = close_fd k d (snd log_pipe);
          d = (case pty of None \<Rightarrow> d | Some (m, s) \<Rightarrow> close_fd k d s);
          (d, death_write) = (case pr_death_pipe prep of None \<Rightarrow> (d, -1) | Some (r, w) \<Rightarrow> (close_fd k d r, w));
          (d, stdin_write) = (case stdin_pipe of None \<Rightarrow> (d, -1) | Some (r, w) \<Rightarrow> (close_fd k d r, w));
          ptm_fd = (case pty of None \<Rightarrow> -1 | Some (m, s) \<Rightarrow> m)
      in case parent_setup_maps_and_signal k d pid (pr_needs_userns_maps prep) (pr_signal prep) of
           (d, Inl m) \<Rightarrow>
             (let d = close_fd k d (fst log_pipe);
                  d = close_if_open k d stdin_write;
                  d = close_if_open k d ptm_fd;
                  d = close_if_open k d death_write
              in reply_datagram k d sender (ErrorResponse False (Prefixed ''container aborted'' m)))
         | (d, Inr _) \<Rightarrow> run_started k d sender save prep pid (fst log_pipe) stdin_write ptm_fd death_write)"

definition run_clone ::
  "'w kernel \<Rightarrow> 'w daemon \<Rightarrow> sockaddr \<Rightarrow> bool \<Rightarrow> prepared \<Rightarrow> fd \<times> fd \<Rightarrow> (fd \<times> fd) option \<Rightarrow> (fd \<times> fd) option \<Rightarrow> 'w daemon"
where
  "run_clone k d sender save prep log_pipe stdin_pipe pty =
     (case k_clone3 k (d_world d) (pr_clone_flags prep) of
        (w, Inl e) \<Rightarrow>
          (let d = close_pair k (d\<lparr>d_world := w\<rparr>) log_pipe;
               d = close_pair_opt k d stdin_pipe;
               d = close_pair_opt k d pty;
               d = close_pair_opt k d (pr_death_pipe prep);
               d = reply_datagram k d sender (ErrorResponse False (ErrText ''clone3 failed'' e))
           in signal_drop k d (pr_signal prep))
      | (w, Inr pid) \<Rightarrow> run_parent k (d\<lparr>d_world := w\<rparr>) sender save prep pid log_pipe stdin_pipe pty)"

definition handle_run :: "'w kernel \<Rightarrow> 'w daemon \<Rightarrow> sockaddr \<Rightarrow> run_args \<Rightarrow> 'w daemon" where
  "handle_run k d sender args =
     (let use_pty = ra_tty args;
          use_stdin_pipe = (ra_interactive args \<and> \<not> use_pty)
      in case prepare_run k d args of
           (d, Inl m) \<Rightarrow> reply_datagram k d sender (ErrorResponse False m)
         | (d, Inr prep) \<Rightarrow>
             (case (if use_stdin_pipe then (case k_pipe2 k (d_world d) of (w, Inl e) \<Rightarrow> (w, Inl e) | (w, Inr p) \<Rightarrow> (w, Inr (Some p)))
                    else (d_world d, Inr None)) of
                (w, Inl e) \<Rightarrow>
                  signal_drop k (reply_datagram k (d\<lparr>d_world := w\<rparr>) sender (ErrorResponse False (ErrText ''stdin pipe creation failed'' e))) (pr_signal prep)
              | (w, Inr stdin_pipe) \<Rightarrow>
                  (case (if use_pty then (case k_open_pty k w of (w, Inl e) \<Rightarrow> (w, Inl e) | (w, Inr p) \<Rightarrow> (w, Inr (Some p)))
                         else (w, Inr None)) of
                     (w, Inl e) \<Rightarrow>
                       signal_drop k (reply_datagram k (d\<lparr>d_world := w\<rparr>) sender (ErrorResponse False (ErrText ''pty allocation failed'' e))) (pr_signal prep)
                   | (w, Inr pty) \<Rightarrow>
                       (case k_pipe2 k w of
                          (w, Inl e) \<Rightarrow>
                            (let d = reply_datagram k (d\<lparr>d_world := w\<rparr>) sender (ErrorResponse False (ErrText ''log pipe creation failed'' e));
                                 d = (case pty of None \<Rightarrow> d | Some (m, s) \<Rightarrow> close_pair k d (s, m))
                             in signal_drop k d (pr_signal prep))
                        | (w, Inr log_pipe) \<Rightarrow> run_clone k (d\<lparr>d_world := w\<rparr>) sender (ra_save args) prep log_pipe stdin_pipe pty))))"

section \<open>Requests by datagram\<close>

definition args_of :: "run_request \<Rightarrow> run_args" where
  "args_of r =
     \<lparr>ra_rootfs = rq_rootfs r, ra_net_pid = rq_net_pid r, ra_save = rq_save r, ra_command = rq_command r,
      ra_tty = (case rq_tty r of Some b \<Rightarrow> b | None \<Rightarrow> False),
      ra_interactive = (case rq_interactive r of Some b \<Rightarrow> b | None \<Rightarrow> False),
      ra_no_init = rq_no_init r, ra_init_path = rq_init_path r\<rparr>"

definition SIGKILL :: int where
  "SIGKILL = 9"

text \<open>The age of a container: zero when the clock went backwards.\<close>

definition summary_of :: "nat \<Rightarrow> container_info \<Rightarrow> container_summary" where
  "summary_of now info = \<lparr>sm_pid = ci_pid info, sm_command = ci_command info, sm_age = now - ci_start_time info\<rparr>"

definition handle_kill :: "'w kernel \<Rightarrow> 'w daemon \<Rightarrow> sockaddr \<Rightarrow> pid \<Rightarrow> 'w daemon" where
  "handle_kill k d sender pid =
     (if get_container d pid = None
      then reply_datagram k d sender (KillResponse False (Some (not_found pid)))
      else case k_kill k (d_world d) pid SIGKILL of
             (w, Inl e) \<Rightarrow> reply_datagram k (emit (Killed pid) (d\<lparr>d_world := w\<rparr>)) sender (KillResponse False (Some (ErrText ''kill failed'' e)))
           | (w, Inr _) \<Rightarrow> reply_datagram k (emit (Killed pid) (d\<lparr>d_world := w\<rparr>)) sender (KillResponse True None))"

definition handle_logs :: "'w kernel \<Rightarrow> 'w daemon \<Rightarrow> sockaddr \<Rightarrow> pid \<Rightarrow> 'w daemon option" where
  "handle_logs k d sender pid =
     (case (case get_container d pid of
              Some info \<Rightarrow> Some (log_gateway_collect_lines (k_lossy k) (ci_gateway info))
            | None \<Rightarrow> map_option (log_cache_collect_lines (k_lossy k)) (map_of (d_log_graveyard d) pid)) of
        None \<Rightarrow> Some (reply_datagram k d sender (ErrorResponse False (not_found pid)))
      | Some res \<Rightarrow> do {
          lines \<leftarrow> res;
          Some (reply_datagram k d sender (LogsResponse lines))
        })"

definition handle_datagram :: "'w kernel \<Rightarrow> 'w daemon \<Rightarrow> sockaddr \<Rightarrow> request \<Rightarrow> 'w daemon option" where
  "handle_datagram k d sender request =
     (case request of
        Run r \<Rightarrow> Some (handle_run k d sender (args_of r))
      | ReqList \<Rightarrow>
          (let (w, now) = k_now k (d_world d) in
           Some (reply_datagram k (d\<lparr>d_world := w\<rparr>) sender
                   (ListResponse (map (\<lambda>(pid, info). summary_of now info) (d_containers d)))))
      | Kill pid \<Rightarrow> Some (handle_kill k d sender pid)
      | Logs pid follow \<Rightarrow> if follow then handle_follow k d sender pid else handle_logs k d sender pid
      | Attach pid \<Rightarrow>
          Some (reply_datagram k d sender (ErrorResponse False (Text ''attach must be sent over the stream socket''))))"

text \<open>The result of the receive, with the bytes and the sender's address the kernel wrote.\<close>

definition on_datagram :: "'w kernel \<Rightarrow> 'w daemon \<Rightarrow> op_local \<Rightarrow> (bytes \<times> sockaddr) io_result \<Rightarrow> 'w daemon option" where
  "on_datagram k d local res =
     (case local of
        LDatagram \<Rightarrow>
          (case res of
             Inl e \<Rightarrow> arm_datagram k d
           | Inr (bs, sender) \<Rightarrow>
               (if bs \<noteq> [] then
                  (case k_parse_request k bs of
                     None \<Rightarrow> arm_datagram k (reply_datagram k d sender (ErrorResponse False (Text ''invalid request'')))
                   | Some request \<Rightarrow> do {
                       d \<leftarrow> handle_datagram k d sender request;
                       arm_datagram k d
                     })
                else arm_datagram k d))
      | _ \<Rightarrow> Some d)"

end
