(* ===== verification/Daemon_Attach.thy ===== *)
theory Daemon_Attach
  imports Daemon_Requests
begin

text \<open>
  Requests over an attach session's stream (\<^verbatim>\<open>libs/core/src/daemon.rs\<close>): starting a container inside
  the session, attaching to a running one, the dispatch of client frames, the start of the daemon, and
  the delivery of a completion to its callback.
\<close>

section \<open>Starting a container in a session\<close>

text \<open>The error path: answer synchronously, then close the session.\<close>

definition attach_error :: "'w kernel \<Rightarrow> 'w daemon \<Rightarrow> nat \<Rightarrow> fd \<Rightarrow> message \<Rightarrow> 'w daemon" where
  "attach_error k d sid stream_fd m =
     close_session k (write_frame_now k d stream_fd 1 (k_json k (ErrorResponse False m))) sid"

definition attach_started ::
  "'w kernel \<Rightarrow> 'w daemon \<Rightarrow> nat \<Rightarrow> fd \<Rightarrow> bool \<Rightarrow> prepared \<Rightarrow> pid \<Rightarrow> fd \<Rightarrow> fd \<Rightarrow> fd \<Rightarrow> 'w daemon option"
where
  "attach_started k d sid stream_fd save prep pid log_read ptm_fd death_write = do {
     let (w, now) = k_now k (d_world d);
     let d = d\<lparr>d_world := w,
               d_containers := AList.update pid (container_new pid prep save now (-1) (-1) death_write) (d_containers d)\<rparr>;
     let d = upd_session d sid (\<lambda>s. s\<lparr>as_ptm_fd := ptm_fd, as_log_read_fd := log_read, as_container_pid := pid\<rparr>);
     d \<leftarrow> arm_session_frame k d sid stream_fd 1 (k_json k (RunResponse True (Some pid) None));
     arm_session_output k d sid
   }"

text \<open>The parent's side after the clone. The result says whether the session goes on.\<close>

definition attach_parent ::
  "'w kernel \<Rightarrow> 'w daemon \<Rightarrow> nat \<Rightarrow> fd \<Rightarrow> bool \<Rightarrow> prepared \<Rightarrow> pid \<Rightarrow> (fd \<times> fd) option \<Rightarrow> (fd \<times> fd) option \<Rightarrow> ('w daemon \<times> bool) option"
where
  "attach_parent k d sid stream_fd save prep pid log_pipe pty =
     (let d = (case pty of None \<Rightarrow> d | Some (m, s) \<Rightarrow> close_fd k d s);
          (d, death_write) = (case pr_death_pipe prep of None \<Rightarrow> (d, -1) | Some (r, w) \<Rightarrow> (close_fd k d r, w))
      in case parent_setup_maps_and_signal k d pid (pr_needs_userns_maps prep) (pr_signal prep) of
           (d, Inl m) \<Rightarrow>
             (let d = close_if_open k d death_write;
                  d = attach_error k d sid stream_fd (Prefixed ''container aborted'' m)
              in Some (case pty of None \<Rightarrow> d | Some (m, s) \<Rightarrow> close_fd k d m, False))
         | (d, Inr _) \<Rightarrow> do {
             let ptm_fd = (case pty of None \<Rightarrow> -1 | Some (m, s) \<Rightarrow> m);
             let d = (case log_pipe of None \<Rightarrow> d | Some (r, w) \<Rightarrow> close_fd k d w);
             let log_read = (case log_pipe of None \<Rightarrow> -1 | Some (r, w) \<Rightarrow> r);
             d \<leftarrow> attach_started k d sid stream_fd save prep pid log_read ptm_fd death_write;
             Some (d, True)
           })"

definition attach_clone ::
  "'w kernel \<Rightarrow> 'w daemon \<Rightarrow> nat \<Rightarrow> fd \<Rightarrow> bool \<Rightarrow> prepared \<Rightarrow> (fd \<times> fd) option \<Rightarrow> (fd \<times> fd) option \<Rightarrow> ('w daemon \<times> bool) option"
where
  "attach_clone k d sid stream_fd save prep log_pipe pty =
     (case k_clone3 k (d_world d) (pr_clone_flags prep) of
        (w, Inl e) \<Rightarrow>
          (let d = close_pair_opt k (d\<lparr>d_world := w\<rparr>) log_pipe;
               d = close_pair_opt k d (pr_death_pipe prep);
               d = attach_error k d sid stream_fd (ErrText ''clone3 failed'' e);
               d = (case pty of None \<Rightarrow> d | Some (m, s) \<Rightarrow> close_pair k d (s, m))
           in Some (signal_drop k d (pr_signal prep), False))
      | (w, Inr pid) \<Rightarrow> attach_parent k (d\<lparr>d_world := w\<rparr>) sid stream_fd save prep pid log_pipe pty)"

definition handle_run_attach :: "'w kernel \<Rightarrow> 'w daemon \<Rightarrow> nat \<Rightarrow> request \<Rightarrow> ('w daemon \<times> bool) option" where
  "handle_run_attach k d sid request =
     (case request of
        Run r \<Rightarrow>
          (case get_session d sid of
             None \<Rightarrow> Some (d, False)
           | Some s \<Rightarrow>
               (let args = args_of r;
                    stream_fd = as_stream_fd s;
                    use_pty = (ra_tty args \<or> ra_interactive args)
                in case prepare_run k d args of
                     (d, Inl m) \<Rightarrow> Some (attach_error k d sid stream_fd m, False)
                   | (d, Inr prep) \<Rightarrow>
                       (if use_pty then
                          (case k_open_pty k (d_world d) of
                             (w, Inl e) \<Rightarrow>
                               Some (signal_drop k (attach_error k (d\<lparr>d_world := w\<rparr>) sid stream_fd (ErrText ''pty allocation failed'' e)) (pr_signal prep), False)
                           | (w, Inr pty) \<Rightarrow> attach_clone k (d\<lparr>d_world := w\<rparr>) sid stream_fd (ra_save args) prep None (Some pty))
                        else
                          (case k_pipe2 k (d_world d) of
                             (w, Inl e) \<Rightarrow>
                               Some (signal_drop k (attach_error k (d\<lparr>d_world := w\<rparr>) sid stream_fd (ErrText ''log pipe creation failed'' e)) (pr_signal prep), False)
                           | (w, Inr p) \<Rightarrow> attach_clone k (d\<lparr>d_world := w\<rparr>) sid stream_fd (ra_save args) prep (Some p) None))))
      | _ \<Rightarrow> Some (d, False))"

section \<open>Attaching to a running container\<close>

definition handle_attach :: "'w kernel \<Rightarrow> 'w daemon \<Rightarrow> nat \<Rightarrow> pid \<Rightarrow> ('w daemon \<times> bool) option" where
  "handle_attach k d sid pid =
     (case get_container d pid of
        None \<Rightarrow>
          (let d = (case session_stream_fd d sid of
                      None \<Rightarrow> d
                    | Some fd \<Rightarrow> write_frame_now k d fd 1 (k_json k (ErrorResponse False (not_found pid))))
           in Some (close_session k d sid, False))
      | Some info \<Rightarrow>
          (let input_fd = (if 0 \<le> ci_ptm_fd info then ci_ptm_fd info else ci_stdin_fd info) in
           case k_pipe2 k (d_world d) of
             (w, Inl e) \<Rightarrow> Some (close_session k (d\<lparr>d_world := w\<rparr>) sid, False)
           | (w, Inr (rfd, wfd)) \<Rightarrow>
               (let pipe_id = d_next_pipe_id d;
                    d = d\<lparr>d_world := w, d_next_pipe_id := pipe_id + 1\<rparr>;
                    d = upd_container d pid (\<lambda>i. i\<lparr>ci_gateway := log_gateway_add_pipe (ci_gateway i) pipe_id wfd\<rparr>);
                    d = upd_session d sid (\<lambda>s. s\<lparr>as_log_read_fd := rfd, as_input_fd := input_fd, as_container_pid := pid\<rparr>)
                in case session_stream_fd d sid of
                     None \<Rightarrow> Some (close_session k d sid, False)
                   | Some stream_fd \<Rightarrow> do {
                       d \<leftarrow> arm_session_frame k d sid stream_fd 1 (k_json k (RunResponse True (Some pid) None));
                       d \<leftarrow> arm_session_output k d sid;
                       Some (d, True)
                     })))"

section \<open>Client frames\<close>

definition dispatch_frame :: "'w kernel \<Rightarrow> 'w daemon \<Rightarrow> nat \<Rightarrow> u8 \<Rightarrow> bytes \<Rightarrow> ('w daemon \<times> bool) option" where
  "dispatch_frame k d sid frame_type payload =
     (if frame_type = 0 then
        (case k_parse_request k payload of
           None \<Rightarrow> Some (d, False)
         | Some request \<Rightarrow>
             (case request of
                Run r \<Rightarrow> handle_run_attach k d sid request
              | Attach pid \<Rightarrow> handle_attach k d sid pid
              | _ \<Rightarrow> Some (d, False)))
      else if frame_type = 16 then
        (let fd = session_input_fd d sid in
         Some (if payload \<noteq> [] \<and> 0 \<le> fd then arm_session_stdin k d sid fd payload else d, True))
      else if frame_type = 17 then
        (case get_session d sid of
           None \<Rightarrow> Some (d, True)
         | Some s \<Rightarrow>
             Some (if 0 \<le> as_ptm_fd s then close_fd k (upd_session d sid (\<lambda>s. s\<lparr>as_ptm_fd := -1\<rparr>)) (as_ptm_fd s)
                   else if 0 \<le> as_input_fd s then close_fd k (upd_session d sid (\<lambda>s. s\<lparr>as_input_fd := -1\<rparr>)) (as_input_fd s)
                   else d, True))
      else if frame_type = 32 then
        (case k_parse_winsize k payload of
           Some (rows, cols) \<Rightarrow>
             (let ptm_fd = (case get_session d sid of Some s \<Rightarrow> as_ptm_fd s | None \<Rightarrow> -1) in
              Some (if 0 \<le> ptm_fd
                    then emit (Resized ptm_fd rows cols) (d\<lparr>d_world := k_ioctl_winsize k (d_world d) ptm_fd rows cols\<rparr>)
                    else d, True))
         | None \<Rightarrow> Some (d, True))
      else Some (d, False))"

definition on_session_payload :: "'w kernel \<Rightarrow> 'w daemon \<Rightarrow> op_local \<Rightarrow> bytes io_result \<Rightarrow> 'w daemon option" where
  "on_session_payload k d local res =
     (case local of
        LSessionPayload sid frame_type acc need \<Rightarrow>
          (case res of
             Inl e \<Rightarrow> Some (close_session k d sid)
           | Inr b \<Rightarrow>
               (if b = [] then Some (close_session k d sid)
                else
                  (let acc = acc @ b in
                   if length acc < need then
                     (case submit k d (ReadProvided (stream_fd_or d sid) (max (need - length acc) 1))
                              (LSessionPayload sid frame_type acc need) On_session_payload of
                        (d, Some op) \<Rightarrow> Some (store_session_op d sid SRead (Some op))
                      | (d, None) \<Rightarrow> Some d)
                   else do {
                     let d = store_session_op d sid SRead None;
                     (d, buf) \<leftarrow> pool_alloc k d (max (length acc) 1);
                     (d, go_on) \<leftarrow> dispatch_frame k d sid frame_type acc;
                     Some (if \<not> go_on then close_session k d sid else arm_session_read k d sid)
                   })))
      | _ \<Rightarrow> Some d)"

section \<open>The daemon\<close>

text \<open>
  \<^verbatim>\<open>boot\<close> once the sockets and the signal descriptor exist; an error in opening one of them ends
  the daemon before anything is armed.
\<close>

definition boot :: "'w kernel \<Rightarrow> 'w daemon \<Rightarrow> (fd \<times> fd \<times> fd) io_result \<Rightarrow> 'w daemon option" where
  "boot k d fds =
     (case fds of
        Inl e \<Rightarrow> Some d
      | Inr (datagram_fd, attach_listener_fd, sigchld_fd) \<Rightarrow> do {
          let d = d\<lparr>d_datagram_fd := datagram_fd, d_attach_listener_fd := attach_listener_fd, d_sigchld_fd := sigchld_fd\<rparr>;
          d \<leftarrow> arm_datagram k d;
          Some (arm_sigchld k (arm_accept k d))
        })"

text \<open>What an operation reports, by kind.\<close>

datatype op_result =
    BytesResult "bytes io_result"
  | CountResult "nat io_result"
  | FdResult "fd io_result"
  | MsgResult "(bytes \<times> sockaddr) io_result"

text \<open>
  The delivery of a completion: the operation is no longer in flight, and its callback gets its
  local and the result. A result of the wrong kind cannot be delivered.
\<close>

definition run_callback :: "'w kernel \<Rightarrow> 'w daemon \<Rightarrow> callback \<Rightarrow> op_local \<Rightarrow> op_result \<Rightarrow> 'w daemon option" where
  "run_callback k d cb local r =
     (case (cb, r) of
        (On_datagram_peek, CountResult res) \<Rightarrow> on_datagram_peek k d local res
      | (On_datagram, MsgResult res) \<Rightarrow> on_datagram k d local res
      | (On_follow_send, CountResult res) \<Rightarrow> Some (on_follow_send k d local res)
      | (On_accept, FdResult res) \<Rightarrow> Some (on_accept k d local res)
      | (On_sigchld, BytesResult res) \<Rightarrow> on_sigchld k d local res
      | (On_container_output, BytesResult res) \<Rightarrow> on_container_output k d local res
      | (On_container_pty_output, BytesResult res) \<Rightarrow> on_container_pty_output k d local res
      | (On_follow_write, CountResult res) \<Rightarrow> on_follow_write k d local res
      | (On_session_header, BytesResult res) \<Rightarrow> Some (on_session_header k d local res)
      | (On_session_payload, BytesResult res) \<Rightarrow> on_session_payload k d local res
      | (On_session_frame, CountResult res) \<Rightarrow> on_session_frame k d local res
      | (On_session_data_header, CountResult res) \<Rightarrow> on_session_data_header k d local res
      | (On_session_data_payload, CountResult res) \<Rightarrow> on_session_data_payload k d local res
      | (On_session_output, BytesResult res) \<Rightarrow> on_session_output k d local res
      | (On_session_stdin, CountResult res) \<Rightarrow> Some (on_session_stdin k d local res)
      | _ \<Rightarrow> None)"

definition deliver :: "'w kernel \<Rightarrow> 'w daemon \<Rightarrow> nat \<Rightarrow> op_result \<Rightarrow> 'w daemon option" where
  "deliver k d i r =
     (case map_of (d_ops d) i of
        None \<Rightarrow> None
      | Some p \<Rightarrow> run_callback k (d\<lparr>d_ops := AList.delete i (d_ops d)\<rparr>) (po_cb p) (po_local p) r)"

end
