(* ===== verification/Demo_Kernel.thy ===== *)
theory Demo_Kernel
  imports Daemon_Attach
begin

text \<open>
  A concrete kernel, small enough to evaluate: descriptors and process ids are counted up, a
  container exits at once with status 7, every write is complete, and requests are one-byte
  tags. The examples of the daemon's theorems run scripts of completions against it.
\<close>

record demo_world =
  dw_next :: nat
  dw_exits :: "(pid \<times> int) list"
  dw_written :: "(fd \<times> bytes) list"

definition demo_pair :: "demo_world \<Rightarrow> demo_world \<times> (fd \<times> fd) io_result" where
  "demo_pair w = (w\<lparr>dw_next := dw_next w + 2\<rparr>, Inr (int (dw_next w), int (dw_next w) + 1))"

definition demo_run :: run_request where
  "demo_run = \<lparr>rq_rootfs = None, rq_net_pid = None, rq_save = False, rq_command = [[115, 104]], rq_interactive = None,
               rq_tty = None, rq_no_init = False, rq_init_path = None\<rparr>"

definition demo_parse :: "bytes \<Rightarrow> request option" where
  "demo_parse bs =
     (case bs of
        [] \<Rightarrow> None
      | t # rest \<Rightarrow>
          (let p = (case rest of [] \<Rightarrow> 0 | b # _ \<Rightarrow> uint b) in
           if t = 1 then Some (Run demo_run)
           else if t = 2 then Some (Attach p)
           else if t = 3 then Some (Kill p)
           else if t = 4 then Some (Logs p False)
           else if t = 5 then Some (Logs p True)
           else if t = 6 then Some ReqList
           else if t = 7 then Some (Run (demo_run\<lparr>rq_interactive := Some True\<rparr>))
           else None))"

definition demo_kernel :: "demo_world kernel" where
  "demo_kernel =
     \<lparr>k_arm = (\<lambda>w r. (w, Inr ())),
      k_cancel = (\<lambda>w i. (w, True)),
      k_alloc = (\<lambda>w n. Some (w, replicate n 0)),
      k_close = (\<lambda>w fd. w),
      k_write = (\<lambda>w fd bs. (w\<lparr>dw_written := dw_written w @ [(fd, bs)]\<rparr>, Inr (length bs))),
      k_sendto = (\<lambda>w fd a bs. (w, Inr (length bs))),
      k_pipe2 = demo_pair,
      k_open_pty = demo_pair,
      k_clone3 = (\<lambda>w fl. (w\<lparr>dw_next := dw_next w + 1, dw_exits := dw_exits w @ [(int (dw_next w), 7 * 256)]\<rparr>, Inr (int (dw_next w)))),
      k_wait4 = (\<lambda>w. case dw_exits w of [] \<Rightarrow> (w, Inr (0, 0)) | e # es \<Rightarrow> (w\<lparr>dw_exits := es\<rparr>, Inr e)),
      k_kill = (\<lambda>w p s. (w, Inr ())),
      k_now = (\<lambda>w. (w, 0)),
      k_canonicalize = (\<lambda>w p. (w, Inr p)),
      k_tempdir = (\<lambda>w. (w, Inr [116])),
      k_remove_tree = (\<lambda>w p. w),
      k_open_ns = (\<lambda>w p s. (w\<lparr>dw_next := dw_next w + 1\<rparr>, Inr (int (dw_next w)))),
      k_setns = (\<lambda>w fd fl. (w, Inr ())),
      k_write_file = (\<lambda>w p s. (w, Inr ())),
      k_ioctl_winsize = (\<lambda>w fd r c. w),
      k_json = (\<lambda>r. [123, 125]),
      k_exit_json = (\<lambda>c. [of_int c]),
      k_parse_request = demo_parse,
      k_parse_winsize = (\<lambda>bs. None),
      k_lossy = (\<lambda>bs. bs)\<rparr>"

definition demo_start :: "demo_world daemon" where
  "demo_start = daemon_state_new \<lparr>dw_next = 100, dw_exits = [], dw_written = []\<rparr>"

text \<open>A run of the daemon: the start, then completions in the order they are delivered.\<close>

fun deliver_all :: "'w kernel \<Rightarrow> 'w daemon \<Rightarrow> (nat \<times> op_result) list \<Rightarrow> 'w daemon option" where
  "deliver_all k d [] = Some d"
| "deliver_all k d ((i, r) # rs) = do {
     d \<leftarrow> deliver k d i r;
     deliver_all k d rs
   }"

definition demo_script :: "(nat \<times> op_result) list \<Rightarrow> demo_world daemon option" where
  "demo_script rs = do {
     d \<leftarrow> boot demo_kernel demo_start (Inr (10, 11, 12));
     deliver_all demo_kernel d rs
   }"

text \<open>A client connects, runs a container inside its session, and sees it end.\<close>

definition attach_script :: "(nat \<times> op_result) list" where
  "attach_script =
     [(2, FdResult (Inr 50)), (4, BytesResult (Inr [0, 1, 0])), (6, BytesResult (Inr [1])),
      (8, BytesResult (Inr [])), (3, BytesResult (Inr [1]))]"

lemma demo_kernel_simps [simp]:
  "k_arm demo_kernel w r = (w, Inr ())"
  "k_cancel demo_kernel w i = (w, True)"
  "k_alloc demo_kernel w n = Some (w, replicate n 0)"
  "k_close demo_kernel w fd = w"
  "k_write demo_kernel w fd bs = (w\<lparr>dw_written := dw_written w @ [(fd, bs)]\<rparr>, Inr (length bs))"
  "k_sendto demo_kernel w fd a bs = (w, Inr (length bs))"
  "k_pipe2 demo_kernel = demo_pair"
  "k_open_pty demo_kernel = demo_pair"
  "k_clone3 demo_kernel w fl =
     (w\<lparr>dw_next := dw_next w + 1, dw_exits := dw_exits w @ [(int (dw_next w), 7 * 256)]\<rparr>, Inr (int (dw_next w)))"
  "k_wait4 demo_kernel w = (case dw_exits w of [] \<Rightarrow> (w, Inr (0, 0)) | e # es \<Rightarrow> (w\<lparr>dw_exits := es\<rparr>, Inr e))"
  "k_kill demo_kernel w p s = (w, Inr ())"
  "k_now demo_kernel w = (w, 0)"
  "k_remove_tree demo_kernel w path = w"
  "k_write_file demo_kernel w p name = (w, Inr ())"
  "k_json demo_kernel resp = [123, 125]"
  "k_exit_json demo_kernel c = [of_int c]"
  "k_parse_request demo_kernel = demo_parse"
  "k_lossy demo_kernel bs = bs"
  by (simp_all add: demo_kernel_def)

text \<open>The definitions a run unfolds; the containers' ring buffers stay folded.\<close>

lemmas demo_run_defs =
  demo_script_def attach_script_def demo_start_def daemon_state_new_def boot_def arm_datagram_def
  msg_with_capacity_def pool_msg_def pool_release_def submit_def emit_def arm_accept_def arm_sigchld_def deliver_def run_callback_def
  on_accept_def arm_session_read_def get_session_def upd_session_def store_session_op_def session_new_def
  on_session_header_def stream_fd_or_def on_session_payload_def pool_alloc_def dispatch_frame_def demo_parse_def
  handle_run_attach_def args_of_def demo_run_def prepare_run_def prepare_rootfs_def prepare_flags_def
  prepare_death_pipe_def init_argv_of_def demo_pair_def attach_clone_def attach_parent_def close_fd_def
  parent_setup_maps_and_signal_def setup_userns_maps_def signal_signal_def attach_started_def
  arm_session_frame_def arm_session_output_def on_session_output_def finish_session_output_def
  maybe_finish_session_def on_sigchld_def reap_children_def reap_one_def reap_container_def bury_def
  close_if_open_def close_fds_def cleanup_unless_saved_def exit_code_of_def wtermsig_def wexitstatus_def
  get_container_def container_new_def close_session_def on_session_frame_def cancel_op_def
  session_is_exit_def u16_from_le_bytes_def u16_to_le_bytes_def ensure_def MAX_IOV_CAP_def
  log_gateway_new_def log_gateway_close_all_pipes_def

end
