(* ===== verification/Session_Protocol.thy ===== *)
theory Session_Protocol
  imports Demo_Kernel
begin

text \<open>
  The protocol an attach session follows, as an abstract machine, and the refinement that every step
  of the daemon follows it. A session is opened with a fresh number; its output drain may end and
  its container may exit, in either order; when both have happened the exit frame is sent, once;
  it may be closed at any time. Everything else the daemon does (requests, logs, other
  containers) leaves the machine where it is.
\<close>

section \<open>The abstract machine\<close>

record sess_flags =
  sf_drained :: bool
  sf_exited :: bool
  sf_sent :: bool

record sess_spec =
  sp_live :: "nat \<rightharpoonup> sess_flags"
  sp_next :: nat
  sp_exits :: "nat list"

definition flags_new :: sess_flags where
  "flags_new = \<lparr>sf_drained = False, sf_exited = False, sf_sent = False\<rparr>"

inductive sess_step :: "sess_spec \<Rightarrow> sess_spec \<Rightarrow> bool" where
  Open: "sess_step s (s\<lparr>sp_live := (sp_live s)(sp_next s \<mapsto> flags_new), sp_next := sp_next s + 1\<rparr>)"
| Drained: "sp_live s sid = Some f \<Longrightarrow> sess_step s (s\<lparr>sp_live := (sp_live s)(sid \<mapsto> f\<lparr>sf_drained := True\<rparr>)\<rparr>)"
| Exited: "sp_live s sid = Some f \<Longrightarrow> sess_step s (s\<lparr>sp_live := (sp_live s)(sid \<mapsto> f\<lparr>sf_exited := True\<rparr>)\<rparr>)"
| SendExit: "sp_live s sid = Some f \<Longrightarrow> sf_drained f \<Longrightarrow> sf_exited f \<Longrightarrow> \<not> sf_sent f \<Longrightarrow>
    sess_step s (s\<lparr>sp_live := (sp_live s)(sid \<mapsto> f\<lparr>sf_sent := True\<rparr>), sp_exits := sp_exits s @ [sid]\<rparr>)"
| Close: "sess_step s (s\<lparr>sp_live := (sp_live s)(sid := None)\<rparr>)"

abbreviation sess_steps :: "sess_spec \<Rightarrow> sess_spec \<Rightarrow> bool" where
  "sess_steps \<equiv> sess_step\<^sup>*\<^sup>*"

definition sess_inv :: "sess_spec \<Rightarrow> bool" where
  "sess_inv s \<longleftrightarrow> distinct (sp_exits s) \<and> (\<forall>sid \<in> set (sp_exits s). sid < sp_next s) \<and>
     (\<forall>sid f. sp_live s sid = Some f \<longrightarrow> sid < sp_next s \<and> (sid \<in> set (sp_exits s) \<longleftrightarrow> sf_sent f) \<and>
        (sf_sent f \<longrightarrow> sf_drained f \<and> sf_exited f))"

lemma sess_step_inv: "sess_step s t \<Longrightarrow> sess_inv s \<Longrightarrow> sess_inv t"
proof (induction rule: sess_step.induct)
  case (Open s)
  then show ?case by (fastforce simp: sess_inv_def flags_new_def less_Suc_eq)
next
  case (SendExit s sid f)
  then show ?case unfolding sess_inv_def by (auto split: if_splits)
qed (auto simp: sess_inv_def split: if_splits)

lemma sess_steps_inv: "sess_steps s t \<Longrightarrow> sess_inv s \<Longrightarrow> sess_inv t"
  by (induction rule: rtranclp_induct) (auto dest: sess_step_inv)

section \<open>The abstraction\<close>

definition exits :: "event list \<Rightarrow> nat list" where
  "exits tr = List.map_filter (\<lambda>e. case e of ExitFrame sid \<Rightarrow> Some sid | _ \<Rightarrow> None) tr"

definition flags_of :: "attach_session \<Rightarrow> sess_flags" where
  "flags_of s = \<lparr>sf_drained = as_drain_done s, sf_exited = as_child_exited s, sf_sent = as_exit_sent s\<rparr>"

definition sess_abs :: "'w daemon \<Rightarrow> sess_spec" where
  "sess_abs d = \<lparr>sp_live = (\<lambda>sid. map_option flags_of (get_session d sid)), sp_next = d_next_session_id d,
                sp_exits = exits (d_trace d)\<rparr>"

lemma exits_append [simp]: "exits (xs @ ys) = exits xs @ exits ys"
  by (simp add: exits_def map_filter_def)

lemma exits_single [simp]: "exits [e] = (case e of ExitFrame sid \<Rightarrow> [sid] | _ \<Rightarrow> [])"
  by (cases e) (simp_all add: exits_def map_filter_def)

lemma exits_Nil [simp]: "exits [] = []"
  by (simp add: exits_def map_filter_def)

lemma abs_frame [simp]:
  "sess_abs (d\<lparr>d_world := w\<rparr>) = sess_abs d"
  "sess_abs (d\<lparr>d_ops := x1\<rparr>) = sess_abs d"
  "sess_abs (d\<lparr>d_next_op := x2\<rparr>) = sess_abs d"
  "sess_abs (d\<lparr>d_containers := x3\<rparr>) = sess_abs d"
  "sess_abs (d\<lparr>d_outputs := x4\<rparr>) = sess_abs d"
  "sess_abs (d\<lparr>d_log_graveyard := x5\<rparr>) = sess_abs d"
  "sess_abs (d\<lparr>d_next_pipe_id := x6\<rparr>) = sess_abs d"
  "sess_abs (d\<lparr>d_datagram_fd := x7\<rparr>) = sess_abs d"
  "sess_abs (d\<lparr>d_attach_listener_fd := x7\<rparr>) = sess_abs d"
  "sess_abs (d\<lparr>d_sigchld_fd := x7\<rparr>) = sess_abs d"
  by (simp_all add: sess_abs_def get_session_def)

lemma abs_emit [simp]:
  "sess_abs (emit e d) = (case e of ExitFrame sid \<Rightarrow> (sess_abs d)\<lparr>sp_exits := sp_exits (sess_abs d) @ [sid]\<rparr> | _ \<Rightarrow> sess_abs d)"
  by (cases e) (simp_all add: sess_abs_def emit_def get_session_def)

lemma abs_close_fd [simp]: "sess_abs (close_fd k d fd) = sess_abs d"
  by (simp add: close_fd_def)

lemma abs_close_if_open [simp]: "sess_abs (close_if_open k d fd) = sess_abs d"
  by (simp add: close_if_open_def)

lemma abs_close_fds [simp]: "sess_abs (close_fds k d fds) = sess_abs d"
  by (induction fds arbitrary: d) (simp_all add: close_fds_def)

lemma abs_submit: "submit k d req local cb = (d', r) \<Longrightarrow> sess_abs d' = sess_abs d"
  by (auto simp: submit_def Let_def split: prod.splits sum.splits)

lemma abs_fst_submit [simp]: "sess_abs (fst (submit k d req local cb)) = sess_abs d"
  by (metis abs_submit prod.collapse)

lemma abs_pool_alloc: "pool_alloc k d n = Some (d', b) \<Longrightarrow> sess_abs d' = sess_abs d"
  by (auto simp: pool_alloc_def)

lemma abs_cancel_op [simp]: "sess_abs (cancel_op k d i) = sess_abs d"
  by (auto simp: cancel_op_def Let_def split: option.splits prod.splits)

lemma abs_upd_container [simp]: "sess_abs (upd_container d pid f) = sess_abs d"
  by (simp add: upd_container_def)

lemma abs_reply [simp]: "sess_abs (reply_datagram k d sender r) = sess_abs d"
  by (simp add: reply_datagram_def Let_def split: prod.splits)

lemma abs_frame_now [simp]: "sess_abs (write_frame_now k d fd ty p) = sess_abs d"
  by (simp add: write_frame_now_def Let_def split: prod.splits)

lemma get_upd_session:
  "get_session (upd_session d sid f) sid' =
     (if sid' = sid then map_option f (get_session d sid) else get_session d sid')"
  by (auto simp: get_session_def upd_session_def map_of_map_entry split: option.splits)

lemma abs_upd_session:
  "sess_abs (upd_session d sid f) = (sess_abs d)\<lparr>sp_live := (\<lambda>j. if j = sid then map_option (flags_of \<circ> f) (get_session d sid)
     else sp_live (sess_abs d) j)\<rparr>"
  by (auto simp: sess_abs_def fun_eq_iff get_upd_session option.map_comp) (simp_all add: upd_session_def)

lemma abs_upd_session_same:
  assumes "\<And>s. flags_of (f s) = flags_of s" shows "sess_abs (upd_session d sid f) = sess_abs d"
proof -
  have "flags_of \<circ> f = flags_of" using assms by auto
  then show ?thesis unfolding abs_upd_session by (simp add: sess_abs_def cong: if_cong) (simp add: fun_eq_iff)
qed

lemma abs_store [simp]: "sess_abs (store_session_op d sid w op) = sess_abs d"
  unfolding store_session_op_def by (intro abs_upd_session_same) (simp add: flags_of_def split: session_op.splits)

section \<open>Session handlers follow the machine\<close>

lemma close_session_steps: "sess_steps (sess_abs d) (sess_abs (close_session k d sid))"
proof (cases "get_session d sid")
  case None
  then show ?thesis by (simp add: close_session_def)
next
  case (Some s)
  have "sess_abs (close_session k d sid) = sess_abs (d\<lparr>d_sessions := AList.delete sid (d_sessions d)\<rparr>)"
    using Some by (simp add: close_session_def Let_def split: option.splits)
  also have "\<dots> = (sess_abs d)\<lparr>sp_live := (sp_live (sess_abs d))(sid := None)\<rparr>"
    by (auto simp: sess_abs_def get_session_def delete_conv' fun_eq_iff)
  finally show ?thesis using sess_step.Close [of "sess_abs d" sid] by auto
qed

lemma abs_session_frame: "arm_session_frame k d sid fd ty p = Some d' \<Longrightarrow> sess_abs d' = sess_abs d"
  by (auto simp: arm_session_frame_def Let_def split_def bind_eq_Some_conv dest: abs_pool_alloc)

lemma on_session_frame_steps: "on_session_frame k d l r = Some d' \<Longrightarrow> sess_steps (sess_abs d) (sess_abs d')"
  using close_session_steps
  by (auto simp: on_session_frame_def Let_def split: op_local.splits sum.splits if_splits)

lemma maybe_finish_steps:
  assumes "maybe_finish_session k d sid = Some d'" shows "sess_steps (sess_abs d) (sess_abs d')"
proof (cases "get_session d sid")
  case None
  then show ?thesis using assms by (simp add: maybe_finish_session_def)
next
  case (Some s)
  show ?thesis
  proof (cases "\<not> (as_drain_done s \<and> as_child_exited s) \<or> as_exit_sent s")
    case True
    then have "d' = d" using assms Some by (auto simp: maybe_finish_session_def)
    then show ?thesis by simp
  next
    case False
    let ?a = "sess_abs d"
    let ?b = "?a\<lparr>sp_live := (sp_live ?a)(sid \<mapsto> (flags_of s)\<lparr>sf_sent := True\<rparr>), sp_exits := sp_exits ?a @ [sid]\<rparr>"
    have "sess_abs d' = sess_abs (emit (ExitFrame sid) (upd_session d sid (\<lambda>s. s\<lparr>as_exit_sent := True\<rparr>)))"
      using assms Some False by (auto simp: maybe_finish_session_def Let_def simp del: abs_emit dest: abs_session_frame)
    also have "\<dots> = ?b" using Some by (auto simp: abs_upd_session flags_of_def fun_eq_iff)
    finally have d': "sess_abs d' = ?b" .
    have "sess_step ?a ?b"
      using Some False by (intro sess_step.SendExit) (auto simp: sess_abs_def flags_of_def)
    then show ?thesis unfolding d' by blast
  qed
qed

text \<open>Setting a flag of a session that may be gone.\<close>

lemma drained_steps: "sess_steps (sess_abs d) (sess_abs (upd_session d sid (\<lambda>s. s\<lparr>as_drain_done := True\<rparr>)))"
proof (cases "get_session d sid")
  case None
  then have "sess_abs (upd_session d sid (\<lambda>s. s\<lparr>as_drain_done := True\<rparr>)) = sess_abs d"
    by (simp add: abs_upd_session) (auto simp: sess_abs_def fun_eq_iff)
  then show ?thesis by simp
next
  case (Some s)
  then have "sess_abs (upd_session d sid (\<lambda>s. s\<lparr>as_drain_done := True\<rparr>)) =
      (sess_abs d)\<lparr>sp_live := (sp_live (sess_abs d))(sid \<mapsto> (flags_of s)\<lparr>sf_drained := True\<rparr>)\<rparr>"
    by (auto simp: abs_upd_session flags_of_def fun_eq_iff)
  then show ?thesis
    using sess_step.Drained [of "sess_abs d" sid "flags_of s"] Some by (auto simp: sess_abs_def)
qed

lemma exited_steps:
  "sess_steps (sess_abs d) (sess_abs (upd_session d sid (\<lambda>s. s\<lparr>as_child_exited := True, as_exit_code := c\<rparr>)))"
proof (cases "get_session d sid")
  case None
  then have "sess_abs (upd_session d sid (\<lambda>s. s\<lparr>as_child_exited := True, as_exit_code := c\<rparr>)) = sess_abs d"
    by (simp add: abs_upd_session) (auto simp: sess_abs_def fun_eq_iff)
  then show ?thesis by simp
next
  case (Some s)
  then have "sess_abs (upd_session d sid (\<lambda>s. s\<lparr>as_child_exited := True, as_exit_code := c\<rparr>)) =
      (sess_abs d)\<lparr>sp_live := (sp_live (sess_abs d))(sid \<mapsto> (flags_of s)\<lparr>sf_exited := True\<rparr>)\<rparr>"
    by (auto simp: abs_upd_session flags_of_def fun_eq_iff)
  then show ?thesis
    using sess_step.Exited [of "sess_abs d" sid "flags_of s"] Some by (auto simp: sess_abs_def)
qed

lemma finish_output_steps: "finish_session_output k d sid = Some d' \<Longrightarrow> sess_steps (sess_abs d) (sess_abs d')"
  unfolding finish_session_output_def using drained_steps [of d sid] maybe_finish_steps by (metis rtranclp_trans)

lemma arm_output_steps: "arm_session_output k d sid = Some d' \<Longrightarrow> sess_steps (sess_abs d) (sess_abs d')"
  using finish_output_steps
  by (auto simp: arm_session_output_def Let_def split: prod.splits option.splits if_splits dest!: abs_submit)

lemma on_session_output_steps:
  assumes "on_session_output k d l r = Some d'" shows "sess_steps (sess_abs d) (sess_abs d')"
proof -
  have f: "sess_steps (sess_abs d) (sess_abs d')"
    if "finish_session_output k d1 sid = Some d'" "sess_abs d1 = sess_abs d" for d1 sid
    using finish_output_steps [OF that(1)] that(2) by simp
  show ?thesis using assms
    by (auto simp: on_session_output_def Let_def split_def bind_eq_Some_conv intro: f
        split: op_local.splits sum.splits option.splits if_splits dest!: abs_pool_alloc)
qed

lemma on_data_header_steps: "on_session_data_header k d l r = Some d' \<Longrightarrow> sess_steps (sess_abs d) (sess_abs d')"
  using finish_output_steps
  by (auto simp: on_session_data_header_def Let_def split: op_local.splits sum.splits if_splits)

lemma on_data_payload_steps: "on_session_data_payload k d l r = Some d' \<Longrightarrow> sess_steps (sess_abs d) (sess_abs d')"
  using finish_output_steps arm_output_steps
  by (auto simp: on_session_data_payload_def Let_def split: op_local.splits sum.splits if_splits)

lemma abs_stdin [simp]: "sess_abs (on_session_stdin k d l r) = sess_abs d"
  by (auto simp: on_session_stdin_def Let_def split: op_local.splits sum.splits)

lemma abs_arm_stdin [simp]: "sess_abs (arm_session_stdin k d sid fd buf) = sess_abs d"
  by (simp add: arm_session_stdin_def)

lemma abs_arm_read [simp]: "sess_abs (arm_session_read k d sid) = sess_abs d"
  by (auto simp: arm_session_read_def split: option.splits prod.splits dest: abs_submit)

lemma abs_arm_accept [simp]: "sess_abs (arm_accept k d) = sess_abs d"
  by (simp add: arm_accept_def)

lemma on_accept_steps: "sess_steps (sess_abs d) (sess_abs (on_accept k d l r))"
proof -
  have "sess_abs (d\<lparr>d_next_session_id := d_next_session_id d + 1,
        d_sessions := AList.update (d_next_session_id d) (session_new fd) (d_sessions d)\<rparr>) =
      (sess_abs d)\<lparr>sp_live := (sp_live (sess_abs d))(sp_next (sess_abs d) \<mapsto> flags_new), sp_next := sp_next (sess_abs d) + 1\<rparr>" for fd
    by (auto simp: sess_abs_def get_session_def update_conv' flags_new_def flags_of_def session_new_def fun_eq_iff)
  then show ?thesis
    using sess_step.Open [of "sess_abs d"] by (auto simp: on_accept_def Let_def split: op_local.splits sum.splits)
qed

lemma on_header_steps: "sess_steps (sess_abs d) (sess_abs (on_session_header k d l r))"
  using close_session_steps [of d k]
  by (auto simp: on_session_header_def Let_def split: op_local.splits sum.splits if_splits prod.splits option.splits
      dest!: abs_submit)

section \<open>Containers\<close>

lemma abs_complete_write: "complete_write k d pid pipe_id ok = Some d' \<Longrightarrow> sess_abs d' = sess_abs d"
  by (auto simp: complete_write_def bind_eq_Some_conv split: option.splits)

lemma abs_arm_follow_write: "arm_follow_write k d pid pipe_id fd chunks = Some d' \<Longrightarrow> sess_abs d' = sess_abs d"
  by (auto simp: arm_follow_write_def dest: abs_complete_write split: list.splits)

lemma abs_on_follow_write: "on_follow_write k d l r = Some d' \<Longrightarrow> sess_abs d' = sess_abs d"
  by (auto simp: on_follow_write_def Let_def dest: abs_complete_write abs_arm_follow_write
      split: op_local.splits sum.splits if_splits)

lemma abs_arm_follow_writes: "arm_follow_writes k d pid line ps = Some d' \<Longrightarrow> sess_abs d' = sess_abs d"
  by (induction k d pid line ps rule: arm_follow_writes.induct) (fastforce simp: bind_eq_Some_conv dest: abs_arm_follow_write)+

lemma abs_write_line: "write_line k d pid line = Some d' \<Longrightarrow> sess_abs d' = sess_abs d"
  by (auto simp: write_line_def Let_def bind_eq_Some_conv dest!: abs_arm_follow_writes split: option.splits)

lemma abs_write_lines: "write_lines k d pid lines = Some d' \<Longrightarrow> sess_abs d' = sess_abs d"
  by (induction k d pid lines rule: write_lines.induct) (auto simp: bind_eq_Some_conv dest: abs_write_line)

lemma abs_bury [simp]: "sess_abs (bury d pid info) = sess_abs d"
  by (simp add: bury_def)

lemma abs_cleanup [simp]: "sess_abs (cleanup_unless_saved k d info) = sess_abs d"
  by (simp add: cleanup_unless_saved_def split: option.splits)

lemma abs_finish_drain [simp]: "sess_abs (finish_drain k d pid) = sess_abs d"
  by (simp add: finish_drain_def Let_def split: option.splits)

lemma abs_reap_container [simp]: "sess_abs (reap_container k d pid) = sess_abs d"
  by (simp add: reap_container_def Let_def split: option.splits)

lemma reap_one_steps: "sess_steps (sess_abs d) (sess_abs (fst (reap_one k d pid status)))"
  by (auto simp: reap_one_def Let_def exited_steps split: option.splits)

lemma reap_loop_steps:
  assumes "reap_loop k d fin = Some r" shows "sess_steps (sess_abs d) (sess_abs (fst r))"
proof (rule reap_loop.raw_induct [where P = "\<lambda>k d fin r. sess_steps (sess_abs d) (sess_abs (fst r))", OF _ assms])
  fix f k d fin and r :: "'a daemon \<times> nat list"
  assume IH: "\<And>k d fin r. f k d fin = Some r \<Longrightarrow> sess_steps (sess_abs d) (sess_abs (fst r))"
    and body: "(case k_wait4 k (d_world d) of
        (w, Inl e) \<Rightarrow> Some (d\<lparr>d_world := w\<rparr>, fin)
      | (w, Inr (pid, status)) \<Rightarrow>
          if 0 < pid then case reap_one k (d\<lparr>d_world := w\<rparr>) pid status of (d, sids) \<Rightarrow> f k d (fin @ sids)
          else Some (d\<lparr>d_world := w\<rparr>, fin)) = Some r"
  have "sess_steps (sess_abs d) (sess_abs (fst r))"
    if "f k d1 fin' = Some r" "d1 = fst (reap_one k (d\<lparr>d_world := w\<rparr>) pid status)" for d1 fin' w pid status
    using IH [OF that(1)] reap_one_steps [of "d\<lparr>d_world := w\<rparr>" k pid status] that(2) by simp
  then show "sess_steps (sess_abs d) (sess_abs (fst r))"
    using body by (auto simp: split_def split: sum.splits if_splits)
qed

lemma finish_sessions_steps: "finish_sessions k d sids = Some d' \<Longrightarrow> sess_steps (sess_abs d) (sess_abs d')"
  by (induction k d sids rule: finish_sessions.induct)
    (auto simp: bind_eq_Some_conv dest: maybe_finish_steps intro: rtranclp_trans)

lemma reap_children_steps: "reap_children k d = Some d' \<Longrightarrow> sess_steps (sess_abs d) (sess_abs d')"
  by (force simp: reap_children_def bind_eq_Some_conv dest: reap_loop_steps finish_sessions_steps intro: rtranclp_trans)

lemma abs_arm_sigchld [simp]: "sess_abs (arm_sigchld k d) = sess_abs d"
  by (simp add: arm_sigchld_def split: option.splits prod.splits)

lemma on_sigchld_steps: "on_sigchld k d l r = Some d' \<Longrightarrow> sess_steps (sess_abs d) (sess_abs d')"
  by (auto simp: on_sigchld_def bind_eq_Some_conv dest: reap_children_steps split: op_local.splits sum.splits if_splits)

lemma abs_finish_output [simp]:
  "sess_abs (finish_container_output k d pid) = sess_abs d"
  "sess_abs (finish_container_pty_output k d pid) = sess_abs d"
  by (simp_all add: finish_container_output_def finish_container_pty_output_def Let_def split: option.splits)

lemma abs_arm_container_output [simp]:
  "sess_abs (arm_container_output k d pid) = sess_abs d"
  "sess_abs (arm_container_pty_output k d pid) = sess_abs d"
  by (simp_all add: arm_container_output_def arm_container_pty_output_def split: option.splits)

lemma abs_container_output:
  "on_container_output k d l r = Some d' \<Longrightarrow> sess_abs d' = sess_abs d"
  "on_container_pty_output k d l r = Some d' \<Longrightarrow> sess_abs d' = sess_abs d"
  by (auto simp: on_container_output_def on_container_pty_output_def Let_def split_def bind_eq_Some_conv
      dest: abs_write_lines split: op_local.splits sum.splits if_splits)

section \<open>Requests\<close>

lemma abs_arm_datagram: "arm_datagram k d = Some d' \<Longrightarrow> sess_abs d' = sess_abs d"
  by (auto simp: arm_datagram_def Let_def split_def bind_eq_Some_conv split: option.splits)

lemma abs_datagram_peek: "on_datagram_peek k d l r = Some d' \<Longrightarrow> sess_abs d' = sess_abs d"
  by (auto simp: on_datagram_peek_def split_def dest: abs_arm_datagram split: op_local.splits sum.splits option.splits)

lemma abs_follow_attach: "follow_attach k d sender pid backlog rfd wfd = Some d' \<Longrightarrow> sess_abs d' = sess_abs d"
  by (auto simp: follow_attach_def Let_def split_def bind_eq_Some_conv split: if_splits option.splits)

lemma abs_handle_follow: "handle_follow k d sender pid = Some d' \<Longrightarrow> sess_abs d' = sess_abs d"
  by (cases "snd (k_pipe2 k (d_world d))")
    (auto simp: handle_follow_def split_def bind_eq_Some_conv split: option.splits dest!: abs_follow_attach)

lemma abs_follow_send [simp]: "sess_abs (on_follow_send k d l r) = sess_abs d"
  by (simp add: on_follow_send_def split: op_local.splits)

lemma abs_signal [simp]:
  "sess_abs (signal_drop k d s) = sess_abs d"
  "sess_abs (signal_signal k d s) = sess_abs d"
  "sess_abs (close_pair k d p) = sess_abs d"
  by (simp_all add: signal_drop_def signal_signal_def close_pair_def Let_def split_def)

lemma abs_close_pair_opt [simp]: "sess_abs (close_pair_opt k d p) = sess_abs d"
  by (simp add: close_pair_opt_def split: option.splits)

lemma abs_prepare [simp]:
  "sess_abs (fst (join_ns k d pid)) = sess_abs d"
  "sess_abs (fst (prepare_rootfs k d root)) = sess_abs d"
  "sess_abs (fst (prepare_death_pipe k d args)) = sess_abs d"
  "sess_abs (fst (setup_userns_maps k d pid)) = sess_abs d"
  by (simp_all add: join_ns_def prepare_rootfs_def prepare_death_pipe_def setup_userns_maps_def Let_def split_def
      split: sum.splits option.splits)

lemma abs_prepare_flags [simp]: "sess_abs (fst (prepare_flags k d net)) = sess_abs d"
  by (simp add: prepare_flags_def Let_def split_def split: sum.splits option.splits)

lemma abs_prepare_run [simp]: "sess_abs (fst (prepare_run k d args)) = sess_abs d"
  by (simp add: prepare_run_def Let_def split_def split: sum.splits)

lemma abs_setup_signal [simp]: "sess_abs (fst (parent_setup_maps_and_signal k d pid needs sig)) = sess_abs d"
  by (simp add: parent_setup_maps_and_signal_def split_def split: sum.splits)

lemma abs_add_drain [simp]: "sess_abs (add_drain d pid) = sess_abs d"
  by (simp add: add_drain_def)

lemma abs_run [simp]:
  "sess_abs (run_started k d sender save prep pid log_read stdin_write ptm_fd death_write) = sess_abs d"
  by (simp add: run_started_def Let_def split_def)

lemma abs_run_parent [simp]: "sess_abs (run_parent k d sender save prep pid log_pipe stdin_pipe pty) = sess_abs d"
  by (simp add: run_parent_def Let_def split_def split: sum.splits option.splits)

lemma abs_run_clone [simp]: "sess_abs (run_clone k d sender save prep log_pipe stdin_pipe pty) = sess_abs d"
  by (simp add: run_clone_def Let_def split_def split: sum.splits)

lemma abs_handle_run [simp]: "sess_abs (handle_run k d sender args) = sess_abs d"
  by (simp add: handle_run_def Let_def split_def split: sum.splits option.splits)

lemma abs_handle_kill [simp]: "sess_abs (handle_kill k d sender pid) = sess_abs d"
  by (simp add: handle_kill_def split_def split: sum.splits)

lemma abs_handle_datagram: "handle_datagram k d sender q = Some d' \<Longrightarrow> sess_abs d' = sess_abs d"
  by (auto simp: handle_datagram_def handle_logs_def Let_def split_def bind_eq_Some_conv dest: abs_handle_follow
      split: request.splits if_splits option.splits)

lemma abs_on_datagram: "on_datagram k d l r = Some d' \<Longrightarrow> sess_abs d' = sess_abs d"
  by (auto simp: on_datagram_def split_def bind_eq_Some_conv dest!: abs_arm_datagram dest: abs_handle_datagram
      split: op_local.splits sum.splits if_splits option.splits)

section \<open>Requests of a session\<close>

lemma attach_error_steps: "sess_abs d1 = sess_abs d \<Longrightarrow> sess_steps (sess_abs d) (sess_abs (attach_error k d1 sid fd m))"
  unfolding attach_error_def using close_session_steps [of "write_frame_now k d1 fd 1 (k_json k (ErrorResponse False m))"] by simp

lemma abs_upd_attach [simp]:
  "sess_abs (upd_session d sid (\<lambda>s. s\<lparr>as_ptm_fd := m, as_log_read_fd := r, as_container_pid := p\<rparr>)) = sess_abs d"
  "sess_abs (upd_session d sid (\<lambda>s. s\<lparr>as_log_read_fd := r, as_input_fd := i, as_container_pid := p\<rparr>)) = sess_abs d"
  "sess_abs (upd_session d sid (\<lambda>s. s\<lparr>as_ptm_fd := m\<rparr>)) = sess_abs d"
  "sess_abs (upd_session d sid (\<lambda>s. s\<lparr>as_input_fd := m\<rparr>)) = sess_abs d"
  by (intro abs_upd_session_same, simp add: flags_of_def)+

lemma attach_started_steps:
  "attach_started k d sid fd save prep pid log_read ptm_fd death = Some d' \<Longrightarrow> sess_steps (sess_abs d) (sess_abs d')"
  by (auto simp: attach_started_def Let_def split_def bind_eq_Some_conv dest!: abs_session_frame arm_output_steps)

lemma attach_parent_steps:
  assumes "attach_parent k d sid fd save prep pid log_pipe pty = Some (d', go)"
  shows "sess_steps (sess_abs d) (sess_abs d')"
proof -
  have s: "sess_steps (sess_abs d) (sess_abs d')"
    if "attach_started k d1 sid fd save prep pid a b c = Some d'" "sess_abs d1 = sess_abs d" for d1 a b c
    using attach_started_steps [OF that(1)] that(2) by simp
  show ?thesis using assms
    by (auto simp: attach_parent_def Let_def split_def bind_eq_Some_conv intro!: attach_error_steps elim!: s
        split: sum.splits option.splits)
qed

lemma attach_clone_steps:
  assumes "attach_clone k d sid fd save prep log_pipe pty = Some (d', go)"
  shows "sess_steps (sess_abs d) (sess_abs d')"
proof (cases "k_clone3 k (d_world d) (pr_clone_flags prep)")
  case (Pair w r)
  then show ?thesis using assms
    by (auto simp: attach_clone_def Let_def intro!: attach_error_steps dest!: attach_parent_steps
        split: sum.splits option.splits)
qed

lemma run_attach_steps:
  assumes "handle_run_attach k d sid q = Some (d', go)" shows "sess_steps (sess_abs d) (sess_abs d')"
proof -
  have c: "sess_steps (sess_abs d) (sess_abs d')"
    if "attach_clone k d1 sid fd save prep lp pty = Some (d', go)" "sess_abs d1 = sess_abs d" for d1 fd save prep lp pty
    using attach_clone_steps [OF that(1)] that(2) by simp
  show ?thesis using assms
    by (auto simp: handle_run_attach_def Let_def split_def intro!: attach_error_steps elim!: c
        split: request.splits option.splits sum.splits if_splits)
qed

lemma handle_attach_steps:
  assumes "handle_attach k d sid pid = Some (d', go)" shows "sess_steps (sess_abs d) (sess_abs d')"
proof -
  have c: "sess_steps (sess_abs d) (sess_abs (close_session k d1 sid))" if "sess_abs d1 = sess_abs d" for d1
    using close_session_steps [of d1 k sid] that by simp
  have o: "sess_steps (sess_abs d) (sess_abs d')"
    if "arm_session_output k d2 sid = Some d'" "arm_session_frame k d1 sid fd ty p = Some d2" "sess_abs d1 = sess_abs d"
    for d1 d2 fd ty p
    using arm_output_steps [OF that(1)] abs_session_frame [OF that(2)] that(3) by simp
  show ?thesis using assms
    by (cases "k_pipe2 k (d_world d)")
      (auto simp: handle_attach_def Let_def bind_eq_Some_conv intro!: c elim!: o split: option.splits sum.splits)
qed

lemma dispatch_frame_steps:
  assumes "dispatch_frame k d sid ty p = Some (d', go)" shows "sess_steps (sess_abs d) (sess_abs d')"
  using assms
  by (auto simp: dispatch_frame_def Let_def dest!: run_attach_steps handle_attach_steps
      split: if_splits option.splits request.splits)

lemma on_payload_steps:
  assumes "on_session_payload k d l r = Some d'" shows "sess_steps (sess_abs d) (sess_abs d')"
proof -
  have c: "sess_steps (sess_abs d) (sess_abs (close_session k d2 sid))"
    "sess_steps (sess_abs d) (sess_abs (arm_session_read k d2 sid))"
    if "pool_alloc k (store_session_op d sid SRead None) n = Some (d1, b)" "dispatch_frame k d1 sid ty p = Some (d2, go)"
    for d1 d2 b n sid ty p go
    using dispatch_frame_steps [OF that(2)] abs_pool_alloc [OF that(1)] close_session_steps [of d2 k sid]
    by (auto intro: rtranclp_trans)
  show ?thesis using assms close_session_steps [of d k]
    by (auto simp: on_session_payload_def Let_def split_def bind_eq_Some_conv intro: c
        split: op_local.splits sum.splits if_splits option.splits)
qed

section \<open>The daemon follows the machine\<close>

lemma run_callback_steps:
  assumes "run_callback k d cb l r = Some d'" shows "sess_steps (sess_abs d) (sess_abs d')"
proof -
  have same: "sess_steps (sess_abs d) (sess_abs d')" if "sess_abs d' = sess_abs d"
    using that by simp
  show ?thesis
    using assms on_accept_steps [of d k l] on_header_steps [of d k l]
    by (cases cb; cases r)
      (auto simp: run_callback_def
        dest: abs_datagram_peek abs_on_datagram abs_on_follow_write abs_container_output
          on_sigchld_steps on_payload_steps on_session_frame_steps on_data_header_steps on_data_payload_steps
          on_session_output_steps intro: same)
qed

lemma deliver_steps: "deliver k d i r = Some d' \<Longrightarrow> sess_steps (sess_abs d) (sess_abs d')"
  by (auto simp: deliver_def dest!: run_callback_steps split: option.splits)

lemma abs_boot: "boot k d fds = Some d' \<Longrightarrow> sess_abs d' = sess_abs d"
  by (auto simp: boot_def Let_def bind_eq_Some_conv dest!: abs_arm_datagram split: sum.splits)

inductive daemon_step :: "'w kernel \<Rightarrow> 'w daemon \<Rightarrow> 'w daemon \<Rightarrow> bool" for k where
  Boot: "boot k d fds = Some d' \<Longrightarrow> daemon_step k d d'"
| Deliver: "deliver k d i r = Some d' \<Longrightarrow> daemon_step k d d'"

inductive_cases daemon_stepE: "daemon_step k d d'"

lemma daemon_step_refines: "daemon_step k d d' \<Longrightarrow> sess_steps (sess_abs d) (sess_abs d')"
  by (erule daemon_stepE) (auto dest: abs_boot deliver_steps)

lemma daemon_steps_refine: "(daemon_step k)\<^sup>*\<^sup>* d d' \<Longrightarrow> sess_steps (sess_abs d) (sess_abs d')"
  by (induction rule: rtranclp_induct) (auto dest: daemon_step_refines)

lemma sess_inv_new: "sess_inv (sess_abs (daemon_state_new w))"
  by (simp add: sess_inv_def sess_abs_def daemon_state_new_def get_session_def)

lemma deliver_all_reach: "deliver_all k d rs = Some d' \<Longrightarrow> (daemon_step k)\<^sup>*\<^sup>* d d'"
  by (induction k d rs rule: deliver_all.induct)
    (auto simp: bind_eq_Some_conv intro: converse_rtranclp_into_rtranclp daemon_step.Deliver)

lemma demo_script_reach: "demo_script rs = Some d \<Longrightarrow> (daemon_step demo_kernel)\<^sup>*\<^sup>* demo_start d"
  by (auto simp: demo_script_def bind_eq_Some_conv dest: deliver_all_reach
      intro: converse_rtranclp_into_rtranclp daemon_step.Boot)

lemma attach_script_run:
  obtains d where "demo_script attach_script = Some d" "exits (d_trace d) = [0]"
    "map_option as_exit_sent (get_session d 0) = Some True" "d_next_session_id d = 1"
proof -
  have "case demo_script attach_script of None \<Rightarrow> False
      | Some d \<Rightarrow> exits (d_trace d) = [0] \<and> map_option as_exit_sent (get_session d 0) = Some True \<and> d_next_session_id d = 1"
    by (simp add: demo_run_defs Let_def split_def reap_loop.simps exits_def map_filter_def)
  then show ?thesis using that by (auto split: option.splits)
qed

section \<open>What the protocol gives\<close>

definition spec_init :: sess_spec where
  "spec_init = \<lparr>sp_live = Map.empty, sp_next = 0, sp_exits = []\<rparr>"

lemma abs_new: "sess_abs (daemon_state_new w) = spec_init"
  by (simp add: sess_abs_def daemon_state_new_def get_session_def spec_init_def)

text \<open>
  C1. The daemon implements the session protocol: whatever the kernel, the JSON library and the
  clients do, and in whatever order completions arrive, the sessions of a daemon started from
  \<^verbatim>\<open>DaemonState::new\<close> go through steps of the abstract machine only (open with a fresh number,
  output drained, container exited, exit frame after both and once, close).
\<close>

theorem daemon_refines_session_protocol:
  "(daemon_step k)\<^sup>*\<^sup>* (daemon_state_new w) d \<Longrightarrow> sess_steps spec_init (sess_abs d)"
  using daemon_steps_refine [of k "daemon_state_new w" d] by (simp add: abs_new)

theorem daemon_refines_session_protocol_witness:
  "\<exists>d. demo_script attach_script = Some d \<and> sess_steps spec_init (sess_abs d) \<and> sp_exits (sess_abs d) = [0]"
proof -
  obtain d where d: "demo_script attach_script = Some d" "exits (d_trace d) = [0]"
    by (rule attach_script_run)
  have "sess_steps spec_init (sess_abs d)"
    by (rule daemon_refines_session_protocol [OF demo_script_reach [OF d(1), unfolded demo_start_def]])
  then show ?thesis using d by (auto simp: sess_abs_def)
qed

text \<open>
  C2. The exit frame of a session is sent at most once, and never before both its output drain is
  done and its container's exit was recorded: over every run of the daemon, the sessions an exit frame
  was sent to are distinct, and a live session is among them exactly when it is marked, which implies
  both conditions.
\<close>

theorem exit_frame_once:
  assumes "(daemon_step k)\<^sup>*\<^sup>* (daemon_state_new w) d"
  shows "distinct (exits (d_trace d)) \<and>
    (\<forall>sid s. get_session d sid = Some s \<longrightarrow>
       (sid \<in> set (exits (d_trace d)) \<longleftrightarrow> as_exit_sent s) \<and>
       (as_exit_sent s \<longrightarrow> as_drain_done s \<and> as_child_exited s))"
proof -
  have inv: "sess_inv (sess_abs d)" by (rule sess_steps_inv [OF daemon_steps_refine [OF assms] sess_inv_new])
  have live: "sp_live (sess_abs d) sid = Some (flags_of s)" if "get_session d sid = Some s" for sid s
    using that by (simp add: sess_abs_def)
  show ?thesis
    using inv [unfolded sess_inv_def] live by (fastforce simp: sess_abs_def flags_of_def)
qed

theorem exit_frame_once_witness:
  "\<exists>d s. demo_script attach_script = Some d \<and> get_session d 0 = Some s \<and> distinct (exits (d_trace d)) \<and>
     as_exit_sent s \<and> as_drain_done s \<and> as_child_exited s"
proof -
  obtain d where d: "demo_script attach_script = Some d" "map_option as_exit_sent (get_session d 0) = Some True"
    by (rule attach_script_run)
  then obtain s where s: "get_session d 0 = Some s" "as_exit_sent s" by auto
  show ?thesis
    using exit_frame_once [OF demo_script_reach [OF d(1), unfolded demo_start_def]] d(1) s by auto
qed

end

