(* ===== verification/Daemon_Invariants.thy ===== *)
theory Daemon_Invariants
  imports Session_Protocol "HOL-Library.Multiset"
begin

text \<open>
  Invariants of the whole daemon: every operation in flight carries the local its callback expects,
  the tables of the shared state are keyed without duplicates and by their own ids, and the three loops
  that keep the daemon alive (datagrams, accepted clients, exited children) each have exactly one
  operation in flight.
\<close>

section \<open>The invariant\<close>

text \<open>Which local a callback expects; with any other it returns without doing anything.\<close>

fun callback_of :: "op_local \<Rightarrow> callback option" where
  "callback_of LDatagram = Some On_datagram"
| "callback_of LDatagramPeek = Some On_datagram_peek"
| "callback_of (LFollowSend _) = Some On_follow_send"
| "callback_of LAccept = Some On_accept"
| "callback_of LSigchld = Some On_sigchld"
| "callback_of (LContainerOutput _ _) = Some On_container_output"
| "callback_of (LContainerPtyOutput _ _) = Some On_container_pty_output"
| "callback_of (LFollowWrite _ _ _ _) = Some On_follow_write"
| "callback_of (LSessionHeader _ _) = Some On_session_header"
| "callback_of (LSessionPayload _ _ _ _) = Some On_session_payload"
| "callback_of (LSessionFrame _ _ _ _) = Some On_session_frame"
| "callback_of (LSessionDataHeader _ _ _ _ _) = Some On_session_data_header"
| "callback_of (LSessionDataPayload _ _ _ _) = Some On_session_data_payload"
| "callback_of (LSessionOutputRead _) = Some On_session_output"
| "callback_of (LSessionStdin _ _ _) = Some On_session_stdin"
| "callback_of LCancelled = None"

definition op_typed :: "callback \<Rightarrow> op_local \<Rightarrow> bool" where
  "op_typed cb local \<longleftrightarrow> callback_of local = Some cb"

text \<open>The loop a callback belongs to; the two stages of a datagram are one loop.\<close>

definition loop_of :: "callback \<Rightarrow> callback option" where
  "loop_of cb =
     (if cb = On_datagram_peek \<or> cb = On_datagram then Some On_datagram
      else if cb = On_accept \<or> cb = On_sigchld then Some cb
      else None)"

definition loops_in :: "(nat \<times> pending) list \<Rightarrow> callback multiset" where
  "loops_in ops = mset (List.map_filter (\<lambda>(i, p). loop_of (po_cb p)) ops)"

definition keyed :: "('a \<times> 'b) list \<Rightarrow> bool" where
  "keyed xs \<longleftrightarrow> distinct (map fst xs)"

definition ops_ok :: "nat \<Rightarrow> (nat \<times> pending) list \<Rightarrow> bool" where
  "ops_ok n ops \<longleftrightarrow> keyed ops \<and> (\<forall>x \<in> set ops. fst x < n \<and> op_typed (po_cb (snd x)) (po_local (snd x)))"

definition sessions_ok :: "nat \<Rightarrow> (nat \<times> attach_session) list \<Rightarrow> bool" where
  "sessions_ok n ss \<longleftrightarrow> keyed ss \<and> (\<forall>x \<in> set ss. fst x < n)"

definition containers_ok :: "(pid \<times> container_info) list \<Rightarrow> bool" where
  "containers_ok cs \<longleftrightarrow> keyed cs \<and> (\<forall>x \<in> set cs. ci_pid (snd x) = fst x)"

definition dwf :: "'w daemon \<Rightarrow> bool" where
  "dwf d \<longleftrightarrow> ops_ok (d_next_op d) (d_ops d) \<and> sessions_ok (d_next_session_id d) (d_sessions d) \<and>
     containers_ok (d_containers d) \<and> keyed (d_outputs d) \<and> keyed (d_log_graveyard d)"

definition dinv :: "callback multiset \<Rightarrow> 'w daemon \<Rightarrow> bool" where
  "dinv L d \<longleftrightarrow> dwf d \<and> loops_in (d_ops d) = L"

lemma dinv_loops: "dwf d \<Longrightarrow> dinv (loops_in (d_ops d)) d"
  by (simp add: dinv_def)

lemma dinv_dwf: "dinv L d \<Longrightarrow> dwf d"
  by (simp add: dinv_def)

section \<open>Association lists\<close>

lemma loops_in_simps [simp]:
  "loops_in [] = {#}"
  "loops_in (xs @ ys) = loops_in xs + loops_in ys"
  "loops_in ((i, p) # xs) = (case loop_of (po_cb p) of None \<Rightarrow> {#} | Some l \<Rightarrow> {#l#}) + loops_in xs"
  by (auto simp: loops_in_def map_filter_def split: option.splits)

lemma keyed_update [simp]: "keyed xs \<Longrightarrow> keyed (AList.update a b xs)"
  by (simp add: keyed_def distinct_update)

lemma keyed_delete [simp]: "keyed xs \<Longrightarrow> keyed (AList.delete a xs)"
  by (simp add: keyed_def distinct_delete)

lemma keys_map_entry [simp]: "map fst (AList.map_entry a f xs) = map fst xs"
  by (induction xs) auto

lemma keyed_map_entry [simp]: "keyed (AList.map_entry a f xs) = keyed xs"
  by (simp add: keyed_def)

lemma in_map_entry: "x \<in> set (AList.map_entry c f xs) \<Longrightarrow> \<exists>y \<in> set xs. fst x = fst y \<and> (snd x = snd y \<or> snd x = f (snd y))"
  by (induction xs) (auto split: if_splits)

lemma in_delete: "x \<in> set (AList.delete a xs) \<Longrightarrow> x \<in> set xs"
  by (auto simp: AList.delete_eq)

lemma in_update: "x \<in> set (AList.update c e xs) \<Longrightarrow> x = (c, e) \<or> x \<in> set xs"
  by (induction xs) (auto split: if_splits)

lemma ops_ok_delete: "ops_ok n ops \<Longrightarrow> ops_ok n (AList.delete i ops)"
  by (auto simp: ops_ok_def dest: in_delete)

lemma ops_ok_Suc: "ops_ok n ops \<Longrightarrow> ops_ok (Suc n) ops"
  by (auto simp: ops_ok_def less_SucI)

lemma ops_ok_append: "ops_ok n ops \<Longrightarrow> op_typed (po_cb p) (po_local p) \<Longrightarrow> ops_ok (Suc n) (ops @ [(n, p)])"
  by (auto simp: ops_ok_def keyed_def less_SucI)

lemma ops_ok_map_entry:
  "ops_ok n ops \<Longrightarrow> (\<And>p. po_cb (f p) = po_cb p \<and> po_local (f p) = po_local p) \<Longrightarrow> ops_ok n (AList.map_entry i f ops)"
  by (fastforce simp: ops_ok_def dest: in_map_entry)

lemma sessions_ok_simps [simp]:
  "sessions_ok n (AList.map_entry sid f ss) = sessions_ok n ss"
  "sessions_ok n ss \<Longrightarrow> sessions_ok n (AList.delete sid ss)"
  "sessions_ok n ss \<Longrightarrow> sessions_ok (Suc n) (AList.update n s ss)"
proof -
  have "(\<forall>x \<in> set ss. fst x < n) = (\<forall>a \<in> set (map fst ss). a < n)" for ss :: "(nat \<times> attach_session) list"
    by auto
  then show "sessions_ok n (AList.map_entry sid f ss) = sessions_ok n ss"
    by (simp only: sessions_ok_def keyed_map_entry keys_map_entry)
  show "sessions_ok n ss \<Longrightarrow> sessions_ok n (AList.delete sid ss)"
    by (auto simp: sessions_ok_def dest: in_delete)
  show "sessions_ok n ss \<Longrightarrow> sessions_ok (Suc n) (AList.update n s ss)"
    by (fastforce simp: sessions_ok_def less_SucI dest: in_update)
qed

lemma containers_ok_simps [simp]:
  "containers_ok cs \<Longrightarrow> containers_ok (AList.delete pid cs)"
  "containers_ok cs \<Longrightarrow> ci_pid info = pid \<Longrightarrow> containers_ok (AList.update pid info cs)"
  by (auto simp: containers_ok_def dest: in_delete in_update)

lemma containers_ok_map_entry: "containers_ok cs \<Longrightarrow> (\<And>i. ci_pid (f i) = ci_pid i) \<Longrightarrow> containers_ok (AList.map_entry pid f cs)"
  by (fastforce simp: containers_ok_def dest: in_map_entry)

lemma loops_map_entry:
  assumes "\<And>p. po_cb (f p) = po_cb p" shows "loops_in (AList.map_entry i f xs) = loops_in xs"
  by (induction xs) (auto simp: assms)

lemma loops_delete:
  assumes "keyed xs" "map_of xs i = Some p"
  shows "loops_in xs = (case loop_of (po_cb p) of None \<Rightarrow> {#} | Some l \<Rightarrow> {#l#}) + loops_in (AList.delete i xs)"
  using assms
proof (induction xs)
  case (Cons x xs)
  obtain j q where x: "x = (j, q)" by fastforce
  show ?case
  proof (cases "j = i")
    case True
    then have "i \<notin> fst ` set xs"
      using Cons.prems(1) by (auto simp: x keyed_def)
    then show ?thesis using True Cons.prems(2) by (simp add: x)
  next
    case False
    then show ?thesis using Cons by (auto simp: x keyed_def ac_simps)
  qed
qed simp

section \<open>Primitives\<close>

lemma dinv_frame [simp]:
  "dinv L (d\<lparr>d_world := w\<rparr>) = dinv L d"
  "dinv L (d\<lparr>d_next_pipe_id := x\<rparr>) = dinv L d"
  "dinv L (d\<lparr>d_datagram_fd := y\<rparr>) = dinv L d"
  "dinv L (d\<lparr>d_attach_listener_fd := y\<rparr>) = dinv L d"
  "dinv L (d\<lparr>d_sigchld_fd := y\<rparr>) = dinv L d"
  by (simp_all add: dinv_def dwf_def)

lemma dinv_emit [simp]: "dinv L (emit e d) = dinv L d"
  by (simp add: emit_def dinv_def dwf_def)

lemma dinv_close_fd [simp]: "dinv L (close_fd k d fd) = dinv L d"
  by (simp add: close_fd_def)

lemma dinv_close_if_open [simp]: "dinv L (close_if_open k d fd) = dinv L d"
  by (simp add: close_if_open_def)

lemma dinv_close_fds [simp]: "dinv L (close_fds k d fds) = dinv L d"
  by (induction fds arbitrary: d) (simp_all add: close_fds_def)

lemma dinv_pool_alloc: "pool_alloc k d n = Some (d', b) \<Longrightarrow> dinv L d' = dinv L d"
  by (auto simp: pool_alloc_def)

lemma dinv_reply [simp]: "dinv L (reply_datagram k d sender r) = dinv L d"
  by (simp add: reply_datagram_def Let_def split: prod.splits)

lemma dinv_frame_now [simp]: "dinv L (write_frame_now k d fd ty p) = dinv L d"
  by (simp add: write_frame_now_def Let_def split: prod.splits)

definition loop_set :: "callback \<Rightarrow> callback multiset" where
  "loop_set cb = (case loop_of cb of None \<Rightarrow> {#} | Some l \<Rightarrow> {#l#})"

lemma dinv_submit_loop:
  assumes "dinv L d" "op_typed cb local" "submit k d req local cb = (d', r)"
  shows "dinv (if r = None then L else loop_set cb + L) d'"
proof -
  obtain w x where x: "k_arm k (d_world d) req = (w, x)" by fastforce
  show ?thesis
    using assms x by (cases x)
      (auto simp: submit_def Let_def dinv_def dwf_def emit_def loop_set_def ac_simps ops_ok_append ops_ok_Suc)
qed

lemma dinv_submit:
  assumes "dinv L d" "op_typed cb local" "loop_of cb = None"
  shows "dinv L (fst (submit k d req local cb))"
  using dinv_submit_loop [OF assms(1,2)] assms(3)
  by (cases "submit k d req local cb") (force simp: loop_set_def split: if_splits)

lemma dinv_submit_eq: "submit k d req local cb = (d', r) \<Longrightarrow> op_typed cb local \<and> loop_of cb = None \<longrightarrow> dinv L d \<longrightarrow> dinv L d'"
  using dinv_submit [of L d cb local k req] by auto

lemma dinv_cancel_op [simp]: "dinv L d \<Longrightarrow> dinv L (cancel_op k d i)"
proof -
  assume d: "dinv L d"
  have "dinv L (e\<lparr>d_ops := AList.map_entry i (\<lambda>p. p\<lparr>po_cancel := True\<rparr>) (d_ops e)\<rparr>)" if "dinv L e" for e :: "'a daemon"
    using that by (simp add: dinv_def dwf_def loops_map_entry ops_ok_map_entry)
  with d show ?thesis
    by (auto simp: cancel_op_def Let_def split: option.splits prod.splits)
qed

lemma dinv_upd_session [simp]: "dinv L (upd_session d sid f) = dinv L d"
  by (simp add: upd_session_def dinv_def dwf_def)

lemma dinv_store [simp]: "dinv L (store_session_op d sid w op) = dinv L d"
  by (simp add: store_session_op_def)

lemma dinv_upd_container: "dinv L d \<Longrightarrow> (\<And>i. ci_pid (f i) = ci_pid i) \<Longrightarrow> dinv L (upd_container d pid f)"
  by (simp add: upd_container_def dinv_def dwf_def containers_ok_map_entry)

lemma dinv_upd_gateway [simp]:
  "dinv L d \<Longrightarrow> dinv L (upd_container d pid (\<lambda>i. i\<lparr>ci_gateway := g i\<rparr>))"
  "dinv L d \<Longrightarrow> dinv L (upd_container d pid (\<lambda>i. i\<lparr>ci_drains_pending := n i\<rparr>))"
  "dinv L d \<Longrightarrow> dinv L (upd_container d pid (\<lambda>i. i\<lparr>ci_ptm_fd := m\<rparr>))"
  by (simp_all add: dinv_upd_container)

lemma loop_of_simps [simp]:
  "loop_of On_datagram_peek = Some On_datagram" "loop_of On_datagram = Some On_datagram"
  "loop_of On_accept = Some On_accept" "loop_of On_sigchld = Some On_sigchld"
  "loop_of On_follow_send = None" "loop_of On_container_output = None" "loop_of On_container_pty_output = None"
  "loop_of On_follow_write = None" "loop_of On_session_header = None" "loop_of On_session_payload = None"
  "loop_of On_session_frame = None" "loop_of On_session_data_header = None" "loop_of On_session_data_payload = None"
  "loop_of On_session_output = None" "loop_of On_session_stdin = None"
  by (simp_all add: loop_of_def)

declare op_typed_def [simp] dinv_submit [simp]

section \<open>Sessions\<close>

lemma dinv_close_session [simp]: "dinv L d \<Longrightarrow> dinv L (close_session k d sid)"
proof -
  assume d: "dinv L d"
  then have "dinv L (d\<lparr>d_sessions := AList.delete sid (d_sessions d)\<rparr>)"
    by (simp add: dinv_def dwf_def)
  then show ?thesis
    using d by (auto simp: close_session_def Let_def split: option.splits)
qed

lemma dinv_session_frame: "arm_session_frame k d sid fd ty p = Some d' \<Longrightarrow> dinv L d \<longrightarrow> dinv L d'"
  by (auto simp: arm_session_frame_def Let_def split_def bind_eq_Some_conv dinv_pool_alloc)

lemma dinv_on_session_frame: "on_session_frame k d l r = Some d' \<Longrightarrow> dinv L d \<longrightarrow> dinv L d'"
  by (auto simp: on_session_frame_def Let_def split: op_local.splits sum.splits if_splits)

lemma dinv_maybe_finish: "maybe_finish_session k d sid = Some d' \<Longrightarrow> dinv L d \<longrightarrow> dinv L d'"
  by (auto simp: maybe_finish_session_def Let_def dest!: dinv_session_frame [where L = L] split: option.splits if_splits)

lemma dinv_finish_output: "finish_session_output k d sid = Some d' \<Longrightarrow> dinv L d \<longrightarrow> dinv L d'"
  by (auto simp: finish_session_output_def dest!: dinv_maybe_finish [where L = L])

lemma dinv_arm_output: "arm_session_output k d sid = Some d' \<Longrightarrow> dinv L d \<longrightarrow> dinv L d'"
  by (auto simp: arm_session_output_def Let_def dest!: dinv_finish_output [where L = L] dinv_submit_eq [where L = L]
      split: prod.splits option.splits if_splits)

lemma dinv_on_session_output:
  assumes "on_session_output k d l r = Some d'" shows "dinv L d \<longrightarrow> dinv L d'"
proof -
  have armed: "dinv L d1 \<longrightarrow> dinv L d2"
    if "(case submit k d1 (WriteFixed fd hd) (LSessionDataHeader sid fd hd bs 0) On_session_data_header of
          (d, None) \<Rightarrow> finish_session_output k d sid | (d, Some op) \<Rightarrow> Some d) = Some d2" for d1 d2 fd hd sid bs
    using that dinv_submit [of L d1 On_session_data_header "LSessionDataHeader sid fd hd bs 0" k "WriteFixed fd hd"]
    by (cases "submit k d1 (WriteFixed fd hd) (LSessionDataHeader sid fd hd bs 0) On_session_data_header")
      (auto dest: dinv_finish_output [where L = L] split: option.splits)
  show ?thesis
    using assms
    by (auto simp: on_session_output_def Let_def bind_eq_Some_conv dinv_pool_alloc
        dest!: dinv_finish_output [where L = L] armed split: op_local.splits sum.splits option.splits if_splits)
qed

lemma dinv_on_data_header: "on_session_data_header k d l r = Some d' \<Longrightarrow> dinv L d \<longrightarrow> dinv L d'"
  by (auto simp: on_session_data_header_def Let_def dest!: dinv_finish_output [where L = L]
      split: op_local.splits sum.splits if_splits)

lemma dinv_on_data_payload: "on_session_data_payload k d l r = Some d' \<Longrightarrow> dinv L d \<longrightarrow> dinv L d'"
  by (auto simp: on_session_data_payload_def Let_def dest!: dinv_finish_output [where L = L] dinv_arm_output [where L = L]
      split: op_local.splits sum.splits if_splits)

lemma dinv_stdin [simp]: "dinv L d \<Longrightarrow> dinv L (on_session_stdin k d l r)"
  by (auto simp: on_session_stdin_def Let_def split: op_local.splits sum.splits)

lemma dinv_arm_stdin [simp]: "dinv L d \<Longrightarrow> dinv L (arm_session_stdin k d sid fd buf)"
  by (simp add: arm_session_stdin_def)

lemma dinv_arm_read [simp]: "dinv L d \<Longrightarrow> dinv L (arm_session_read k d sid)"
  by (auto simp: arm_session_read_def split: option.splits prod.splits dest: dinv_submit_eq [where L = L])

lemma dinv_on_header [simp]: "dinv L d \<Longrightarrow> dinv L (on_session_header k d l r)"
  by (auto simp: on_session_header_def Let_def split: op_local.splits sum.splits if_splits prod.splits option.splits
      dest!: dinv_submit_eq [where L = L])

section \<open>Containers\<close>

lemma dinv_complete_write: "complete_write k d pid pipe_id ok = Some d' \<Longrightarrow> dinv L d \<longrightarrow> dinv L d'"
  by (auto simp: complete_write_def bind_eq_Some_conv split: option.splits)

lemma dinv_arm_follow_write: "arm_follow_write k d pid pipe_id fd chunks = Some d' \<Longrightarrow> dinv L d \<longrightarrow> dinv L d'"
  by (auto simp: arm_follow_write_def dest!: dinv_complete_write [where L = L] split: list.splits)

lemma dinv_on_follow_write: "on_follow_write k d l r = Some d' \<Longrightarrow> dinv L d \<longrightarrow> dinv L d'"
  by (auto simp: on_follow_write_def Let_def dest!: dinv_complete_write [where L = L] dinv_arm_follow_write [where L = L]
      split: op_local.splits sum.splits if_splits)

lemma dinv_arm_follow_writes: "arm_follow_writes k d pid line ps = Some d' \<Longrightarrow> dinv L d \<longrightarrow> dinv L d'"
  by (induction k d pid line ps rule: arm_follow_writes.induct)
    (fastforce simp: bind_eq_Some_conv dest: dinv_arm_follow_write [where L = L])+

lemma dinv_write_line: "write_line k d pid line = Some d' \<Longrightarrow> dinv L d \<longrightarrow> dinv L d'"
  by (auto simp: write_line_def Let_def bind_eq_Some_conv dest!: dinv_arm_follow_writes [where L = L] split: option.splits)
    (simp_all add: dinv_def dwf_def)

lemma dinv_write_lines: "write_lines k d pid lines = Some d' \<Longrightarrow> dinv L d \<longrightarrow> dinv L d'"
  by (induction k d pid lines rule: write_lines.induct)
    (fastforce simp: bind_eq_Some_conv dest: dinv_write_line [where L = L])+

lemma dinv_bury [simp]: "dinv L d \<Longrightarrow> dinv L (bury d pid info)"
  by (simp add: bury_def dinv_def dwf_def)

lemma dinv_cleanup [simp]: "dinv L (cleanup_unless_saved k d info) = dinv L d"
  by (simp add: cleanup_unless_saved_def split: option.splits)

lemma dinv_finish_drain [simp]: "dinv L d \<Longrightarrow> dinv L (finish_drain k d pid)"
  by (simp add: finish_drain_def Let_def split: option.splits)

lemma dinv_reap_container [simp]: "dinv L d \<Longrightarrow> dinv L (reap_container k d pid)"
  by (simp add: reap_container_def Let_def split: option.splits)

lemma dinv_reap_one [simp]: "dinv L d \<Longrightarrow> dinv L (fst (reap_one k d pid status))"
  by (auto simp: reap_one_def Let_def split: option.splits)

lemma dinv_reap_loop:
  assumes "reap_loop k d fin = Some r" shows "dinv L d \<longrightarrow> dinv L (fst r)"
proof (rule reap_loop.raw_induct [where P = "\<lambda>k d fin r. dinv L d \<longrightarrow> dinv L (fst r)", OF _ assms])
  fix f k d fin and r :: "'a daemon \<times> nat list"
  assume IH: "\<And>k d fin r. f k d fin = Some r \<Longrightarrow> dinv L d \<longrightarrow> dinv L (fst r)"
    and body: "(case k_wait4 k (d_world d) of
        (w, Inl e) \<Rightarrow> Some (d\<lparr>d_world := w\<rparr>, fin)
      | (w, Inr (pid, status)) \<Rightarrow>
          if 0 < pid then case reap_one k (d\<lparr>d_world := w\<rparr>) pid status of (d, sids) \<Rightarrow> f k d (fin @ sids)
          else Some (d\<lparr>d_world := w\<rparr>, fin)) = Some r"
  show "dinv L d \<longrightarrow> dinv L (fst r)"
    using body by (auto simp: split_def split: sum.splits if_splits dest!: IH)
qed

lemma dinv_finish_sessions: "finish_sessions k d sids = Some d' \<Longrightarrow> dinv L d \<longrightarrow> dinv L d'"
  by (induction k d sids rule: finish_sessions.induct)
    (fastforce simp: bind_eq_Some_conv dest: dinv_maybe_finish [where L = L])+

lemma dinv_reap_children: "reap_children k d = Some d' \<Longrightarrow> dinv L d \<longrightarrow> dinv L d'"
  by (force simp: reap_children_def bind_eq_Some_conv dest!: dinv_reap_loop [where L = L] dinv_finish_sessions [where L = L])

lemma dinv_finish_container [simp]:
  "dinv L d \<Longrightarrow> dinv L (finish_container_output k d pid)"
  "dinv L d \<Longrightarrow> dinv L (finish_container_pty_output k d pid)"
proof -
  have "dinv L d \<Longrightarrow> dinv L (d\<lparr>d_outputs := AList.delete pid (d_outputs d)\<rparr>)"
    by (simp add: dinv_def dwf_def)
  then show "dinv L d \<Longrightarrow> dinv L (finish_container_output k d pid)"
    by (auto simp: finish_container_output_def Let_def split: option.splits)
  show "dinv L d \<Longrightarrow> dinv L (finish_container_pty_output k d pid)"
    by (simp add: finish_container_pty_output_def Let_def split: option.splits)
qed

lemma dinv_arm_container_output [simp]:
  "dinv L d \<Longrightarrow> dinv L (arm_container_output k d pid)"
  "dinv L d \<Longrightarrow> dinv L (arm_container_pty_output k d pid)"
  by (simp_all add: arm_container_output_def arm_container_pty_output_def split: option.splits)

lemma dinv_container_output:
  "on_container_output k d l r = Some d' \<Longrightarrow> dinv L d \<longrightarrow> dinv L d'"
  "on_container_pty_output k d l r = Some d' \<Longrightarrow> dinv L d \<longrightarrow> dinv L d'"
  by (auto simp: on_container_output_def on_container_pty_output_def Let_def split_def bind_eq_Some_conv
      dest!: dinv_write_lines [where L = L] split: op_local.splits sum.splits if_splits)

section \<open>Requests\<close>

lemma dinv_follow_attach: "follow_attach k d sender pid backlog rfd wfd = Some d' \<Longrightarrow> dinv L d \<longrightarrow> dinv L d'"
  by (auto simp: follow_attach_def Let_def split_def bind_eq_Some_conv split: if_splits option.splits)

lemma dinv_handle_follow: "handle_follow k d sender pid = Some d' \<Longrightarrow> dinv L d \<longrightarrow> dinv L d'"
  by (cases "snd (k_pipe2 k (d_world d))")
    (auto simp: handle_follow_def split_def bind_eq_Some_conv split: option.splits dest!: dinv_follow_attach [where L = L])

lemma dinv_follow_send [simp]: "dinv L (on_follow_send k d l r) = dinv L d"
  by (simp add: on_follow_send_def split: op_local.splits)

lemma dinv_signal [simp]:
  "dinv L (signal_drop k d s) = dinv L d"
  "dinv L (signal_signal k d s) = dinv L d"
  "dinv L (close_pair k d p) = dinv L d"
  by (simp_all add: signal_drop_def signal_signal_def close_pair_def Let_def split_def)

lemma dinv_close_pair_opt [simp]: "dinv L (close_pair_opt k d p) = dinv L d"
  by (simp add: close_pair_opt_def split: option.splits)

lemma dinv_prepare [simp]:
  "dinv L (fst (join_ns k d pid)) = dinv L d"
  "dinv L (fst (prepare_rootfs k d root)) = dinv L d"
  "dinv L (fst (prepare_death_pipe k d args)) = dinv L d"
  "dinv L (fst (setup_userns_maps k d pid)) = dinv L d"
  by (simp_all add: join_ns_def prepare_rootfs_def prepare_death_pipe_def setup_userns_maps_def Let_def split_def
      split: sum.splits option.splits)

lemma dinv_prepare_flags [simp]: "dinv L (fst (prepare_flags k d net)) = dinv L d"
  by (simp add: prepare_flags_def Let_def split_def split: sum.splits option.splits)

lemma dinv_prepare_run [simp]: "dinv L (fst (prepare_run k d args)) = dinv L d"
  by (simp add: prepare_run_def Let_def split_def split: sum.splits)

lemma dinv_setup_signal [simp]: "dinv L (fst (parent_setup_maps_and_signal k d pid needs sig)) = dinv L d"
  by (simp add: parent_setup_maps_and_signal_def split_def split: sum.splits)

lemma dinv_add_drain [simp]: "dinv L d \<Longrightarrow> dinv L (add_drain d pid)"
  by (simp add: add_drain_def dinv_upd_container)

text \<open>A new container takes the place of an old one of the same process id.\<close>

lemma dinv_new_container [simp]:
  "dinv L d \<Longrightarrow> dinv L (d\<lparr>d_world := w, d_containers := AList.update pid (container_new pid prep save now a b c) (d_containers d)\<rparr>)"
  "dinv L d \<Longrightarrow> dinv L (d\<lparr>d_world := w, d_outputs := AList.update pid log_read (d_outputs d),
     d_containers := AList.update pid (container_new pid prep save now a b c) (d_containers d)\<rparr>)"
  by (simp_all add: dinv_def dwf_def container_new_def)

lemma dinv_run [simp]:
  "dinv L d \<Longrightarrow> dinv L (run_started k d sender save prep pid log_read stdin_write ptm_fd death_write)"
  by (simp add: run_started_def Let_def split_def)

lemma dinv_run_parent [simp]: "dinv L d \<Longrightarrow> dinv L (run_parent k d sender save prep pid log_pipe stdin_pipe pty)"
  by (simp add: run_parent_def Let_def split_def split: sum.splits option.splits)

lemma dinv_run_clone [simp]: "dinv L d \<Longrightarrow> dinv L (run_clone k d sender save prep log_pipe stdin_pipe pty)"
  by (simp add: run_clone_def Let_def split_def split: sum.splits)

lemma dinv_handle_run [simp]: "dinv L d \<Longrightarrow> dinv L (handle_run k d sender args)"
  by (simp add: handle_run_def Let_def split_def split: sum.splits option.splits)

lemma dinv_handle_kill [simp]: "dinv L (handle_kill k d sender pid) = dinv L d"
  by (simp add: handle_kill_def split_def split: sum.splits)

lemma dinv_handle_datagram: "handle_datagram k d sender q = Some d' \<Longrightarrow> dinv L d \<longrightarrow> dinv L d'"
  by (auto simp: handle_datagram_def handle_logs_def Let_def split_def bind_eq_Some_conv
      dest!: dinv_handle_follow [where L = L] split: request.splits if_splits option.splits)

section \<open>Requests of a session\<close>

lemma dinv_attach_error [simp]: "dinv L d \<Longrightarrow> dinv L (attach_error k d sid fd m)"
  by (simp add: attach_error_def)

lemma dinv_attach_started:
  "attach_started k d sid fd save prep pid log_read ptm_fd death = Some d' \<Longrightarrow> dinv L d \<longrightarrow> dinv L d'"
  by (auto simp: attach_started_def Let_def split_def bind_eq_Some_conv
      dest!: dinv_session_frame [where L = L] dinv_arm_output [where L = L])

lemma dinv_attach_parent:
  "attach_parent k d sid fd save prep pid log_pipe pty = Some (d', go) \<Longrightarrow> dinv L d \<longrightarrow> dinv L d'"
  by (auto simp: attach_parent_def Let_def split_def bind_eq_Some_conv dest!: dinv_attach_started [where L = L]
      split: sum.splits option.splits)

lemma dinv_attach_clone:
  "attach_clone k d sid fd save prep log_pipe pty = Some (d', go) \<Longrightarrow> dinv L d \<longrightarrow> dinv L d'"
  by (cases "k_clone3 k (d_world d) (pr_clone_flags prep)")
    (auto simp: attach_clone_def Let_def dest!: dinv_attach_parent [where L = L] split: sum.splits option.splits)

lemma dinv_run_attach: "handle_run_attach k d sid q = Some (d', go) \<Longrightarrow> dinv L d \<longrightarrow> dinv L d'"
  by (auto simp: handle_run_attach_def Let_def split_def dest!: dinv_attach_clone [where L = L]
      split: request.splits option.splits sum.splits if_splits)

lemma dinv_handle_attach: "handle_attach k d sid pid = Some (d', go) \<Longrightarrow> dinv L d \<longrightarrow> dinv L d'"
  by (cases "k_pipe2 k (d_world d)")
    (auto simp: handle_attach_def Let_def bind_eq_Some_conv dest!: dinv_session_frame [where L = L] dinv_arm_output [where L = L]
      split: option.splits sum.splits)

lemma dinv_dispatch: "dispatch_frame k d sid ty p = Some (d', go) \<Longrightarrow> dinv L d \<longrightarrow> dinv L d'"
  by (auto simp: dispatch_frame_def Let_def dest!: dinv_run_attach [where L = L] dinv_handle_attach [where L = L]
      split: if_splits option.splits request.splits)

lemma dinv_on_payload:
  assumes "on_session_payload k d l r = Some d'" shows "dinv L d \<longrightarrow> dinv L d'"
proof -
  have rest: "dinv L d2" if "dinv L d1" "dispatch_frame k d1 sid ty p = Some (d2, go)" for d1 d2 sid ty p go
    using dinv_dispatch [OF that(2)] that(1) by blast
  show ?thesis
    using assms
    by (auto simp: on_session_payload_def Let_def split_def bind_eq_Some_conv dinv_pool_alloc
        intro!: dinv_close_session dinv_arm_read elim!: rest [rotated]
        split: op_local.splits sum.splits if_splits option.splits)
qed

section \<open>The three loops\<close>

text \<open>A kernel that never refuses an operation and never runs out of buffers.\<close>

definition obliging :: "'w kernel \<Rightarrow> bool" where
  "obliging k \<longleftrightarrow> (\<forall>w r. snd (k_arm k w r) = Inr ()) \<and> (\<forall>w n. k_alloc k w n \<noteq> None)"

lemma obliging_alloc: "obliging k \<Longrightarrow> k_alloc k w n = None \<Longrightarrow> False"
  unfolding obliging_def by blast

definition relooped :: "'w kernel \<Rightarrow> callback \<Rightarrow> callback multiset \<Rightarrow> 'w daemon \<Rightarrow> bool" where
  "relooped k l L d \<longleftrightarrow> dinv (add_mset l L) d \<or> (\<not> obliging k \<and> dinv L d)"

lemma obliging_submit: "obliging k \<Longrightarrow> snd (submit k d req local cb) \<noteq> None"
proof -
  assume "obliging k"
  then obtain w where "k_arm k (d_world d) req = (w, Inr ())"
    by (metis obliging_def prod.exhaust_sel)
  then show ?thesis by (simp add: submit_def Let_def)
qed

lemma relooped_submit:
  assumes "dinv L d" "op_typed cb local" "loop_of cb = Some l"
  shows "relooped k l L (fst (submit k d req local cb))"
proof (cases "submit k d req local cb")
  case (Pair d' r)
  then show ?thesis
    using dinv_submit_loop [OF assms(1,2) Pair] obliging_submit [of k d req local cb] assms(3)
    by (auto simp: relooped_def loop_set_def split: if_splits)
qed

lemma relooped_arm_accept: "dinv L d \<Longrightarrow> relooped k On_accept L (arm_accept k d)"
  by (simp add: arm_accept_def relooped_submit)

lemma relooped_on_accept: "dinv L d \<Longrightarrow> relooped k On_accept L (on_accept k d LAccept r)"
proof -
  assume d: "dinv L d"
  then have "dinv L (d\<lparr>d_next_session_id := d_next_session_id d + 1,
       d_sessions := AList.update (d_next_session_id d) (session_new fd) (d_sessions d)\<rparr>)" for fd
    by (simp add: dinv_def dwf_def)
  then show ?thesis
    using d by (auto simp: on_accept_def Let_def intro!: relooped_arm_accept split: sum.splits)
qed

lemma relooped_arm_sigchld: "dinv L d \<Longrightarrow> relooped k On_sigchld L (arm_sigchld k d)"
proof (cases "k_alloc k (d_world d) 128")
  case None
  moreover assume "dinv L d"
  ultimately show ?thesis by (auto simp: arm_sigchld_def relooped_def dest: obliging_alloc)
next
  case (Some x)
  moreover assume "dinv L d"
  ultimately show ?thesis by (auto simp: arm_sigchld_def relooped_submit split: prod.splits)
qed

lemma relooped_on_sigchld:
  assumes "on_sigchld k d LSigchld r = Some d'" "dinv L d"
  shows "if isl r then dinv L d' else relooped k On_sigchld L d'"
  using assms by (auto simp: on_sigchld_def bind_eq_Some_conv dest!: dinv_reap_children [where L = L]
      intro!: relooped_arm_sigchld split: sum.splits if_splits)

lemma pool_msg_none: "pool_msg k w n = (w', None) \<Longrightarrow> \<not> obliging k"
  by (auto simp: pool_msg_def dest: obliging_alloc split: option.splits)

lemma obliging_msg:
  assumes "msg_with_capacity (pool_msg k) pool_release w 1 0 = Some (w', None)" shows "\<not> obliging k"
proof (cases "pool_msg k w MSGHDR_SIZE")
  case (Pair w1 x)
  then show ?thesis
    using assms by (auto simp: msg_with_capacity_def bind_eq_Some_conv dest: pool_msg_none split: prod.splits option.splits)
qed

lemma relooped_arm_datagram:
  assumes "arm_datagram k d = Some d'" "dinv L d" shows "relooped k On_datagram L d'"
proof -
  obtain w recv where m: "msg_with_capacity (pool_msg k) pool_release (d_world d) 1 0 = Some (w, recv)"
    using assms(1) by (auto simp: arm_datagram_def bind_eq_Some_conv)
  show ?thesis
  proof (cases recv)
    case None
    have "\<not> obliging k" using obliging_msg m None by simp
    then show ?thesis
      using assms m None by (auto simp: arm_datagram_def relooped_def)
  next
    case (Some x)
    then show ?thesis
      using assms m relooped_submit [of L "d\<lparr>d_world := w\<rparr>" On_datagram_peek LDatagramPeek On_datagram k]
      by (auto simp: arm_datagram_def)
  qed
qed

lemma relooped_peek:
  assumes "on_datagram_peek k d LDatagramPeek r = Some d'" "dinv L d" shows "relooped k On_datagram L d'"
proof -
  have "relooped k On_datagram L d'"
    if "submit k d q LDatagram On_datagram = (d1, op)"
      "(case op of None \<Rightarrow> arm_datagram k d1 | Some i \<Rightarrow> Some d1) = Some d'" for q d1 op
    using that dinv_submit_loop [OF assms(2) _ that(1)] relooped_arm_datagram [of k d1 d' L]
    by (auto simp: relooped_def loop_set_def split: option.splits)
  then show ?thesis
    using assms relooped_arm_datagram [OF _ assms(2)]
    by (auto simp: on_datagram_peek_def split: sum.splits prod.splits option.splits)
qed

lemma relooped_on_datagram:
  assumes "on_datagram k d LDatagram r = Some d'" "dinv L d" shows "relooped k On_datagram L d'"
  using assms
  by (auto simp: on_datagram_def split_def bind_eq_Some_conv dest!: dinv_handle_datagram [where L = L]
      intro: relooped_arm_datagram split: sum.splits if_splits option.splits)

section \<open>Deliveries\<close>

text \<open>The delivered operation is a failed read of the signal descriptor; its loop ends.\<close>

definition reaper_failed :: "'w daemon \<Rightarrow> nat \<Rightarrow> op_result \<Rightarrow> bool" where
  "reaper_failed d i r \<longleftrightarrow>
     (case map_of (d_ops d) i of None \<Rightarrow> False | Some p \<Rightarrow> po_cb p = On_sigchld) \<and>
     (case r of BytesResult b \<Rightarrow> isl b | _ \<Rightarrow> False)"

lemma callback_of_loop:
  "callback_of l = Some On_datagram \<Longrightarrow> l = LDatagram"
  "callback_of l = Some On_datagram_peek \<Longrightarrow> l = LDatagramPeek"
  "callback_of l = Some On_accept \<Longrightarrow> l = LAccept"
  "callback_of l = Some On_sigchld \<Longrightarrow> l = LSigchld"
  by (cases l; simp)+

lemma run_callback_dinv:
  assumes "run_callback k d cb l r = Some d'" "dinv L d" "loop_of cb = None" shows "dinv L d'"
  using assms
  by (cases cb; cases r)
    (simp_all add: run_callback_def dinv_on_follow_write [THEN mp] dinv_container_output [THEN mp]
      dinv_on_payload [THEN mp] dinv_on_session_frame [THEN mp] dinv_on_data_header [THEN mp]
      dinv_on_data_payload [THEN mp] dinv_on_session_output [THEN mp], auto)

lemma run_callback_relooped:
  assumes run: "run_callback k d cb l r = Some d'" and "dinv L d" "op_typed cb l" "loop_of cb = Some lp"
  shows "if cb = On_sigchld \<and> (\<exists>e. r = BytesResult (Inl e)) then dinv L d' else relooped k lp L d'"
proof -
  consider "cb = On_datagram" "lp = On_datagram" | "cb = On_datagram_peek" "lp = On_datagram"
    | "cb = On_accept" "lp = On_accept" | "cb = On_sigchld" "lp = On_sigchld"
    using assms(4) by (cases cb) (auto simp: loop_of_def)
  then show ?thesis
  proof cases
    case 1
    then obtain b where "on_datagram k d LDatagram b = Some d'"
      using run assms(3) callback_of_loop(1) by (cases r) (auto simp: run_callback_def)
    then have "relooped k lp L d'" using relooped_on_datagram assms(2) 1 by blast
    with 1 show ?thesis by simp
  next
    case 2
    then obtain b where "on_datagram_peek k d LDatagramPeek b = Some d'"
      using run assms(3) callback_of_loop(2) by (cases r) (auto simp: run_callback_def)
    then have "relooped k lp L d'" using relooped_peek assms(2) 2 by blast
    with 2 show ?thesis by simp
  next
    case 3
    then obtain b where "on_accept k d LAccept b = d'"
      using run assms(3) callback_of_loop(3) by (cases r) (auto simp: run_callback_def)
    then have "relooped k lp L d'" using relooped_on_accept assms(2) 3 by blast
    with 3 show ?thesis by simp
  next
    case 4
    then obtain b where b: "r = BytesResult b" "on_sigchld k d LSigchld b = Some d'"
      using run assms(3) callback_of_loop(4) by (cases r) (auto simp: run_callback_def)
    show ?thesis
      using relooped_on_sigchld [OF b(2) assms(2)] 4 b(1) by (cases b) auto
  qed
qed

lemma dinv_delete:
  "dwf d \<Longrightarrow> dinv (loops_in (AList.delete i (d_ops d))) (d\<lparr>d_ops := AList.delete i (d_ops d)\<rparr>)"
  by (simp add: dinv_def dwf_def ops_ok_delete)

lemma deliver_dinv:
  assumes "deliver k d i r = Some d'" "dwf d"
  obtains p where "map_of (d_ops d) i = Some p"
    "case loop_of (po_cb p) of
       None \<Rightarrow> dinv (loops_in (AList.delete i (d_ops d))) d'
     | Some l \<Rightarrow> (if reaper_failed d i r then dinv (loops_in (AList.delete i (d_ops d))) d'
         else relooped k l (loops_in (AList.delete i (d_ops d))) d')"
    "loops_in (d_ops d) = loop_set (po_cb p) + loops_in (AList.delete i (d_ops d))"
proof -
  obtain p where p: "map_of (d_ops d) i = Some p"
    and run: "run_callback k (d\<lparr>d_ops := AList.delete i (d_ops d)\<rparr>) (po_cb p) (po_local p) r = Some d'"
    using assms(1) by (auto simp: deliver_def split: option.splits)
  have "op_typed (po_cb p) (po_local p)"
    using assms(2) map_of_SomeD [OF p] by (auto simp: dwf_def ops_ok_def)
  note again = run_callback_relooped [OF run dinv_delete [OF assms(2)] this]
  show ?thesis
  proof (rule that [OF p])
    show "case loop_of (po_cb p) of
       None \<Rightarrow> dinv (loops_in (AList.delete i (d_ops d))) d'
     | Some l \<Rightarrow> (if reaper_failed d i r then dinv (loops_in (AList.delete i (d_ops d))) d'
         else relooped k l (loops_in (AList.delete i (d_ops d))) d')"
    proof (cases "loop_of (po_cb p)")
      case None
      then show ?thesis using run_callback_dinv [OF run dinv_delete [OF assms(2)]] by simp
    next
      case (Some l)
      moreover have "reaper_failed d i r = (po_cb p = On_sigchld \<and> (\<exists>e. r = BytesResult (Inl e)))"
        using p by (auto simp: reaper_failed_def isl_def split: op_result.splits)
      ultimately show ?thesis using again [OF Some] by simp
    qed
    have "keyed (d_ops d)" using assms(2) by (simp add: dwf_def ops_ok_def)
    from loops_delete [OF this p]
    show "loops_in (d_ops d) = loop_set (po_cb p) + loops_in (AList.delete i (d_ops d))"
      by (simp add: loop_set_def)
  qed
qed

text \<open>A delivery re-arms its loop, unless the reaper ends; it never puts a second operation of a loop in flight.\<close>

lemma deliver_loops:
  assumes "deliver k d i r = Some d'" "dwf d"
  defines "gone \<equiv> if reaper_failed d i r then {#On_sigchld#} else {#}"
  shows "dwf d' \<and> loops_in (d_ops d') + gone \<subseteq># loops_in (d_ops d) \<and>
    (obliging k \<longrightarrow> loops_in (d_ops d') + gone = loops_in (d_ops d))"
proof -
  obtain p where p: "map_of (d_ops d) i = Some p"
    "case loop_of (po_cb p) of
       None \<Rightarrow> dinv (loops_in (AList.delete i (d_ops d))) d'
     | Some l \<Rightarrow> (if reaper_failed d i r then dinv (loops_in (AList.delete i (d_ops d))) d'
         else relooped k l (loops_in (AList.delete i (d_ops d))) d')"
    "loops_in (d_ops d) = loop_set (po_cb p) + loops_in (AList.delete i (d_ops d))"
    using assms(1,2) by (rule deliver_dinv)
  have "loop_of (po_cb p) = Some On_sigchld" if "reaper_failed d i r"
    using that p(1) by (simp add: reaper_failed_def)
  then show ?thesis
    using p(2,3) by (cases "reaper_failed d i r")
      (auto simp: relooped_def dinv_def loop_set_def gone_def split: option.splits)
qed

lemma boot_dinv:
  assumes "boot k d fds = Some d'" "dinv L d"
  shows "dwf d' \<and> loops_in (d_ops d') \<subseteq># {#On_datagram, On_accept, On_sigchld#} + L \<and>
    (obliging k \<and> \<not> isl fds \<longrightarrow> loops_in (d_ops d') = {#On_datagram, On_accept, On_sigchld#} + L)"
proof (cases fds)
  case (Inl e)
  then show ?thesis using assms by (auto simp: boot_def dinv_def)
next
  case (Inr x)
  obtain a b c where x: "x = (a, b, c)" by (cases x)
  let ?d = "d\<lparr>d_datagram_fd := a, d_attach_listener_fd := b, d_sigchld_fd := c\<rparr>"
  obtain d1 where d1: "arm_datagram k ?d = Some d1" "d' = arm_sigchld k (arm_accept k d1)"
    using assms(1) by (auto simp: Inr x boot_def Let_def bind_eq_Some_conv)
  from relooped_arm_datagram [OF d1(1), of L] assms(2) have "relooped k On_datagram L d1" by simp
  then obtain L1 where L1: "dinv L1 d1" "L1 \<subseteq># {#On_datagram#} + L" "obliging k \<Longrightarrow> L1 = {#On_datagram#} + L"
    by (auto simp: relooped_def)
  from relooped_arm_accept [OF L1(1), of k]
  obtain L2 where L2: "dinv L2 (arm_accept k d1)" "L2 \<subseteq># {#On_accept#} + L1" "obliging k \<Longrightarrow> L2 = {#On_accept#} + L1"
    by (auto simp: relooped_def)
  from relooped_arm_sigchld [OF L2(1), of k]
  obtain L3 where L3: "dinv L3 d'" "L3 \<subseteq># {#On_sigchld#} + L2" "obliging k \<Longrightarrow> L3 = {#On_sigchld#} + L2"
    by (auto simp: relooped_def d1(2))
  have "L3 \<subseteq># {#On_sigchld#} + ({#On_accept#} + ({#On_datagram#} + L))"
    using L1(2) L2(2) L3(2) by (meson mset_subset_eq_mono_add subset_mset.order_refl subset_mset.order_trans)
  then show ?thesis
    using L1(3) L2(3) L3(1,3) by (auto simp: dinv_def add_mset_commute)
qed

section \<open>Runs of the daemon\<close>

text \<open>
  A run from the start: the descriptors are opened and the loops armed once, then completions are delivered.
  The flag records whether a read of the signal descriptor has failed so far.
\<close>

inductive daemon_run :: "'w kernel \<Rightarrow> 'w daemon \<Rightarrow> bool \<Rightarrow> bool" for k where
  Start: "boot k (daemon_state_new w) (Inr fds) = Some d \<Longrightarrow> daemon_run k d False"
| Next: "daemon_run k d b \<Longrightarrow> deliver k d i r = Some d' \<Longrightarrow> daemon_run k d' (b \<or> reaper_failed d i r)"

definition loops_left :: "bool \<Rightarrow> callback multiset" where
  "loops_left reaper_gone = {#On_datagram, On_accept#} + (if reaper_gone then {#} else {#On_sigchld#})"

lemma dinv_new: "dinv {#} (daemon_state_new w)"
  by (simp add: dinv_def dwf_def daemon_state_new_def ops_ok_def sessions_ok_def containers_ok_def keyed_def)

lemma dwf_step: "daemon_step k d d' \<Longrightarrow> dwf d \<Longrightarrow> dwf d'"
  by (erule daemon_stepE) (auto dest: deliver_loops boot_dinv dinv_loops)

lemma dwf_reach: "(daemon_step k)\<^sup>*\<^sup>* d d' \<Longrightarrow> dwf d \<Longrightarrow> dwf d'"
  by (induction rule: rtranclp_induct) (auto dest: dwf_step)

lemma run_inv:
  assumes "daemon_run k d b"
  shows "dwf d \<and> loops_in (d_ops d) \<subseteq># loops_left b \<and> (obliging k \<longrightarrow> loops_in (d_ops d) = loops_left b)"
  using assms
proof induction
  case (Start w fds d)
  then show ?case
    using boot_dinv [OF _ dinv_new, of k w "Inr fds" d] by (simp add: loops_left_def add_mset_commute)
next
  case (Next d b i r d')
  note step = deliver_loops [OF Next.hyps(2) conjunct1 [OF Next.IH]]
  show ?case
  proof (cases "reaper_failed d i r")
    case False
    then show ?thesis using step Next.IH by (auto intro: subset_mset.order_trans)
  next
    case True
    then have sub: "loops_in (d_ops d') + {#On_sigchld#} \<subseteq># loops_left b"
      using step Next.IH by (auto intro: subset_mset.order_trans)
    then have "\<not> b"
      by (auto simp: loops_left_def dest: mset_subset_eqD [where x = On_sigchld])
    then show ?thesis
      using sub step Next.IH True by (auto simp: loops_left_def add_mset_commute)
  qed
qed

lemma deliver_all_run:
  assumes "daemon_run k d b" "deliver_all k d rs = Some d'" "\<forall>x \<in> set rs. \<forall>e. snd x \<noteq> BytesResult (Inl e)"
  shows "daemon_run k d' b"
  using assms
proof (induction k d rs rule: deliver_all.induct)
  case (2 k d i r rs)
  then obtain d1 where d1: "deliver k d i r = Some d1" "deliver_all k d1 rs = Some d'"
    by (auto simp: bind_eq_Some_conv)
  have "\<not> reaper_failed d i r"
    using 2(4) by (auto simp: reaper_failed_def isl_def split: op_result.splits)
  then have "daemon_run k d1 b" using Next [OF 2(2) d1(1)] by simp
  then show ?case using 2 d1 by simp
qed simp

lemma demo_obliging: "obliging demo_kernel"
  by (simp add: obliging_def)

lemma attach_script_peek:
  obtains d p where "demo_script attach_script = Some d" "map_of (d_ops d) 1 = Some p"
proof -
  have "case demo_script attach_script of None \<Rightarrow> False | Some d \<Rightarrow> map_of (d_ops d) 1 \<noteq> None"
    by (simp add: demo_run_defs Let_def split_def reap_loop.simps)
  then show ?thesis using that by (auto split: option.splits)
qed

lemma attach_script_started:
  assumes "demo_script attach_script = Some d" shows "daemon_run demo_kernel d False"
proof -
  obtain d0 where d0: "boot demo_kernel demo_start (Inr (10, 11, 12)) = Some d0" "deliver_all demo_kernel d0 attach_script = Some d"
    using assms by (auto simp: demo_script_def bind_eq_Some_conv)
  show ?thesis
    by (rule deliver_all_run [OF daemon_run.Start [OF d0(1) [unfolded demo_start_def]] d0(2)]) (simp add: attach_script_def)
qed

definition reaper_script :: "(nat \<times> op_result) list" where
  "reaper_script = [(3, BytesResult (Inl (Os 105)))]"

lemma reaper_script_run:
  obtains d where "demo_script reaper_script = Some d" "daemon_run demo_kernel d True"
proof -
  obtain d0 where d0: "boot demo_kernel demo_start (Inr (10, 11, 12)) = Some d0"
    "case map_of (d_ops d0) 3 of None \<Rightarrow> False | Some p \<Rightarrow> po_cb p = On_sigchld \<and> po_local p = LSigchld"
    by (simp add: demo_run_defs Let_def split_def)
  then obtain d where d: "deliver demo_kernel d0 3 (BytesResult (Inl (Os 105))) = Some d"
    by (auto simp: deliver_def run_callback_def on_sigchld_def split: option.splits)
  have "daemon_run demo_kernel d (False \<or> reaper_failed d0 3 (BytesResult (Inl (Os 105))))"
    by (rule daemon_run.Next [OF daemon_run.Start [OF d0(1) [unfolded demo_start_def]] d])
  moreover have "reaper_failed d0 3 (BytesResult (Inl (Os 105)))"
    using d0(2) by (auto simp: reaper_failed_def split: option.splits)
  ultimately show ?thesis
    using that [of d] d0(1) d by (simp add: demo_script_def reaper_script_def)
qed

text \<open>A kernel that refuses every operation.\<close>

definition refusing_kernel :: "demo_world kernel" where
  "refusing_kernel = demo_kernel\<lparr>k_arm := (\<lambda>w r. (w, Inl (Os 105)))\<rparr>"

section \<open>Properties\<close>

text \<open>
  C8. The shared state of the daemon is well formed in every reachable state: each operation in flight
  carries the local its callback expects, so no callback ever takes its wrong-local branch; operation
  and session numbers are never reused; and every table has one entry a key, a container under its
  own process id.
\<close>

theorem daemon_tables_typed:
  assumes "(daemon_step k)\<^sup>*\<^sup>* (daemon_state_new w) d"
  shows "(\<forall>i p. map_of (d_ops d) i = Some p \<longrightarrow> callback_of (po_local p) = Some (po_cb p) \<and> i < d_next_op d) \<and>
    (\<forall>sid s. get_session d sid = Some s \<longrightarrow> sid < d_next_session_id d) \<and>
    (\<forall>pid info. get_container d pid = Some info \<longrightarrow> ci_pid info = pid) \<and>
    distinct (map fst (d_ops d)) \<and> distinct (map fst (d_sessions d)) \<and> distinct (map fst (d_containers d)) \<and>
    distinct (map fst (d_outputs d)) \<and> distinct (map fst (d_log_graveyard d))"
proof -
  have "dwf d" by (rule dwf_reach [OF assms dinv_dwf [OF dinv_new]])
  then show ?thesis
    by (fastforce simp: dwf_def ops_ok_def sessions_ok_def containers_ok_def keyed_def get_session_def
        get_container_def dest: map_of_SomeD)
qed

theorem daemon_tables_typed_witness:
  "\<exists>d p. demo_script attach_script = Some d \<and> map_of (d_ops d) 1 = Some p \<and>
     callback_of (po_local p) = Some (po_cb p) \<and> 1 < d_next_op d \<and> distinct (map fst (d_ops d))"
proof -
  obtain d p where d: "demo_script attach_script = Some d" "map_of (d_ops d) 1 = Some p"
    by (rule attach_script_peek)
  then show ?thesis
    using daemon_tables_typed [OF demo_script_reach [OF d(1), unfolded demo_start_def]] by blast
qed

text \<open>
  C7. Every persistent loop keeps one operation in flight: while the kernel refuses no operation and has
  buffers, in every reachable state each of the three loops (datagrams, clients, exited children) has
  exactly one operation in flight; only the reaper can end, by a failed read of the signal descriptor,
  and it is never armed again. Whatever the kernel refuses, no loop ever has two operations in flight.
\<close>

theorem daemon_keeps_listening:
  assumes "daemon_run k d b"
  shows "loops_in (d_ops d) \<subseteq># loops_left b \<and> (obliging k \<longrightarrow> loops_in (d_ops d) = loops_left b)"
  using run_inv [OF assms] by simp

theorem daemon_keeps_listening_witness:
  "(\<exists>d. demo_script attach_script = Some d \<and> loops_in (d_ops d) = {#On_datagram, On_accept, On_sigchld#}) \<and>
   (\<exists>d. demo_script reaper_script = Some d \<and> loops_in (d_ops d) = {#On_datagram, On_accept#}) \<and>
   (\<exists>d. boot refusing_kernel demo_start (Inr (10, 11, 12)) = Some d \<and> loops_in (d_ops d) \<subseteq># loops_left False)"
proof -
  obtain d where d: "demo_script attach_script = Some d" by (rule attach_script_peek)
  obtain d' where d': "demo_script reaper_script = Some d'" "daemon_run demo_kernel d' True" by (rule reaper_script_run)
  obtain e where e: "boot refusing_kernel demo_start (Inr (10, 11, 12)) = Some e"
    by (simp add: refusing_kernel_def demo_run_defs Let_def split_def)
  show ?thesis
    using daemon_keeps_listening [OF attach_script_started [OF d]] daemon_keeps_listening [OF d'(2)] demo_obliging
      daemon_keeps_listening [OF daemon_run.Start [OF e [unfolded demo_start_def]]] d d'(1) e
    by (auto simp: loops_left_def)
qed

end
