(* ===== verification/Container_Logs.thy ===== *)
theory Container_Logs
  imports Daemon_Invariants
begin

text \<open>
  The log of a container, from the bytes it prints to the answer to \<^verbatim>\<open>logs\<close>: the reads of the
  output pipe (\<^verbatim>\<open>on_container_output\<close>), line assembly (\<^verbatim>\<open>drain_lines\<close>), the cache of the gateway,
  and the graveyard the cache moves to when the container is removed. Everything else the daemon
  does in between leaves the log alone.
\<close>

section \<open>What a container's log depends on\<close>

text \<open>The cache \<^verbatim>\<open>handle_logs\<close> answers from: the container's own, or the one it left in the graveyard.\<close>

definition log_of :: "'w daemon \<Rightarrow> pid \<Rightarrow> log_cache option" where
  "log_of d pid =
     (case get_container d pid of
        Some info \<Rightarrow> Some (lg_cache (ci_gateway info))
      | None \<Rightarrow> map_of (d_log_graveyard d) pid)"

text \<open>The reads in flight whose lines go to that log, each with the partial line it carries.\<close>

fun drain_local :: "pid \<Rightarrow> op_local \<Rightarrow> (callback \<times> bytes) list" where
  "drain_local pid (LContainerOutput q buf) = (if q = pid then [(On_container_output, buf)] else [])"
| "drain_local pid (LContainerPtyOutput q buf) = (if q = pid then [(On_container_pty_output, buf)] else [])"
| "drain_local pid _ = []"

definition drains :: "'w daemon \<Rightarrow> pid \<Rightarrow> (callback \<times> bytes) list" where
  "drains d pid = concat (map (\<lambda>(i, p). drain_local pid (po_local p)) (d_ops d))"

definition obs :: "pid \<Rightarrow> 'w daemon \<Rightarrow> log_cache option \<times> (callback \<times> bytes) list" where
  "obs pid d = (log_of d pid, drains d pid)"

lemma obs_frame [simp]:
  "obs pid (d\<lparr>d_world := w\<rparr>) = obs pid d"
  "obs pid (d\<lparr>d_next_pipe_id := n\<rparr>) = obs pid d"
  "obs pid (d\<lparr>d_next_session_id := m\<rparr>) = obs pid d"
  "obs pid (d\<lparr>d_sessions := ss\<rparr>) = obs pid d"
  "obs pid (d\<lparr>d_outputs := os\<rparr>) = obs pid d"
  "obs pid (emit e d) = obs pid d"
  "obs pid (upd_session d sid f) = obs pid d"
  by (simp_all add: obs_def log_of_def drains_def get_container_def emit_def upd_session_def cong: option.case_cong)

lemma obs_store [simp]: "obs pid (store_session_op d sid w op) = obs pid d"
  by (simp add: store_session_op_def)

lemma obs_close [simp]:
  "obs pid (close_fd k d fd) = obs pid d"
  "obs pid (close_if_open k d fd) = obs pid d"
  by (simp_all add: close_if_open_def close_fd_def)

lemma obs_close_fds [simp]: "obs pid (close_fds k d fds) = obs pid d"
proof (induction fds arbitrary: d)
  case (Cons fd fds)
  then show ?case using Cons.IH [of "close_fd k d fd"] by (simp add: close_fds_def)
qed (simp add: close_fds_def)

lemma obs_pool_alloc: "pool_alloc k d n = Some (d', b) \<Longrightarrow> obs pid d' = obs pid d"
  by (auto simp: pool_alloc_def)

lemma obs_reply [simp]: "obs pid (reply_datagram k d sender r) = obs pid d"
  by (simp add: reply_datagram_def Let_def split: prod.splits)

lemma obs_frame_now [simp]: "obs pid (write_frame_now k d fd ty p) = obs pid d"
  by (simp add: write_frame_now_def Let_def split: prod.splits)

lemma obs_ops [simp]:
  "obs pid (d\<lparr>d_next_op := n, d_ops := d_ops d @ [(n, p)]\<rparr>) = (log_of d pid, drains d pid @ drain_local pid (po_local p))"
  by (simp add: obs_def log_of_def drains_def get_container_def cong: option.case_cong)

lemma submit_obs:
  assumes "submit k d req local cb = (d', r)"
  shows "obs pid d' = (log_of d pid, drains d pid @ (if r = None then [] else drain_local pid local))"
proof -
  obtain w x where x: "k_arm k (d_world d) req = (w, x)" by fastforce
  show ?thesis
    using assms x by (cases x) (auto simp: submit_def Let_def obs_def log_of_def drains_def get_container_def emit_def cong: option.case_cong)
qed

lemma obs_submit_eq: "submit k d req local cb = (d', r) \<Longrightarrow> drain_local pid local = [] \<longrightarrow> obs pid d' = obs pid d"
  using submit_obs [of k d req local cb d' r pid] by (auto simp: obs_def)

lemma obs_submit [simp]: "drain_local pid local = [] \<Longrightarrow> obs pid (fst (submit k d req local cb)) = obs pid d"
  using obs_submit_eq [of k d req local cb _ _ pid] by (metis prod.collapse)

lemma obs_cancel_op [simp]: "obs pid (cancel_op k d i) = obs pid d"
proof -
  have same: "map (\<lambda>(i, p). drain_local pid (po_local p)) (AList.map_entry i (po_cancel_update (\<lambda>_. True)) ops)
      = map (\<lambda>(i, p). drain_local pid (po_local p)) ops" for ops
    by (induction ops) auto
  have "obs pid (e\<lparr>d_ops := AList.map_entry i (\<lambda>p. p\<lparr>po_cancel := True\<rparr>) (d_ops e)\<rparr>) = obs pid e" for e :: "'a daemon"
    by (simp add: obs_def log_of_def drains_def get_container_def same cong: option.case_cong)
  then show ?thesis by (auto simp: cancel_op_def Let_def split: option.splits prod.splits)
qed

text \<open>Changes to a container that leave its cache alone.\<close>

lemma obs_upd_container:
  assumes "\<And>i. get_container d q = Some i \<Longrightarrow> lg_cache (ci_gateway (f i)) = lg_cache (ci_gateway i)"
  shows "obs pid (upd_container d q f) = obs pid d"
  using assms by (auto simp: obs_def log_of_def drains_def get_container_def upd_container_def map_of_map_entry split: option.splits)

lemma obs_upd_fields [simp]:
  "obs pid (upd_container d q (\<lambda>i. i\<lparr>ci_drains_pending := n i\<rparr>)) = obs pid d"
  "obs pid (upd_container d q (\<lambda>i. i\<lparr>ci_ptm_fd := m\<rparr>)) = obs pid d"
  "obs pid (upd_container d q (\<lambda>i. i\<lparr>ci_gateway := log_gateway_add_pipe (ci_gateway i) pipe_id fd\<rparr>)) = obs pid d"
  by (simp_all add: obs_upd_container log_gateway_add_pipe_def)

section \<open>Sessions leave the logs alone\<close>

lemma obs_close_session [simp]: "obs pid (close_session k d sid) = obs pid d"
  by (auto simp: close_session_def Let_def split: option.splits)

lemma obs_session_frame: "arm_session_frame k d sid fd ty p = Some d' \<Longrightarrow> obs pid d' = obs pid d"
  by (auto simp: arm_session_frame_def Let_def split_def bind_eq_Some_conv obs_pool_alloc)

lemma obs_on_session_frame: "on_session_frame k d l r = Some d' \<Longrightarrow> obs pid d' = obs pid d"
  by (auto simp: on_session_frame_def Let_def split: op_local.splits sum.splits if_splits)

lemma obs_maybe_finish: "maybe_finish_session k d sid = Some d' \<Longrightarrow> obs pid d' = obs pid d"
  by (auto simp: maybe_finish_session_def Let_def dest!: obs_session_frame [where pid = pid] split: option.splits if_splits)

lemma obs_finish_output: "finish_session_output k d sid = Some d' \<Longrightarrow> obs pid d' = obs pid d"
  by (auto simp: finish_session_output_def dest!: obs_maybe_finish [where pid = pid])

lemma obs_arm_output: "arm_session_output k d sid = Some d' \<Longrightarrow> obs pid d' = obs pid d"
  by (auto simp: arm_session_output_def Let_def dest!: obs_finish_output [where pid = pid] obs_submit_eq [where pid = pid]
      split: prod.splits option.splits if_splits)

lemma obs_on_session_output:
  assumes "on_session_output k d l r = Some d'" shows "obs pid d' = obs pid d"
proof -
  have armed: "obs pid d2 = obs pid d1"
    if "(case submit k d1 (WriteFixed fd hd) (LSessionDataHeader sid fd hd bs 0) On_session_data_header of
          (d, None) \<Rightarrow> finish_session_output k d sid | (d, Some op) \<Rightarrow> Some d) = Some d2" for d1 d2 fd hd sid bs
    using that
    by (cases "submit k d1 (WriteFixed fd hd) (LSessionDataHeader sid fd hd bs 0) On_session_data_header")
      (auto dest!: obs_finish_output [where pid = pid] obs_submit_eq [where pid = pid] split: option.splits)
  show ?thesis
    using assms
    by (auto simp: on_session_output_def Let_def bind_eq_Some_conv obs_pool_alloc
        dest!: obs_finish_output [where pid = pid] armed split: op_local.splits sum.splits option.splits if_splits)
qed

lemma obs_on_data_header: "on_session_data_header k d l r = Some d' \<Longrightarrow> obs pid d' = obs pid d"
  by (auto simp: on_session_data_header_def Let_def dest!: obs_finish_output [where pid = pid]
      split: op_local.splits sum.splits if_splits)

lemma obs_on_data_payload: "on_session_data_payload k d l r = Some d' \<Longrightarrow> obs pid d' = obs pid d"
  by (auto simp: on_session_data_payload_def Let_def dest!: obs_finish_output [where pid = pid] obs_arm_output [where pid = pid]
      split: op_local.splits sum.splits if_splits)

lemma obs_stdin [simp]: "obs pid (on_session_stdin k d l r) = obs pid d"
  by (auto simp: on_session_stdin_def Let_def split: op_local.splits sum.splits)

lemma obs_arm_stdin [simp]: "obs pid (arm_session_stdin k d sid fd buf) = obs pid d"
  by (simp add: arm_session_stdin_def)

lemma obs_arm_read [simp]: "obs pid (arm_session_read k d sid) = obs pid d"
  by (auto simp: arm_session_read_def split: option.splits prod.splits dest: obs_submit_eq [where pid = pid])

lemma obs_on_header [simp]: "obs pid (on_session_header k d l r) = obs pid d"
  by (auto simp: on_session_header_def Let_def split: op_local.splits sum.splits if_splits prod.splits option.splits
      dest!: obs_submit_eq [where pid = pid])

section \<open>Removing a container\<close>

lemma obs_bury: "get_container d q = Some info \<Longrightarrow> obs pid (bury d q info) = obs pid d"
  by (auto simp: bury_def obs_def log_of_def drains_def get_container_def delete_conv' update_conv' cong: option.case_cong)

lemma obs_cleanup [simp]: "obs pid (cleanup_unless_saved k d info) = obs pid d"
  by (simp add: cleanup_unless_saved_def split: option.splits)

lemma obs_finish_drain [simp]: "obs pid (finish_drain k d q) = obs pid d"
  by (auto simp: finish_drain_def Let_def obs_bury split: option.splits)

lemma obs_reap_container [simp]: "obs pid (reap_container k d q) = obs pid d"
  by (auto simp: reap_container_def Let_def obs_bury split: option.splits)

lemma obs_reap_one [simp]: "obs pid (fst (reap_one k d q status)) = obs pid d"
  by (auto simp: reap_one_def Let_def split: option.splits)

lemma obs_reap_loop:
  assumes "reap_loop k d fin = Some r" shows "obs pid (fst r) = obs pid d"
proof (rule reap_loop.raw_induct [where P = "\<lambda>k d fin r. obs pid (fst r) = obs pid d", OF _ assms])
  fix f k d fin and r :: "'a daemon \<times> nat list"
  assume IH: "\<And>k d fin r. f k d fin = Some r \<Longrightarrow> obs pid (fst r) = obs pid d"
    and body: "(case k_wait4 k (d_world d) of
        (w, Inl e) \<Rightarrow> Some (d\<lparr>d_world := w\<rparr>, fin)
      | (w, Inr (pid, status)) \<Rightarrow>
          if 0 < pid then case reap_one k (d\<lparr>d_world := w\<rparr>) pid status of (d, sids) \<Rightarrow> f k d (fin @ sids)
          else Some (d\<lparr>d_world := w\<rparr>, fin)) = Some r"
  show "obs pid (fst r) = obs pid d"
    using body by (auto simp: split_def split: sum.splits if_splits dest!: IH)
qed

lemma obs_finish_sessions: "finish_sessions k d sids = Some d' \<Longrightarrow> obs pid d' = obs pid d"
  by (induction k d sids rule: finish_sessions.induct)
    (fastforce simp: bind_eq_Some_conv dest: obs_maybe_finish [where pid = pid])+

lemma obs_reap_children: "reap_children k d = Some d' \<Longrightarrow> obs pid d' = obs pid d"
  by (auto simp: reap_children_def bind_eq_Some_conv dest!: obs_reap_loop [where pid = pid] obs_finish_sessions [where pid = pid])

lemma obs_finish_container [simp]:
  "obs pid (finish_container_output k d q) = obs pid d"
  "obs pid (finish_container_pty_output k d q) = obs pid d"
  by (auto simp: finish_container_output_def finish_container_pty_output_def Let_def split: option.splits)

section \<open>Followers\<close>

lemma complete_write_cache: "log_gateway_complete_write g pipe_id ok = Some (h, closed) \<Longrightarrow> lg_cache h = lg_cache g"
  by (auto simp: log_gateway_complete_write_def Let_def bind_eq_Some_conv split: option.splits prod.splits if_splits)

lemma obs_upd_gateway:
  "get_container d q = Some info \<Longrightarrow> lg_cache g = lg_cache (ci_gateway info) \<Longrightarrow>
   obs pid (upd_container d q (\<lambda>i. i\<lparr>ci_gateway := g\<rparr>)) = obs pid d"
  by (rule obs_upd_container) simp

lemma obs_complete_write: "complete_write k d q pipe_id ok = Some d' \<Longrightarrow> obs pid d' = obs pid d"
  by (auto simp: complete_write_def bind_eq_Some_conv obs_upd_gateway complete_write_cache split: option.splits)

lemma obs_arm_follow_write: "arm_follow_write k d q pipe_id fd chunks = Some d' \<Longrightarrow> obs pid d' = obs pid d"
  by (auto simp: arm_follow_write_def dest!: obs_complete_write [where pid = pid] split: list.splits)

lemma obs_on_follow_write: "on_follow_write k d l r = Some d' \<Longrightarrow> obs pid d' = obs pid d"
  by (auto simp: on_follow_write_def Let_def dest!: obs_complete_write [where pid = pid] obs_arm_follow_write [where pid = pid]
      split: op_local.splits sum.splits if_splits)

lemma obs_arm_follow_writes: "arm_follow_writes k d q line ps = Some d' \<Longrightarrow> obs pid d' = obs pid d"
  by (induction k d q line ps rule: arm_follow_writes.induct)
    (fastforce simp: bind_eq_Some_conv dest: obs_arm_follow_write [where pid = pid])+

section \<open>Requests\<close>

text \<open>A kernel that never gives a new container the process id \<open>pid\<close>.\<close>

definition pid_taken :: "'w kernel \<Rightarrow> pid \<Rightarrow> bool" where
  "pid_taken k pid \<longleftrightarrow> (\<forall>w flags. snd (k_clone3 k w flags) \<noteq> Inr pid)"

lemma pid_takenD: "pid_taken k pid \<Longrightarrow> k_clone3 k w flags = (w', Inr q) \<Longrightarrow> q \<noteq> pid"
  unfolding pid_taken_def by (metis snd_conv)

lemma obs_follow_attach: "follow_attach k d sender q backlog rfd wfd = Some d' \<Longrightarrow> obs pid d' = obs pid d"
  by (auto simp: follow_attach_def Let_def split_def bind_eq_Some_conv split: if_splits option.splits)

lemma obs_handle_follow: "handle_follow k d sender q = Some d' \<Longrightarrow> obs pid d' = obs pid d"
  by (cases "snd (k_pipe2 k (d_world d))")
    (auto simp: handle_follow_def split_def bind_eq_Some_conv split: option.splits dest!: obs_follow_attach [where pid = pid])

lemma obs_follow_send [simp]: "obs pid (on_follow_send k d l r) = obs pid d"
  by (simp add: on_follow_send_def split: op_local.splits)

lemma obs_signal [simp]:
  "obs pid (signal_drop k d s) = obs pid d"
  "obs pid (signal_signal k d s) = obs pid d"
  "obs pid (close_pair k d p) = obs pid d"
  by (simp_all add: signal_drop_def signal_signal_def close_pair_def Let_def split_def)

lemma obs_close_pair_opt [simp]: "obs pid (close_pair_opt k d p) = obs pid d"
  by (simp add: close_pair_opt_def split: option.splits)

lemma obs_prepare [simp]:
  "obs pid (fst (join_ns k d q)) = obs pid d"
  "obs pid (fst (prepare_rootfs k d root)) = obs pid d"
  "obs pid (fst (prepare_death_pipe k d args)) = obs pid d"
  "obs pid (fst (setup_userns_maps k d q)) = obs pid d"
  by (simp_all add: join_ns_def prepare_rootfs_def prepare_death_pipe_def setup_userns_maps_def Let_def split_def
      split: sum.splits option.splits)

lemma obs_prepare_flags [simp]: "obs pid (fst (prepare_flags k d net)) = obs pid d"
  by (simp add: prepare_flags_def Let_def split_def split: sum.splits option.splits)

lemma obs_prepare_run [simp]: "obs pid (fst (prepare_run k d args)) = obs pid d"
  by (simp add: prepare_run_def Let_def split_def split: sum.splits)

lemma obs_setup_signal [simp]: "obs pid (fst (parent_setup_maps_and_signal k d q needs sig)) = obs pid d"
  by (simp add: parent_setup_maps_and_signal_def split_def split: sum.splits)

lemma obs_add_drain [simp]: "obs pid (add_drain d q) = obs pid d"
  by (simp add: add_drain_def)

lemma obs_arm_container_output [simp]:
  "q \<noteq> pid \<Longrightarrow> obs pid (arm_container_output k d q) = obs pid d"
  "q \<noteq> pid \<Longrightarrow> obs pid (arm_container_pty_output k d q) = obs pid d"
  by (simp_all add: arm_container_output_def arm_container_pty_output_def split: option.splits)

lemma obs_new_container [simp]:
  assumes "q \<noteq> pid"
  shows "obs pid (d\<lparr>d_world := w, d_containers := AList.update q info (d_containers d)\<rparr>) = obs pid d"
    "obs pid (d\<lparr>d_world := w, d_outputs := os, d_containers := AList.update q info (d_containers d)\<rparr>) = obs pid d"
  using assms by (simp_all add: obs_def log_of_def drains_def get_container_def update_conv' cong: option.case_cong)

lemma obs_run_started [simp]:
  "q \<noteq> pid \<Longrightarrow> obs pid (run_started k d sender save prep q log_read stdin_write ptm_fd death_write) = obs pid d"
  by (simp add: run_started_def Let_def split_def)

lemma obs_run_parent [simp]:
  "q \<noteq> pid \<Longrightarrow> obs pid (run_parent k d sender save prep q log_pipe stdin_pipe pty) = obs pid d"
  by (simp add: run_parent_def Let_def split_def split: sum.splits option.splits)

lemma obs_run_clone [simp]:
  "pid_taken k pid \<Longrightarrow> obs pid (run_clone k d sender save prep log_pipe stdin_pipe pty) = obs pid d"
  by (auto simp: run_clone_def Let_def dest: pid_takenD split: sum.splits prod.splits)

lemma obs_handle_run [simp]: "pid_taken k pid \<Longrightarrow> obs pid (handle_run k d sender args) = obs pid d"
  by (simp add: handle_run_def Let_def split_def split: sum.splits option.splits)

lemma obs_handle_kill [simp]: "obs pid (handle_kill k d sender q) = obs pid d"
  by (simp add: handle_kill_def split_def split: sum.splits)

lemma obs_handle_datagram: "handle_datagram k d sender q = Some d' \<Longrightarrow> pid_taken k pid \<longrightarrow> obs pid d' = obs pid d"
  by (auto simp: handle_datagram_def handle_logs_def Let_def split_def bind_eq_Some_conv
      dest!: obs_handle_follow [where pid = pid] split: request.splits if_splits option.splits)

lemma obs_arm_datagram: "arm_datagram k d = Some d' \<Longrightarrow> obs pid d' = obs pid d"
  by (auto simp: arm_datagram_def Let_def bind_eq_Some_conv split: option.splits)

lemma obs_on_peek: "on_datagram_peek k d l r = Some d' \<Longrightarrow> obs pid d' = obs pid d"
  by (auto simp: on_datagram_peek_def dest!: obs_arm_datagram [where pid = pid] obs_submit_eq [where pid = pid]
      split: op_local.splits sum.splits prod.splits option.splits)

lemma obs_on_datagram: "on_datagram k d l r = Some d' \<Longrightarrow> pid_taken k pid \<longrightarrow> obs pid d' = obs pid d"
  by (auto simp: on_datagram_def split_def bind_eq_Some_conv dest!: obs_handle_datagram [where pid = pid]
      obs_arm_datagram [where pid = pid] split: op_local.splits sum.splits if_splits option.splits)

lemma obs_attach_error [simp]: "obs pid (attach_error k d sid fd m) = obs pid d"
  by (simp add: attach_error_def)

lemma obs_attach_started:
  "attach_started k d sid fd save prep q log_read ptm_fd death = Some d' \<Longrightarrow> q \<noteq> pid \<longrightarrow> obs pid d' = obs pid d"
  by (auto simp: attach_started_def Let_def split_def bind_eq_Some_conv
      dest!: obs_session_frame [where pid = pid] obs_arm_output [where pid = pid])

lemma obs_attach_parent:
  "attach_parent k d sid fd save prep q log_pipe pty = Some (d', go) \<Longrightarrow> q \<noteq> pid \<longrightarrow> obs pid d' = obs pid d"
  by (auto simp: attach_parent_def Let_def split_def bind_eq_Some_conv dest!: obs_attach_started [where pid = pid]
      split: sum.splits option.splits)

lemma obs_attach_clone:
  "attach_clone k d sid fd save prep log_pipe pty = Some (d', go) \<Longrightarrow> pid_taken k pid \<longrightarrow> obs pid d' = obs pid d"
  by (cases "k_clone3 k (d_world d) (pr_clone_flags prep)")
    (auto simp: attach_clone_def Let_def dest!: obs_attach_parent [where pid = pid] dest: pid_takenD split: sum.splits option.splits)

lemma obs_run_attach: "handle_run_attach k d sid q = Some (d', go) \<Longrightarrow> pid_taken k pid \<longrightarrow> obs pid d' = obs pid d"
  by (auto simp: handle_run_attach_def Let_def split_def dest!: obs_attach_clone [where pid = pid]
      split: request.splits option.splits sum.splits if_splits)

lemma obs_handle_attach: "handle_attach k d sid q = Some (d', go) \<Longrightarrow> obs pid d' = obs pid d"
  by (cases "k_pipe2 k (d_world d)")
    (auto simp: handle_attach_def Let_def bind_eq_Some_conv dest!: obs_session_frame [where pid = pid] obs_arm_output [where pid = pid]
      split: option.splits sum.splits)

lemma obs_dispatch: "dispatch_frame k d sid ty p = Some (d', go) \<Longrightarrow> pid_taken k pid \<longrightarrow> obs pid d' = obs pid d"
  by (auto simp: dispatch_frame_def Let_def dest!: obs_run_attach [where pid = pid] obs_handle_attach [where pid = pid]
      split: if_splits option.splits request.splits)

lemma obs_on_payload: "on_session_payload k d l r = Some d' \<Longrightarrow> pid_taken k pid \<longrightarrow> obs pid d' = obs pid d"
  by (auto simp: on_session_payload_def Let_def split_def bind_eq_Some_conv obs_pool_alloc
        dest!: obs_dispatch [where pid = pid]
        split: op_local.splits sum.splits if_splits option.splits)

lemma obs_on_accept [simp]: "obs pid (on_accept k d l r) = obs pid d"
  by (auto simp: on_accept_def arm_accept_def Let_def split: op_local.splits sum.splits)

lemma obs_on_sigchld: "on_sigchld k d l r = Some d' \<Longrightarrow> obs pid d' = obs pid d"
  by (auto simp: on_sigchld_def arm_sigchld_def bind_eq_Some_conv dest!: obs_reap_children [where pid = pid]
      split: op_local.splits sum.splits if_splits option.splits prod.splits)

section \<open>Output goes to the log\<close>

text \<open>Pushing lines to a log, if there is one.\<close>

definition advance :: "log_cache option \<Rightarrow> bytes list \<Rightarrow> log_cache option option" where
  "advance log lines = (case log of None \<Rightarrow> Some None | Some c \<Rightarrow> map_option Some (push_all log_cache_push c lines))"

lemma advance_Nil [simp]: "advance log [] = Some log"
  by (simp add: advance_def split: option.splits)

lemma push_all_append: "push_all push c (xs @ ys) = push_all push c xs \<bind> (\<lambda>c. push_all push c ys)"
  by (induction xs arbitrary: c) (auto split: Option.bind_splits)

lemma advance_append: "advance log (xs @ ys) = advance log xs \<bind> (\<lambda>log. advance log ys)"
  by (auto simp: advance_def push_all_append map_option_case split: option.splits Option.bind_splits)

lemma log_push_upd:
  assumes "get_container d q = Some info" "log_gateway_push (ci_gateway info) line = Some (g, ids)"
  shows "advance (log_of d pid) (if q = pid then [line] else []) =
      Some (log_of (upd_container d q (\<lambda>i. i\<lparr>ci_gateway := g\<rparr>)) pid)"
    "drains (upd_container d q (\<lambda>i. i\<lparr>ci_gateway := g\<rparr>)) pid = drains d pid"
proof -
  obtain c where "log_cache_push (lg_cache (ci_gateway info)) line = Some c" "lg_cache g = c"
    using assms(2) by (auto simp: log_gateway_push_Some)
  then show "advance (log_of d pid) (if q = pid then [line] else []) =
      Some (log_of (upd_container d q (\<lambda>i. i\<lparr>ci_gateway := g\<rparr>)) pid)"
    using assms(1) by (auto simp: advance_def log_of_def get_container_def upd_container_def map_of_map_entry split: option.splits)
qed (simp add: drains_def upd_container_def)

lemma log_push_grave:
  assumes "get_container d q = None" "map_of (d_log_graveyard d) q = Some c" "log_cache_push c line = Some c'"
  shows "advance (log_of d pid) (if q = pid then [line] else []) =
      Some (log_of (d\<lparr>d_log_graveyard := AList.map_entry q (\<lambda>_. c') (d_log_graveyard d)\<rparr>) pid)"
    "drains (d\<lparr>d_log_graveyard := AList.map_entry q (\<lambda>_. c') (d_log_graveyard d)\<rparr>) pid = drains d pid"
  using assms by (auto simp: advance_def log_of_def drains_def get_container_def map_of_map_entry split: option.splits)

lemma log_write_line:
  assumes "write_line k d q line = Some d'"
  shows "advance (log_of d pid) (if q = pid then [line] else []) = Some (log_of d' pid) \<and> drains d' pid = drains d pid"
proof (cases "get_container d q")
  case None
  show ?thesis
  proof (cases "map_of (d_log_graveyard d) q")
    case grave: None
    then have "d' = d" using assms None by (simp add: write_line_def)
    then show ?thesis using None grave by (cases "q = pid") (simp add: advance_def log_of_def, simp)
  next
    case (Some c)
    then obtain c' where c: "log_cache_push c line = Some c'"
      "d' = d\<lparr>d_log_graveyard := AList.map_entry q (\<lambda>_. c') (d_log_graveyard d)\<rparr>"
      using assms None by (auto simp: write_line_def bind_eq_Some_conv)
    show ?thesis using log_push_grave [OF None Some c(1), of pid] c(2) by simp
  qed
next
  case (Some info)
  then obtain g ids where g: "log_gateway_push (ci_gateway info) line = Some (g, ids)"
    "arm_follow_writes k (upd_container d q (\<lambda>i. i\<lparr>ci_gateway := g\<rparr>)) q line (pipes_of g ids) = Some d'"
    using assms by (auto simp: write_line_def bind_eq_Some_conv Let_def)
  from obs_arm_follow_writes [OF g(2), of pid] log_push_upd [OF Some g(1)] show ?thesis
    by (simp add: obs_def)
qed

lemma log_write_lines:
  "write_lines k d q lines = Some d' \<Longrightarrow>
   advance (log_of d pid) (if q = pid then lines else []) = Some (log_of d' pid) \<and> drains d' pid = drains d pid"
proof (induction k d q lines rule: write_lines.induct)
  case (2 k d q line lines)
  then obtain e where e: "write_line k d q line = Some e" "write_lines k e q lines = Some d'"
    by (auto simp: bind_eq_Some_conv)
  from 2(1) [OF e(1) e(2)] log_write_line [OF e(1), of pid]
  show ?case using advance_append [of "log_of d pid" "[line]" lines] by auto
qed simp

text \<open>What a completed read of output does: the lines it completes go to the log, the rest is carried on.\<close>

definition new_lines :: "bytes \<Rightarrow> bytes \<Rightarrow> bytes list" where
  "new_lines buf bs = fst (lines_of (buf @ bs))"

lemma log_after_read:
  assumes "(if lines \<noteq> [] then write_lines k d q lines else Some d) = Some e"
    and "submit k e req local cb = (d', r)" "drain_local pid local = (if q = pid then [x] else [])"
  shows "advance (log_of d pid) (if q = pid then lines else []) = Some (log_of d' pid) \<and>
    (drains d' pid = drains d pid \<or> (q = pid \<and> drains d' pid = drains d pid @ [x]))"
proof -
  have "advance (log_of d pid) (if q = pid then lines else []) = Some (log_of e pid) \<and> drains e pid = drains d pid"
    using assms(1) log_write_lines [of k d q lines e pid] by (cases "lines = []") auto
  then show ?thesis using submit_obs [OF assms(2), of pid] assms(3) by (auto simp: obs_def)
qed

lemma log_on_output:
  assumes "on_container_output k d (LContainerOutput q buf) (Inr bs) = Some d'"
  shows "advance (log_of d pid) (if q = pid \<and> bs \<noteq> [] then new_lines buf bs else []) = Some (log_of d' pid) \<and>
    (drains d' pid = drains d pid \<or> (q = pid \<and> bs \<noteq> [] \<and>
       drains d' pid = drains d pid @ [(On_container_output, snd (lines_of (buf @ bs)))]))"
proof (cases "bs = []")
  case True
  then have "d' = finish_container_output k d q" using assms by (simp add: on_container_output_def)
  then have "obs pid d' = obs pid d" by simp
  then show ?thesis using True by (simp add: obs_def)
next
  case False
  let ?fd = "\<lambda>e. case map_of (d_outputs e) q of Some fd \<Rightarrow> fd | None \<Rightarrow> -1"
  let ?l = "LContainerOutput q (snd (lines_of (buf @ bs)))"
  obtain e where e: "(if new_lines buf bs \<noteq> [] then write_lines k d q (new_lines buf bs) else Some d) = Some e"
    "d' = fst (submit k e (ReadProvided (?fd e) 4096) ?l On_container_output)"
    using assms False by (auto simp: on_container_output_def drain_lines_spec new_lines_def bind_eq_Some_conv Let_def split: if_splits)
  then obtain r where "submit k e (ReadProvided (?fd e) 4096) ?l On_container_output = (d', r)"
    by (metis prod.collapse)
  from log_after_read [OF e(1) this] show ?thesis using False by auto
qed

lemma log_on_pty_output:
  assumes "on_container_pty_output k d (LContainerPtyOutput q buf) (Inr bs) = Some d'"
  shows "advance (log_of d pid) (if q = pid \<and> bs \<noteq> [] then new_lines buf bs else []) = Some (log_of d' pid) \<and>
    (drains d' pid = drains d pid \<or> (q = pid \<and> bs \<noteq> [] \<and>
       drains d' pid = drains d pid @ [(On_container_pty_output, snd (lines_of (buf @ bs)))]))"
proof (cases "bs = []")
  case True
  then have "d' = finish_container_pty_output k d q" using assms by (simp add: on_container_pty_output_def)
  then have "obs pid d' = obs pid d" by simp
  then show ?thesis using True by (simp add: obs_def)
next
  case False
  let ?fd = "\<lambda>e. case get_container e q of Some info \<Rightarrow> ci_ptm_fd info | None \<Rightarrow> -1"
  let ?l = "LContainerPtyOutput q (snd (lines_of (buf @ bs)))"
  obtain e where e: "(if new_lines buf bs \<noteq> [] then write_lines k d q (new_lines buf bs) else Some d) = Some e"
    "d' = fst (submit k e (ReadProvided (?fd e) 4096) ?l On_container_pty_output)"
    using assms False by (auto simp: on_container_pty_output_def drain_lines_spec new_lines_def bind_eq_Some_conv Let_def split: if_splits)
  then obtain r where "submit k e (ReadProvided (?fd e) 4096) ?l On_container_pty_output = (d', r)"
    by (metis prod.collapse)
  from log_after_read [OF e(1) this] show ?thesis using False by auto
qed

section \<open>Deliveries\<close>

lemma obs_run_callback:
  assumes "run_callback k d cb l r = Some d'" "pid_taken k pid" "op_typed cb l" "drain_local pid l = []"
  shows "obs pid d' = obs pid d"
proof (cases "cb = On_container_output \<or> cb = On_container_pty_output")
  case True
  then obtain q buf where l: "l = LContainerOutput q buf \<or> l = LContainerPtyOutput q buf" "q \<noteq> pid"
    using assms(3,4) by (cases l) (auto split: if_splits)
  obtain res where r: "r = BytesResult res"
    using assms(1) True by (cases r) (auto simp: run_callback_def)
  have fin: "obs pid d' = obs pid d" if "d' = finish_container_output k d q \<or> d' = finish_container_pty_output k d q"
    using that by auto
  show ?thesis
  proof (cases res)
    case (Inl e)
    then have "d' = finish_container_output k d q \<or> d' = finish_container_pty_output k d q"
      using assms(1,3) True l(1) r by (auto simp: run_callback_def on_container_output_def on_container_pty_output_def)
    then show ?thesis by (rule fin)
  next
    case (Inr bs)
    from assms(1,3) True l(1) r Inr consider
      "on_container_output k d (LContainerOutput q buf) (Inr bs) = Some d'"
      | "on_container_pty_output k d (LContainerPtyOutput q buf) (Inr bs) = Some d'"
      by (auto simp: run_callback_def)
    then show ?thesis
      using log_on_output [of k d q buf bs d' pid] log_on_pty_output [of k d q buf bs d' pid] l(2)
      by cases (simp_all add: obs_def)
  qed
next
  case False
  then show ?thesis
    using assms(1,2)
    by (cases cb; cases r)
      (simp_all add: run_callback_def obs_on_follow_write obs_on_payload [THEN mp] obs_on_session_frame obs_on_data_header
        obs_on_data_payload obs_on_session_output obs_on_sigchld obs_on_peek obs_on_datagram [THEN mp], auto)
qed

lemma delete_split:
  assumes "keyed ops" "map_of ops i = Some p"
  shows "\<exists>as bs. ops = as @ (i, p) # bs \<and> AList.delete i ops = as @ bs"
  using assms
proof (induction ops)
  case (Cons x ops)
  obtain j q where x: "x = (j, q)" by fastforce
  show ?case
  proof (cases "j = i")
    case True
    then have "AList.delete i ops = ops"
      using Cons.prems(1) by (simp add: x keyed_def delete_id)
    then show ?thesis using True Cons.prems(2) by (intro exI [of _ "[]"] exI [of _ ops]) (simp add: x)
  next
    case False
    then obtain as bs where "ops = as @ (i, p) # bs" "AList.delete i ops = as @ bs"
      using Cons by (auto simp: x keyed_def)
    then show ?thesis using False by (intro exI [of _ "x # as"] exI [of _ bs]) (simp add: x)
  qed
qed simp

lemma drains_delete:
  assumes "keyed (d_ops d)" "map_of (d_ops d) i = Some p"
  shows "\<exists>xs ys. drains d pid = xs @ drain_local pid (po_local p) @ ys \<and>
    drains (d\<lparr>d_ops := AList.delete i (d_ops d)\<rparr>) pid = xs @ ys"
proof -
  obtain as bs where "d_ops d = as @ (i, p) # bs" "AList.delete i (d_ops d) = as @ bs"
    using delete_split [OF assms] by blast
  then show ?thesis
    by (intro exI [of _ "concat (map (\<lambda>(i, p). drain_local pid (po_local p)) as)"]
        exI [of _ "concat (map (\<lambda>(i, p). drain_local pid (po_local p)) bs)"]) (simp add: drains_def)
qed

text \<open>The bytes of its output that a delivery brings for a container.\<close>

definition output_piece :: "'w daemon \<Rightarrow> pid \<Rightarrow> nat \<Rightarrow> op_result \<Rightarrow> bytes" where
  "output_piece d pid i r =
     (case map_of (d_ops d) i of
        None \<Rightarrow> []
      | Some p \<Rightarrow>
          (case (po_local p, r) of
             (LContainerOutput q buf, BytesResult (Inr bs)) \<Rightarrow> if q = pid then bs else []
           | _ \<Rightarrow> []))"

fun output_read :: "'w kernel \<Rightarrow> 'w daemon \<Rightarrow> pid \<Rightarrow> (nat \<times> op_result) list \<Rightarrow> bytes" where
  "output_read k d pid [] = []"
| "output_read k d pid ((i, r) # rs) =
     output_piece d pid i r @ (case deliver k d i r of None \<Rightarrow> [] | Some d' \<Rightarrow> output_read k d' pid rs)"

text \<open>The log of \<open>pid\<close> after it has printed \<open>out\<close>, starting from the cache \<open>c\<close>.\<close>

definition log_after :: "log_cache \<Rightarrow> bytes \<Rightarrow> pid \<Rightarrow> 'w daemon \<Rightarrow> bool" where
  "log_after c out pid d \<longleftrightarrow> advance (Some c) (fst (lines_of out)) = Some (log_of d pid) \<and>
     (drains d pid = [(On_container_output, snd (lines_of out))] \<or> drains d pid = [])"

lemma log_after_deliver:
  assumes "deliver k d i r = Some d'" "dwf d" "pid_taken k pid" "log_after c out pid d"
  shows "log_after c (out @ output_piece d pid i r) pid d'"
proof -
  let ?d = "d\<lparr>d_ops := AList.delete i (d_ops d)\<rparr>"
  obtain p where p: "map_of (d_ops d) i = Some p" and run: "run_callback k ?d (po_cb p) (po_local p) r = Some d'"
    using assms(1) by (auto simp: deliver_def split: option.splits)
  have typed: "op_typed (po_cb p) (po_local p)" and keyed: "keyed (d_ops d)"
    using assms(2) map_of_SomeD [OF p] by (auto simp: dwf_def ops_ok_def)
  obtain xs ys where xy: "drains d pid = xs @ drain_local pid (po_local p) @ ys" "drains ?d pid = xs @ ys"
    using drains_delete [OF keyed p] by blast
  have same: "log_of ?d pid = log_of d pid" by (simp add: log_of_def get_container_def cong: option.case_cong)
  show ?thesis
  proof (cases "drain_local pid (po_local p) = []")
    case True
    then have "output_piece d pid i r = []"
      using p by (auto simp: output_piece_def split: op_local.splits op_result.splits sum.splits)
    moreover have "obs pid d' = obs pid d"
      using obs_run_callback [OF run assms(3) typed True] xy True same by (simp add: obs_def)
    ultimately show ?thesis using assms(4) by (simp add: log_after_def obs_def)
  next
    case False
    then have "drain_local pid (po_local p) = [(On_container_output, snd (lines_of out))]" "xs = []" "ys = []"
      using xy(1) assms(4) by (auto simp: log_after_def append_eq_Cons_conv)
    then have l: "po_local p = LContainerOutput pid (snd (lines_of out))" and none: "drains ?d pid = []"
      using xy(2) by (cases "po_local p"; simp split: if_splits)+
    then obtain res where r: "r = BytesResult res" "on_container_output k ?d (po_local p) res = Some d'"
      using run typed by (cases r) (auto simp: run_callback_def)
    show ?thesis
    proof (cases res)
      case (Inl e)
      then have "obs pid d' = obs pid ?d" using r l by (auto simp: on_container_output_def)
      then show ?thesis using assms(4) same none p r(1) Inl l by (simp add: log_after_def obs_def output_piece_def)
    next
      case (Inr bs)
      have piece: "output_piece d pid i r = bs" using p r(1) Inr l by (simp add: output_piece_def)
      have "advance (log_of d pid) (new_lines (snd (lines_of out)) bs) = Some (log_of d' pid)"
        "drains d' pid = [(On_container_output, snd (lines_of (snd (lines_of out) @ bs)))] \<or> drains d' pid = []"
        using log_on_output [of k ?d pid "snd (lines_of out)" bs d' pid] r(2) l Inr same none
        by (auto simp: new_lines_def lines_of_append_nonl lines_of_no_nl split: if_splits)
      then show ?thesis
        using assms(4) advance_append [of "Some c" "fst (lines_of out)"] lines_of_append [of out bs] piece
        by (auto simp: log_after_def new_lines_def)
    qed
  qed
qed

lemma log_after_run:
  "deliver_all k d rs = Some d' \<Longrightarrow> dwf d \<Longrightarrow> pid_taken k pid \<Longrightarrow> log_after c out pid d \<Longrightarrow>
   log_after c (out @ output_read k d pid rs) pid d'"
proof (induction k d rs arbitrary: out rule: deliver_all.induct)
  case (2 k d i r rs)
  then obtain e where e: "deliver k d i r = Some e" "deliver_all k e rs = Some d'"
    by (auto simp: bind_eq_Some_conv)
  have "dwf e" using deliver_loops [OF e(1) 2(3)] by blast
  from 2(1) [OF e(1,2) this 2(4) log_after_deliver [OF e(1) 2(3-5)]] show ?case using e(1) by simp
qed simp

section \<open>The lines a log keeps\<close>

lemma push_all_fit:
  "push_all log_cache_push c ls = Some c' \<Longrightarrow> cache_inv c (fit (log_cache_room c) old) \<Longrightarrow> \<forall>l \<in> set ls. NL \<notin> set l \<Longrightarrow>
   cache_inv c' (fit (log_cache_room c) (old @ ls))"
proof -
  assume p: "push_all log_cache_push c ls = Some c'" and inv: "cache_inv c (fit (log_cache_room c) old)"
    and clean: "\<forall>l \<in> set ls. NL \<notin> set l"
  have "\<forall>l \<in> set ls. length l + 1 \<le> log_cache_room c" using p inv clean
  proof (induction ls arbitrary: c old)
    case (Cons l ls)
    then obtain e where e: "log_cache_push c l = Some e" "push_all log_cache_push e ls = Some c'"
      by (auto simp: bind_eq_Some_conv)
    have short: "length l + 1 \<le> log_cache_room c"
      using push_too_long [of c l] e(1) by fastforce
    obtain e' where "log_cache_push c l = Some e'" "cache_inv e' (fit (log_cache_room c) (old @ [l]))"
      "log_cache_room e' = log_cache_room c"
      using lc.push_ok [OF Cons.prems(2) _ short] Cons.prems(3) push_lines_fit [OF short, of old] by auto
    then have "cache_inv e (fit (log_cache_room e) (old @ [l]))" "log_cache_room e = log_cache_room c"
      using e(1) by auto
    with Cons.IH [OF e(2) this(1)] Cons.prems(3) short show ?case by simp
  qed simp
  then show ?thesis using lc.push_all_ok [OF inv, of ls] clean p by auto
qed

text \<open>A container that has just been started without a terminal: an empty log, and one read that carries nothing.\<close>

lemma run_started_log:
  assumes "obliging k" "drains d pid = []" "ptm_fd < 0"
    and d'_def: "d' = run_started k d sender save prep pid log_read stdin_write ptm_fd death_write"
  shows "log_of d' pid = Some (log_cache_new LOG_CAPACITY) \<and> drains d' pid = [(On_container_output, [])]"
proof -
  obtain w now where n: "k_now k (d_world d) = (w, now)" by fastforce
  let ?d = "d\<lparr>d_world := w, d_outputs := AList.update pid log_read (d_outputs d),
     d_containers := AList.update pid (container_new pid prep save now stdin_write ptm_fd death_write) (d_containers d)\<rparr>"
  let ?l = "LContainerOutput pid []"
  obtain e i where e: "submit k (add_drain ?d pid) (ReadProvided log_read 4096) ?l On_container_output = (e, Some i)"
    using obliging_submit [OF assms(1), of "add_drain ?d pid" "ReadProvided log_read 4096" ?l On_container_output]
    by (metis option.exhaust prod.collapse)
  have d': "d' = reply_datagram k e sender (RunResponse True (Some pid) None)"
    using e assms(3) n by (simp add: d'_def run_started_def arm_container_output_def add_drain_def upd_container_def update_conv' Let_def)
  have "obs pid ?d = (Some (log_cache_new LOG_CAPACITY), [])"
    using assms(2) by (simp add: obs_def log_of_def drains_def get_container_def update_conv' container_new_def log_gateway_new_def)
  then have "obs pid (add_drain ?d pid) = (Some (log_cache_new LOG_CAPACITY), [])"
    by (simp only: obs_add_drain)
  then have "obs pid e = (Some (log_cache_new LOG_CAPACITY), [(On_container_output, [])])"
    using submit_obs [OF e, of pid] by (simp add: obs_def)
  then have "obs pid d' = (Some (log_cache_new LOG_CAPACITY), [(On_container_output, [])])"
    by (simp add: d')
  then show ?thesis by (simp add: obs_def)
qed

lemma handle_logs_log_of:
  "handle_logs k d sender pid = (case log_of d pid of
     None \<Rightarrow> Some (reply_datagram k d sender (ErrorResponse False (not_found pid)))
   | Some c \<Rightarrow> log_cache_collect_lines (k_lossy k) c \<bind> (\<lambda>lines. Some (reply_datagram k d sender (LogsResponse lines))))"
  by (auto simp: handle_logs_def log_of_def log_gateway_collect_lines_def split: option.splits)

section \<open>Properties\<close>

text \<open>
  C5. The log of a container is its output. Start from a container without a terminal whose log is empty
  (as \<^verbatim>\<open>handle_run\<close> leaves it, lemma \<open>run_started_log\<close>), and deliver any completions in any order:
  reads of the output in pieces of any size, writes to followers, sessions, requests, the exit of the
  container before or after the end of its output. A request for the logs is then answered with the
  lines of the bytes read so far, the longest suffix that fits the cache; the read in flight carries the
  unfinished line. When the output has ended the read is gone, and with it an unfinished last
  line: it is in no log. (The kernel \<open>k\<close> does not give the process id to another container in the run.)
\<close>

theorem container_log_is_its_output:
  assumes "dwf d" "pid_taken k pid" "log_of d pid = Some (log_cache_new cap)" "0 < cap"
    and "drains d pid = [(On_container_output, [])]" "deliver_all k d rs = Some d'"
  defines "out \<equiv> output_read k d pid rs"
  shows "handle_logs k d' sender pid =
      Some (reply_datagram k d' sender (LogsResponse (map (k_lossy k) (fit cap (fst (lines_of out)))))) \<and>
    (drains d' pid = [(On_container_output, snd (lines_of out))] \<or> drains d' pid = [])"
proof -
  have "log_after (log_cache_new cap) [] pid d" using assms(3,5) by (simp add: log_after_def)
  from log_after_run [OF assms(6,1,2) this]
  have after: "log_after (log_cache_new cap) out pid d'" by (simp add: out_def)
  then obtain c where c: "push_all log_cache_push (log_cache_new cap) (fst (lines_of out)) = Some c" "log_of d' pid = Some c"
    unfolding log_after_def advance_def by (cases "push_all log_cache_push (log_cache_new cap) (fst (lines_of out))") auto
  have "cache_inv (log_cache_new cap) (fit (log_cache_room (log_cache_new cap)) [])"
    using cache_inv_new [OF assms(4)] by simp
  from push_all_fit [OF c(1) this] have "cache_inv c (fit cap (fst (lines_of out)))"
    using lines_of_no_nl [of out] by (simp add: log_cache_new_def)
  then show ?thesis
    using c(2) cache_inv_collect [of c _ "k_lossy k"] after by (simp add: handle_logs_log_of log_after_def)
qed

text \<open>A container that prints \<^verbatim>\<open>hi\<close>, a newline, and \<^verbatim>\<open>yo\<close>, in two pieces.\<close>

definition demo_log_kernel :: "demo_world kernel" where
  "demo_log_kernel = demo_kernel\<lparr>k_clone3 := (\<lambda>w flags. (w, Inl (Os 11)))\<rparr>"

definition demo_log_start :: "demo_world daemon" where
  "demo_log_start = demo_start\<lparr>
     d_containers := [(108, \<lparr>ci_pid = 108, ci_command = [], ci_overlay_dir = None, ci_save = False, ci_start_time = 0,
       ci_gateway = log_gateway_new 8, ci_stdin_fd = -1, ci_ptm_fd = -1, ci_death_pipe_write = -1, ci_drains_pending = 1\<rparr>)],
     d_outputs := [(108, 60)],
     d_ops := [(0, \<lparr>po_req = ReadProvided 60 4096, po_local = LContainerOutput 108 [], po_cb = On_container_output, po_cancel = False\<rparr>)],
     d_next_op := 1\<rparr>"

definition demo_log_script :: "(nat \<times> op_result) list" where
  "demo_log_script = [(0, BytesResult (Inr [104, 105, 10, 121])), (1, BytesResult (Inr [111])), (2, BytesResult (Inr []))]"

lemma demo_log_run:
  obtains d' where "deliver_all demo_log_kernel demo_log_start demo_log_script = Some d'" "drains d' 108 = []"
    "output_read demo_log_kernel demo_log_start 108 demo_log_script = [104, 105, 10, 121, 111]"
proof -
  obtain c where c: "log_cache_push (log_cache_new 8) [104, 105] = Some c"
    using cache_inv_push [OF cache_inv_new [of 8], of "[104, 105]"] by (auto simp: log_cache_new_def)
  then have g: "log_gateway_push \<lparr>lg_cache = log_cache_new 8, lg_pipes = []\<rparr> [104, 105] = Some (\<lparr>lg_cache = c, lg_pipes = []\<rparr>, [])"
    by (simp add: log_gateway_push_Some idle_ids_def)
  have "\<exists>d'. deliver_all demo_log_kernel demo_log_start demo_log_script = Some d' \<and> drains d' 108 = [] \<and>
      output_read demo_log_kernel demo_log_start 108 demo_log_script = [104, 105, 10, 121, 111]"
    by (simp add: demo_log_script_def demo_log_start_def demo_log_kernel_def demo_start_def daemon_state_new_def
        deliver_def run_callback_def on_container_output_def drain_lines_spec write_line_def get_container_def
        log_gateway_new_def g pipes_of_def upd_container_def submit_def emit_def output_piece_def finish_container_output_def
        finish_drain_def bury_def close_if_open_def close_fd_def close_fds_def log_gateway_close_all_pipes_def
        cleanup_unless_saved_def drains_def Let_def)
  then show ?thesis using that by blast
qed

lemma demo_log_facts:
  "dwf demo_log_start" "pid_taken demo_log_kernel 108" "log_of demo_log_start 108 = Some (log_cache_new 8)"
  "drains demo_log_start 108 = [(On_container_output, [])]"
  by (simp_all add: demo_log_start_def demo_log_kernel_def demo_start_def daemon_state_new_def dwf_def ops_ok_def sessions_ok_def
      containers_ok_def keyed_def pid_taken_def log_of_def get_container_def log_gateway_new_def drains_def)

theorem container_log_is_its_output_witness:
  "\<exists>d'. deliver_all demo_log_kernel demo_log_start demo_log_script = Some d' \<and>
     (\<forall>sender. handle_logs demo_log_kernel d' sender 108 =
       Some (reply_datagram demo_log_kernel d' sender (LogsResponse [[104, 105]]))) \<and> drains d' 108 = []"
proof -
  obtain d' where d': "deliver_all demo_log_kernel demo_log_start demo_log_script = Some d'" "drains d' 108 = []"
    "output_read demo_log_kernel demo_log_start 108 demo_log_script = [104, 105, 10, 121, 111]"
    by (rule demo_log_run)
  have "k_lossy demo_log_kernel = (\<lambda>bs. bs)" by (simp add: demo_log_kernel_def fun_eq_iff)
  then show ?thesis
    using container_log_is_its_output [OF demo_log_facts(1-3) _ demo_log_facts(4) d'(1)] d' by auto
qed

end
