(* ===== verification/Follower_Lines.thy ===== *)
theory Follower_Lines
  imports Container_Logs
begin

text \<open>
  What followers of a container get. A line is written to a follower only when the follower has no write
  in flight; the lines of one read are pushed one after the other without a completion in
  between, so all but the first reach no follower.
\<close>

section \<open>Busy followers\<close>

definition all_busy :: "'w daemon \<Rightarrow> pid \<Rightarrow> bool" where
  "all_busy d pid \<longleftrightarrow> (\<forall>info. get_container d pid = Some info \<longrightarrow> (\<forall>p \<in> set (lg_pipes (ci_gateway info)). pw_in_flight p))"

lemma all_busy_frame: "d_containers d' = d_containers d \<Longrightarrow> all_busy d' pid = all_busy d pid"
  by (simp add: all_busy_def get_container_def)

lemma split_loop_nonempty: "split_loop alloc w rest chunks = Some (w', cs) \<Longrightarrow> cs \<noteq> []"
proof (induction "length rest" arbitrary: w rest chunks rule: less_induct)
  case less
  let ?n = "min (length rest) WRITE_CHUNK_PAYLOAD"
  obtain w1 st where step: "if ?n = length rest then w' = w1 \<and> cs = chunks @ [(rest @ drop ?n (take (Suc ?n) st))[?n := NL]]
      else split_loop alloc w1 (drop ?n rest) (chunks @ [take ?n rest @ drop ?n (take (Suc ?n) st)]) = Some (w', cs)"
    using split_loop_step [OF less(2) refl] by blast
  show ?case
  proof (cases "?n = length rest")
    case False
    then have "length (drop ?n rest) < length rest" by (auto simp: WRITE_CHUNK_PAYLOAD_def min_def split: if_splits)
    moreover have "split_loop alloc w1 (drop ?n rest) (chunks @ [take ?n rest @ drop ?n (take (Suc ?n) st)]) = Some (w', cs)"
      using step False by (simp only: if_False)
    ultimately show ?thesis by (rule less(1))
  qed (use step in auto)
qed

lemma arm_follow_writes_containers: "arm_follow_writes k d pid line ps = Some d' \<Longrightarrow> d_containers d' = d_containers d"
proof (induction k d pid line ps rule: arm_follow_writes.induct)
  case (2 k d pid line pipe_id fd pending)
  then obtain w chunks e where e: "split_line (k_alloc k) (d_world d) line = Some (w, chunks)"
    "arm_follow_write k (d\<lparr>d_world := w\<rparr>) pid pipe_id fd chunks = Some e" "arm_follow_writes k e pid line pending = Some d'"
    by (auto simp: bind_eq_Some_conv)
  have "chunks \<noteq> []" by (rule split_loop_nonempty [OF e(1) [unfolded split_line_def]])
  then have "d_containers e = d_containers d"
    using e(2) by (auto simp: arm_follow_write_def submit_def emit_def Let_def split: list.splits prod.splits sum.splits)
  then show ?case using 2(1) [OF e(1) refl e(2,3)] by simp
qed simp

lemma write_line_busy:
  assumes "write_line k d pid line = Some d'" shows "all_busy d' pid"
proof (cases "get_container d pid")
  case None
  then have "get_container d' pid = None"
    using assms by (auto simp: write_line_def bind_eq_Some_conv get_container_def split: option.splits)
  then show ?thesis by (simp add: all_busy_def)
next
  case (Some info)
  then obtain g ids where g: "log_gateway_push (ci_gateway info) line = Some (g, ids)"
    "arm_follow_writes k (upd_container d pid (\<lambda>i. i\<lparr>ci_gateway := g\<rparr>)) pid line (pipes_of g ids) = Some d'"
    using assms by (auto simp: write_line_def bind_eq_Some_conv Let_def)
  have "all_busy (upd_container d pid (\<lambda>i. i\<lparr>ci_gateway := g\<rparr>)) pid"
    using g(1) Some by (auto simp: all_busy_def get_container_def upd_container_def map_of_map_entry log_gateway_push_Some)
  then show ?thesis using all_busy_frame [OF arm_follow_writes_containers [OF g(2)]] by simp
qed

lemma write_line_silent:
  assumes "write_line k d pid line = Some d'" "all_busy d pid"
  shows "d_ops d' = d_ops d \<and> d_trace d' = d_trace d"
proof (cases "get_container d pid")
  case None
  then show ?thesis using assms(1) by (auto simp: write_line_def bind_eq_Some_conv split: option.splits)
next
  case (Some info)
  then have "filter (\<lambda>p. \<not> pw_in_flight p) (lg_pipes (ci_gateway info)) = []"
    using assms(2) by (auto simp: all_busy_def filter_empty_conv)
  then show ?thesis
    using assms(1) Some
    by (auto simp: write_line_def bind_eq_Some_conv Let_def log_gateway_push_Some idle_ids_def pipes_of_def upd_container_def)
qed

lemma write_lines_silent:
  "write_lines k d pid lines = Some d' \<Longrightarrow> all_busy d pid \<Longrightarrow> d_ops d' = d_ops d \<and> d_trace d' = d_trace d"
proof (induction k d pid lines rule: write_lines.induct)
  case (2 k d pid line lines)
  then obtain e where e: "write_line k d pid line = Some e" "write_lines k e pid lines = Some d'"
    by (auto simp: bind_eq_Some_conv)
  from 2(1) [OF e write_line_busy [OF e(1)]] write_line_silent [OF e(1) 2(3)] show ?case by simp
qed simp

section \<open>Properties\<close>

text \<open>
  C6. Of the lines a read of the output completes, the followers get at most the first: writing the lines does
  to the operations in flight and to the outside exactly what writing the first one does, whatever
  followers there are and however idle they were; the others go to the log only.
\<close>

theorem followers_get_first_line_only:
  assumes "write_lines k d pid (line # lines) = Some d'"
  shows "\<exists>d1. write_line k d pid line = Some d1 \<and> d_ops d' = d_ops d1 \<and> d_trace d' = d_trace d1 \<and>
    advance (log_of d1 pid) lines = Some (log_of d' pid)"
proof -
  obtain d1 where d1: "write_line k d pid line = Some d1" "write_lines k d1 pid lines = Some d'"
    using assms by (auto simp: bind_eq_Some_conv)
  then show ?thesis
    using write_lines_silent [OF d1(2) write_line_busy [OF d1(1)]] log_write_lines [OF d1(2), of pid] by auto
qed

definition demo_follow_start :: "demo_world daemon" where
  "demo_follow_start = demo_start\<lparr>
     d_containers := [(108, \<lparr>ci_pid = 108, ci_command = [], ci_overlay_dir = None, ci_save = False, ci_start_time = 0,
       ci_gateway = log_gateway_add_pipe (log_gateway_new 8) 1 70,
       ci_stdin_fd = -1, ci_ptm_fd = -1, ci_death_pipe_write = -1, ci_drains_pending = 1\<rparr>)]\<rparr>"

lemma demo_follow_run:
  obtains d1 d' where "write_line demo_kernel demo_follow_start 108 [97] = Some d1" "d_trace d1 = [Armed 1 (WriteFixed 70 [97, 10])]"
    "write_lines demo_kernel demo_follow_start 108 [[97], [98]] = Some d'"
proof -
  obtain c where c: "log_cache_push (log_cache_new 8) [97] = Some c" "cache_inv c [[97]]" "length (lc_buf c) = 8"
    using cache_inv_push [OF cache_inv_new [of 8], of "[97]"] by (auto simp: log_cache_new_def push_lines_def)
  obtain c' where c': "log_cache_push c [98] = Some c'"
    using cache_inv_push [OF c(2), of "[98]"] c(3) by auto
  have split: "split_line (k_alloc demo_kernel) w [97] = Some (w, [[97, 10]])" for w
    unfolding split_line_def by (subst split_loop.simps) (simp add: WRITE_CHUNK_PAYLOAD_def Let_def)
  have "\<exists>d1. write_line demo_kernel demo_follow_start 108 [97] = Some d1 \<and> d_trace d1 = [Armed 1 (WriteFixed 70 [97, 10])] \<and>
      (\<exists>d'. write_line demo_kernel d1 108 [98] = Some d')"
    by (simp add: demo_follow_start_def write_line_def get_container_def log_gateway_push_def log_gateway_add_pipe_def
        pipe_writer_new_def log_gateway_new_def c(1) c' idle_ids_def pipes_of_def log_gateway_pipe_fd_def upd_container_def
        split arm_follow_write_def submit_def emit_def demo_start_def daemon_state_new_def Let_def)
  then show ?thesis using that by auto
qed

theorem followers_get_first_line_only_witness:
  "\<exists>d'. write_lines demo_kernel demo_follow_start 108 [[97], [98]] = Some d' \<and> d_trace d' = [Armed 1 (WriteFixed 70 [97, 10])]"
proof -
  obtain d1 d' where d: "write_line demo_kernel demo_follow_start 108 [97] = Some d1" "d_trace d1 = [Armed 1 (WriteFixed 70 [97, 10])]"
    "write_lines demo_kernel demo_follow_start 108 [[97], [98]] = Some d'"
    by (rule demo_follow_run)
  from followers_get_first_line_only [OF d(3)] d(1,2) show ?thesis using d(3) by auto
qed

end
