(* ===== verification/Shared_Descriptor.thy ===== *)
theory Shared_Descriptor
  imports Session_Protocol
begin

text \<open>
  A descriptor with two owners. \<^verbatim>\<open>handle_attach\<close> copies the input descriptor of a running container
  into the session; the end-of-input frame of the client closes it through the session, and the
  container, which still holds it, closes it again when it is removed.
\<close>

definition closes :: "fd \<Rightarrow> event list \<Rightarrow> nat" where
  "closes f tr = length (filter (\<lambda>e. e = Closed f) tr)"

lemma closes_simps [simp]:
  "closes f [] = 0"
  "closes f (xs @ ys) = closes f xs + closes f ys"
  "closes f (e # xs) = (if e = Closed f then 1 else 0) + closes f xs"
  by (simp_all add: closes_def)

section \<open>What the steps keep\<close>

text \<open>The input descriptors of a session and of a container, with the drains the container still has.\<close>

definition session_input :: "'w daemon \<Rightarrow> nat \<Rightarrow> (fd \<times> fd) option" where
  "session_input d sid = map_option (\<lambda>s. (as_ptm_fd s, as_input_fd s)) (get_session d sid)"

definition container_input :: "'w daemon \<Rightarrow> pid \<Rightarrow> (fd \<times> fd \<times> nat) option" where
  "container_input d pid = map_option (\<lambda>i. (ci_ptm_fd i, ci_stdin_fd i, ci_drains_pending i)) (get_container d pid)"

definition keeps_input :: "'w daemon \<Rightarrow> 'w daemon \<Rightarrow> bool" where
  "keeps_input d d' \<longleftrightarrow> session_input d' = session_input d \<and> container_input d' = container_input d"

lemma keeps_input_refl [simp]: "keeps_input d d"
  by (simp add: keeps_input_def)

lemma keeps_input_trans: "keeps_input d e \<Longrightarrow> keeps_input e f \<Longrightarrow> keeps_input d f"
  by (simp add: keeps_input_def)

lemma keeps_input_frame:
  assumes "d_sessions d' = d_sessions d" "d_containers d' = d_containers d" shows "keeps_input d d'"
  using assms by (simp add: keeps_input_def session_input_def container_input_def get_session_def get_container_def fun_eq_iff)

lemma keeps_input_upd_session:
  assumes "\<And>s. as_ptm_fd (f s) = as_ptm_fd s \<and> as_input_fd (f s) = as_input_fd s"
  shows "keeps_input d (upd_session d sid f)"
  using assms
  by (auto simp: keeps_input_def session_input_def container_input_def get_session_def get_container_def upd_session_def
      fun_eq_iff map_of_map_entry option.map_comp comp_def split: option.splits)

lemma keeps_input_upd_container:
  assumes "\<And>i. ci_ptm_fd (f i) = ci_ptm_fd i \<and> ci_stdin_fd (f i) = ci_stdin_fd i \<and>
    ci_drains_pending (f i) = ci_drains_pending i"
  shows "keeps_input d (upd_container d pid f)"
  using assms
  by (auto simp: keeps_input_def session_input_def container_input_def get_session_def get_container_def upd_container_def
      fun_eq_iff map_of_map_entry option.map_comp comp_def split: option.splits)

lemma keeps_input_submit: "keeps_input d (fst (submit k d q l cb))"
  by (rule keeps_input_frame) (simp_all add: submit_def emit_def Let_def split: prod.splits sum.splits)

lemma keeps_input_submit_world: "keeps_input d (fst (submit k (d\<lparr>d_world := w\<rparr>) q l cb))"
  by (rule keeps_input_trans [OF keeps_input_frame keeps_input_submit]) simp_all

lemma keeps_input_session_frame: "arm_session_frame k d sid fd ty p = Some d' \<Longrightarrow> keeps_input d d'"
  by (auto simp: arm_session_frame_def pool_alloc_def Let_def split_def bind_eq_Some_conv keeps_input_submit_world)

lemma keeps_input_store: "keeps_input d (store_session_op d sid w op)"
  unfolding store_session_op_def by (rule keeps_input_upd_session) (simp split: session_op.split)

lemma keeps_input_finish: "finish_session_output k d sid = Some d' \<Longrightarrow> keeps_input d d'"
proof -
  assume fin: "finish_session_output k d sid = Some d'"
  let ?u = "upd_session d sid (\<lambda>s. s\<lparr>as_drain_done := True\<rparr>)"
  have u: "keeps_input d ?u"
    by (rule keeps_input_upd_session) simp
  have "keeps_input ?u (emit e (upd_session ?u sid (\<lambda>s. s\<lparr>as_exit_sent := True\<rparr>)))" for e
    by (rule keeps_input_trans [OF keeps_input_upd_session keeps_input_frame]) (simp_all add: emit_def)
  then show ?thesis
    using fin u by (auto simp: finish_session_output_def maybe_finish_session_def Let_def
        intro: keeps_input_trans [OF keeps_input_trans [OF u]] dest!: keeps_input_session_frame split: option.splits if_splits)
qed

lemma keeps_input_arm_output: "arm_session_output k d sid = Some d' \<Longrightarrow> keeps_input d d'"
proof -
  assume a: "arm_session_output k d sid = Some d'"
  have "keeps_input d e" if "submit k d q l cb = (e, r)" for q l cb e r
    using keeps_input_submit [of d k q l cb] that by simp
  then show ?thesis
    using a by (auto simp: arm_session_output_def Let_def dest: keeps_input_finish
        intro: keeps_input_trans [OF _ keeps_input_store] split: prod.splits option.splits if_splits)
qed

section \<open>Attaching\<close>

lemma attach_shares_input:
  assumes "handle_attach k d sid pid = Some (d1, True)" "get_container d pid = Some info" "get_session d sid = Some s"
  defines "f \<equiv> if 0 \<le> ci_ptm_fd info then ci_ptm_fd info else ci_stdin_fd info"
  shows "session_input d1 sid = Some (as_ptm_fd s, f) \<and> container_input d1 pid = Some (ci_ptm_fd info, ci_stdin_fd info, ci_drains_pending info)"
proof -
  obtain w rfd wfd where p: "k_pipe2 k (d_world d) = (w, Inr (rfd, wfd))"
    using assms(1,2) by (cases "k_pipe2 k (d_world d)") (auto simp: handle_attach_def Let_def split: sum.splits)
  let ?c = "upd_container (d\<lparr>d_world := w, d_next_pipe_id := d_next_pipe_id d + 1\<rparr>) pid
      (\<lambda>i. i\<lparr>ci_gateway := log_gateway_add_pipe (ci_gateway i) (d_next_pipe_id d) wfd\<rparr>)"
  let ?e = "upd_session ?c sid (\<lambda>s. s\<lparr>as_log_read_fd := rfd, as_input_fd := f, as_container_pid := pid\<rparr>)"
  have e: "session_input ?e sid = Some (as_ptm_fd s, f)" "container_input ?e pid = Some (ci_ptm_fd info, ci_stdin_fd info, ci_drains_pending info)"
    using assms(2,3)
    by (simp_all add: session_input_def container_input_def get_session_def get_container_def upd_session_def
        upd_container_def map_of_map_entry)
  obtain fd j d2 where "arm_session_frame k ?e sid fd 1 j = Some d2" "arm_session_output k d2 sid = Some d1"
    using assms(1,2) by (auto simp: handle_attach_def p Let_def f_def bind_eq_Some_conv split: option.splits)
  then have "keeps_input ?e d1"
    by (blast intro: keeps_input_trans keeps_input_session_frame keeps_input_arm_output)
  then show ?thesis using e by (simp add: keeps_input_def)
qed

section \<open>Closing twice\<close>

lemma closes_close [simp]:
  "closes f (d_trace (close_fd k d g)) = closes f (d_trace d) + (if g = f then 1 else 0)"
  "closes f (d_trace (close_if_open k d g)) = closes f (d_trace d) + (if g = f \<and> 0 \<le> g then 1 else 0)"
  by (simp_all add: close_if_open_def close_fd_def emit_def)

lemma closes_close_fds: "closes f (d_trace d) \<le> closes f (d_trace (close_fds k d gs))"
proof (induction gs arbitrary: d)
  case (Cons g gs)
  have "closes f (d_trace d) \<le> closes f (d_trace (close_fd k d g))" by simp
  then show ?case using Cons.IH [of "close_fd k d g"] by (simp add: close_fds_def)
qed (simp add: close_fds_def)

lemma closes_cleanup [simp]: "closes f (d_trace (cleanup_unless_saved k d info)) = closes f (d_trace d)"
  by (simp add: cleanup_unless_saved_def emit_def split: option.splits)

lemma finish_drain_closes:
  assumes "get_container d pid = Some info" "ci_drains_pending info \<le> 1" "f = ci_ptm_fd info \<or> f = ci_stdin_fd info" "0 \<le> f"
  shows "closes f (d_trace d) + 1 \<le> closes f (d_trace (finish_drain k d pid))"
proof -
  let ?d = "close_if_open k (close_if_open k (bury d pid info) (ci_ptm_fd info)) (ci_stdin_fd info)"
  have "closes f (d_trace d) + 1 \<le> closes f (d_trace ?d)"
    using assms(3,4) by (auto simp: bury_def)
  also have "\<dots> \<le> closes f (d_trace (close_fds k ?d (snd (log_gateway_close_all_pipes (ci_gateway info)))))"
    by (rule closes_close_fds)
  finally show ?thesis using assms(1,2) by (simp add: finish_drain_def)
qed

text \<open>
  C9. The end-of-input frame of a client that has attached to a running container closes the container's own
  input descriptor: the container keeps it, and closes it a second time when its last drain ends.
\<close>

theorem attached_eof_closes_twice:
  assumes "handle_attach k d sid pid = Some (d1, True)" "get_container d pid = Some info" "get_session d sid = Some s"
    and "as_ptm_fd s < 0" "ci_drains_pending info \<le> 1"
    and "f = (if 0 \<le> ci_ptm_fd info then ci_ptm_fd info else ci_stdin_fd info)" "0 \<le> f"
  shows "\<exists>d2. dispatch_frame k d1 sid 17 payload = Some (d2, True) \<and> closes f (d_trace d2) = closes f (d_trace d1) + 1 \<and>
    closes f (d_trace d1) + 2 \<le> closes f (d_trace (finish_drain k d2 pid))"
proof -
  have in1: "session_input d1 sid = Some (as_ptm_fd s, f)"
    "container_input d1 pid = Some (ci_ptm_fd info, ci_stdin_fd info, ci_drains_pending info)"
    using attach_shares_input [OF assms(1-3)] assms(6) by simp_all
  then obtain s1 where s1: "get_session d1 sid = Some s1" "as_ptm_fd s1 < 0" "as_input_fd s1 = f"
    using assms(4) by (auto simp: session_input_def)
  let ?e = "upd_session d1 sid (\<lambda>s. s\<lparr>as_input_fd := -1\<rparr>)"
  let ?d2 = "close_fd k ?e f"
  have d2: "dispatch_frame k d1 sid 17 payload = Some (?d2, True)"
    using s1 assms(7) by (simp add: dispatch_frame_def)
  have "container_input ?d2 pid = container_input d1 pid"
    by (simp add: container_input_def get_container_def close_fd_def emit_def upd_session_def)
  then obtain info2 where i2: "get_container ?d2 pid = Some info2" "ci_drains_pending info2 \<le> 1"
    "f = ci_ptm_fd info2 \<or> f = ci_stdin_fd info2"
    using in1(2) assms(5,6) by (auto simp: container_input_def split: if_splits)
  have "closes f (d_trace ?d2) = closes f (d_trace d1) + 1"
    by (simp add: upd_session_def)
  then show ?thesis
    using d2 finish_drain_closes [OF i2 assms(7), of k] by (intro exI [of _ ?d2]) simp
qed

section \<open>A run in which it happens\<close>

text \<open>A client connects; an interactive container is run detached by a datagram.\<close>

definition detached_script :: "(nat \<times> op_result) list" where
  "detached_script = [(2, FdResult (Inr 50)), (1, CountResult (Inr 1)), (6, MsgResult (Inr ([7], [])))]"

lemma detached_script_run:
  obtains d info s where "demo_script detached_script = Some d" "get_container d 108 = Some info" "ci_ptm_fd info = -1"
    "ci_stdin_fd info = 105" "ci_drains_pending info = 1" "get_session d 0 = Some s" "as_stream_fd s = 50" "as_ptm_fd s = -1"
proof -
  have "case demo_script detached_script of None \<Rightarrow> False
      | Some d \<Rightarrow> (case get_container d 108 of None \<Rightarrow> False
            | Some i \<Rightarrow> ci_ptm_fd i = -1 \<and> ci_stdin_fd i = 105 \<and> ci_drains_pending i = 1) \<and>
          (case get_session d 0 of None \<Rightarrow> False | Some s \<Rightarrow> as_stream_fd s = 50 \<and> as_ptm_fd s = -1)"
    by (simp add: demo_run_defs detached_script_def on_datagram_peek_def on_datagram_def handle_datagram_def
        handle_run_def run_clone_def run_parent_def run_started_def add_drain_def upd_container_def
        arm_container_output_def reply_datagram_def Let_def)
  then show ?thesis using that by (auto split: option.splits)
qed

theorem attached_eof_closes_twice_witness:
  "\<exists>d d1 d2. demo_script detached_script = Some d \<and> handle_attach demo_kernel d 0 108 = Some (d1, True) \<and>
     dispatch_frame demo_kernel d1 0 17 [] = Some (d2, True) \<and>
     closes 105 (d_trace d1) + 2 \<le> closes 105 (d_trace (finish_drain demo_kernel d2 108))"
proof -
  obtain d info s where d: "demo_script detached_script = Some d" "get_container d 108 = Some info" "ci_ptm_fd info = -1"
    "ci_stdin_fd info = 105" "ci_drains_pending info = 1" "get_session d 0 = Some s" "as_stream_fd s = 50" "as_ptm_fd s = -1"
    by (rule detached_script_run)
  obtain d1 where d1: "handle_attach demo_kernel d 0 108 = Some (d1, True)"
    using d by (simp add: handle_attach_def demo_pair_def session_stream_fd_def get_session_def get_container_def upd_session_def
        upd_container_def map_of_map_entry arm_session_frame_def pool_alloc_def arm_session_output_def submit_def emit_def
        Let_def split_def)
  obtain d2 where "dispatch_frame demo_kernel d1 0 17 [] = Some (d2, True)"
    "closes 105 (d_trace d1) + 2 \<le> closes 105 (d_trace (finish_drain demo_kernel d2 108))"
    using attached_eof_closes_twice [OF d1 d(2,6), of 105 "[]"] d by auto
  then show ?thesis using d(1) d1 by blast
qed

end
