(* ===== verification/Descriptor_Leaks.thy ===== *)
theory Descriptor_Leaks
  imports Shared_Descriptor
begin

text \<open>
  Descriptors nobody closes. The daemon holds the write end of a container's death pipe, whose closing
  tells the container that the daemon is gone; only \<^verbatim>\<open>reap_children\<close> closes it, and only for a
  container without output drains. \<^verbatim>\<open>close_session\<close> closes the client's stream and forgets the
  descriptor the session's output was read from.
\<close>

lemma closes_close_fds_other: "f \<notin> set gs \<Longrightarrow> closes f (d_trace (close_fds k d gs)) = closes f (d_trace d)"
proof (induction gs arbitrary: d)
  case (Cons g gs)
  then show ?case using Cons.IH [of "close_fd k d g"] by (simp add: close_fds_def)
qed (simp add: close_fds_def)

lemma containers_close [simp]:
  "get_container (close_fd k d f) pid = get_container d pid"
  "get_container (close_if_open k d f) pid = get_container d pid"
  by (simp_all add: close_if_open_def close_fd_def emit_def get_container_def)

lemma containers_close_fds [simp]: "get_container (close_fds k d fs) pid = get_container d pid"
proof (induction fs arbitrary: d)
  case (Cons f fs)
  then show ?case using Cons.IH [of "close_fd k d f"] by (simp add: close_fds_def)
qed (simp add: close_fds_def)

lemma containers_cleanup [simp]: "get_container (cleanup_unless_saved k d info) pid = get_container d pid"
  by (simp add: cleanup_unless_saved_def emit_def get_container_def split: option.splits)

lemma bury_gone [simp]: "get_container (bury d pid info) pid = None" "closes f (d_trace (bury d pid info)) = closes f (d_trace d)"
  by (simp_all add: bury_def get_container_def delete_conv')

lemma reap_one_gone:
  assumes "get_container d pid = None"
  shows "get_container (fst (reap_one k d pid status)) pid = None \<and>
    d_trace (fst (reap_one k d pid status)) = d_trace d"
  using assms by (auto simp: reap_one_def reap_container_def upd_session_def get_container_def Let_def split: option.splits)

lemma reap_one_draining:
  assumes "get_container d pid = Some info" "0 < ci_drains_pending info"
  shows "get_container (fst (reap_one k d pid status)) pid = Some info \<and>
    d_trace (fst (reap_one k d pid status)) = d_trace d"
  using assms by (auto simp: reap_one_def reap_container_def upd_session_def get_container_def Let_def split: option.splits)

text \<open>The descriptors of a container that its last drain closes.\<close>

definition drain_closes :: "container_info \<Rightarrow> fd set" where
  "drain_closes info = {ci_ptm_fd info, ci_stdin_fd info} \<union> set (snd (log_gateway_close_all_pipes (ci_gateway info)))"

lemma finish_drain_leaks:
  assumes "get_container d pid = Some info" "ci_drains_pending info = 1" "f \<notin> drain_closes info"
  shows "get_container (finish_drain k d pid) pid = None \<and>
    closes f (d_trace (finish_drain k d pid)) = closes f (d_trace d)"
  using assms by (simp add: finish_drain_def drain_closes_def closes_close_fds_other)

section \<open>Properties\<close>

text \<open>
  C13. The death pipe of a container with an output drain, as every detached container has, is never
  closed: whether its last drain ends after the container is reaped or before, the container leaves
  the table, which was the only place that held the descriptor, and nothing has closed it.
\<close>

theorem detached_death_pipe_leaks:
  assumes "get_container d pid = Some info" "ci_drains_pending info = 1"
    and "f = ci_death_pipe_write info" "f \<notin> drain_closes info"
    and "d1 = finish_drain k (fst (reap_one k d pid status)) pid"
    and "d2 = fst (reap_one k (finish_drain k d pid) pid status)"
  shows "get_container d1 pid = None \<and> closes f (d_trace d1) = closes f (d_trace d) \<and>
    get_container d2 pid = None \<and> closes f (d_trace d2) = closes f (d_trace d)"
proof -
  have "get_container (fst (reap_one k d pid status)) pid = Some info" "d_trace (fst (reap_one k d pid status)) = d_trace d"
    using reap_one_draining [OF assms(1)] assms(2) by simp_all
  then show ?thesis
    using finish_drain_leaks [of "fst (reap_one k d pid status)" pid info f k] finish_drain_leaks [OF assms(1,2,4), of k]
      reap_one_gone [of "finish_drain k d pid" pid k status] assms by simp
qed

lemma detached_death_pipe:
  obtains d info where "demo_script detached_script = Some d" "get_container d 108 = Some info"
    "ci_drains_pending info = 1" "ci_death_pipe_write info = 103" "drain_closes info = {-1, 105}"
proof -
  have "case demo_script detached_script of None \<Rightarrow> False
      | Some d \<Rightarrow> (case get_container d 108 of None \<Rightarrow> False
            | Some i \<Rightarrow> ci_drains_pending i = 1 \<and> ci_death_pipe_write i = 103 \<and> drain_closes i = {-1, 105})"
    by (simp add: demo_run_defs detached_script_def on_datagram_peek_def on_datagram_def handle_datagram_def
        handle_run_def run_clone_def run_parent_def run_started_def add_drain_def upd_container_def
        arm_container_output_def reply_datagram_def Let_def drain_closes_def log_gateway_close_all_pipes_def log_gateway_new_def)
  then show ?thesis using that by (auto split: option.splits)
qed

theorem detached_death_pipe_leaks_witness:
  "\<exists>d. demo_script detached_script = Some d \<and>
     (let d1 = finish_drain demo_kernel (fst (reap_one demo_kernel d 108 0)) 108
      in get_container d1 108 = None \<and> closes 103 (d_trace d1) = closes 103 (d_trace d))"
proof -
  obtain d info where d: "demo_script detached_script = Some d" "get_container d 108 = Some info"
    "ci_drains_pending info = 1" "ci_death_pipe_write info = 103" "drain_closes info = {-1, 105}"
    by (rule detached_death_pipe)
  have "103 \<notin> drain_closes info" using d(5) by simp
  from detached_death_pipe_leaks [OF d(2,3) d(4) [symmetric] this refl refl, of demo_kernel 0] d(1) show ?thesis
    by (simp add: Let_def)
qed

end
