(* ===== verification/Session_Frames.thy ===== *)
theory Session_Frames
  imports Daemon_Invariants
begin

text \<open>
  How the daemon reads a client's frames (\<^verbatim>\<open>arm_session_read\<close>, \<^verbatim>\<open>on_session_header\<close>,
  \<^verbatim>\<open>on_session_payload\<close> in \<^verbatim>\<open>libs/core/src/daemon.rs\<close>). The stream of a session is delivered in
  pieces of any size; a frame whose payload is not empty is put together and dispatched exactly, so
  what a client types reaches the container in order and unchanged. There are two exceptions. For a
  frame with an empty payload the daemon waits for one more byte, which is the first of the next frame.
  After a short read of a header it asks for three bytes again; those it gets beyond the header are
  dropped.
\<close>

section \<open>Pieces of a stream\<close>

text \<open>The read a session has in flight completes with the given piece.\<close>

definition feed_piece :: "'w kernel \<Rightarrow> 'w daemon \<Rightarrow> nat \<Rightarrow> bytes \<Rightarrow> 'w daemon option" where
  "feed_piece k d sid b = do {
     s \<leftarrow> get_session d sid;
     i \<leftarrow> as_read_op s;
     deliver k d i (BytesResult (Inr b))
   }"

fun feed :: "'w kernel \<Rightarrow> 'w daemon \<Rightarrow> nat \<Rightarrow> bytes list \<Rightarrow> 'w daemon option" where
  "feed k d sid [] = Some d"
| "feed k d sid (b # bs) = do {
     d \<leftarrow> feed_piece k d sid b;
     feed k d sid bs
   }"

lemma feed_append: "feed k d sid (xs @ ys) = feed k d sid xs \<bind> (\<lambda>d. feed k d sid ys)"
  by (induction xs arbitrary: d) (simp_all)

section \<open>What reading changes\<close>

text \<open>
  A state that differs from \<open>d0\<close> only in the session's read handle, the world, the operation
  counter, and reads of the stream \<open>fd\<close> that were armed.
\<close>

definition stream_reads :: "fd \<Rightarrow> event list \<Rightarrow> bool" where
  "stream_reads fd tr \<longleftrightarrow> (\<forall>e \<in> set tr. \<exists>j n. e = Armed j (ReadProvided fd n))"

definition shifted :: "'w daemon \<Rightarrow> nat \<Rightarrow> fd \<Rightarrow> nat option \<Rightarrow> 'w daemon \<Rightarrow> bool" where
  "shifted d0 sid fd handle d \<longleftrightarrow> (\<exists>w m arms.
     d = (upd_session d0 sid (\<lambda>s. s\<lparr>as_read_op := handle\<rparr>))
           \<lparr>d_world := w, d_next_op := m, d_trace := d_trace d0 @ arms\<rparr> \<and>
     d_next_op d0 \<le> m \<and> stream_reads fd arms)"

text \<open>The same with the read of the session in flight.\<close>

definition reading :: "'w daemon \<Rightarrow> nat \<Rightarrow> fd \<Rightarrow> callback \<Rightarrow> op_local \<Rightarrow> nat \<Rightarrow> 'w daemon \<Rightarrow> bool" where
  "reading d0 sid fd cb local n d \<longleftrightarrow> (\<exists>i e. shifted d0 sid fd (Some i) e \<and> i < d_next_op e \<and>
     i \<notin> fst ` set (d_ops d0) \<and>
     d = e\<lparr>d_ops := d_ops d0 @ [(i, \<lparr>po_req = ReadProvided fd n, po_local = local, po_cb = cb, po_cancel = False\<rparr>)]\<rparr>)"

text \<open>A session that can be read: it is open, and the operation numbers in use are below the counter.\<close>

definition readable_session :: "'w daemon \<Rightarrow> nat \<Rightarrow> fd \<Rightarrow> bool" where
  "readable_session d sid fd \<longleftrightarrow> (\<exists>s. get_session d sid = Some s \<and> as_stream_fd s = fd) \<and>
     (\<forall>x \<in> set (d_ops d). fst x < d_next_op d)"

lemma map_entry_twice: "AList.map_entry a f (AList.map_entry a g xs) = AList.map_entry a (f \<circ> g) xs"
  by (induction xs) auto

lemma delete_fresh: "i \<notin> fst ` set xs \<Longrightarrow> AList.delete i (xs @ [(i, p)]) = xs"
  by (induction xs) (auto simp: AList.delete_eq)

lemma map_of_fresh: "i \<notin> fst ` set xs \<Longrightarrow> map_of (xs @ [(i, p)]) i = Some p"
  by (simp add: map_add_Some_iff map_of_eq_None_iff)

lemma shifted_ops: "shifted d0 sid fd h d \<Longrightarrow> d_ops d = d_ops d0"
  by (auto simp: shifted_def upd_session_def)

lemma shifted_session:
  "shifted d0 sid fd h d \<Longrightarrow> get_session d0 sid = Some s \<Longrightarrow> get_session d sid = Some (s\<lparr>as_read_op := h\<rparr>)"
  by (auto simp: shifted_def get_session_def upd_session_def map_of_map_entry)

lemma shifted_stream: "shifted d0 sid fd h d \<Longrightarrow> readable_session d0 sid fd \<Longrightarrow> stream_fd_or d sid = fd"
  using shifted_session by (fastforce simp: readable_session_def stream_fd_or_def)

lemma shiftedE:
  assumes "shifted d0 sid fd h d"
  obtains w m arms where "d = (upd_session d0 sid (\<lambda>s. s\<lparr>as_read_op := h\<rparr>))
      \<lparr>d_world := w, d_next_op := m, d_trace := d_trace d0 @ arms\<rparr>" "d_next_op d0 \<le> m" "stream_reads fd arms"
  using assms by (auto simp: shifted_def)

lemma shiftedI:
  "d_next_op d0 \<le> m \<Longrightarrow> stream_reads fd arms \<Longrightarrow>
   shifted d0 sid fd h ((upd_session d0 sid (\<lambda>s. s\<lparr>as_read_op := h\<rparr>))
      \<lparr>d_world := w, d_next_op := m, d_trace := d_trace d0 @ arms\<rparr>)"
  unfolding shifted_def by blast

lemma shifted_store:
  assumes "shifted d0 sid fd h d" shows "shifted d0 sid fd h' (store_session_op d sid SRead h')"
proof -
  obtain w m arms where d: "d = (upd_session d0 sid (\<lambda>s. s\<lparr>as_read_op := h\<rparr>))
      \<lparr>d_world := w, d_next_op := m, d_trace := d_trace d0 @ arms\<rparr>" "d_next_op d0 \<le> m" "stream_reads fd arms"
    by (rule shiftedE [OF assms])
  have "store_session_op d sid SRead h' = (upd_session d0 sid (\<lambda>s. s\<lparr>as_read_op := h'\<rparr>))
      \<lparr>d_world := w, d_next_op := m, d_trace := d_trace d0 @ arms\<rparr>"
    by (simp add: d(1) store_session_op_def upd_session_def map_entry_twice comp_def)
  then show ?thesis using shiftedI [OF d(2,3)] by simp
qed

lemma shifted_world:
  assumes "shifted d0 sid fd h d" shows "shifted d0 sid fd h (d\<lparr>d_world := w\<rparr>)"
proof -
  obtain v m arms where d: "d = (upd_session d0 sid (\<lambda>s. s\<lparr>as_read_op := h\<rparr>))
      \<lparr>d_world := v, d_next_op := m, d_trace := d_trace d0 @ arms\<rparr>" "d_next_op d0 \<le> m" "stream_reads fd arms"
    by (rule shiftedE [OF assms])
  have "d\<lparr>d_world := w\<rparr> = (upd_session d0 sid (\<lambda>s. s\<lparr>as_read_op := h\<rparr>))
      \<lparr>d_world := w, d_next_op := m, d_trace := d_trace d0 @ arms\<rparr>"
    by (simp add: d(1))
  then show ?thesis using shiftedI [OF d(2,3)] by simp
qed

text \<open>Arming the next read.\<close>

lemma submit_obliging:
  assumes "obliging k"
  shows "\<exists>w. submit k d q l cb = (d\<lparr>d_world := w, d_next_op := d_next_op d + 1,
       d_ops := d_ops d @ [(d_next_op d, \<lparr>po_req = q, po_local = l, po_cb = cb, po_cancel = False\<rparr>)],
       d_trace := d_trace d @ [Armed (d_next_op d) q]\<rparr>, Some (d_next_op d))"
proof -
  obtain w where "k_arm k (d_world d) q = (w, Inr ())"
    using assms by (metis obliging_def prod.exhaust_sel)
  then show ?thesis by (auto simp: submit_def emit_def Let_def)
qed

lemma reading_submit:
  assumes "shifted d0 sid fd h d" "readable_session d0 sid fd" "obliging k"
  shows "\<exists>e i. submit k d (ReadProvided fd n) l cb = (e, Some i) \<and>
    reading d0 sid fd cb l n (store_session_op e sid SRead (Some i))"
proof -
  let ?i = "d_next_op d"
  obtain w where e: "submit k d (ReadProvided fd n) l cb = (d\<lparr>d_world := w, d_next_op := ?i + 1,
       d_ops := d_ops d @ [(?i, \<lparr>po_req = ReadProvided fd n, po_local = l, po_cb = cb, po_cancel = False\<rparr>)],
       d_trace := d_trace d @ [Armed ?i (ReadProvided fd n)]\<rparr>, Some ?i)" (is "_ = (?e, _)")
    using submit_obliging [OF assms(3)] by blast
  obtain v m arms where d: "d = (upd_session d0 sid (\<lambda>s. s\<lparr>as_read_op := h\<rparr>))
        \<lparr>d_world := v, d_next_op := m, d_trace := d_trace d0 @ arms\<rparr>" "d_next_op d0 \<le> m" "stream_reads fd arms"
    using assms(1) by (auto simp: shifted_def)
  have fresh: "?i \<notin> fst ` set (d_ops d0)"
    using assms(2) d(1,2) by (fastforce simp: readable_session_def)
  let ?u = "(upd_session d0 sid (\<lambda>s. s\<lparr>as_read_op := Some ?i\<rparr>))
        \<lparr>d_world := w, d_next_op := ?i + 1, d_trace := d_trace d0 @ arms @ [Armed ?i (ReadProvided fd n)]\<rparr>"
  have "d_next_op d0 \<le> ?i + 1" "stream_reads fd (arms @ [Armed ?i (ReadProvided fd n)])"
    using d by (auto simp: stream_reads_def)
  then have sh: "shifted d0 sid fd (Some ?i) ?u" unfolding shifted_def by blast
  have "store_session_op ?e sid SRead (Some ?i) = ?u\<lparr>d_ops := d_ops d0 @
      [(?i, \<lparr>po_req = ReadProvided fd n, po_local = l, po_cb = cb, po_cancel = False\<rparr>)]\<rparr>"
    by (simp add: d(1) store_session_op_def upd_session_def map_entry_twice comp_def)
  then have "reading d0 sid fd cb l n (store_session_op ?e sid SRead (Some ?i))"
    unfolding reading_def by (intro exI [of _ ?i] exI [of _ ?u]) (use sh fresh in simp)
  then show ?thesis using e by blast
qed

text \<open>A completion of the read: the operation is gone, its callback runs.\<close>

lemma reading_feed:
  assumes "reading d0 sid fd cb l n d" "readable_session d0 sid fd"
  shows "\<exists>h e. shifted d0 sid fd h e \<and> feed_piece k d sid b = run_callback k e cb l (BytesResult (Inr b))"
proof -
  obtain i e where e: "shifted d0 sid fd (Some i) e" "i \<notin> fst ` set (d_ops d0)"
    "d = e\<lparr>d_ops := d_ops d0 @ [(i, \<lparr>po_req = ReadProvided fd n, po_local = l, po_cb = cb, po_cancel = False\<rparr>)]\<rparr>"
    using assms(1) by (auto simp: reading_def)
  obtain s where s: "get_session d0 sid = Some s" using assms(2) by (auto simp: readable_session_def)
  have "get_session d sid = Some (s\<lparr>as_read_op := Some i\<rparr>)"
    using shifted_session [OF e(1) s] e(3) by (simp add: get_session_def)
  moreover have "d\<lparr>d_ops := AList.delete i (d_ops d)\<rparr> = e"
    using e(2,3) shifted_ops [OF e(1)] by (simp add: delete_fresh)
  moreover have "map_of (d_ops d) i = Some \<lparr>po_req = ReadProvided fd n, po_local = l, po_cb = cb, po_cancel = False\<rparr>"
    using map_of_fresh [OF e(2)] e(3) by (simp del: map_of_append)
  ultimately have "feed_piece k d sid b = run_callback k e cb l (BytesResult (Inr b))"
    by (simp add: feed_piece_def deliver_def)
  then show ?thesis using e(1) by blast
qed

lemma arm_session_read_reading:
  assumes "shifted d0 sid fd h d" "readable_session d0 sid fd" "obliging k"
  shows "reading d0 sid fd On_session_header (LSessionHeader sid []) 3 (arm_session_read k d sid)"
proof -
  obtain s where s: "get_session d sid = Some s" "as_stream_fd s = fd"
    using shifted_session [OF assms(1)] assms(2) by (fastforce simp: readable_session_def)
  then show ?thesis
    using reading_submit [OF assms, of 3 "LSessionHeader sid []" On_session_header]
    by (auto simp: arm_session_read_def)
qed

section \<open>Putting a frame together\<close>

lemma header_piece:
  assumes "reading d0 sid fd On_session_header (LSessionHeader sid acc) m d" "readable_session d0 sid fd" "obliging k"
    and "b \<noteq> []" "length (acc @ b) < 3"
  shows "\<exists>d'. feed_piece k d sid b = Some d' \<and>
    reading d0 sid fd On_session_header (LSessionHeader sid (acc @ b)) 3 d'"
proof -
  obtain h e where e: "shifted d0 sid fd h e"
    "feed_piece k d sid b = run_callback k e On_session_header (LSessionHeader sid acc) (BytesResult (Inr b))"
    using reading_feed [OF assms(1,2)] by blast
  then show ?thesis
    using reading_submit [OF e(1) assms(2,3), of 3 "LSessionHeader sid (acc @ b)" On_session_header]
      shifted_stream [OF e(1) assms(2)] assms(4,5)
    by (auto simp: run_callback_def on_session_header_def Let_def)
qed

text \<open>Bytes \<open>x\<close> that were read behind the header are not kept.\<close>

lemma header_overrun:
  assumes "reading d0 sid fd On_session_header (LSessionHeader sid acc) m d" "readable_session d0 sid fd" "obliging k"
    and "b \<noteq> []" "acc @ b = [t] @ u16_to_le_bytes len @ x" "len < 2 ^ 16"
  shows "\<exists>d'. feed_piece k d sid b = Some d' \<and>
    reading d0 sid fd On_session_payload (LSessionPayload sid t [] len) (max len 1) d'"
proof -
  obtain h e where e: "shifted d0 sid fd h e"
    "feed_piece k d sid b = run_callback k e On_session_header (LSessionHeader sid acc) (BytesResult (Inr b))"
    using reading_feed [OF assms(1,2)] by blast
  have l: "\<not> length (acc @ b) < 3" "(acc @ b) ! 0 = t" "u16_from_le_bytes ((acc @ b) ! 1) ((acc @ b) ! 2) = len"
    unfolding assms(5) using u16_le_bytes_roundtrip [of len] assms(6) by (simp_all add: u16_to_le_bytes_def)
  note e' = shifted_store [OF e(1), of None]
  have "stream_fd_or e sid = fd" by (rule shifted_stream [OF e(1) assms(2)])
  then show ?thesis
    using reading_submit [OF e' assms(2,3), of "max len 1" "LSessionPayload sid t [] len" On_session_payload] e(2) l assms(4)
    by (auto simp: run_callback_def on_session_header_def Let_def)
qed

lemma header_last:
  assumes "reading d0 sid fd On_session_header (LSessionHeader sid acc) m d" "readable_session d0 sid fd" "obliging k"
    and "b \<noteq> []" "acc @ b = [t] @ u16_to_le_bytes len" "len < 2 ^ 16"
  shows "\<exists>d'. feed_piece k d sid b = Some d' \<and>
    reading d0 sid fd On_session_payload (LSessionPayload sid t [] len) (max len 1) d'"
  using header_overrun [OF assms(1-4) _ assms(6), of t "[]"] assms(5) by simp

lemma payload_piece:
  assumes "reading d0 sid fd On_session_payload (LSessionPayload sid t acc need) m d" "readable_session d0 sid fd" "obliging k"
    and "b \<noteq> []" "length (acc @ b) < need"
  shows "\<exists>d'. feed_piece k d sid b = Some d' \<and>
    reading d0 sid fd On_session_payload (LSessionPayload sid t (acc @ b) need) (max (need - length (acc @ b)) 1) d'"
proof -
  obtain h e where e: "shifted d0 sid fd h e"
    "feed_piece k d sid b = run_callback k e On_session_payload (LSessionPayload sid t acc need) (BytesResult (Inr b))"
    using reading_feed [OF assms(1,2)] by blast
  then show ?thesis
    using reading_submit [OF e(1) assms(2,3), of "max (need - length (acc @ b)) 1" "LSessionPayload sid t (acc @ b) need" On_session_payload]
      shifted_stream [OF e(1) assms(2)] assms(4,5)
    by (auto simp: run_callback_def on_session_payload_def Let_def)
qed

text \<open>What happens once the payload is complete: the frame is dispatched and the next header is read.\<close>

definition after_frame :: "'w kernel \<Rightarrow> nat \<Rightarrow> ('w daemon \<times> bool) option \<Rightarrow> 'w daemon option" where
  "after_frame k sid r = map_option (\<lambda>(d, go_on). if \<not> go_on then close_session k d sid else arm_session_read k d sid) r"

lemma payload_last:
  assumes "reading d0 sid fd On_session_payload (LSessionPayload sid t acc need) m d" "readable_session d0 sid fd" "obliging k"
    and "b \<noteq> []" "need \<le> length (acc @ b)"
  shows "\<exists>d'. shifted d0 sid fd None d' \<and> feed_piece k d sid b = after_frame k sid (dispatch_frame k d' sid t (acc @ b))"
proof -
  obtain h e where e: "shifted d0 sid fd h e"
    "feed_piece k d sid b = run_callback k e On_session_payload (LSessionPayload sid t acc need) (BytesResult (Inr b))"
    using reading_feed [OF assms(1,2)] by blast
  let ?e = "store_session_op e sid SRead None"
  obtain w buf where w: "k_alloc k (d_world ?e) (max (length (acc @ b)) 1) = Some (w, buf)"
    using assms(3) by (metis obliging_alloc option.exhaust surj_pair)
  have "feed_piece k d sid b = after_frame k sid (dispatch_frame k (?e\<lparr>d_world := w\<rparr>) sid t (acc @ b))"
    using e(2) w assms(4,5)
    by (auto simp: run_callback_def on_session_payload_def pool_alloc_def Let_def after_frame_def
        split: Option.bind_split prod.splits)
  then show ?thesis using shifted_world [OF shifted_store [OF e(1)]] by blast
qed

lemma header_pieces:
  assumes "readable_session d0 sid fd" "obliging k" "len < 2 ^ 16"
  shows "reading d0 sid fd On_session_header (LSessionHeader sid acc) m d \<Longrightarrow> length acc < 3 \<Longrightarrow> [] \<notin> set hs \<Longrightarrow>
    acc @ concat hs = [t] @ u16_to_le_bytes len \<Longrightarrow>
    \<exists>d'. feed k d sid hs = Some d' \<and> reading d0 sid fd On_session_payload (LSessionPayload sid t [] len) (max len 1) d'"
proof (induction hs arbitrary: acc m d)
  case Nil
  from arg_cong [OF Nil(4), of length] show ?case using Nil(2) by (simp add: u16_to_le_bytes_def)
next
  case (Cons b hs)
  show ?case
  proof (cases "hs = []")
    case True
    then show ?thesis using header_last [OF Cons.prems(1) assms(1,2) _ _ assms(3), of b t] Cons.prems by auto
  next
    case False
    then have "0 < length (concat hs)" using Cons.prems(3) by (cases hs) auto
    moreover have "length acc + length b + length (concat hs) = 3"
      using arg_cong [OF Cons.prems(4), of length] by (simp add: ac_simps)
    ultimately have "length (acc @ b) < 3" unfolding length_append by linarith
    then show ?thesis
      using header_piece [OF Cons.prems(1) assms(1,2), of b] Cons.IH [of "acc @ b"] Cons.prems by fastforce
  qed
qed

lemma payload_pieces:
  assumes "readable_session d0 sid fd" "obliging k"
  shows "reading d0 sid fd On_session_payload (LSessionPayload sid t acc (length payload)) m d \<Longrightarrow>
    length acc < length payload \<Longrightarrow> [] \<notin> set ps \<Longrightarrow> acc @ concat ps = payload \<Longrightarrow>
    \<exists>d1. shifted d0 sid fd None d1 \<and> feed k d sid ps = after_frame k sid (dispatch_frame k d1 sid t payload)"
proof (induction ps arbitrary: acc m d)
  case Nil
  then show ?case by simp
next
  case (Cons b ps)
  show ?case
  proof (cases "ps = []")
    case True
    then show ?thesis using payload_last [OF Cons.prems(1) assms, of b] Cons.prems by auto
  next
    case False
    then have "0 < length (concat ps)" using Cons.prems(3) by (cases ps) auto
    moreover have "length acc + length b + length (concat ps) = length payload"
      using arg_cong [OF Cons.prems(4), of length] by (simp add: ac_simps)
    ultimately have "length (acc @ b) < length payload" unfolding length_append by linarith
    then show ?thesis
      using payload_piece [OF Cons.prems(1) assms, of b] Cons.IH [of "acc @ b"] Cons.prems by fastforce
  qed
qed

text \<open>
  A frame cut into pieces, one of which ends where the header ends. The first read of a header asks for
  three bytes and cannot bring more; but one that follows a short read asks for three bytes again, and
  may.
\<close>

definition cut_frame :: "u8 \<Rightarrow> bytes \<Rightarrow> bytes list \<times> bytes list \<Rightarrow> bool" where
  "cut_frame t payload c \<longleftrightarrow> [] \<notin> set (fst c @ snd c) \<and> length (concat (fst c)) = 3 \<and>
     concat (fst c @ snd c) = build_frame t payload"

lemma cut_frame_parts:
  assumes "cut_frame t payload (hs, ps)"
  shows "concat hs = [t] @ u16_to_le_bytes (length payload)" "concat ps = payload" "[] \<notin> set hs" "[] \<notin> set ps"
proof -
  have "concat hs @ concat ps = ([t] @ u16_to_le_bytes (length payload)) @ payload"
    using assms by (simp add: cut_frame_def build_frame_def)
  moreover have "length (concat hs) = length ([t] @ u16_to_le_bytes (length payload))"
    using assms by (simp add: cut_frame_def u16_to_le_bytes_def)
  ultimately show "concat hs = [t] @ u16_to_le_bytes (length payload)" "concat ps = payload"
    by (metis append_eq_append_conv)+
  show "[] \<notin> set hs" "[] \<notin> set ps" using assms by (auto simp: cut_frame_def)
qed

lemma shifted_refl:
  assumes "get_session d sid = Some s" shows "shifted d sid fd (as_read_op s) d"
proof -
  have "map_of xs sid = Some s \<Longrightarrow> AList.map_entry sid (\<lambda>s'. s'\<lparr>as_read_op := as_read_op s\<rparr>) xs = xs" for xs
    by (induction xs) auto
  then have "d = (upd_session d sid (\<lambda>s'. s'\<lparr>as_read_op := as_read_op s\<rparr>))
      \<lparr>d_world := d_world d, d_next_op := d_next_op d, d_trace := d_trace d @ []\<rparr>"
    using assms by (simp add: upd_session_def get_session_def)
  moreover have "stream_reads fd []" by (simp add: stream_reads_def)
  ultimately show ?thesis using shiftedI by (metis order_refl)
qed

lemma start_reading:
  assumes "readable_session d sid fd" "obliging k"
  shows "reading d sid fd On_session_header (LSessionHeader sid []) 3 (arm_session_read k d sid)"
  using arm_session_read_reading [OF shifted_refl assms] assms(1) by (auto simp: readable_session_def)

lemma frame_fed:
  assumes "readable_session d sid fd" "obliging k" "cut_frame t payload (hs, ps)" "payload \<noteq> []" "length payload < 2 ^ 16"
  shows "\<exists>d1. shifted d sid fd None d1 \<and>
    feed k (arm_session_read k d sid) sid (hs @ ps) = after_frame k sid (dispatch_frame k d1 sid t payload)"
proof -
  note c = cut_frame_parts [OF assms(3)]
  obtain e where "feed k (arm_session_read k d sid) sid hs = Some e"
    "reading d sid fd On_session_payload (LSessionPayload sid t [] (length payload)) (max (length payload) 1) e"
    using header_pieces [OF assms(1,2,5) start_reading [OF assms(1,2)] _ c(3)] c(1) by auto
  then show ?thesis
    using payload_pieces [OF assms(1,2), of t "[]" payload _ e ps] c(2,4) assms(4) by (simp add: feed_append)
qed

section \<open>Client input\<close>

text \<open>The buffers for which a write to \<open>f\<close> was submitted, in order.\<close>

definition written_to :: "fd \<Rightarrow> event list \<Rightarrow> bytes list" where
  "written_to f tr = List.map_filter
     (\<lambda>e. case e of Armed i (WriteFixed g b) \<Rightarrow> if g = f then Some b else None | _ \<Rightarrow> None) tr"

lemma written_to_simps [simp]:
  "written_to f [] = []"
  "written_to f (xs @ ys) = written_to f xs @ written_to f ys"
  "written_to f [Armed i (WriteFixed g b)] = (if g = f then [b] else [])"
  "written_to f [Armed i (ReadProvided g n)] = []"
  by (simp_all add: written_to_def List.map_filter_def)

lemma written_to_reads: "stream_reads fd arms \<Longrightarrow> written_to f arms = []"
  by (fastforce simp: stream_reads_def written_to_def List.map_filter_def filter_empty_conv)

lemma shifted_written: "shifted d0 sid fd h d \<Longrightarrow> written_to f (d_trace d) = written_to f (d_trace d0)"
  by (auto elim!: shiftedE simp: written_to_reads)

lemma shifted_input: "shifted d0 sid fd h d \<Longrightarrow> session_input_fd d sid = session_input_fd d0 sid"
  by (cases "map_of (d_sessions d0) sid")
    (auto elim!: shiftedE simp: session_input_fd_def get_session_def upd_session_def map_of_map_entry)

lemma shifted_readable: "shifted d0 sid fd h d \<Longrightarrow> readable_session d0 sid fd \<Longrightarrow> readable_session d sid fd"
  by (fastforce elim!: shiftedE simp: readable_session_def get_session_def upd_session_def map_of_map_entry)

lemma reading_shifted:
  assumes "reading d0 sid fd cb l n d"
  shows "session_input_fd d sid = session_input_fd d0 sid" "written_to f (d_trace d) = written_to f (d_trace d0)"
    "\<exists>arms. d_trace d = d_trace d0 @ arms \<and> stream_reads fd arms"
proof -
  obtain i e ops where e: "shifted d0 sid fd (Some i) e" "d = e\<lparr>d_ops := ops\<rparr>"
    using assms by (auto simp: reading_def)
  show "session_input_fd d sid = session_input_fd d0 sid" "written_to f (d_trace d) = written_to f (d_trace d0)"
    using shifted_input [OF e(1)] shifted_written [OF e(1)] e(2) by (simp_all add: session_input_fd_def get_session_def)
  show "\<exists>arms. d_trace d = d_trace d0 @ arms \<and> stream_reads fd arms"
    using e by (auto elim!: shiftedE)
qed

lemma dispatch_data:
  assumes "obliging k" "readable_session d sid fd" "session_input_fd d sid = f" "0 \<le> f" "payload \<noteq> []"
  shows "\<exists>d'. dispatch_frame k d sid 16 payload = Some (d', True) \<and> readable_session d' sid fd \<and>
    session_input_fd d' sid = f \<and> written_to f (d_trace d') = written_to f (d_trace d) @ [payload]"
proof -
  obtain w where "arm_session_stdin k d sid f payload = d\<lparr>d_world := w, d_next_op := d_next_op d + 1,
       d_ops := d_ops d @ [(d_next_op d, \<lparr>po_req = WriteFixed f payload, po_local = LSessionStdin sid payload 0,
          po_cb = On_session_stdin, po_cancel = False\<rparr>)],
       d_trace := d_trace d @ [Armed (d_next_op d) (WriteFixed f payload)]\<rparr>" (is "_ = ?d")
    using submit_obliging [OF assms(1), of d "WriteFixed f payload" "LSessionStdin sid payload 0" On_session_stdin]
    by (auto simp: arm_session_stdin_def)
  moreover have "readable_session ?d sid fd" "session_input_fd ?d sid = f"
    using assms(2,3) by (auto simp: readable_session_def get_session_def session_input_fd_def)
  ultimately show ?thesis using assms(3-5) by (simp add: dispatch_frame_def)
qed

lemma data_frame_fed:
  assumes "readable_session d sid fd" "obliging k" "session_input_fd d sid = f" "0 \<le> f"
    and "cut_frame 16 payload c" "payload \<noteq> []" "length payload < 2 ^ 16"
  shows "\<exists>d'. feed k (arm_session_read k d sid) sid (fst c @ snd c) = Some (arm_session_read k d' sid) \<and>
    readable_session d' sid fd \<and> session_input_fd d' sid = f \<and>
    written_to f (d_trace d') = written_to f (d_trace d) @ [payload]"
proof -
  obtain d1 where d1: "shifted d sid fd None d1"
    "feed k (arm_session_read k d sid) sid (fst c @ snd c) = after_frame k sid (dispatch_frame k d1 sid 16 payload)"
    using frame_fed [OF assms(1,2) _ assms(6,7), of 16 "fst c" "snd c"] assms(5) by auto
  have "session_input_fd d1 sid = f" using shifted_input [OF d1(1)] assms(3) by simp
  from dispatch_data [OF assms(2) shifted_readable [OF d1(1) assms(1)] this assms(4,6)] show ?thesis
    using d1(2) shifted_written [OF d1(1), of f] by (auto simp: after_frame_def)
qed

lemma data_frames_fed:
  assumes "obliging k" "0 \<le> f"
  shows "list_all2 (cut_frame 16) payloads cuts \<Longrightarrow> \<forall>p \<in> set payloads. p \<noteq> [] \<and> length p < 2 ^ 16 \<Longrightarrow>
    readable_session d sid fd \<Longrightarrow> session_input_fd d sid = f \<Longrightarrow>
    \<exists>d'. feed k (arm_session_read k d sid) sid (concat (map (\<lambda>c. fst c @ snd c) cuts)) = Some (arm_session_read k d' sid) \<and>
      readable_session d' sid fd \<and> session_input_fd d' sid = f \<and>
      written_to f (d_trace d') = written_to f (d_trace d) @ payloads"
proof (induction arbitrary: d rule: list_all2_induct)
  case Nil
  then show ?case by auto
next
  case (Cons p ps c cs)
  then obtain d1 where d1: "feed k (arm_session_read k d sid) sid (fst c @ snd c) = Some (arm_session_read k d1 sid)"
    "readable_session d1 sid fd" "session_input_fd d1 sid = f" "written_to f (d_trace d1) = written_to f (d_trace d) @ [p]"
    using data_frame_fed [OF Cons.prems(2) assms(1) Cons.prems(3) assms(2), of p c] by auto
  let ?cs = "concat (map (\<lambda>c. fst c @ snd c) cs)"
  have "feed k (arm_session_read k d sid) sid (concat (map (\<lambda>c. fst c @ snd c) (c # cs))) =
      feed k (arm_session_read k d1 sid) sid ?cs"
    using d1(1) feed_append [of k "arm_session_read k d sid" sid "fst c @ snd c" ?cs] by simp
  moreover obtain d2 where "feed k (arm_session_read k d1 sid) sid ?cs = Some (arm_session_read k d2 sid)"
    "readable_session d2 sid fd" "session_input_fd d2 sid = f" "written_to f (d_trace d2) = written_to f (d_trace d1) @ ps"
    using Cons.IH [OF _ d1(2,3)] Cons.prems(1) by auto
  ultimately show ?case using d1(4) by (intro exI [of _ d2]) simp
qed

section \<open>Properties\<close>

text \<open>
  The daemon reassembles the frames of a client. However the stream cuts a frame with a
  payload that is not empty, as long as a piece ends where the header does, reading it dispatches exactly that frame, once, from a state in which
  nothing has changed but the session's read handle, operation numbers and the reads of the stream
  that were armed; then the session reads on, or is closed when the frame says so.
\<close>

theorem frame_dispatched_once:
  assumes "readable_session d sid fd" "obliging k" "cut_frame t payload (hs, ps)" "payload \<noteq> []" "length payload < 2 ^ 16"
  shows "\<exists>d1. shifted d sid fd None d1 \<and> feed k (arm_session_read k d sid) sid (hs @ ps) =
    map_option (\<lambda>(d, go_on). if \<not> go_on then close_session k d sid else arm_session_read k d sid)
      (dispatch_frame k d1 sid t payload)"
  using frame_fed [OF assms] by (simp add: after_frame_def)

definition demo_session :: "demo_world daemon" where
  "demo_session = demo_start\<lparr>d_sessions := [(0, (session_new 50)\<lparr>as_input_fd := 7\<rparr>)], d_next_session_id := 1\<rparr>"

lemma demo_session_readable: "readable_session demo_session 0 50"
  by (simp add: demo_session_def readable_session_def get_session_def session_new_def demo_start_def daemon_state_new_def)

theorem frame_dispatched_once_witness:
  "\<exists>d1. shifted demo_session 0 50 None d1 \<and>
    feed demo_kernel (arm_session_read demo_kernel demo_session 0) 0 [[16, 2], [0], [104], [105]] =
    map_option (\<lambda>(d, go_on). if \<not> go_on then close_session demo_kernel d 0 else arm_session_read demo_kernel d 0)
      (dispatch_frame demo_kernel d1 0 16 [104, 105])"
proof -
  have "cut_frame 16 [104, 105] ([[16, 2], [0]], [[104], [105]])"
    by (simp add: cut_frame_def build_frame_def u16_to_le_bytes_def)
  from frame_dispatched_once [OF demo_session_readable demo_obliging this] show ?thesis by simp
qed


text \<open>
  C10. What a client types reaches the container in order and unchanged. However the stream cuts a
  sequence of data frames with payloads that are not empty, as long as a piece ends where a header
  does, reading it submits exactly these payloads
  as writes to the container's input, in order, and leaves the session reading.
\<close>

theorem client_input_in_order:
  assumes "readable_session d sid fd" "obliging k" "session_input_fd d sid = f" "0 \<le> f"
    and "list_all2 (cut_frame 16) payloads cuts" "\<forall>p \<in> set payloads. p \<noteq> [] \<and> length p < 2 ^ 16"
  shows "\<exists>d'. feed k (arm_session_read k d sid) sid (concat (map (\<lambda>c. fst c @ snd c) cuts)) = Some d' \<and>
    written_to f (d_trace d') = written_to f (d_trace d) @ payloads \<and> session_input_fd d' sid = f \<and>
    (\<exists>d0. reading d0 sid fd On_session_header (LSessionHeader sid []) 3 d')"
proof -
  obtain d0 where d0: "feed k (arm_session_read k d sid) sid (concat (map (\<lambda>c. fst c @ snd c) cuts)) = Some (arm_session_read k d0 sid)"
    "readable_session d0 sid fd" "session_input_fd d0 sid = f" "written_to f (d_trace d0) = written_to f (d_trace d) @ payloads"
    using data_frames_fed [OF assms(2,4-6,1,3)] by auto
  note r = start_reading [OF d0(2) assms(2)]
  show ?thesis using d0 r reading_shifted(1,2) [OF r] by auto
qed

theorem client_input_in_order_witness:
  "\<exists>d'. feed demo_kernel (arm_session_read demo_kernel demo_session 0) 0 [[16, 2, 0], [104, 105], [16], [1], [0], [33]] = Some d' \<and>
     written_to 7 (d_trace d') = [[104, 105], [33]]"
proof -
  let ?cuts = "[([[16, 2, 0]], [[104, 105]]), ([[16], [1], [0]], [[33]])] :: (bytes list \<times> bytes list) list"
  have 1: "session_input_fd demo_session 0 = 7"
    by (simp add: demo_session_def session_input_fd_def get_session_def session_new_def)
  have 2: "list_all2 (cut_frame 16) [[104, 105], [33]] ?cuts"
    by (simp add: cut_frame_def build_frame_def u16_to_le_bytes_def)
  have 3: "written_to 7 (d_trace demo_session) = []"
    by (simp add: demo_session_def demo_start_def daemon_state_new_def)
  obtain d' where "feed demo_kernel (arm_session_read demo_kernel demo_session 0) 0 (concat (map (\<lambda>c. fst c @ snd c) ?cuts)) = Some d'"
    "written_to 7 (d_trace d') = written_to 7 (d_trace demo_session) @ [[104, 105], [33]]"
    using client_input_in_order [OF demo_session_readable demo_obliging 1 _ 2] by auto
  then show ?thesis using 3 by auto
qed

text \<open>
  C12. A frame with an empty payload, such as the end-of-input frame of the client, is not dispatched
  when it has arrived. The session waits for one more byte of the stream: when one comes, the frame is
  dispatched with this byte as its payload and the next header is read after it, so that the stream
  is out of step by one; when the client hangs up instead, the session is closed and the frame is
  lost. Until then nothing is done but reading: the container's input stays open.
\<close>

theorem empty_frame_swallows_next_byte:
  assumes "readable_session d sid fd" "obliging k" "[] \<notin> set hs" "concat hs = build_frame t []"
  shows "\<exists>d1. feed k (arm_session_read k d sid) sid hs = Some d1 \<and>
    session_input_fd d1 sid = session_input_fd d sid \<and>
    (\<exists>arms. d_trace d1 = d_trace d @ arms \<and> stream_reads fd arms) \<and>
    (\<forall>b. \<exists>d2. shifted d sid fd None d2 \<and> feed k d1 sid [[b]] =
       map_option (\<lambda>(d, go_on). if \<not> go_on then close_session k d sid else arm_session_read k d sid)
         (dispatch_frame k d2 sid t [b])) \<and>
    (\<exists>h d2. shifted d sid fd h d2 \<and> feed k d1 sid [[]] = Some (close_session k d2 sid))"
proof -
  have "[] @ concat hs = [t] @ u16_to_le_bytes 0" using assms(4) by (simp add: build_frame_def)
  from header_pieces [OF assms(1,2) _ start_reading [OF assms(1,2)] _ assms(3) this]
  obtain d1 where d1: "feed k (arm_session_read k d sid) sid hs = Some d1"
    "reading d sid fd On_session_payload (LSessionPayload sid t [] 0) (max 0 1) d1" by auto
  have next_byte: "\<exists>d2. shifted d sid fd None d2 \<and> feed k d1 sid [[b]] = after_frame k sid (dispatch_frame k d2 sid t [b])" for b
    using payload_last [OF d1(2) assms(1,2), of "[b]"] by auto
  obtain h d2 where "shifted d sid fd h d2"
    "feed_piece k d1 sid [] = run_callback k d2 On_session_payload (LSessionPayload sid t [] 0) (BytesResult (Inr []))"
    using reading_feed [OF d1(2) assms(1)] by blast
  then have "\<exists>h d2. shifted d sid fd h d2 \<and> feed k d1 sid [[]] = Some (close_session k d2 sid)"
    by (auto simp: run_callback_def on_session_payload_def)
  then show ?thesis using d1(1) reading_shifted(1,3) [OF d1(2)] next_byte by (simp add: after_frame_def)
qed

theorem empty_frame_swallows_next_byte_witness:
  "\<exists>d1. feed demo_kernel (arm_session_read demo_kernel demo_session 0) 0 [[17, 0], [0]] = Some d1 \<and>
     session_input_fd d1 0 = 7 \<and>
     (\<forall>b. \<exists>d2. feed demo_kernel d1 0 [[b]] =
       map_option (\<lambda>(d, go_on). if \<not> go_on then close_session demo_kernel d 0 else arm_session_read demo_kernel d 0)
         (dispatch_frame demo_kernel d2 0 17 [b]))"
proof -
  have 1: "[] \<notin> set [[17, 0], [0 :: byte]]" by simp
  have 2: "concat [[17, 0], [0]] = build_frame 17 []"
    by (simp add: build_frame_def u16_to_le_bytes_def)
  have 3: "session_input_fd demo_session 0 = 7"
    by (simp add: demo_session_def session_input_fd_def get_session_def session_new_def)
  show ?thesis
    using empty_frame_swallows_next_byte [OF demo_session_readable demo_obliging 1 2] unfolding 3 by blast
qed

text \<open>
  C11. When a header comes in two pieces, the read for the second asks for three bytes again, and what
  it brings beyond the header is lost: the bytes \<open>x\<close> belong to the payload, but the frame that is
  dispatched has the bytes that come after them, which reach into the next frame.
\<close>

theorem short_header_loses_payload:
  assumes "readable_session d sid fd" "obliging k" "p \<noteq> []" "length p < 3" "q \<noteq> []"
    and "p @ q = [t] @ u16_to_le_bytes (length (concat ps)) @ x" "[] \<notin> set ps" "ps \<noteq> []" "length (concat ps) < 2 ^ 16"
  shows "(\<exists>d1. feed k (arm_session_read k d sid) sid [p] = Some d1 \<and>
      reading d sid fd On_session_header (LSessionHeader sid p) 3 d1) \<and>
    (\<exists>d2. shifted d sid fd None d2 \<and> feed k (arm_session_read k d sid) sid (p # q # ps) =
      map_option (\<lambda>(d, go_on). if \<not> go_on then close_session k d sid else arm_session_read k d sid)
        (dispatch_frame k d2 sid t (concat ps)))"
proof -
  obtain d1 where d1: "feed_piece k (arm_session_read k d sid) sid p = Some d1"
    "reading d sid fd On_session_header (LSessionHeader sid p) 3 d1"
    using header_piece [OF start_reading [OF assms(1,2)] assms(1-3)] assms(4) by auto
  obtain e where e: "feed_piece k d1 sid q = Some e"
    "reading d sid fd On_session_payload (LSessionPayload sid t [] (length (concat ps))) (max (length (concat ps)) 1) e"
    using header_overrun [OF d1(2) assms(1,2,5,6,9)] by blast
  have "0 < length (concat ps)" using assms(7,8) by (cases ps) auto
  with payload_pieces [OF assms(1,2) e(2) _ assms(7)] d1 e(1) show ?thesis by (auto simp: after_frame_def)
qed

theorem short_header_loses_payload_witness:
  "\<exists>d2. shifted demo_session 0 50 None d2 \<and>
     feed demo_kernel (arm_session_read demo_kernel demo_session 0) 0 [[16], [2, 0, 104], [105, 16]] =
     map_option (\<lambda>(d, go_on). if \<not> go_on then close_session demo_kernel d 0 else arm_session_read demo_kernel d 0)
       (dispatch_frame demo_kernel d2 0 16 [105, 16])"
proof -
  have "[16] @ [2, 0, 104 :: byte] = [16] @ u16_to_le_bytes (length (concat [[105, 16 :: byte]])) @ [104]"
    by (simp add: u16_to_le_bytes_def)
  from short_header_loses_payload [OF demo_session_readable demo_obliging _ _ _ this] show ?thesis by simp
qed

end
