(* ===== verification/Container_Child.thy ===== *)
theory Container_Child
  imports Daemon_Requests
begin

text \<open>
  The child's side of a container (\<^verbatim>\<open>libs/core/src/daemon.rs\<close>, \<^verbatim>\<open>lib.rs\<close>, \<^verbatim>\<open>pty.rs\<close>, \<^verbatim>\<open>interprocess.rs\<close>):
  what the cloned process does with its descriptors, how it waits for the parent's start signal, how
  the root filesystem is put together, and the built-in init that runs as process 1.

  \<^item> The kernel as the child sees it is the record \<open>proc_ops\<close> over a world \<open>'w\<close>.
  \<^item> Functions of type \<^verbatim>\<open>!\<close> return how the process ended: by an exit code, or by being replaced.
  \<^item> \<open>c_trace\<close> is a ghost field: the system calls, in order.
  \<^item> A chain of calls with \<^verbatim>\<open>?\<close> is a list of steps that stops at the first error.
\<close>

section \<open>The process\<close>

datatype fs_step =
    Mount "bytes option" bytes "bytes option" u64 "bytes option"
  | CreateDir bytes
  | CreateDirAll bytes
  | WriteEmpty bytes
  | Chdir bytes
  | Chroot bytes

datatype child_event =
    CClose fd
  | CDup2 fd fd
  | COpenNull
  | CSetsid
  | CTiocsctty fd
  | CReadSignal fd
  | CBringUpLo
  | CSethostname
  | CStep fs_step
  | CExec "cstring list"
  | CSigprocmask
  | CSignalfd
  | CFork
  | CPoll
  | CReadSiginfo fd
  | CWait4 pid
  | CKill pid int

datatype ending = Exited int | Replaced "cstring list"

record 'w child =
  c_world :: 'w
  c_trace :: "child_event list"

record 'w proc_ops =
  pk_close :: "'w \<Rightarrow> fd \<Rightarrow> 'w"
  pk_dup2 :: "'w \<Rightarrow> fd \<Rightarrow> fd \<Rightarrow> 'w \<times> unit io_result"
  pk_open_null :: "'w \<Rightarrow> 'w \<times> fd"
  pk_setsid :: "'w \<Rightarrow> 'w \<times> unit io_result"
  pk_tiocsctty :: "'w \<Rightarrow> fd \<Rightarrow> 'w \<times> unit io_result"
  pk_read1 :: "'w \<Rightarrow> fd \<Rightarrow> 'w \<times> nat io_result"
  pk_bring_up_lo :: "'w \<Rightarrow> 'w \<times> unit io_result"
  pk_sethostname :: "'w \<Rightarrow> 'w \<times> unit io_result"
  pk_step :: "'w \<Rightarrow> fs_step \<Rightarrow> 'w \<times> unit io_result"
  pk_exec :: "'w \<Rightarrow> cstring list \<Rightarrow> 'w \<times> io_error option"
  pk_sigprocmask :: "'w \<Rightarrow> 'w \<times> unit io_result"
  pk_signalfd :: "'w \<Rightarrow> 'w \<times> fd io_result"
  pk_fork :: "'w \<Rightarrow> 'w \<times> pid"
  pk_poll :: "'w \<Rightarrow> fd \<Rightarrow> fd \<Rightarrow> 'w \<times> (bool \<times> bool) io_result"
  pk_siginfo :: "'w \<Rightarrow> fd \<Rightarrow> 'w \<times> int io_result"
  pk_wait4 :: "'w \<Rightarrow> pid \<Rightarrow> 'w \<times> (pid \<times> int) io_result"
  pk_kill :: "'w \<Rightarrow> pid \<Rightarrow> int \<Rightarrow> 'w"
  pk_display :: "bytes \<Rightarrow> bytes"

text \<open>A call: record it, then let the kernel answer.\<close>

definition call :: "child_event \<Rightarrow> ('w \<Rightarrow> 'w \<times> 'r) \<Rightarrow> 'w child \<Rightarrow> 'w child \<times> 'r" where
  "call e f c = (let (w, r) = f (c_world c) in (\<lparr>c_world = w, c_trace = c_trace c @ [e]\<rparr>, r))"

definition child_close :: "'w proc_ops \<Rightarrow> 'w child \<Rightarrow> fd \<Rightarrow> 'w child" where
  "child_close p c fd = fst (call (CClose fd) (\<lambda>w. (pk_close p w fd, ())) c)"

definition child_dup2 :: "'w proc_ops \<Rightarrow> 'w child \<Rightarrow> fd \<Rightarrow> fd \<Rightarrow> 'w child \<times> unit io_result" where
  "child_dup2 p c a b = call (CDup2 a b) (\<lambda>w. pk_dup2 p w a b) c"

section \<open>Start signal and controlling terminal\<close>

definition signal_wait :: "'w proc_ops \<Rightarrow> 'w child \<Rightarrow> fd \<times> fd \<Rightarrow> 'w child \<times> unit io_result" where
  "signal_wait p c s =
     (let c = child_close p c (snd s);
          (c, ret) = call (CReadSignal (fst s)) (\<lambda>w. pk_read1 p w (fst s)) c;
          c = child_close p c (fst s)
      in (c, case ret of Inr n \<Rightarrow> if n = 1 then Inr () else Inl UnexpectedEof | Inl e \<Rightarrow> Inl e))"

text \<open>The slave end is closed when the function returns, on every path.\<close>

definition make_controlling :: "'w proc_ops \<Rightarrow> 'w child \<Rightarrow> fd \<Rightarrow> 'w child \<times> unit io_result" where
  "make_controlling p c slave =
     (case call CSetsid (pk_setsid p) c of
        (c, Inl e) \<Rightarrow> (child_close p c slave, Inl e)
      | (c, Inr _) \<Rightarrow>
          (case call (CTiocsctty slave) (\<lambda>w. pk_tiocsctty p w slave) c of
             (c, Inl e) \<Rightarrow> (child_close p c slave, Inl e)
           | (c, Inr _) \<Rightarrow>
               (case child_dup2 p c slave 0 of
                  (c, Inl e) \<Rightarrow> (child_close p c slave, Inl e)
                | (c, Inr _) \<Rightarrow>
                    (case child_dup2 p c slave 1 of
                       (c, Inl e) \<Rightarrow> (child_close p c slave, Inl e)
                     | (c, Inr _) \<Rightarrow>
                         (case child_dup2 p c slave 2 of (c, r) \<Rightarrow> (child_close p c slave, r))))))"

section \<open>The root filesystem\<close>

definition MS_BIND :: u64 where "MS_BIND = 0x1000"
definition MS_REC :: u64 where "MS_REC = 0x4000"
definition MS_PRIVATE :: u64 where "MS_PRIVATE = 0x40000"

definition str :: "string \<Rightarrow> bytes" where
  "str s = map of_char s"

definition path_join :: "bytes \<Rightarrow> bytes \<Rightarrow> bytes" where
  "path_join a b = (if a = [] \<or> last a = 47 then a @ b else a @ [47] @ b)"

definition device_names :: "string list" where
  "device_names = [''null'', ''zero'', ''random'', ''urandom'', ''full'', ''tty'']"

definition device_steps :: "bytes \<Rightarrow> string \<Rightarrow> fs_step list" where
  "device_steps dev name =
     [WriteEmpty (path_join dev (str name)),
      Mount (Some (str ''/dev/'' @ str name)) (path_join dev (str name)) None MS_BIND None]"

definition container_root_steps :: "bytes \<Rightarrow> fs_step list" where
  "container_root_steps rootfs =
     [Mount None (str ''/'') None (MS_REC OR MS_PRIVATE) None,
      Mount (Some rootfs) rootfs None (MS_BIND OR MS_REC) None,
      CreateDirAll (path_join rootfs (str ''dev''))] @
     concat (map (device_steps (path_join rootfs (str ''dev''))) device_names) @
     [Chdir rootfs, Chroot rootfs, Chdir (str ''/''),
      Mount (Some (str ''proc'')) (str ''/proc'') (Some (str ''proc'')) 0 None]"

fun run_steps :: "'w proc_ops \<Rightarrow> 'w child \<Rightarrow> fs_step list \<Rightarrow> 'w child \<times> unit io_result" where
  "run_steps p c [] = (c, Inr ())"
| "run_steps p c (s # ss) =
     (case call (CStep s) (\<lambda>w. pk_step p w s) c of
        (c, Inl e) \<Rightarrow> (c, Inl e)
      | (c, Inr _) \<Rightarrow> run_steps p c ss)"

text \<open>A path with a null byte panics at the \<^verbatim>\<open>unwrap\<close>.\<close>

definition setup_container_root :: "'w proc_ops \<Rightarrow> 'w child \<Rightarrow> bytes \<Rightarrow> ('w child \<times> unit io_result) option" where
  "setup_container_root p c rootfs = do {
     ensure (0 \<notin> set rootfs);
     Some (run_steps p c (container_root_steps rootfs))
   }"

definition overlay_opts :: "'w proc_ops \<Rightarrow> bytes \<Rightarrow> bytes \<Rightarrow> bytes \<Rightarrow> bytes" where
  "overlay_opts p rootfs upper work =
     str ''lowerdir='' @ pk_display p rootfs @ str '',upperdir='' @ pk_display p upper @
     str '',workdir='' @ pk_display p work"

definition setup_overlay_rootfs ::
  "'w proc_ops \<Rightarrow> 'w child \<Rightarrow> bytes \<Rightarrow> bytes \<Rightarrow> ('w child \<times> bytes io_result) option"
where
  "setup_overlay_rootfs p c rootfs overlay_dir =
     (let upper = path_join overlay_dir (str ''upper'');
          work = path_join overlay_dir (str ''work'');
          merged = path_join overlay_dir (str ''merged'')
      in case run_steps p c [CreateDir upper, CreateDir work, CreateDir merged] of
           (c, Inl e) \<Rightarrow> Some (c, Inl e)
         | (c, Inr _) \<Rightarrow> do {
             ensure (0 \<notin> set merged);
             (case run_steps p c [Mount (Some (str ''overlay'')) merged (Some (str ''overlay'')) 0
                                    (Some (overlay_opts p rootfs upper work))] of
                (c, Inl e) \<Rightarrow> Some (c, Inl e)
              | (c, Inr _) \<Rightarrow> Some (c, Inr merged))
           })"

section \<open>The built-in init\<close>

definition SIGCHLD :: int where
  "SIGCHLD = 17"

definition EINTR :: errno where
  "EINTR = 4"

text \<open>
  One round of process 1: the daemon's death ends the namespace, the end of the command ends the
  container with its code, any other signal is passed on. \<open>None\<close> is a round that goes on.
\<close>

definition init_round ::
  "'w proc_ops \<Rightarrow> fd \<Rightarrow> fd \<Rightarrow> pid \<Rightarrow> 'w child \<Rightarrow> 'w child \<times> ending option"
where
  "init_round p death_pipe sigfd gpid c =
     (case call CPoll (\<lambda>w. pk_poll p w death_pipe sigfd) c of
        (c, Inl e) \<Rightarrow> (c, if e = Os EINTR then None else Some (Exited 1))
      | (c, Inr (died, sig)) \<Rightarrow>
          (if died then
             (fst (call (CKill (-1) SIGKILL) (\<lambda>w. (pk_kill p w (-1) SIGKILL, ())) c), Some (Exited 137))
           else if sig then
             (case call (CReadSiginfo sigfd) (\<lambda>w. pk_siginfo p w sigfd) c of
                (c, Inl e) \<Rightarrow> (c, Some (Exited 1))
              | (c, Inr signo) \<Rightarrow>
                  (if signo = SIGCHLD then
                     (case call (CWait4 gpid) (\<lambda>w. pk_wait4 p w gpid) c of
                        (c, r) \<Rightarrow>
                          (let (reaped, status) = (case r of Inr x \<Rightarrow> x | Inl e \<Rightarrow> (-1, 0))
                           in (c, if reaped = gpid then Some (Exited (exit_code_of status)) else None)))
                   else
                     (fst (call (CKill gpid signo) (\<lambda>w. (pk_kill p w gpid signo, ())) c), None)))
           else (c, None)))"

text \<open>The loop; a process 1 that serves for ever has no result.\<close>

partial_function (option) init_loop ::
  "'w proc_ops \<Rightarrow> fd \<Rightarrow> fd \<Rightarrow> pid \<Rightarrow> 'w child \<Rightarrow> ('w child \<times> ending) option"
where
  "init_loop p death_pipe sigfd gpid c =
     (case init_round p death_pipe sigfd gpid c of
        (c, None) \<Rightarrow> init_loop p death_pipe sigfd gpid c
      | (c, Some e) \<Rightarrow> Some (c, e))"

declare init_loop.simps [code]

definition exec_or_exit :: "'w proc_ops \<Rightarrow> 'w child \<Rightarrow> cstring list \<Rightarrow> int \<Rightarrow> 'w child \<times> ending" where
  "exec_or_exit p c argv code =
     (case call (CExec argv) (\<lambda>w. pk_exec p w argv) c of
        (c, None) \<Rightarrow> (c, Replaced argv)
      | (c, Some e) \<Rightarrow> (c, Exited code))"

definition run_init_loop :: "'w proc_ops \<Rightarrow> 'w child \<Rightarrow> fd \<Rightarrow> cstring list \<Rightarrow> ('w child \<times> ending) option" where
  "run_init_loop p c death_pipe_read command =
     (case call CSigprocmask (pk_sigprocmask p) c of
        (c, Inl e) \<Rightarrow> Some (c, Exited 1)
      | (c, Inr _) \<Rightarrow>
          (case call CSignalfd (pk_signalfd p) c of
             (c, Inl e) \<Rightarrow> Some (c, Exited 1)
           | (c, Inr sigfd) \<Rightarrow>
               (case call CFork (pk_fork p) c of
                  (c, gpid) \<Rightarrow>
                    (if gpid < 0 then Some (c, Exited 1)
                     else if gpid = 0 then
                       (let c = child_close p (child_close p c death_pipe_read) sigfd;
                            (c, _) = call CSigprocmask (pk_sigprocmask p) c
                        in Some (exec_or_exit p c command 127))
                     else init_loop p death_pipe_read sigfd gpid c))))"

definition child_init_environment ::
  "'w proc_ops \<Rightarrow> 'w child \<Rightarrow> path option \<Rightarrow> path option \<Rightarrow> cstring list \<Rightarrow> fd option \<Rightarrow> cstring list option \<Rightarrow> bool \<Rightarrow>
   ('w child \<times> ending) option"
where
  "child_init_environment p c rootfs overlay_dir command death_pipe_read init_argv no_init = do {
     let (c, _) = call CBringUpLo (pk_bring_up_lo p) c;
     let (c, _) = call CSethostname (pk_sethostname p) c;
     (c, failed) \<leftarrow>
       (case rootfs of
          None \<Rightarrow> Some (c, False)
        | Some rootfs_path \<Rightarrow> do {
            overlay \<leftarrow> overlay_dir;
            (c, r) \<leftarrow> setup_overlay_rootfs p c rootfs_path overlay;
            (case r of
               Inl e \<Rightarrow> Some (c, True)
             | Inr merged \<Rightarrow> do {
                 (c, r) \<leftarrow> setup_container_root p c merged;
                 Some (c, isl r)
               })
          });
     if failed then Some (c, Exited 1)
     else (case init_argv of
             Some argv \<Rightarrow> Some (exec_or_exit p c argv 127)
           | None \<Rightarrow>
               (if no_init then Some (exec_or_exit p c command 1)
                else do {
                  d \<leftarrow> death_pipe_read;
                  run_init_loop p c d command
                }))
   }"

section \<open>The cloned process\<close>

text \<open>Standard output and error go to the pipe; the original descriptor is closed unless it is one of them.\<close>

definition redirect_output :: "'w proc_ops \<Rightarrow> 'w child \<Rightarrow> fd \<Rightarrow> 'w child" where
  "redirect_output p c write_fd =
     (let (c, _) = child_dup2 p c write_fd 1;
          (c, _) = child_dup2 p c write_fd 2
      in if write_fd \<noteq> 1 \<and> write_fd \<noteq> 2 then child_close p c write_fd else c)"

definition redirect_stdin_null :: "'w proc_ops \<Rightarrow> 'w child \<Rightarrow> 'w child \<times> bool" where
  "redirect_stdin_null p c =
     (case call COpenNull (pk_open_null p) c of
        (c, fd) \<Rightarrow>
          (if fd < 0 then (c, False)
           else (let (c, _) = child_dup2 p c fd 0 in (child_close p c fd, True))))"

text \<open>Wait for the start signal, drop the write end of the death pipe, set up and run.\<close>

definition child_start :: "'w proc_ops \<Rightarrow> 'w child \<Rightarrow> prepared \<Rightarrow> ('w child \<times> ending) option" where
  "child_start p c prep =
     (case signal_wait p c (pr_signal prep) of
        (c, Inl e) \<Rightarrow> Some (c, Exited 1)
      | (c, Inr _) \<Rightarrow>
          (let (c, death_pipe_read) = (case pr_death_pipe prep of
                 None \<Rightarrow> (c, None)
               | Some (r, w) \<Rightarrow> (child_close p c w, Some r))
           in child_init_environment p c (pr_rootfs prep) (pr_overlay_dir prep) (pr_command prep) death_pipe_read
                (pr_init_argv prep) (pr_no_init prep)))"

definition close_if_set :: "'w proc_ops \<Rightarrow> 'w child \<Rightarrow> fd option \<Rightarrow> 'w child" where
  "close_if_set p c fd = (case fd of None \<Rightarrow> c | Some fd \<Rightarrow> child_close p c fd)"

text \<open>
  The descriptors of a detached run's child; the pty, when there is one, is \<open>(master, slave)\<close>. The
  result says whether the child goes on.
\<close>

definition run_child_stdio ::
  "'w proc_ops \<Rightarrow> 'w child \<Rightarrow> fd \<times> fd \<Rightarrow> (fd \<times> fd) option \<Rightarrow> (fd \<times> fd) option \<Rightarrow> 'w child \<times> bool"
where
  "run_child_stdio p c log_pipe stdin_pipe pty =
     (let c = redirect_output p (child_close p c (fst log_pipe)) (snd log_pipe) in
      case pty of
        Some (m, s) \<Rightarrow>
          (case make_controlling p (child_close p c m) s of
             (c, Inl e) \<Rightarrow> (c, False)
           | (c, Inr _) \<Rightarrow>
               (let c = redirect_output p c (snd log_pipe);
                    c = close_if_set p c (map_option fst stdin_pipe);
                    c = close_if_set p c (map_option snd stdin_pipe)
                in (c, True)))
      | None \<Rightarrow>
          (case stdin_pipe of
             Some (r, w) \<Rightarrow>
               (let c = child_close p c w;
                    (c, _) = child_dup2 p c r 0;
                    c = child_close p c r
                in (c, True))
           | None \<Rightarrow> redirect_stdin_null p c))"

definition run_child ::
  "'w proc_ops \<Rightarrow> 'w child \<Rightarrow> prepared \<Rightarrow> fd \<times> fd \<Rightarrow> (fd \<times> fd) option \<Rightarrow> (fd \<times> fd) option \<Rightarrow> ('w child \<times> ending) option"
where
  "run_child p c prep log_pipe stdin_pipe pty =
     (case run_child_stdio p c log_pipe stdin_pipe pty of
        (c, False) \<Rightarrow> Some (c, Exited 1)
      | (c, True) \<Rightarrow> child_start p c prep)"

text \<open>The child of a run inside a session: either a pty or a log pipe.\<close>

definition attach_child_stdio ::
  "'w proc_ops \<Rightarrow> 'w child \<Rightarrow> (fd \<times> fd) option \<Rightarrow> (fd \<times> fd) option \<Rightarrow> 'w child \<times> bool"
where
  "attach_child_stdio p c log_pipe pty =
     (case pty of
        Some (m, s) \<Rightarrow>
          (case make_controlling p (child_close p c m) s of
             (c, Inl e) \<Rightarrow> (c, False)
           | (c, Inr _) \<Rightarrow> (c, True))
      | None \<Rightarrow>
          (let (r, w) = (case log_pipe of Some p \<Rightarrow> p | None \<Rightarrow> (-1, -1))
           in redirect_stdin_null p (redirect_output p (child_close p c r) w)))"

definition attach_child ::
  "'w proc_ops \<Rightarrow> 'w child \<Rightarrow> prepared \<Rightarrow> (fd \<times> fd) option \<Rightarrow> (fd \<times> fd) option \<Rightarrow> ('w child \<times> ending) option"
where
  "attach_child p c prep log_pipe pty =
     (case attach_child_stdio p c log_pipe pty of
        (c, False) \<Rightarrow> Some (c, Exited 1)
      | (c, True) \<Rightarrow> child_start p c prep)"

end
