(* ===== verification/Child_Safety.thy ===== *)
theory Child_Safety
  imports Container_Child
begin

text \<open>
  What the child's side of a container guarantees: nothing runs before the parent's start signal,
  the command runs only inside the finished root filesystem, the built-in init reports the right exit
  code, and which descriptors are the standard streams of the command.
\<close>

section \<open>Traces\<close>

text \<open>\<open>emits Q c c'\<close>: between the two states only calls that satisfy \<open>Q\<close> were made.\<close>

definition emits :: "(child_event \<Rightarrow> bool) \<Rightarrow> 'w child \<Rightarrow> 'w child \<Rightarrow> bool" where
  "emits Q c c' \<longleftrightarrow> (\<exists>es. c_trace c' = c_trace c @ es \<and> list_all Q es)"

lemma emits_refl [simp]: "emits Q c c"
  by (simp add: emits_def)

lemma emits_trans: "emits Q a b \<Longrightarrow> emits Q b c \<Longrightarrow> emits Q a c"
  by (force simp: emits_def)

lemma emits_call: "call e f c = (c', r) \<Longrightarrow> Q e \<Longrightarrow> emits Q c c'"
  by (auto simp: call_def emits_def split: prod.splits)

lemma emits_close: "Q (CClose fd) \<Longrightarrow> emits Q c (child_close p c fd)"
  by (auto simp: child_close_def call_def emits_def split: prod.splits)

lemma emits_dup2: "child_dup2 p c a b = (c', r) \<Longrightarrow> Q (CDup2 a b) \<Longrightarrow> emits Q c c'"
  by (auto simp: child_dup2_def intro: emits_call)

text \<open>The calls that only arrange descriptors and wait.\<close>

fun is_wiring :: "child_event \<Rightarrow> bool" where
  "is_wiring (CClose _) = True"
| "is_wiring (CDup2 _ _) = True"
| "is_wiring COpenNull = True"
| "is_wiring CSetsid = True"
| "is_wiring (CTiocsctty _) = True"
| "is_wiring (CReadSignal _) = True"
| "is_wiring _ = False"

lemma wires_close [simp]: "emits is_wiring c (child_close p c fd)"
  by (simp add: emits_close)

lemma wires_dup2: "child_dup2 p c a b = (c', r) \<Longrightarrow> emits is_wiring c c'"
  by (simp add: emits_dup2)

lemma wires_fst_dup2 [simp]: "emits is_wiring c (fst (child_dup2 p c a b))"
  by (metis wires_dup2 prod.collapse)

lemma wires_then_close: "emits is_wiring c c' \<Longrightarrow> emits is_wiring c (child_close p c' fd)"
  by (rule emits_trans [OF _ wires_close])

lemma wires_redirect_output [simp]: "emits is_wiring c (redirect_output p c fd)"
  by (auto simp: redirect_output_def Let_def split: prod.splits
      intro: emits_trans [OF wires_dup2 emits_trans [OF wires_dup2]] emits_trans [OF wires_dup2 wires_dup2])

lemma wires_setsid: "call CSetsid f c = (c', r) \<Longrightarrow> emits is_wiring c c'"
  and wires_tiocsctty: "call (CTiocsctty s) g c = (c', r') \<Longrightarrow> emits is_wiring c c'"
  by (auto intro: emits_call)

lemma wires_make_controlling:
  assumes "make_controlling p c s = (c', r)"
  shows "emits is_wiring c c'"
  using assms unfolding make_controlling_def
  by (auto split: prod.splits sum.splits intro!: wires_then_close)
    (meson emits_trans wires_setsid wires_tiocsctty wires_dup2)+

lemma wires_redirect_stdin_null: "redirect_stdin_null p c = (c', b) \<Longrightarrow> emits is_wiring c c'"
  unfolding redirect_stdin_null_def
  by (auto simp: Let_def split: prod.splits if_splits
      intro!: wires_then_close intro: emits_call emits_trans [OF emits_call] wires_dup2)

lemma wires_close_if_set [simp]: "emits is_wiring c (close_if_set p c fd)"
  by (auto simp: close_if_set_def split: option.splits)

lemma wires_run_child_stdio:
  assumes "run_child_stdio p c lp sp pty = (c', b)"
  shows "emits is_wiring c c'"
proof -
  let ?c = "redirect_output p (child_close p c (fst lp)) (snd lp)"
  have 0: "emits is_wiring c ?c"
    by (rule emits_trans [OF wires_close wires_redirect_output])
  have "emits is_wiring ?c c'"
    using assms
    by (auto simp: run_child_stdio_def Let_def split: option.splits prod.splits sum.splits
        intro!: wires_then_close dest!: wires_make_controlling wires_redirect_stdin_null wires_dup2
        intro: emits_trans [OF wires_close] emits_trans [OF _ emits_trans [OF wires_redirect_output
            emits_trans [OF wires_close_if_set wires_close_if_set]]])
  then show ?thesis
    by (rule emits_trans [OF 0])
qed

lemma wires_attach_child_stdio:
  assumes "attach_child_stdio p c lp pty = (c', b)"
  shows "emits is_wiring c c'"
  using assms
  by (auto simp: attach_child_stdio_def Let_def split: option.splits prod.splits sum.splits
      dest!: wires_make_controlling wires_redirect_stdin_null
      intro: emits_trans [OF wires_close] emits_trans [OF emits_trans [OF wires_close wires_redirect_output]])

section \<open>The start signal\<close>

lemma signal_wait_refuses:
  assumes "\<And>w. snd (pk_read1 p w (fst s)) \<noteq> Inr 1"
  shows "\<exists>c' e. signal_wait p c s = (c', Inl e) \<and> emits is_wiring c c'"
proof -
  obtain c1 ret where c1: "call (CReadSignal (fst s)) (\<lambda>w. pk_read1 p w (fst s)) (child_close p c (snd s)) = (c1, ret)"
    by fastforce
  have ret: "ret \<noteq> Inr 1"
    using assms c1 by (auto simp: call_def split: prod.splits) (metis snd_conv)
  have "emits is_wiring c (child_close p c1 (fst s))"
    using emits_call [OF c1, of is_wiring] by (auto intro!: wires_then_close intro: emits_trans [OF wires_close])
  then show ?thesis
    using ret by (auto simp: signal_wait_def Let_def c1 split: sum.splits)
qed

lemma child_start_refuses:
  assumes "\<And>w. snd (pk_read1 p w (fst (pr_signal prep))) \<noteq> Inr 1"
  shows "\<exists>c'. child_start p c prep = Some (c', Exited 1) \<and> emits is_wiring c c'"
  using signal_wait_refuses [OF assms, of c] by (auto simp: child_start_def)

text \<open>
  C22. Nothing happens before the start signal: a child whose read of the signal pipe does not return
  the one byte (the parent failed and dropped its end, or died) exits with code 1, and all it did was
  arrange descriptors; it mounted nothing, forked nothing and executed nothing. This holds for the
  children of both kinds of run.
\<close>

theorem child_needs_start_signal:
  assumes "\<forall>w. snd (pk_read1 p w (fst (pr_signal prep))) \<noteq> Inr 1"
  shows "(\<exists>c'. run_child p c prep lp sp pty = Some (c', Exited 1) \<and> emits is_wiring c c') \<and>
    (\<exists>c'. attach_child p c prep alp pty = Some (c', Exited 1) \<and> emits is_wiring c c')"
proof
  obtain c1 b where c1: "run_child_stdio p c lp sp pty = (c1, b)"
    by fastforce
  show "\<exists>c'. run_child p c prep lp sp pty = Some (c', Exited 1) \<and> emits is_wiring c c'"
    using child_start_refuses [of p prep c1] assms wires_run_child_stdio [OF c1]
    by (cases b) (auto simp: run_child_def c1 intro: emits_trans)
  obtain c2 b2 where c2: "attach_child_stdio p c alp pty = (c2, b2)"
    by fastforce
  show "\<exists>c'. attach_child p c prep alp pty = Some (c', Exited 1) \<and> emits is_wiring c c'"
    using child_start_refuses [of p prep c2] assms wires_attach_child_stdio [OF c2]
    by (cases b2) (auto simp: attach_child_def c2 intro: emits_trans)
qed

section \<open>The root filesystem\<close>

fun is_step :: "child_event \<Rightarrow> bool" where
  "is_step (CStep _) = True"
| "is_step _ = False"

text \<open>The whole construction of a root, as one list of steps.\<close>

definition root_steps :: "'w proc_ops \<Rightarrow> bytes \<Rightarrow> bytes \<Rightarrow> fs_step list" where
  "root_steps p rootfs overlay_dir =
     (let upper = path_join overlay_dir (str ''upper'');
          work = path_join overlay_dir (str ''work'');
          merged = path_join overlay_dir (str ''merged'')
      in [CreateDir upper, CreateDir work, CreateDir merged,
          Mount (Some (str ''overlay'')) merged (Some (str ''overlay'')) 0 (Some (overlay_opts p rootfs upper work))] @
         container_root_steps merged)"

definition child_net :: "'w proc_ops \<Rightarrow> 'w child \<Rightarrow> 'w child" where
  "child_net p c = fst (call CSethostname (pk_sethostname p) (fst (call CBringUpLo (pk_bring_up_lo p) c)))"

lemma child_net_trace [simp]: "c_trace (child_net p c) = c_trace c @ [CBringUpLo, CSethostname]"
  by (simp add: child_net_def call_def split: prod.splits)

lemma call_trace: "call e f c = (c', r) \<Longrightarrow> c_trace c' = c_trace c @ [e]"
  by (auto simp: call_def split: prod.splits)

lemma run_steps_append:
  "run_steps p c (xs @ ys) =
    (case run_steps p c xs of (c, Inl e) \<Rightarrow> (c, Inl e) | (c, Inr _) \<Rightarrow> run_steps p c ys)"
  by (induction xs arbitrary: c) (auto split: prod.splits sum.splits)

lemma run_steps_trace:
  "run_steps p c ss = (c', r) \<Longrightarrow>
    \<exists>k \<le> length ss. c_trace c' = c_trace c @ map CStep (take k ss) \<and> (\<not> isl r \<longrightarrow> k = length ss)"
proof (induction ss arbitrary: c)
  case (Cons s ss)
  obtain c1 r1 where c1: "call (CStep s) (\<lambda>w. pk_step p w s) c = (c1, r1)"
    by fastforce
  show ?case
  proof (cases r1)
    case (Inl e)
    then show ?thesis
      using Cons.prems c1 call_trace [OF c1] by (auto intro!: exI [of _ 1])
  next
    case (Inr u)
    then obtain k where "k \<le> length ss" "c_trace c' = c_trace c1 @ map CStep (take k ss)" "\<not> isl r \<longrightarrow> k = length ss"
      using Cons c1 by auto
    then show ?thesis
      using call_trace [OF c1] by (auto intro!: exI [of _ "Suc k"])
  qed
qed auto

definition not_step :: "child_event \<Rightarrow> bool" where
  "not_step e \<longleftrightarrow> \<not> is_step e"

lemma not_step_simps [simp]:
  "not_step (CExec a)" "not_step CSigprocmask" "not_step CSignalfd" "not_step CFork" "not_step CPoll"
  "not_step (CReadSiginfo f)" "not_step (CWait4 q)" "not_step (CKill q g)" "not_step (CClose f)"
  by (simp_all add: not_step_def)

lemma stepless_round:
  assumes "init_round p d s g c = (c', r)"
  shows "emits not_step c c'"
proof -
  obtain w1 a where a: "pk_poll p (c_world c) d s = (w1, a)" by fastforce
  obtain w2 b where b: "pk_siginfo p w1 s = (w2, b)" by fastforce
  obtain w3 x where x: "pk_wait4 p w2 g = (w3, x)" by fastforce
  note defs = init_round_def call_def a b x
  have "emits not_step c (fst (init_round p d s g c))"
  proof (cases a)
    case (Inr y)
    then show ?thesis
      by (cases b; cases y) (simp_all add: defs emits_def split_def Let_def)
  qed (simp add: defs emits_def)
  then show ?thesis
    using assms by simp
qed

lemma stepless_init_loop:
  assumes "init_loop p d s g c = Some r"
  shows "emits not_step c (fst r)"
proof (rule init_loop.raw_induct [where P = "\<lambda>p d s g c r. emits not_step c (fst r)", OF _ assms])
  fix f :: "'a proc_ops \<Rightarrow> int \<Rightarrow> int \<Rightarrow> int \<Rightarrow> 'a child \<Rightarrow> ('a child \<times> ending) option" and p d s g c r
  assume IH: "\<And>p d s g c r. f p d s g c = Some r \<Longrightarrow> emits not_step c (fst r)"
    and res: "(case init_round p d s g c of (c, None) \<Rightarrow> f p d s g c | (c, Some e) \<Rightarrow> Some (c, e)) = Some r"
  obtain c1 x where c1: "init_round p d s g c = (c1, x)" by fastforce
  show "emits not_step c (fst r)"
    using res IH emits_trans [OF stepless_round [OF c1]] stepless_round [OF c1]
    by (cases x) (auto simp: c1)
qed

lemma stepless_exec: "emits not_step c (fst (exec_or_exit p c argv code))"
  by (auto simp: exec_or_exit_def split: prod.splits option.splits dest: emits_call [where Q = not_step])

lemma stepless_init:
  assumes "run_init_loop p c d cmd = Some (c', e)"
  shows "emits not_step c c'"
proof -
  obtain c1 r1 where c1: "call CSigprocmask (pk_sigprocmask p) c = (c1, r1)" by fastforce
  obtain c2 r2 where c2: "call CSignalfd (pk_signalfd p) c1 = (c2, r2)" by fastforce
  obtain c3 g where c3: "call CFork (pk_fork p) c2 = (c3, g)" by fastforce
  obtain c5 x where c5: "call CSigprocmask (pk_sigprocmask p) (child_close p (child_close p c3 d) (projr r2)) = (c5, x)"
    by fastforce
  have c12: "emits not_step c c2" and c13: "emits not_step c c3"
    using emits_call [OF c1, of not_step] emits_call [OF c2, of not_step] emits_call [OF c3, of not_step]
    by (auto intro: emits_trans)
  have c15: "emits not_step c c5"
    by (rule emits_trans [OF c13 emits_trans [OF emits_close emits_trans [OF emits_close emits_call [OF c5]]]]) simp_all
  show ?thesis
  proof (cases "isl r1 \<or> isl r2")
    case True
    then show ?thesis
      using assms emits_call [OF c1, of not_step] c12
      by (cases r1; cases r2) (auto simp: run_init_loop_def c1 c2 c3)
  next
    case False
    then obtain sigfd where r: "\<not> isl r1" "r2 = Inr sigfd" by (cases r2) auto
    consider "g < 0" | "g = 0" | "0 < g" by linarith
    then show ?thesis
    proof cases
      case 2
      have "(c', e) = exec_or_exit p c5 cmd 127"
        using assms r 2 c5 by (cases r1) (auto simp: run_init_loop_def c1 c2 c3)
      then show ?thesis
        by (metis c15 stepless_exec emits_trans fst_conv)
    next
      case 3
      then have "init_loop p d sigfd g c3 = Some (c', e)"
        using assms r by (cases r1) (auto simp: run_init_loop_def c1 c2 c3)
      from stepless_init_loop [OF this] show ?thesis
        using c13 by (auto intro: emits_trans)
    qed (use assms r c13 in \<open>cases r1; auto simp: run_init_loop_def c1 c2 c3\<close>)
  qed
qed

text \<open>What follows the root: one of the three ways to start the command.\<close>

definition launch ::
  "'w proc_ops \<Rightarrow> 'w child \<Rightarrow> cstring list \<Rightarrow> fd option \<Rightarrow> cstring list option \<Rightarrow> bool \<Rightarrow> ('w child \<times> ending) option"
where
  "launch p c command death_pipe_read init_argv no_init =
     (case init_argv of
        Some argv \<Rightarrow> Some (exec_or_exit p c argv 127)
      | None \<Rightarrow>
          (if no_init then Some (exec_or_exit p c command 1)
           else do {
             d \<leftarrow> death_pipe_read;
             run_init_loop p c d command
           }))"

lemma stepless_launch: "launch p c cmd d ia ni = Some (c', e) \<Longrightarrow> emits not_step c c'"
  using stepless_exec [of c p] stepless_init [of p c _ cmd c' e]
  by (auto simp: launch_def split: option.splits if_splits Option.bind_splits) (metis fst_conv)+

lemma null_free_join: "0 \<notin> set ov \<Longrightarrow> 0 \<notin> set (path_join ov (str ''merged''))"
  by (auto simp: path_join_def str_def)

lemma child_init_environment_rooted:
  assumes "0 \<notin> set overlay_dir"
  shows "child_init_environment p c (Some rootfs) (Some overlay_dir) cmd d ia ni =
    (case run_steps p (child_net p c) (root_steps p rootfs overlay_dir) of
       (c, Inl e) \<Rightarrow> Some (c, Exited 1)
     | (c, Inr _) \<Rightarrow> launch p c cmd d ia ni)"
proof -
  let ?u = "path_join overlay_dir (str ''upper'')" and ?k = "path_join overlay_dir (str ''work'')"
    and ?m = "path_join overlay_dir (str ''merged'')"
  let ?dirs = "[CreateDir ?u, CreateDir ?k, CreateDir ?m]"
  let ?mount = "[Mount (Some (str ''overlay'')) ?m (Some (str ''overlay'')) 0 (Some (overlay_opts p rootfs ?u ?k))]"
  obtain c1 r1 where 1: "run_steps p (child_net p c) ?dirs = (c1, r1)" by fastforce
  obtain c2 r2 where 2: "run_steps p c1 ?mount = (c2, r2)" by fastforce
  obtain c3 r3 where 3: "run_steps p c2 (container_root_steps ?m) = (c3, r3)" by fastforce
  have env: "child_init_environment p c (Some rootfs) (Some overlay_dir) cmd d ia ni =
    (case setup_overlay_rootfs p (child_net p c) rootfs overlay_dir of
       None \<Rightarrow> None
     | Some (c, Inl e) \<Rightarrow> Some (c, Exited 1)
     | Some (c, Inr merged) \<Rightarrow>
         (case setup_container_root p c merged of
            None \<Rightarrow> None
          | Some (c, r) \<Rightarrow> if isl r then Some (c, Exited 1) else launch p c cmd d ia ni))"
    by (simp add: child_init_environment_def child_net_def launch_def split_def split: option.splits sum.splits)
  have steps: "root_steps p rootfs overlay_dir = ?dirs @ ?mount @ container_root_steps ?m"
    by (simp add: root_steps_def Let_def)
  show ?thesis
    unfolding env steps run_steps_append setup_overlay_rootfs_def setup_container_root_def Let_def 1
    using null_free_join [OF assms] 2 3
    by (cases r1; cases r2; cases r3) (simp_all add: ensure_def)
qed

text \<open>
  C21. The command runs only in the finished root: with a root filesystem, the child makes the steps of
  overlay, bind mounts, devices, change of root and \<^verbatim>\<open>/proc\<close> in this order. When one fails the child exits
  with code 1 after a prefix of them and runs nothing; otherwise all of them come before everything
  that runs the command, and none after.
\<close>

theorem command_runs_in_finished_root:
  assumes "0 \<notin> set overlay_dir"
  shows "case run_steps p (child_net p c) (root_steps p rootfs overlay_dir) of
      (c1, Inl _) \<Rightarrow>
        child_init_environment p c (Some rootfs) (Some overlay_dir) cmd d ia ni = Some (c1, Exited 1) \<and>
        (\<exists>k. c_trace c1 = c_trace c @ [CBringUpLo, CSethostname] @ map CStep (take k (root_steps p rootfs overlay_dir)))
    | (c1, Inr _) \<Rightarrow>
        c_trace c1 = c_trace c @ [CBringUpLo, CSethostname] @ map CStep (root_steps p rootfs overlay_dir) \<and>
        (\<forall>c' e. child_init_environment p c (Some rootfs) (Some overlay_dir) cmd d ia ni = Some (c', e) \<longrightarrow>
          emits (\<lambda>x. \<not> is_step x) c1 c')"
proof -
  obtain c1 r where c1: "run_steps p (child_net p c) (root_steps p rootfs overlay_dir) = (c1, r)"
    by fastforce
  note tr = run_steps_trace [OF c1]
  have ns: "not_step = (\<lambda>x. \<not> is_step x)"
    by (simp add: fun_eq_iff not_step_def)
  show ?thesis
  proof (cases r)
    case (Inl e)
    then show ?thesis
      using tr by (auto simp: c1 child_init_environment_rooted [OF assms])
  next
    case (Inr u)
    have launched: "launch p c1 cmd d ia ni = Some (c', e) \<Longrightarrow> emits (\<lambda>x. \<not> is_step x) c1 c'" for c' e
      using stepless_launch unfolding ns by blast
    from Inr tr have "c_trace c1 = c_trace c @ [CBringUpLo, CSethostname] @ map CStep (root_steps p rootfs overlay_dir)"
      by auto
    with Inr launched show ?thesis
      by (simp add: c1 child_init_environment_rooted [OF assms])
  qed
qed

section \<open>The built-in init\<close>

text \<open>What a round of the loop finds, read off the kernel's answers.\<close>

datatype stimulus =
    Interrupted
  | Nothing
  | Signal int
  | Stray
  | CommandEnded int
  | DaemonDied
  | Broken

definition stimulus_of :: "'w proc_ops \<Rightarrow> fd \<Rightarrow> fd \<Rightarrow> pid \<Rightarrow> 'w child \<Rightarrow> stimulus" where
  "stimulus_of p d s g c =
     (case pk_poll p (c_world c) d s of
        (w, Inl e) \<Rightarrow> if e = Os EINTR then Interrupted else Broken
      | (w, Inr (died, sig)) \<Rightarrow>
          (if died then DaemonDied
           else if \<not> sig then Nothing
           else (case pk_siginfo p w s of
                   (w, Inl e) \<Rightarrow> Broken
                 | (w, Inr n) \<Rightarrow>
                     (if n \<noteq> SIGCHLD then Signal n
                      else (case snd (pk_wait4 p w g) of
                              Inr (q, st) \<Rightarrow> if q = g then CommandEnded st else Stray
                            | Inl e \<Rightarrow> Stray)))))"

text \<open>The specification: which signals are sent, and when and with which code the container ends.\<close>

fun round_spec :: "pid \<Rightarrow> stimulus \<Rightarrow> child_event list \<times> int option" where
  "round_spec g (Signal n) = ([CKill g n], None)"
| "round_spec g (CommandEnded st) = ([], Some (exit_code_of st))"
| "round_spec g DaemonDied = ([CKill (-1) SIGKILL], Some 137)"
| "round_spec g Broken = ([], Some 1)"
| "round_spec g _ = ([], None)"

fun init_spec :: "pid \<Rightarrow> stimulus list \<Rightarrow> child_event list \<times> int option" where
  "init_spec g [] = ([], None)"
| "init_spec g (x # xs) =
     (case round_spec g x of
        (ks, Some code) \<Rightarrow> (ks, Some code)
      | (ks, None) \<Rightarrow> (let (ks', r) = init_spec g xs in (ks @ ks', r)))"

fun scripted :: "'w proc_ops \<Rightarrow> fd \<Rightarrow> fd \<Rightarrow> pid \<Rightarrow> 'w child \<Rightarrow> stimulus list \<Rightarrow> bool" where
  "scripted p d s g c [] \<longleftrightarrow> True"
| "scripted p d s g c (x # xs) \<longleftrightarrow>
     stimulus_of p d s g c = x \<and> scripted p d s g (fst (init_round p d s g c)) xs"

fun is_kill :: "child_event \<Rightarrow> bool" where
  "is_kill (CKill _ _) = True"
| "is_kill _ = False"

lemma init_round_spec:
  assumes "0 < g"
  shows "snd (init_round p d s g c) = map_option Exited (snd (round_spec g (stimulus_of p d s g c)))"
    and "filter is_kill (c_trace (fst (init_round p d s g c))) =
      filter is_kill (c_trace c) @ fst (round_spec g (stimulus_of p d s g c))"
proof -
  obtain w1 a where a: "pk_poll p (c_world c) d s = (w1, a)" by fastforce
  obtain w2 b where b: "pk_siginfo p w1 s = (w2, b)" by fastforce
  obtain w3 r where r: "pk_wait4 p w2 g = (w3, r)" by fastforce
  note defs = init_round_def stimulus_of_def call_def a b r
  have "snd (init_round p d s g c) = map_option Exited (snd (round_spec g (stimulus_of p d s g c))) \<and>
    filter is_kill (c_trace (fst (init_round p d s g c))) =
      filter is_kill (c_trace c) @ fst (round_spec g (stimulus_of p d s g c))"
  proof (cases a)
    case (Inr x)
    show ?thesis
    proof (cases b)
      case (Inr n)
      with \<open>a = Inr x\<close> \<open>0 < g\<close> show ?thesis
        by (cases x; cases r) (simp_all add: defs split_def)
    qed (use Inr in \<open>cases x; simp add: defs\<close>)
  qed (simp add: defs)
  then show "snd (init_round p d s g c) = map_option Exited (snd (round_spec g (stimulus_of p d s g c)))"
    "filter is_kill (c_trace (fst (init_round p d s g c))) =
      filter is_kill (c_trace c) @ fst (round_spec g (stimulus_of p d s g c))"
    by blast+
qed

text \<open>
  C23. The built-in init serves its container to the end: given what its rounds find, it passes every
  signal other than \<^verbatim>\<open>SIGCHLD\<close> on to the command and to nothing else, in order, survives interrupted polls,
  empty polls and the ends of other children, and when the command ends it exits with the command's
  code; when the daemon dies it kills the whole namespace and exits with 137. As soon as one of the
  ending rounds comes, the loop returns.
\<close>

theorem init_serves_container:
  assumes "0 < g" "scripted p d s g c xs" "init_spec g xs = (kills, Some code)"
  shows "\<exists>c'. init_loop p d s g c = Some (c', Exited code) \<and>
    filter is_kill (c_trace c') = filter is_kill (c_trace c) @ kills"
  using assms
proof (induction xs arbitrary: c kills)
  case (Cons x xs)
  obtain c1 r where c1: "init_round p d s g c = (c1, r)"
    by fastforce
  obtain ks q where ks: "round_spec g x = (ks, q)"
    by fastforce
  have x: "stimulus_of p d s g c = x"
    using Cons.prems(2) by simp
  note spec = init_round_spec [OF \<open>0 < g\<close>, of p d s c, unfolded x ks c1, simplified]
  show ?case
  proof (cases q)
    case None
    then obtain ks' where rest: "init_spec g xs = (ks', Some code)" "kills = ks @ ks'"
      using Cons.prems(3) by (auto simp: ks split: prod.splits)
    have "scripted p d s g c1 xs"
      using Cons.prems(2) by (simp add: c1)
    from Cons.IH [OF \<open>0 < g\<close> this rest(1)] show ?thesis
      using spec None rest(2) by (subst init_loop.simps) (auto simp: c1)
  next
    case (Some k)
    then show ?thesis
      using spec Cons.prems(3) by (subst init_loop.simps) (auto simp: c1 ks)
  qed
qed simp

section \<open>Standard streams\<close>

text \<open>
  The documented behaviour of the descriptor calls, over the table \<open>tab\<close> of open descriptors: \<open>close\<close>
  removes an entry, \<open>dup2\<close> copies an open one and fails on a closed one, \<open>open\<close> uses a free entry.
\<close>

definition fd_laws :: "'w proc_ops \<Rightarrow> ('w \<Rightarrow> fd \<Rightarrow> 'o option) \<Rightarrow> 'o \<Rightarrow> bool" where
  "fd_laws p tab null \<longleftrightarrow>
     (\<forall>w fd. tab (pk_close p w fd) = (tab w)(fd := None)) \<and>
     (\<forall>w a b. case tab w a of
        None \<Rightarrow> isl (snd (pk_dup2 p w a b)) \<and> tab (fst (pk_dup2 p w a b)) = tab w
      | Some x \<Rightarrow> \<not> isl (snd (pk_dup2 p w a b)) \<and> tab (fst (pk_dup2 p w a b)) = (tab w)(b \<mapsto> x)) \<and>
     (\<forall>w. tab w (snd (pk_open_null p w)) = None \<and>
        tab (fst (pk_open_null p w)) = (tab w)(snd (pk_open_null p w) \<mapsto> null)) \<and>
     (\<forall>w. tab (fst (pk_setsid p w)) = tab w \<and> \<not> isl (snd (pk_setsid p w))) \<and>
     (\<forall>w s. tab (fst (pk_tiocsctty p w s)) = tab w \<and> \<not> isl (snd (pk_tiocsctty p w s)))"

abbreviation child_tab :: "('w \<Rightarrow> fd \<Rightarrow> 'o option) \<Rightarrow> 'w child \<Rightarrow> fd \<Rightarrow> 'o option" where
  "child_tab tab c \<equiv> tab (c_world c)"

lemma tab_close [simp]:
  "fd_laws p tab null \<Longrightarrow> child_tab tab (child_close p c fd) = (child_tab tab c)(fd := None)"
  by (simp add: fd_laws_def child_close_def call_def)

lemma tab_dup2:
  assumes "fd_laws p tab null"
  shows "child_tab tab c a = Some x \<Longrightarrow>
      \<exists>c'. child_dup2 p c a b = (c', Inr ()) \<and> child_tab tab c' = (child_tab tab c)(b \<mapsto> x)"
    and "child_tab tab c a = None \<Longrightarrow>
      \<exists>c' e. child_dup2 p c a b = (c', Inl e) \<and> child_tab tab c' = child_tab tab c"
proof -
  obtain w r where w: "pk_dup2 p (c_world c) a b = (w, r)"
    by fastforce
  have "case child_tab tab c a of None \<Rightarrow> isl r \<and> tab w = child_tab tab c
      | Some x \<Rightarrow> \<not> isl r \<and> tab w = (child_tab tab c)(b \<mapsto> x)"
    using assms w unfolding fd_laws_def by (metis fst_conv snd_conv)
  then show "child_tab tab c a = Some x \<Longrightarrow>
      \<exists>c'. child_dup2 p c a b = (c', Inr ()) \<and> child_tab tab c' = (child_tab tab c)(b \<mapsto> x)"
    "child_tab tab c a = None \<Longrightarrow>
      \<exists>c' e. child_dup2 p c a b = (c', Inl e) \<and> child_tab tab c' = child_tab tab c"
    by (cases r; simp add: child_dup2_def call_def w)+
qed

lemma tab_redirect_output:
  assumes "fd_laws p tab null" "child_tab tab c w = Some x" "2 < w"
  shows "child_tab tab (redirect_output p c w) = (child_tab tab c)(1 \<mapsto> x, 2 \<mapsto> x, w := None)"
proof -
  obtain c1 where c1: "child_dup2 p c w 1 = (c1, Inr ())" "child_tab tab c1 = (child_tab tab c)(1 \<mapsto> x)"
    using tab_dup2(1) [OF assms(1,2)] by blast
  obtain c2 where c2: "child_dup2 p c1 w 2 = (c2, Inr ())" "child_tab tab c2 = (child_tab tab c1)(2 \<mapsto> x)"
    using tab_dup2(1) [OF assms(1), of c1 w x 2] assms(2,3) c1(2) by auto
  show ?thesis
    using assms c1 c2 by (auto simp: redirect_output_def fun_eq_iff)
qed

lemma tab_redirect_output_closed:
  assumes "fd_laws p tab null" "child_tab tab c w = None" "2 < w"
  shows "child_tab tab (redirect_output p c w) = child_tab tab c"
proof -
  obtain c1 e where c1: "child_dup2 p c w 1 = (c1, Inl e)" "child_tab tab c1 = child_tab tab c"
    using tab_dup2(2) [OF assms(1,2)] by blast
  obtain c2 e2 where c2: "child_dup2 p c1 w 2 = (c2, Inl e2)" "child_tab tab c2 = child_tab tab c1"
    using tab_dup2(2) [OF assms(1), of c1 w 2] assms(2,3) c1(2) by auto
  show ?thesis
    using assms c1 c2 by (auto simp: redirect_output_def)
qed

lemma tab_make_controlling:
  assumes "fd_laws p tab null" "child_tab tab c s = Some x" "2 < s"
  shows "\<exists>c'. make_controlling p c s = (c', Inr ()) \<and>
    child_tab tab c' = (child_tab tab c)(0 \<mapsto> x, 1 \<mapsto> x, 2 \<mapsto> x, s := None)"
proof -
  obtain c1 where c1: "call CSetsid (pk_setsid p) c = (c1, Inr ())" "child_tab tab c1 = child_tab tab c"
    using assms(1) by (cases "snd (pk_setsid p (c_world c))")
      (auto simp: fd_laws_def call_def split_def, metis isl_def sum.sel(1))
  obtain c2 where c2: "call (CTiocsctty s) (\<lambda>w. pk_tiocsctty p w s) c1 = (c2, Inr ())" "child_tab tab c2 = child_tab tab c1"
    using assms(1) by (cases "snd (pk_tiocsctty p (c_world c1) s)")
      (auto simp: fd_laws_def call_def split_def, metis isl_def sum.sel(1))
  obtain c3 where c3: "child_dup2 p c2 s 0 = (c3, Inr ())" "child_tab tab c3 = (child_tab tab c2)(0 \<mapsto> x)"
    using tab_dup2(1) [OF assms(1), of c2 s x 0] assms(2) c1(2) c2(2) by auto
  obtain c4 where c4: "child_dup2 p c3 s 1 = (c4, Inr ())" "child_tab tab c4 = (child_tab tab c3)(1 \<mapsto> x)"
    using tab_dup2(1) [OF assms(1), of c3 s x 1] assms(2,3) c1(2) c2(2) c3(2) by auto
  obtain c5 where c5: "child_dup2 p c4 s 2 = (c5, Inr ())" "child_tab tab c5 = (child_tab tab c4)(2 \<mapsto> x)"
    using tab_dup2(1) [OF assms(1), of c4 s x 2] assms(2,3) c1(2) c2(2) c3(2) c4(2) by auto
  show ?thesis
    using assms(1) c1 c2 c3 c4 c5 by (auto simp: make_controlling_def fun_eq_iff)
qed

lemma tab_redirect_stdin_null:
  assumes "fd_laws p tab null" "child_tab tab c 0 \<noteq> None" "0 \<le> snd (pk_open_null p (c_world c))"
  shows "\<exists>c'. redirect_stdin_null p c = (c', True) \<and> child_tab tab c' = (child_tab tab c)(0 \<mapsto> null)"
proof -
  obtain w fd where w: "pk_open_null p (c_world c) = (w, fd)"
    by fastforce
  define c1 where "c1 = \<lparr>c_world = w, c_trace = c_trace c @ [COpenNull]\<rparr>"
  have fd: "child_tab tab c fd = None" "tab w = (child_tab tab c)(fd \<mapsto> null)"
    using assms(1) w unfolding fd_laws_def by (metis fst_conv snd_conv)+
  have "child_tab tab c1 fd = Some null"
    by (simp add: c1_def fd(2))
  then obtain c2 where c2: "child_dup2 p c1 fd 0 = (c2, Inr ())" "child_tab tab c2 = (child_tab tab c1)(0 \<mapsto> null)"
    using tab_dup2(1) [OF assms(1)] by blast
  have "redirect_stdin_null p c = (child_close p c2 fd, True)"
    using assms(3) c2(1) by (simp add: redirect_stdin_null_def call_def w c1_def)
  moreover have "child_tab tab (child_close p c2 fd) = (child_tab tab c)(0 \<mapsto> null)"
    using assms(1,2) fd by (auto simp: c2(2) c1_def fun_eq_iff)
  ultimately show ?thesis
    by blast
qed

text \<open>The table after, as a list of the changed entries.\<close>

definition rewired :: "('w \<Rightarrow> fd \<Rightarrow> 'o option) \<Rightarrow> 'w child \<Rightarrow> 'w child \<Rightarrow> (fd \<times> 'o option) list \<Rightarrow> bool" where
  "rewired tab c c' xs \<longleftrightarrow>
     list_all (\<lambda>(fd, x). child_tab tab c' fd = x) xs \<and>
     (\<forall>fd. fd \<notin> fst ` set xs \<longrightarrow> child_tab tab c' fd = child_tab tab c fd)"

lemma tab_log_pipe:
  assumes "fd_laws p tab null" "child_tab tab c w = Some x" "2 < w" "r \<noteq> w"
  shows "child_tab tab (redirect_output p (child_close p c r) w) =
    (child_tab tab c)(r := None, 1 \<mapsto> x, 2 \<mapsto> x, w := None)"
  using tab_redirect_output [OF assms(1), of "child_close p c r" w x] assms by (simp add: fun_eq_iff)

lemma stdio_with_pipe:
  assumes "fd_laws p tab null" "child_tab tab c w = Some log" "2 < r" "2 < w"
    and "child_tab tab c sr = Some inp" "2 < sr" "2 < sw" "distinct [r, w, sr, sw]"
  shows "\<exists>c'. run_child_stdio p c (r, w) (Some (sr, sw)) None = (c', True) \<and>
    rewired tab c c' [(0, Some inp), (1, Some log), (2, Some log), (r, None), (w, None), (sr, None), (sw, None)]"
proof -
  define c1 where "c1 = redirect_output p (child_close p c r) w"
  have c1: "child_tab tab c1 = (child_tab tab c)(r := None, 1 \<mapsto> log, 2 \<mapsto> log, w := None)"
    unfolding c1_def by (rule tab_log_pipe) (use assms in auto)
  have "child_tab tab (child_close p c1 sw) sr = Some inp"
    using assms by (simp add: c1)
  then obtain c2 where c2: "child_dup2 p (child_close p c1 sw) sr 0 = (c2, Inr ())"
      "child_tab tab c2 = (child_tab tab (child_close p c1 sw))(0 \<mapsto> inp)"
    using tab_dup2(1) [OF assms(1)] by blast
  show ?thesis
    using assms by (auto simp: run_child_stdio_def c1_def [symmetric] c2 c1 rewired_def)
qed

lemma stdio_with_null:
  assumes "fd_laws p tab null" "child_tab tab c w = Some log" "2 < r" "2 < w" "r \<noteq> w"
    and "child_tab tab c 0 \<noteq> None" "\<And>v. 0 \<le> snd (pk_open_null p v)"
  shows "\<exists>c'. run_child_stdio p c (r, w) None None = (c', True) \<and>
    rewired tab c c' [(0, Some null), (1, Some log), (2, Some log), (r, None), (w, None)]"
proof -
  define c1 where "c1 = redirect_output p (child_close p c r) w"
  have c1: "child_tab tab c1 = (child_tab tab c)(r := None, 1 \<mapsto> log, 2 \<mapsto> log, w := None)"
    unfolding c1_def by (rule tab_log_pipe) (use assms in auto)
  have "child_tab tab c1 0 \<noteq> None"
    using assms by (simp add: c1)
  from tab_redirect_stdin_null [OF assms(1) this assms(7)] show ?thesis
    using assms by (auto simp: run_child_stdio_def c1_def [symmetric] c1 rewired_def)
qed

lemma stdio_with_tty:
  assumes "fd_laws p tab null" "child_tab tab c w = Some log" "2 < r" "2 < w"
    and "child_tab tab c s = Some slave" "2 < s" "2 < m" "distinct [r, w, s, m]"
  shows "\<exists>c'. run_child_stdio p c (r, w) None (Some (m, s)) = (c', True) \<and>
    rewired tab c c' [(0, Some slave), (1, Some slave), (2, Some slave), (r, None), (w, None), (m, None), (s, None)]"
proof -
  define c1 where "c1 = redirect_output p (child_close p c r) w"
  have c1: "child_tab tab c1 = (child_tab tab c)(r := None, 1 \<mapsto> log, 2 \<mapsto> log, w := None)"
    unfolding c1_def by (rule tab_log_pipe) (use assms in auto)
  have "child_tab tab (child_close p c1 m) s = Some slave"
    using assms by (simp add: c1)
  then obtain c2 where c2: "make_controlling p (child_close p c1 m) s = (c2, Inr ())"
      "child_tab tab c2 = (child_tab tab (child_close p c1 m))(0 \<mapsto> slave, 1 \<mapsto> slave, 2 \<mapsto> slave, s := None)"
    using tab_make_controlling [OF assms(1) _ assms(6)] by blast
  have "child_tab tab c2 w = None"
    using assms by (simp add: c2 c1)
  note again = tab_redirect_output_closed [OF assms(1) this assms(4)]
  show ?thesis
    using assms again by (auto simp: run_child_stdio_def c1_def [symmetric] c2 c1 close_if_set_def rewired_def)
qed

text \<open>
  The standard streams of a detached container, for every kernel whose descriptor calls behave as
  documented. With a stdin pipe, input comes from the pipe and output and error go to the log pipe,
  and no other end of the two pipes stays open; without one, input is the null device. With a
  terminal all three streams are the terminal: the second attempt to send the output to the log pipe,
  which the comment beside it announces, uses a descriptor that is already closed and has no effect.
\<close>

theorem child_stdio_wired:
  assumes "fd_laws p tab null" "child_tab tab c w = Some log" "2 < r" "2 < w"
    and "child_tab tab c sr = Some inp" "2 < sr" "2 < sw" "distinct [r, w, sr, sw]"
    and "child_tab tab c 0 \<noteq> None" "\<forall>v. 0 \<le> snd (pk_open_null p v)"
  shows "(\<exists>c'. run_child_stdio p c (r, w) (Some (sr, sw)) None = (c', True) \<and>
      rewired tab c c' [(0, Some inp), (1, Some log), (2, Some log), (r, None), (w, None), (sr, None), (sw, None)]) \<and>
    (\<exists>c'. run_child_stdio p c (r, w) None None = (c', True) \<and>
      rewired tab c c' [(0, Some null), (1, Some log), (2, Some log), (r, None), (w, None)]) \<and>
    (\<exists>c'. run_child_stdio p c (r, w) None (Some (sw, sr)) = (c', True) \<and>
      rewired tab c c' [(0, Some inp), (1, Some inp), (2, Some inp), (r, None), (w, None), (sw, None), (sr, None)])"
proof (intro conjI)
  show "\<exists>c'. run_child_stdio p c (r, w) (Some (sr, sw)) None = (c', True) \<and>
      rewired tab c c' [(0, Some inp), (1, Some log), (2, Some log), (r, None), (w, None), (sr, None), (sw, None)]"
    by (rule stdio_with_pipe) (use assms in auto)
  show "\<exists>c'. run_child_stdio p c (r, w) None None = (c', True) \<and>
      rewired tab c c' [(0, Some null), (1, Some log), (2, Some log), (r, None), (w, None)]"
    by (rule stdio_with_null) (use assms in auto)
  show "\<exists>c'. run_child_stdio p c (r, w) None (Some (sw, sr)) = (c', True) \<and>
      rewired tab c c' [(0, Some inp), (1, Some inp), (2, Some inp), (r, None), (w, None), (sw, None), (sr, None)]"
    by (rule stdio_with_tty) (use assms in auto)
qed

section \<open>A concrete process\<close>

text \<open>A descriptor table, and a script of what the rounds of init find.\<close>

record desk =
  k_tab :: "(fd \<times> nat) list"
  k_script :: "stimulus list"

definition fresh_fd :: "(fd \<times> nat) list \<Rightarrow> fd" where
  "fresh_fd xs = foldr (\<lambda>x m. max m (fst x + 1)) xs 0"

definition desk_dup2 :: "desk \<Rightarrow> fd \<Rightarrow> fd \<Rightarrow> desk \<times> unit io_result" where
  "desk_dup2 w a b =
     (case map_of (k_tab w) a of
        None \<Rightarrow> (w, Inl (Os 9))
      | Some x \<Rightarrow> (w\<lparr>k_tab := (b, x) # k_tab w\<rparr>, Inr ()))"

definition desk_poll :: "desk \<Rightarrow> desk \<times> (bool \<times> bool) io_result" where
  "desk_poll w =
     (case k_script w of
        Interrupted # xs \<Rightarrow> (w\<lparr>k_script := xs\<rparr>, Inl (Os EINTR))
      | Nothing # xs \<Rightarrow> (w\<lparr>k_script := xs\<rparr>, Inr (False, False))
      | Signal n # xs \<Rightarrow> (w, Inr (False, True))
      | Stray # xs \<Rightarrow> (w, Inr (False, True))
      | CommandEnded st # xs \<Rightarrow> (w, Inr (False, True))
      | _ \<Rightarrow> (w, Inr (True, False)))"

definition desk_siginfo :: "desk \<Rightarrow> desk \<times> int io_result" where
  "desk_siginfo w =
     (case k_script w of
        Signal n # xs \<Rightarrow> (w\<lparr>k_script := xs\<rparr>, Inr n)
      | _ \<Rightarrow> (w, Inr SIGCHLD))"

definition desk_wait4 :: "desk \<Rightarrow> pid \<Rightarrow> desk \<times> (pid \<times> int) io_result" where
  "desk_wait4 w g =
     (case k_script w of
        CommandEnded st # xs \<Rightarrow> (w\<lparr>k_script := xs\<rparr>, Inr (g, st))
      | _ \<Rightarrow> (w\<lparr>k_script := tl (k_script w)\<rparr>, Inr (0, 0)))"

definition desk_ops :: "desk proc_ops" where
  "desk_ops = \<lparr>
     pk_close = (\<lambda>w fd. w\<lparr>k_tab := AList.delete fd (k_tab w)\<rparr>),
     pk_dup2 = desk_dup2,
     pk_open_null = (\<lambda>w. (w\<lparr>k_tab := (fresh_fd (k_tab w), 99) # k_tab w\<rparr>, fresh_fd (k_tab w))),
     pk_setsid = (\<lambda>w. (w, Inr ())),
     pk_tiocsctty = (\<lambda>w s. (w, Inr ())),
     pk_read1 = (\<lambda>w s. (w, Inr 0)),
     pk_bring_up_lo = (\<lambda>w. (w, Inr ())),
     pk_sethostname = (\<lambda>w. (w, Inr ())),
     pk_step = (\<lambda>w s. (w, Inr ())),
     pk_exec = (\<lambda>w a. (w, None)),
     pk_sigprocmask = (\<lambda>w. (w, Inr ())),
     pk_signalfd = (\<lambda>w. (w, Inr 8)),
     pk_fork = (\<lambda>w. (w, 2)),
     pk_poll = (\<lambda>w d s. desk_poll w),
     pk_siginfo = (\<lambda>w s. desk_siginfo w),
     pk_wait4 = desk_wait4,
     pk_kill = (\<lambda>w q n. w),
     pk_display = (\<lambda>b. b)\<rparr>"


lemma fresh_fd_bounds: "0 \<le> fresh_fd xs \<and> (\<forall>x \<in> set xs. fst x < fresh_fd xs)"
  by (induction xs) (auto simp: fresh_fd_def)

lemma fresh_fd_free: "map_of xs (fresh_fd xs) = None"
  using fresh_fd_bounds [of xs] by (force simp: map_of_eq_None_iff)

lemma desk_laws: "fd_laws desk_ops (\<lambda>w. map_of (k_tab w)) 99"
  unfolding fd_laws_def
  by (auto simp: desk_ops_def desk_dup2_def fresh_fd_free delete_conv fun_eq_iff split: option.splits)

definition desk_prep :: prepared where
  "desk_prep = \<lparr>pr_rootfs = Some [47, 114], pr_overlay_dir = Some [47, 111], pr_signal = (5, 6), pr_clone_flags = 0,
     pr_needs_userns_maps = False, pr_command = [[115, 104]], pr_death_pipe = Some (9, 10), pr_init_argv = None,
     pr_no_init = False\<rparr>"

definition desk_child :: "stimulus list \<Rightarrow> desk child" where
  "desk_child xs = \<lparr>c_world = \<lparr>k_tab = [(0, 1), (1, 1), (2, 1), (3, 30), (4, 40), (11, 50), (12, 60)], k_script = xs\<rparr>,
     c_trace = []\<rparr>"

text \<open>Witness of the start signal: the pipe of \<open>desk_ops\<close> is always at its end.\<close>

theorem child_needs_start_signal_witness:
  "(\<exists>c'. run_child desk_ops (desk_child []) desk_prep (3, 4) None None = Some (c', Exited 1) \<and>
      emits is_wiring (desk_child []) c') \<and>
   (\<exists>c'. attach_child desk_ops (desk_child []) desk_prep (Some (3, 4)) None = Some (c', Exited 1) \<and>
      emits is_wiring (desk_child []) c')"
  by (rule child_needs_start_signal) (simp add: desk_ops_def)

theorem command_runs_in_finished_root_witness:
  "case run_steps desk_ops (child_net desk_ops (desk_child [])) (root_steps desk_ops [47, 114] [47, 111]) of
      (c1, Inl _) \<Rightarrow>
        child_init_environment desk_ops (desk_child []) (Some [47, 114]) (Some [47, 111]) [[115, 104]] (Some 9) None True
          = Some (c1, Exited 1) \<and>
        (\<exists>k. c_trace c1 = [CBringUpLo, CSethostname] @ map CStep (take k (root_steps desk_ops [47, 114] [47, 111])))
    | (c1, Inr _) \<Rightarrow>
        c_trace c1 = [CBringUpLo, CSethostname] @ map CStep (root_steps desk_ops [47, 114] [47, 111]) \<and>
        emits (\<lambda>x. \<not> is_step x) c1 (fst (exec_or_exit desk_ops c1 [[115, 104]] 1))"
proof -
  have "(0 :: byte) \<notin> set [47, 111]"
    by simp
  note root = command_runs_in_finished_root [OF this, of desk_ops "desk_child []" "[47, 114]" "[[115, 104]]" "Some 9" None True]
  show ?thesis
    using root
    by (auto simp: desk_child_def child_init_environment_rooted launch_def split: prod.splits sum.splits) (metis fst_conv prod.collapse)
qed

theorem init_serves_container_witness:
  "\<exists>c'. init_loop desk_ops 9 8 2 (desk_child [Nothing, Signal 15, Interrupted, Stray, CommandEnded 0x0300])
      = Some (c', Exited 3) \<and> filter is_kill (c_trace c') = [CKill 2 15]"
proof -
  have "filter is_kill (c_trace (desk_child xs)) = []" for xs
    by (simp add: desk_child_def)
  with init_serves_container [of 2 desk_ops 9 8
      "desk_child [Nothing, Signal 15, Interrupted, Stray, CommandEnded 0x0300]"
      "[Nothing, Signal 15, Interrupted, Stray, CommandEnded 0x0300]" "[CKill 2 15]" 3]
  show ?thesis
    by (simp add: stimulus_of_def init_round_def call_def desk_ops_def desk_child_def desk_poll_def desk_siginfo_def
        desk_wait4_def SIGCHLD_def EINTR_def exit_code_of_def wtermsig_def wexitstatus_def wifsignaled_def)
qed

theorem child_stdio_wired_witness:
  "\<exists>c'. run_child_stdio desk_ops (desk_child []) (3, 4) None (Some (12, 11)) = (c', True) \<and>
     map_of (k_tab (c_world c')) 1 = Some 50"
  using child_stdio_wired [OF desk_laws, of "desk_child []" 4 40 3 11 50 12] fresh_fd_bounds
  by (force simp: desk_child_def desk_ops_def rewired_def)

end
