(* ===== verification/Client.thy ===== *)
theory Client
  imports Daemon_State Msg_Headers
begin

text \<open>
  The command-line client (\<^verbatim>\<open>src/main.rs\<close>, with \<^verbatim>\<open>send_request\<close>, \<^verbatim>\<open>create_datagram_socket\<close> and the
  terminal helpers of \<^verbatim>\<open>libs/core\<close>): the one-shot requests over a datagram socket, following a log
  through a passed descriptor, and the interactive sessions with their two threads.

  \<^item> The kernel, the terminal and the JSON library are the record \<open>client_ops\<close> over a world \<open>'w\<close>.
  \<^item> The two threads of a session are a round each, scheduled in any order by \<open>run_threads\<close>.
  \<^item> \<open>None\<close> is a panic, undefined behaviour or a loop that never ends.
  \<^item> Log messages on standard error are left out; what is printed is passed to \<open>cl_print\<close>.
\<close>

section \<open>The environment\<close>

datatype exit_code = SUCCESS | FAILURE | ExitCode u8

record termios =
  tm_iflag :: u32
  tm_oflag :: u32
  tm_cflag :: u32
  tm_lflag :: u32

datatype printed =
    PrintPid "pid option"
  | PrintLine bytes
  | PrintSummary container_summary
  | PrintKilled pid
  | PrintNone

record 'w client_ops =
  cl_connect :: "'w \<Rightarrow> path \<Rightarrow> 'w \<times> unit io_result"
  cl_read :: "'w \<Rightarrow> nat \<Rightarrow> 'w \<times> bytes io_result"
  cl_write :: "'w \<Rightarrow> bytes \<Rightarrow> 'w \<times> nat io_result"
  cl_stdout :: "'w \<Rightarrow> bytes \<Rightarrow> 'w \<times> nat io_result"
  cl_stdin :: "'w \<Rightarrow> nat \<Rightarrow> 'w \<times> bytes io_result"
  cl_poll :: "'w \<Rightarrow> 'w \<times> (bool \<times> bool) io_result"
  cl_take_winch :: "'w \<Rightarrow> 'w \<times> bool"
  cl_install_winch :: "'w \<Rightarrow> 'w"
  cl_default_winch :: "'w \<Rightarrow> 'w"
  cl_notify :: "'w \<Rightarrow> 'w"
  cl_close_notify :: "'w \<Rightarrow> 'w"
  cl_isatty :: "'w \<Rightarrow> bool"
  cl_tcgetattr :: "'w \<Rightarrow> 'w \<times> termios io_result"
  cl_tcsetattr :: "'w \<Rightarrow> termios \<Rightarrow> 'w \<times> unit io_result"
  cl_cfmakeraw :: "termios \<Rightarrow> termios"
  cl_winsize :: "'w \<Rightarrow> (u16 \<times> u16) option"
  cl_pipe2 :: "'w \<Rightarrow> 'w \<times> unit io_result"
  cl_print :: "'w \<Rightarrow> printed \<Rightarrow> 'w"
  cl_socket :: "'w \<Rightarrow> 'w \<times> fd io_result"
  cl_bind :: "'w \<Rightarrow> fd \<Rightarrow> 'w \<times> unit io_result"
  cl_connect_dgram :: "'w \<Rightarrow> fd \<Rightarrow> bytes \<Rightarrow> 'w \<times> unit io_result"
  cl_send :: "'w \<Rightarrow> fd \<Rightarrow> bytes \<Rightarrow> 'w \<times> nat io_result"
  cl_peek :: "'w \<Rightarrow> fd \<Rightarrow> 'w \<times> nat io_result"
  cl_recv :: "'w \<Rightarrow> fd \<Rightarrow> nat \<Rightarrow> 'w \<times> bytes io_result"
  cl_recvmsg :: "'w \<Rightarrow> fd \<Rightarrow> bytes \<Rightarrow> 'w \<times> bytes io_result"
  cl_read_pipe :: "'w \<Rightarrow> int \<Rightarrow> nat \<Rightarrow> 'w \<times> bytes io_result"
  cl_close :: "'w \<Rightarrow> fd \<Rightarrow> 'w"
  cl_request_json :: "request \<Rightarrow> bytes"
  cl_winsize_json :: "u16 \<times> u16 \<Rightarrow> bytes"
  cl_parse_run :: "bytes \<Rightarrow> (bool \<times> pid option \<times> message option) option"
  cl_parse_exit :: "bytes \<Rightarrow> int option"
  cl_parse_logs :: "bytes \<Rightarrow> bytes list option"
  cl_parse_error :: "bytes \<Rightarrow> message option"
  cl_parse_list :: "bytes \<Rightarrow> container_summary list option"
  cl_parse_kill :: "bytes \<Rightarrow> (bool \<times> message option) option"
  cl_parse_pid :: "bytes \<Rightarrow> pid option"

text \<open>The \<^verbatim>\<open>?\<close> operator.\<close>

definition io_then :: "'w \<times> 'a io_result \<Rightarrow> ('w \<Rightarrow> 'a \<Rightarrow> 'w \<times> 'b io_result) \<Rightarrow> 'w \<times> 'b io_result" where
  "io_then x f = (case x of (w, Inl e) \<Rightarrow> (w, Inl e) | (w, Inr a) \<Rightarrow> f w a)"

section \<open>The terminal\<close>

definition EIO :: errno where
  "EIO = 5"

definition INTR :: errno where
  "INTR = 4"

definition ECHO :: u32 where "ECHO = 8"
definition ECHONL :: u32 where "ECHONL = 64"
definition OPOST :: u32 where "OPOST = 1"

definition disable_echo_output :: "'w client_ops \<Rightarrow> 'w \<Rightarrow> 'w \<times> termios io_result" where
  "disable_echo_output p w =
     io_then (cl_tcgetattr p w) (\<lambda>w original.
       io_then (cl_tcsetattr p w
           (original\<lparr>tm_lflag := tm_lflag original AND NOT (ECHO OR ECHONL), tm_oflag := tm_oflag original AND NOT OPOST\<rparr>))
         (\<lambda>w _. (w, Inr original)))"

definition set_raw_terminal :: "'w client_ops \<Rightarrow> 'w \<Rightarrow> 'w \<times> termios io_result" where
  "set_raw_terminal p w =
     io_then (cl_tcgetattr p w) (\<lambda>w original.
       io_then (cl_tcsetattr p w (cl_cfmakeraw p original)) (\<lambda>w _. (w, Inr original)))"

definition restore_terminal :: "'w client_ops \<Rightarrow> 'w \<Rightarrow> termios \<Rightarrow> 'w \<times> unit io_result" where
  "restore_terminal p w t = cl_tcsetattr p w t"

definition get_window_size :: "'w client_ops \<Rightarrow> 'w \<Rightarrow> u16 \<times> u16" where
  "get_window_size p w = (case cl_winsize p w of Some ws \<Rightarrow> ws | None \<Rightarrow> (24, 80))"

section \<open>Requests over a datagram\<close>

text \<open>The answer fills a buffer of the peeked size.\<close>

definition send_request :: "'w client_ops \<Rightarrow> 'w \<Rightarrow> path \<Rightarrow> request \<Rightarrow> 'w \<times> bytes io_result" where
  "send_request p w socket_path req =
     io_then (cl_socket p w) (\<lambda>w fd.
     io_then (cl_bind p w fd) (\<lambda>w _.
     io_then (cl_connect_dgram p w fd socket_path) (\<lambda>w _.
     io_then (cl_send p w fd (cl_request_json p req)) (\<lambda>w _.
     io_then (cl_peek p w fd) (\<lambda>w n.
     io_then (cl_recv p w fd n) (\<lambda>w bs. (w, Inr (take n (bs @ replicate n 0)))))))))"

text \<open>The path is copied into an array of 108 bytes; a longer one is written past its end.\<close>

definition SUN_PATH :: nat where
  "SUN_PATH = 108"

definition create_datagram_socket :: "'w client_ops \<Rightarrow> 'w \<Rightarrow> path \<Rightarrow> ('w \<times> fd io_result) option" where
  "create_datagram_socket p w socket_path =
     (case cl_socket p w of
        (w, Inl e) \<Rightarrow> Some (w, Inl e)
      | (w, Inr fd) \<Rightarrow>
          (case cl_bind p w fd of
             (w, Inl e) \<Rightarrow> Some (cl_close p w fd, Inl e)
           | (w, Inr _) \<Rightarrow> do {
               ensure (0 \<notin> set socket_path);
               ensure (length socket_path \<le> SUN_PATH);
               (case cl_connect_dgram p w fd socket_path of
                  (w, Inl e) \<Rightarrow> Some (cl_close p w fd, Inl e)
                | (w, Inr _) \<Rightarrow> Some (w, Inr fd))
             }))"

definition run_detach :: "'w client_ops \<Rightarrow> 'w \<Rightarrow> path \<Rightarrow> run_request \<Rightarrow> ('w \<times> exit_code) option" where
  "run_detach p w socket_path args =
     (case send_request p w socket_path (Run args) of
        (w, Inl e) \<Rightarrow> Some (w, FAILURE)
      | (w, Inr resp) \<Rightarrow>
          (case cl_parse_run p resp of
             None \<Rightarrow> Some (w, FAILURE)
           | Some (ok, pid, err) \<Rightarrow>
               (if ok then do {
                  n \<leftarrow> pid;
                  Some (cl_print p w (PrintPid (Some n)), SUCCESS)
                }
                else Some (w, FAILURE))))"

definition list_containers :: "'w client_ops \<Rightarrow> 'w \<Rightarrow> path \<Rightarrow> 'w \<times> exit_code" where
  "list_containers p w socket_path =
     (case send_request p w socket_path ReqList of
        (w, Inl e) \<Rightarrow> (w, FAILURE)
      | (w, Inr resp) \<Rightarrow>
          (case cl_parse_list p resp of
             None \<Rightarrow> (w, FAILURE)
           | Some cs \<Rightarrow>
               (if cs = [] then cl_print p w PrintNone
                else fold (\<lambda>c w. cl_print p w (PrintSummary c)) cs w, SUCCESS)))"

definition kill_container :: "'w client_ops \<Rightarrow> 'w \<Rightarrow> pid \<Rightarrow> path \<Rightarrow> 'w \<times> exit_code" where
  "kill_container p w pid socket_path =
     (case send_request p w socket_path (Kill pid) of
        (w, Inl e) \<Rightarrow> (w, FAILURE)
      | (w, Inr resp) \<Rightarrow>
          (case cl_parse_kill p resp of
             None \<Rightarrow> (w, FAILURE)
           | Some (ok, err) \<Rightarrow> if ok then (cl_print p w (PrintKilled pid), SUCCESS) else (w, FAILURE)))"

section \<open>Following a log\<close>

text \<open>
  \<^verbatim>\<open>CmsgBuffer\<close> has room for one descriptor. The header is read from its start: length, level, type;
  the descriptor follows.
\<close>

definition scm_rights_fd :: "bytes \<Rightarrow> nat option" where
  "scm_rights_fd buf =
     (if le_value (take 8 buf) = 0 \<or> le_value (take 4 (drop 8 buf)) \<noteq> SOL_SOCKET
         \<or> le_value (take 4 (drop 12 buf)) \<noteq> SCM_RIGHTS
      then None
      else Some (le_value (take 4 (drop CMSGHDR_SIZE buf))))"

text \<open>\<^verbatim>\<open>Write::write_all\<close>.\<close>

partial_function (option) write_all :: "'w client_ops \<Rightarrow> 'w \<Rightarrow> bytes \<Rightarrow> ('w \<times> unit io_result) option" where
  "write_all p w data =
     (if data = [] then Some (w, Inr ())
      else (case cl_stdout p w data of
              (w, Inl e) \<Rightarrow> if e = Os INTR then write_all p w data else Some (w, Inl e)
            | (w, Inr n) \<Rightarrow> if n = 0 then Some (w, Inl WriteZero) else write_all p w (drop n data)))"

declare write_all.simps [code]

text \<open>Copying the pipe to standard output; the result of the writes is ignored.\<close>

partial_function (option) follow_loop :: "'w client_ops \<Rightarrow> int \<Rightarrow> 'w \<Rightarrow> ('w \<times> exit_code) option" where
  "follow_loop p fd w =
     (case cl_read_pipe p w fd 4096 of
        (w, Inl e) \<Rightarrow> Some (w, FAILURE)
      | (w, Inr bs) \<Rightarrow>
          if bs = [] then Some (w, SUCCESS)
          else do {
            (w, _) \<leftarrow> write_all p w bs;
            follow_loop p fd w
          })"

declare follow_loop.simps [code]

definition follow_logs :: "'w client_ops \<Rightarrow> 'w \<Rightarrow> pid \<Rightarrow> path \<Rightarrow> ('w \<times> exit_code) option" where
  "follow_logs p w pid socket_path = do {
     (w, r) \<leftarrow> create_datagram_socket p w socket_path;
     (case r of
        Inl e \<Rightarrow> Some (w, FAILURE)
      | Inr fd \<Rightarrow>
          (case cl_send p w fd (cl_request_json p (Logs pid True)) of
             (w, Inl e) \<Rightarrow> Some (cl_close p w fd, FAILURE)
           | (w, Inr _) \<Rightarrow>
               (case cl_recvmsg p w fd (replicate (cmsg_space 4) 0) of
                  (w, Inl e) \<Rightarrow> Some (cl_close p w fd, FAILURE)
                | (w, Inr buf) \<Rightarrow>
                    (case scm_rights_fd buf of
                       None \<Rightarrow> Some (cl_close p w fd, FAILURE)
                     | Some pipe_fd \<Rightarrow> follow_loop p (int pipe_fd) (cl_close p w fd)))))
   }"

definition show_logs :: "'w client_ops \<Rightarrow> 'w \<Rightarrow> bytes \<Rightarrow> bool \<Rightarrow> path \<Rightarrow> ('w \<times> exit_code) option" where
  "show_logs p w cid follow socket_path =
     (case cl_parse_pid p cid of
        None \<Rightarrow> Some (w, FAILURE)
      | Some pid \<Rightarrow>
          (if follow then follow_logs p w pid socket_path
           else (case send_request p w socket_path (Logs pid False) of
                   (w, Inl e) \<Rightarrow> Some (w, FAILURE)
                 | (w, Inr resp) \<Rightarrow>
                     (case cl_parse_logs p resp of
                        Some lines \<Rightarrow> Some (fold (\<lambda>l w. cl_print p w (PrintLine l)) lines w, SUCCESS)
                      | None \<Rightarrow> Some (w, FAILURE)))))"

section \<open>Sessions\<close>

text \<open>The request and the daemon's answer; the result says whether the daemon accepted.\<close>

definition handshake :: "'w client_ops \<Rightarrow> 'w \<Rightarrow> request \<Rightarrow> 'w \<times> bool" where
  "handshake p w req =
     (case send_frame (cl_write p) w 0x00 (cl_request_json p req) of
        (w, Inl e) \<Rightarrow> (w, False)
      | (w, Inr _) \<Rightarrow>
          (case read_frame (cl_read p) w of
             (w, Inl e) \<Rightarrow> (w, False)
           | (w, Inr (ty, resp_data)) \<Rightarrow>
               (if ty \<noteq> 0x01 then (w, False)
                else (case cl_parse_run p resp_data of
                        None \<Rightarrow> (w, False)
                      | Some (ok, _, _) \<Rightarrow> (w, ok)))))"

text \<open>The reader thread: the stream to standard output, one frame a round.\<close>

partial_function (option) stdout_all :: "'w client_ops \<Rightarrow> 'w \<Rightarrow> bytes \<Rightarrow> ('w \<times> bool) option" where
  "stdout_all p w data =
     (if data = [] then Some (w, True)
      else (case cl_stdout p w data of
              (w, Inl e) \<Rightarrow> Some (w, False)
            | (w, Inr n) \<Rightarrow> stdout_all p w (drop n data)))"

declare stdout_all.simps [code]

definition reader_round :: "'w client_ops \<Rightarrow> 'w \<Rightarrow> ('w \<times> int option) option" where
  "reader_round p w =
     (case read_frame (cl_read p) w of
        (w, Inl e) \<Rightarrow> Some (w, Some 1)
      | (w, Inr (ty, data)) \<Rightarrow>
          (if ty = 0x10 then do {
             (w, ok) \<leftarrow> stdout_all p w data;
             Some (w, if ok then None else Some 1)
           }
           else if ty = 0x02 then
             Some (w, Some (case cl_parse_exit p data of Some exit_code \<Rightarrow> exit_code | None \<Rightarrow> 1))
           else Some (w, Some 1)))"

partial_function (option) reader_loop :: "'w client_ops \<Rightarrow> 'w \<Rightarrow> ('w \<times> int) option" where
  "reader_loop p w = do {
     (w, r) \<leftarrow> reader_round p w;
     (case r of
        None \<Rightarrow> reader_loop p w
      | Some code \<Rightarrow> Some (cl_notify p w, code))
   }"

declare reader_loop.simps [code]

text \<open>
  The main thread: standard input to the stream. \<open>cl_poll\<close> answers whether the input and the notify
  pipe have \<^verbatim>\<open>POLLIN\<close>. Only the session that runs a container looks for a changed window.
\<close>

definition send_winsize :: "'w client_ops \<Rightarrow> 'w \<Rightarrow> 'w" where
  "send_winsize p w = fst (send_frame (cl_write p) w 0x20 (cl_winsize_json p (get_window_size p w)))"

definition on_interrupt :: "'w client_ops \<Rightarrow> bool \<Rightarrow> 'w \<Rightarrow> 'w" where
  "on_interrupt p winch w =
     (if winch then (case cl_take_winch p w of (w, pending) \<Rightarrow> if pending then send_winsize p w else w) else w)"

definition input_round :: "'w client_ops \<Rightarrow> bool \<Rightarrow> 'w \<Rightarrow> 'w \<times> bool" where
  "input_round p winch w =
     (case cl_poll p w of
        (w, Inl e) \<Rightarrow> if e = Os INTR then (on_interrupt p winch w, True) else (w, False)
      | (w, Inr (readable, notified)) \<Rightarrow>
          (if notified then (w, False)
           else if \<not> readable then (w, True)
           else (case cl_stdin p w 4096 of
                   (w, Inr bs) \<Rightarrow>
                     (if bs = [] then (fst (send_frame (cl_write p) w 0x11 []), False)
                      else (case send_frame (cl_write p) w 0x10 bs of
                              (w, Inl e) \<Rightarrow> (w, False)
                            | (w, Inr _) \<Rightarrow> (w, True)))
                 | (w, Inl e) \<Rightarrow>
                     (if e = Os INTR then (w, True)
                      else if e = UnexpectedEof \<or> e = Os EIO then (fst (send_frame (cl_write p) w 0x11 []), False)
                      else (w, False)))))"

partial_function (option) input_loop :: "'w client_ops \<Rightarrow> bool \<Rightarrow> 'w \<Rightarrow> 'w option" where
  "input_loop p winch w =
     (case input_round p winch w of (w, b) \<Rightarrow> if b then input_loop p winch w else Some w)"

declare input_loop.simps [code]

text \<open>The two threads under a schedule: \<^const>\<open>True\<close> lets the reader make a round.\<close>

record 'w session =
  ss_world :: 'w
  ss_reader :: "int option"
  ss_input :: bool

definition thread_turn :: "'w client_ops \<Rightarrow> bool \<Rightarrow> bool \<Rightarrow> 'w session \<Rightarrow> 'w session option" where
  "thread_turn p winch reader s =
     (if reader then
        (case ss_reader s of
           Some code \<Rightarrow> Some s
         | None \<Rightarrow> do {
             (w, r) \<leftarrow> reader_round p (ss_world s);
             Some (s\<lparr>ss_world := (if r = None then w else cl_notify p w), ss_reader := r\<rparr>)
           })
      else if ss_input s then
        (case input_round p winch (ss_world s) of (w, b) \<Rightarrow> Some (s\<lparr>ss_world := w, ss_input := b\<rparr>))
      else Some s)"

fun run_threads :: "'w client_ops \<Rightarrow> bool \<Rightarrow> bool list \<Rightarrow> 'w session \<Rightarrow> 'w session option" where
  "run_threads p winch [] s = Some s"
| "run_threads p winch (t # ts) s = do {
     s \<leftarrow> thread_turn p winch t s;
     run_threads p winch ts s
   }"

text \<open>Raw mode for a terminal session, no echo for an interactive one; what is to be restored.\<close>

definition terminal_setup :: "'w client_ops \<Rightarrow> 'w \<Rightarrow> bool \<Rightarrow> bool \<Rightarrow> 'w \<times> termios option" where
  "terminal_setup p w tty interactive =
     (if tty \<and> cl_isatty p w then
        (case set_raw_terminal p w of
           (w, Inl e) \<Rightarrow> (w, None)
         | (w, Inr t) \<Rightarrow> (cl_install_winch p (fst (cl_take_winch p (send_winsize p w))), Some t))
      else if interactive \<and> cl_isatty p w then
        (case disable_echo_output p w of
           (w, Inl e) \<Rightarrow> (w, None)
         | (w, Inr t) \<Rightarrow> (w, Some t))
      else (w, None))"

definition terminal_restore :: "'w client_ops \<Rightarrow> 'w \<Rightarrow> termios option \<Rightarrow> 'w" where
  "terminal_restore p w saved =
     (case saved of None \<Rightarrow> w | Some t \<Rightarrow> cl_default_winch p (fst (restore_terminal p w t)))"

text \<open>
  The exit code is the reader's, cut to a byte. The input thread ends first or last, but the terminal
  is restored when it ends; the session is over when both have ended.
\<close>

definition session_end :: "'w client_ops \<Rightarrow> termios option \<Rightarrow> 'w session \<Rightarrow> ('w \<times> exit_code) option" where
  "session_end p saved s = do {
     ensure (\<not> ss_input s);
     code \<leftarrow> ss_reader s;
     Some (terminal_restore p (cl_close_notify p (ss_world s)) saved, ExitCode (word_of_int code))
   }"

definition run_attach ::
  "'w client_ops \<Rightarrow> 'w \<Rightarrow> path \<Rightarrow> run_request \<Rightarrow> bool \<Rightarrow> bool \<Rightarrow> bool list \<Rightarrow> ('w \<times> exit_code) option"
where
  "run_attach p w stream_path args tty interactive sched =
     (case cl_connect p w stream_path of
        (w, Inl e) \<Rightarrow> Some (w, FAILURE)
      | (w, Inr _) \<Rightarrow>
          (case handshake p w (Run args) of
             (w, False) \<Rightarrow> Some (w, FAILURE)
           | (w, True) \<Rightarrow>
               (case terminal_setup p w tty interactive of
                  (w, saved) \<Rightarrow>
                    (case cl_pipe2 p w of
                       (w, Inl e) \<Rightarrow> None
                     | (w, Inr _) \<Rightarrow> do {
                         s \<leftarrow> run_threads p True sched \<lparr>ss_world = w, ss_reader = None, ss_input = True\<rparr>;
                         session_end p saved s
                       }))))"

definition attach_container :: "'w client_ops \<Rightarrow> 'w \<Rightarrow> path \<Rightarrow> pid \<Rightarrow> bool list \<Rightarrow> ('w \<times> exit_code) option" where
  "attach_container p w stream_path pid sched =
     (case cl_connect p w stream_path of
        (w, Inl e) \<Rightarrow> Some (w, FAILURE)
      | (w, Inr _) \<Rightarrow>
          (case handshake p w (Attach pid) of
             (w, False) \<Rightarrow> Some (w, FAILURE)
           | (w, True) \<Rightarrow>
               (case cl_pipe2 p w of
                  (w, Inl e) \<Rightarrow> None
                | (w, Inr _) \<Rightarrow> do {
                    s \<leftarrow> run_threads p False sched \<lparr>ss_world = w, ss_reader = None, ss_input = True\<rparr>;
                    session_end p None s
                  })))"

section \<open>The command line\<close>

text \<open>The parsed command line; the daemon command is a parameter of \<open>main\<close>.\<close>

datatype cli =
    CliRun run_request bool bool bool "path option"
  | CliDaemon "path option"
  | CliLogs bytes bool "path option"
  | CliList "path option"
  | CliKill pid "path option"
  | CliAttach pid "path option"

definition DOT_STREAM :: bytes where
  "DOT_STREAM = map of_char ''.stream''"

definition socket_or :: "path option \<Rightarrow> path \<Rightarrow> path" where
  "socket_or socket_path default_socket_path = (case socket_path of Some s \<Rightarrow> s | None \<Rightarrow> default_socket_path)"

definition client_main ::
  "'w client_ops \<Rightarrow> ('w \<Rightarrow> path \<Rightarrow> ('w \<times> exit_code) option) \<Rightarrow> path \<Rightarrow> bool list \<Rightarrow> 'w \<Rightarrow> cli \<Rightarrow>
   ('w \<times> exit_code) option"
where
  "client_main p run_daemon default_socket_path sched w cli =
     (case cli of
        CliDaemon sp \<Rightarrow> run_daemon w (socket_or sp default_socket_path)
      | CliRun args tty interactive detach sp \<Rightarrow>
          (let args = args\<lparr>rq_interactive := Some interactive, rq_tty := Some tty\<rparr> in
           if detach then run_detach p w (socket_or sp default_socket_path) args
           else run_attach p w (socket_or sp default_socket_path @ DOT_STREAM) args tty interactive sched)
      | CliLogs cid follow sp \<Rightarrow> show_logs p w cid follow (socket_or sp default_socket_path)
      | CliList sp \<Rightarrow> Some (list_containers p w (socket_or sp default_socket_path))
      | CliKill pid sp \<Rightarrow> Some (kill_container p w pid (socket_or sp default_socket_path))
      | CliAttach pid sp \<Rightarrow> attach_container p w (socket_or sp default_socket_path @ DOT_STREAM) pid sched)"

end
