(* ===== verification/Client_Safety.thy ===== *)
theory Client_Safety
  imports Client
begin

text \<open>
  The client against the daemon's protocol: its reader thread reproduces the output of the container
  and its exit code, its control-message decoder reads what the daemon's encoder writes, a session
  leaves the terminal as it found it, and where its input thread gets stuck.
\<close>

section \<open>Output\<close>

text \<open>
  What standard output does: a write takes a non-empty prefix, appends it to what was written and does
  not touch the stream; reading the stream writes nothing.
\<close>

definition sink :: "'w client_ops \<Rightarrow> ('w \<Rightarrow> bytes) \<Rightarrow> ('w \<Rightarrow> bytes) \<Rightarrow> bool" where
  "sink p content out \<longleftrightarrow>
     (\<forall>w data. data \<noteq> [] \<longrightarrow>
        (\<exists>w' k. 0 < k \<and> k \<le> length data \<and> cl_stdout p w data = (w', Inr k) \<and>
           out w' = out w @ take k data \<and> content w' = content w)) \<and>
     (\<forall>w n. out (fst (cl_read p w n)) = out w)"

lemma stdout_all_sink:
  assumes "sink p content out"
  shows "\<exists>w'. stdout_all p w data = Some (w', True) \<and> out w' = out w @ data \<and> content w' = content w"
proof (induction data arbitrary: w rule: length_induct)
  case (1 data)
  show ?case
  proof (cases "data = []")
    case True
    then show ?thesis by (subst stdout_all.simps) simp
  next
    case False
    then obtain w1 k where k: "0 < k" "k \<le> length data" "cl_stdout p w data = (w1, Inr k)"
        "out w1 = out w @ take k data" "content w1 = content w"
      using assms unfolding sink_def by metis
    then obtain w2 where "stdout_all p w1 (drop k data) = Some (w2, True)" "out w2 = out w1 @ drop k data"
        "content w2 = content w1"
      using 1 by (metis False length_drop length_greater_0_conv diff_less)
    then show ?thesis
      using False k by (subst stdout_all.simps) simp
  qed
qed

lemma read_exact_silent:
  assumes "\<And>w n. out (fst (rd w n)) = out w"
  shows "out (fst (read_exact_loop rd s acc len)) = out s"
  using assms
proof (induction rd s acc len rule: read_exact_loop.induct)
  case (1 rd s acc len)
  obtain s1 r where r: "rd s (len - length acc) = (s1, r)"
    by fastforce
  have "out s1 = out s"
    using 1(2) [of s "len - length acc"] r by simp
  then show ?case
    using 1(1) [OF _ r [symmetric]] 1(2) by (subst read_exact_loop.simps) (auto simp: r split: sum.splits)
qed

lemma read_frame_silent:
  assumes "\<And>w n. out (fst (rd w n)) = out w"
  shows "out (fst (read_frame rd s)) = out s"
  using read_exact_silent [of out rd s "[]" 3, OF assms] read_exact_silent [of out rd, OF assms]
  by (auto simp: read_frame_def Let_def split: prod.splits sum.splits) (metis fst_conv)+

text \<open>The stream of a session: output in data frames, then the exit frame.\<close>

definition session_stream :: "bytes list \<Rightarrow> bytes \<Rightarrow> bytes" where
  "session_stream outputs exit_payload = concat (map (build_frame 0x10) outputs) @ build_frame 0x02 exit_payload"

lemma reader_round_data:
  assumes "stream_reader (cl_read p) content" "sink p content out"
    and "content w = build_frame 0x10 d @ rest" "length d < 65536"
  shows "\<exists>w'. reader_round p w = Some (w', None) \<and> content w' = rest \<and> out w' = out w @ d"
proof -
  obtain w1 where w1: "read_frame (cl_read p) w = (w1, Inr (0x10, d))" "content w1 = rest"
    using read_frame_stream [OF assms(1,3,4)] by blast
  have "out w1 = out w"
    using read_frame_silent [of out "cl_read p" w] assms(2) w1(1) by (simp add: sink_def)
  moreover obtain w2 where "stdout_all p w1 d = Some (w2, True)" "out w2 = out w1 @ d" "content w2 = content w1"
    using stdout_all_sink [OF assms(2)] by blast
  ultimately show ?thesis
    using w1 by (simp add: reader_round_def)
qed

lemma reader_round_exit:
  assumes "stream_reader (cl_read p) content" "sink p content out"
    and "content w = build_frame 0x02 e @ rest" "length e < 65536" "cl_parse_exit p e = Some code"
  shows "\<exists>w'. reader_round p w = Some (w', Some code) \<and> content w' = rest \<and> out w' = out w"
proof -
  obtain w1 where w1: "read_frame (cl_read p) w = (w1, Inr (0x02, e))" "content w1 = rest"
    using read_frame_stream [OF assms(1,3,4)] by blast
  have "out w1 = out w"
    using read_frame_silent [of out "cl_read p" w] assms(2) w1(1) by (simp add: sink_def)
  then show ?thesis
    using w1 assms(5) by (simp add: reader_round_def)
qed

lemma reader_reproduces:
  assumes "stream_reader (cl_read p) content" "sink p content out"
    and "content w = session_stream outputs payload @ rest"
    and "\<forall>d \<in> set outputs. length d < 65536" "length payload < 65536" "cl_parse_exit p payload = Some code"
  shows "\<exists>w'. reader_loop p w = Some (cl_notify p w', code) \<and> out w' = out w @ concat outputs \<and> content w' = rest"
  using assms(3,4)
proof (induction outputs arbitrary: w)
  case Nil
  then obtain w' where "reader_round p w = Some (w', Some code)" "content w' = rest" "out w' = out w"
    using reader_round_exit [OF assms(1,2) _ assms(5,6), of w rest] by (auto simp: session_stream_def)
  then show ?case
    by (subst reader_loop.simps) auto
next
  case (Cons d ds)
  then obtain w1 where w1: "reader_round p w = Some (w1, None)" "content w1 = session_stream ds payload @ rest"
      "out w1 = out w @ d"
    using reader_round_data [OF assms(1,2), of w d "session_stream ds payload @ rest"]
    by (auto simp: session_stream_def)
  then obtain w' where "reader_loop p w1 = Some (cl_notify p w', code)" "out w' = out w1 @ concat ds" "content w' = rest"
    using Cons.IH [OF w1(2)] Cons.prems(2) by auto
  then show ?case
    using w1 by (subst reader_loop.simps) auto
qed

text \<open>
  C24. The client shows what the container wrote. Given a stream that carries the output of a session
  in data frames and then its exit frame, delivered in pieces of any size, and a standard output
  that takes any non-empty part of what it is given, the reader thread returns: it has written exactly
  the output, in order, it has consumed exactly these frames, and it reports the exit code of the
  frame.
\<close>

theorem client_reproduces_session:
  assumes "stream_reader (cl_read p) content" "sink p content out"
    and "content w = session_stream outputs payload @ rest"
    and "\<forall>d \<in> set outputs. length d < 65536" "length payload < 65536" "cl_parse_exit p payload = Some code"
  shows "\<exists>w'. reader_loop p w = Some (cl_notify p w', code) \<and> out w' = out w @ concat outputs \<and> content w' = rest"
  using reader_reproduces [OF assms] .

section \<open>Input\<close>

text \<open>
  A closed input pipe is never reported. When the writer of the pipe behind standard input has
  closed it and everything was read, \<^verbatim>\<open>poll\<close> reports \<^verbatim>\<open>POLLHUP\<close> without \<^verbatim>\<open>POLLIN\<close>; the loop tests only for
  \<^verbatim>\<open>POLLIN\<close>. So the end of the input is not read, the end-of-input frame is not sent, and the loop
  spins without sending anything for as long as the container does not end by itself, which a
  container that waits for the end of its input never does.
\<close>

theorem closed_input_spins:
  assumes "\<forall>v. hung_up v \<longrightarrow> (\<exists>v'. cl_poll p v = (v', Inr (False, False)) \<and> hung_up v' \<and> sent v' = sent v)"
    and "hung_up w"
  shows "input_loop p winch w = None \<and>
    (\<forall>n. hung_up (((fst \<circ> input_round p winch) ^^ n) w) \<and> sent (((fst \<circ> input_round p winch) ^^ n) w) = sent w)"
proof
  have round: "\<exists>v'. input_round p winch v = (v', True) \<and> hung_up v' \<and> sent v' = sent v" if "hung_up v" for v
    using assms(1) that by (force simp: input_round_def)
  show "\<forall>n. hung_up (((fst \<circ> input_round p winch) ^^ n) w) \<and> sent (((fst \<circ> input_round p winch) ^^ n) w) = sent w"
  proof
    fix n
    show "hung_up (((fst \<circ> input_round p winch) ^^ n) w) \<and> sent (((fst \<circ> input_round p winch) ^^ n) w) = sent w"
      by (induction n) (use assms(2) round in \<open>force+\<close>)
  qed
  show "input_loop p winch w = None"
  proof (rule ccontr)
    assume "input_loop p winch w \<noteq> None"
    then obtain r where r: "input_loop p winch w = Some r" by blast
    have "p = p \<longrightarrow> winch = winch \<longrightarrow> hung_up w \<longrightarrow> False"
    proof (rule input_loop.raw_induct [where P = "\<lambda>q c v r. q = p \<longrightarrow> c = winch \<longrightarrow> hung_up v \<longrightarrow> False", OF _ r])
      fix f :: "'a client_ops \<Rightarrow> bool \<Rightarrow> 'a \<Rightarrow> 'a option" and q c v r
      assume IH: "\<And>q c v r. f q c v = Some r \<Longrightarrow> q = p \<longrightarrow> c = winch \<longrightarrow> hung_up v \<longrightarrow> False"
        and res: "(case input_round q c v of (v, b) \<Rightarrow> if b then f q c v else Some v) = Some r"
      show "q = p \<longrightarrow> c = winch \<longrightarrow> hung_up v \<longrightarrow> False"
        using IH res round by fastforce
    qed
    then show False using assms(2) by simp
  qed
qed

section \<open>The passed descriptor\<close>

lemma scm_rights_fd_bytes:
  assumes "take 20 c = cmsg_bytes SOL_SOCKET SCM_RIGHTS (fd_bytes [fd])" "fd < 2 ^ 32"
  shows "scm_rights_fd c = Some fd"
proof -
  let ?b = "le_bytes 8 20 @ le_bytes 4 SOL_SOCKET @ le_bytes 4 SCM_RIGHTS @ le_bytes 4 fd"
  have b: "take 20 c = ?b"
    using assms(1) by (simp add: cmsg_bytes_def fd_bytes_def CMSGHDR_SIZE_def)
  have part: "take k (drop n c) = take k (drop n (take 20 c))" if "n + k \<le> 20" for n k
    using that by (simp add: drop_take min_def)
  have "take 8 c = le_bytes 8 20" "take 4 (drop 8 c) = le_bytes 4 SOL_SOCKET"
    "take 4 (drop 12 c) = le_bytes 4 SCM_RIGHTS" "take 4 (drop 16 c) = le_bytes 4 fd"
    using part [of 0 8] part [of 8 4] part [of 12 4] part [of 16 4] unfolding b by simp_all
  then show ?thesis
    using le_bytes_value [of 20 8] le_bytes_value [of SOL_SOCKET 4] le_bytes_value [of SCM_RIGHTS 4] le_bytes_value [of fd 4]
      assms(2)
    by (simp only: scm_rights_fd_def CMSGHDR_SIZE_def) (simp add: SOL_SOCKET_def SCM_RIGHTS_def)
qed

text \<open>
  The client reads the descriptor the daemon sends. The control message the daemon builds to pass
  the read end of a follower's pipe, in a header with room for one descriptor, is accepted by the
  client's decoder, which finds exactly this descriptor in it; an empty buffer, which is what a reply
  without a descriptor leaves, is refused.
\<close>

theorem client_reads_passed_fd:
  assumes "msg_with_capacity alloc release w 0 (cmsg_space 4) = Some (w', Some m)"
    and "\<forall>w n w' a b. alloc w n = (w', Some (a, b)) \<longrightarrow> a mod CMSGHDR_ALIGN = 0 \<and> length b = n"
    and "fd < 2 ^ 32"
  shows "\<exists>m' c. push_scm_rights m [fd] = Some (m', True) \<and> msg_ctrl m' = Some c \<and>
    length c = cmsg_space 4 \<and> scm_rights_fd c = Some fd \<and> scm_rights_fd (replicate (cmsg_space 4) 0) = None"
proof -
  have ok: "msg_ok m" and cap: "ctrl_capacity m = cmsg_space 4"
    using msg_ok_new [OF assms(1)] assms(2) by blast+
  have z: "mg_controllen m = 0" using assms(1)
    by (auto simp: msg_with_capacity_def bind_eq_Some_conv split: prod.splits option.splits if_splits)
  have sp: "cmsg_space 4 = 24" by (simp add: cmsg_space_def CMSGHDR_SIZE_def CMSGHDR_ALIGN_def)
  obtain m' where p: "push_scm_rights m [fd] = Some (m', True)" "mg_controllen m' = 24"
    "take 20 (mg_ctrl m') = cmsg_bytes SOL_SOCKET SCM_RIGHTS (fd_bytes [fd])"
    using push_cmsg_spec [OF ok, of SOL_SOCKET SCM_RIGHTS "fd_bytes [fd]"] cap z sp
    by (auto simp: push_scm_rights_def CMSGHDR_SIZE_def)
  have len: "length (mg_ctrl m') = 24"
    using p(1) cap sp z by (auto simp: push_scm_rights_def push_cmsg_def ctrl_capacity_def Let_def CMSGHDR_SIZE_def
        bind_eq_Some_conv split: if_splits)
  have "msg_ctrl m' = Some (mg_ctrl m')"
    using len p(2) by (simp add: msg_ctrl_def ctrl_capacity_def)
  moreover have "scm_rights_fd (replicate 24 0) = None"
    by (simp add: scm_rights_fd_def numeral_eq_Suc)
  ultimately show ?thesis
    using p(1) len sp scm_rights_fd_bytes [OF p(3) assms(3)] by auto
qed

theorem client_reads_passed_fd_witness:
  "\<exists>m' c. push_scm_rights demo_msg [7] = Some (m', True) \<and> msg_ctrl m' = Some c \<and>
    length c = cmsg_space 4 \<and> scm_rights_fd c = Some 7 \<and> scm_rights_fd (replicate (cmsg_space 4) 0) = None"
  by (rule client_reads_passed_fd [OF demo_msg_new]) (auto simp: demo_alloc_def CMSGHDR_ALIGN_def)

section \<open>The terminal\<close>

text \<open>
  The terminal's settings \<open>attr\<close>: only \<^verbatim>\<open>tcsetattr\<close> changes them, and \<^verbatim>\<open>tcgetattr\<close> reads them.
\<close>

definition term_laws :: "'w client_ops \<Rightarrow> ('w \<Rightarrow> termios) \<Rightarrow> bool" where
  "term_laws p attr \<longleftrightarrow>
     (\<forall>w. cl_tcgetattr p w = (w, Inr (attr w))) \<and>
     (\<forall>w t. attr (fst (cl_tcsetattr p w t)) = t \<and> \<not> isl (snd (cl_tcsetattr p w t))) \<and>
     (\<forall>w x. attr (fst (cl_connect p w x)) = attr w) \<and>
     (\<forall>w n. attr (fst (cl_read p w n)) = attr w) \<and>
     (\<forall>w b. attr (fst (cl_write p w b)) = attr w) \<and>
     (\<forall>w b. attr (fst (cl_stdout p w b)) = attr w) \<and>
     (\<forall>w n. attr (fst (cl_stdin p w n)) = attr w) \<and>
     (\<forall>w. attr (fst (cl_poll p w)) = attr w) \<and>
     (\<forall>w. attr (fst (cl_take_winch p w)) = attr w) \<and>
     (\<forall>w. attr (cl_install_winch p w) = attr w) \<and>
     (\<forall>w. attr (cl_default_winch p w) = attr w) \<and>
     (\<forall>w. attr (cl_notify p w) = attr w) \<and>
     (\<forall>w. attr (cl_close_notify p w) = attr w) \<and>
     (\<forall>w. attr (fst (cl_pipe2 p w)) = attr w)"

lemma term_lawsD:
  assumes "term_laws p attr"
  shows "cl_tcgetattr p w = (w, Inr (attr w))" "attr (fst (cl_tcsetattr p w t)) = t" "\<not> isl (snd (cl_tcsetattr p w t))"
    "attr (fst (cl_connect p w x)) = attr w" "attr (fst (cl_read p w n)) = attr w" "attr (fst (cl_write p w b)) = attr w"
    "attr (fst (cl_stdout p w b)) = attr w" "attr (fst (cl_stdin p w n)) = attr w" "attr (fst (cl_poll p w)) = attr w"
    "attr (fst (cl_take_winch p w)) = attr w" "attr (cl_install_winch p w) = attr w" "attr (cl_default_winch p w) = attr w"
    "attr (cl_notify p w) = attr w" "attr (cl_close_notify p w) = attr w" "attr (fst (cl_pipe2 p w)) = attr w"
  using assms unfolding term_laws_def by blast+

lemma attr_send_frame: "term_laws p attr \<Longrightarrow> attr (fst (send_frame (cl_write p) w ty b)) = attr w"
  using term_lawsD(6) [of p attr w "build_frame ty b"]
  by (auto simp: send_frame_def Let_def split: prod.splits sum.splits)

lemma attr_read_frame: "term_laws p attr \<Longrightarrow> attr (fst (read_frame (cl_read p) w)) = attr w"
  by (rule read_frame_silent) (rule term_lawsD(5))

lemma attr_handshake: "term_laws p attr \<Longrightarrow> handshake p w req = (w', b) \<Longrightarrow> attr w' = attr w"
  using attr_send_frame [of p attr w "0x00" "cl_request_json p req"] attr_read_frame [of p attr]
  by (auto simp: handshake_def split: prod.splits sum.splits option.splits if_splits) (metis fst_conv)+

lemma attr_stdout_all:
  assumes "term_laws p attr" "stdout_all p w data = Some r"
  shows "attr (fst r) = attr w"
proof -
  have "term_laws p attr \<longrightarrow> attr (fst r) = attr w"
  proof (rule stdout_all.raw_induct [where P = "\<lambda>p w data r. term_laws p attr \<longrightarrow> attr (fst r) = attr w", OF _ assms(2)])
    fix f :: "'a client_ops \<Rightarrow> 'a \<Rightarrow> bytes \<Rightarrow> ('a \<times> bool) option" and p w data r
    assume IH: "\<And>p w data r. f p w data = Some r \<Longrightarrow> term_laws p attr \<longrightarrow> attr (fst r) = attr w"
      and res: "(if data = [] then Some (w, True) else case cl_stdout p w data of
          (w, Inl e) \<Rightarrow> Some (w, False) | (w, Inr n) \<Rightarrow> f p w (drop n data)) = Some r"
    show "term_laws p attr \<longrightarrow> attr (fst r) = attr w"
    proof
      assume laws: "term_laws p attr"
      obtain w1 x where x: "cl_stdout p w data = (w1, x)" by fastforce
      then have "attr w1 = attr w"
        using term_lawsD(7) [OF laws] by (metis fst_conv)
      then show "attr (fst r) = attr w"
        using res laws IH [of p w1 "drop (projr x) data" r] by (cases x) (auto simp: x split: if_splits)
    qed
  qed
  then show ?thesis using assms(1) by blast
qed

lemma attr_reader_round: "term_laws p attr \<Longrightarrow> reader_round p w = Some (w', r) \<Longrightarrow> attr w' = attr w"
  using attr_read_frame [of p attr w] attr_stdout_all [of p attr]
  by (fastforce simp: reader_round_def bind_eq_Some_conv split: prod.splits sum.splits if_splits)

lemma attr_send_winsize: "term_laws p attr \<Longrightarrow> attr (send_winsize p w) = attr w"
  by (simp add: send_winsize_def attr_send_frame)

lemma attr_on_interrupt: "term_laws p attr \<Longrightarrow> attr (on_interrupt p winch w) = attr w"
  using term_lawsD(10) [of p attr w] by (auto simp: on_interrupt_def attr_send_winsize split: prod.splits)

lemma attr_input_round:
  assumes laws: "term_laws p attr" and res: "input_round p winch w = (w', b)"
  shows "attr w' = attr w"
proof -
  obtain w1 r where r: "cl_poll p w = (w1, r)" by fastforce
  obtain w2 q where q: "cl_stdin p w1 4096 = (w2, q)" by fastforce
  have a: "attr w1 = attr w" "attr w2 = attr w1"
    using term_lawsD(8,9) [OF laws] r q by (metis fst_conv)+
  obtain w3 x where x: "send_frame (cl_write p) w2 0x10 (projr q) = (w3, x)" by fastforce
  have "attr w3 = attr w2"
    using attr_send_frame [OF laws] x by (metis fst_conv)
  then show ?thesis
    using res a attr_send_frame [OF laws] attr_on_interrupt [OF laws] x
    by (cases r; cases q) (auto simp: input_round_def r q split: if_splits sum.splits)
qed

lemma attr_threads:
  "term_laws p attr \<Longrightarrow> run_threads p winch ts s = Some s' \<Longrightarrow> attr (ss_world s') = attr (ss_world s)"
proof (induction ts arbitrary: s)
  case (Cons t ts)
  then obtain s1 where s1: "thread_turn p winch t s = Some s1" "run_threads p winch ts s1 = Some s'"
    by (auto simp: bind_eq_Some_conv)
  have "attr (ss_world s1) = attr (ss_world s)"
    using s1(1) Cons.prems(1) attr_reader_round [OF Cons.prems(1)] attr_input_round [OF Cons.prems(1)] term_lawsD(13) [OF Cons.prems(1)]
    by (auto simp: thread_turn_def bind_eq_Some_conv split: if_splits option.splits prod.splits)
  with Cons s1 show ?case by simp
qed simp

lemma attr_terminal:
  assumes laws: "term_laws p attr" and init: "terminal_setup p w tty interactive = (w1, saved)"
    and after: "attr w2 = attr w1"
  shows "attr (terminal_restore p w2 saved) = attr w"
proof -
  obtain w3 x where x: "cl_tcsetattr p w (cl_cfmakeraw p (attr w)) = (w3, x)" by fastforce
  obtain w4 y where y: "cl_tcsetattr p w ((attr w)\<lparr>tm_lflag := tm_lflag (attr w) AND NOT (ECHO OR ECHONL),
      tm_oflag := tm_oflag (attr w) AND NOT OPOST\<rparr>) = (w4, y)" by fastforce
  have "\<not> isl x" "\<not> isl y"
    using term_lawsD(3) [OF laws] x y by (metis snd_conv)+
  then have "saved = Some (attr w) \<or> saved = None \<and> w1 = w"
    using init x y term_lawsD(1) [OF laws]
    by (auto simp: terminal_setup_def set_raw_terminal_def disable_echo_output_def io_then_def isl_def
        split: if_splits sum.splits)
  then show ?thesis
    using after term_lawsD(2,12) [OF laws] by (auto simp: terminal_restore_def restore_terminal_def)
qed

text \<open>
  C25. A session leaves the terminal as it found it. Whatever the daemon sends, however the two threads
  are scheduled and however the session ends, after \<^verbatim>\<open>run_attach\<close> returns the settings of the terminal
  are those from before, in raw mode, in no-echo mode and without a terminal.
\<close>

theorem session_restores_terminal:
  assumes "term_laws p attr" "run_attach p w path args tty interactive sched = Some (w', code)"
  shows "attr w' = attr w"
proof -
  obtain w1 r1 where 1: "cl_connect p w path = (w1, r1)" by fastforce
  obtain w2 b where 2: "handshake p w1 (Run args) = (w2, b)" by fastforce
  obtain w3 saved where 3: "terminal_setup p w2 tty interactive = (w3, saved)" by fastforce
  obtain w4 r4 where 4: "cl_pipe2 p w3 = (w4, r4)" by fastforce
  have a1: "attr w1 = attr w" and a2: "attr w2 = attr w1" and a4: "attr w4 = attr w3"
    using term_lawsD(4,15) [OF assms(1)] attr_handshake [OF assms(1) 2] 1 4 by (metis fst_conv)+
  show ?thesis
  proof (cases "isl r1 \<or> \<not> b")
    case True
    then show ?thesis
      using assms(2) a1 a2 by (cases r1; cases b) (auto simp: run_attach_def 1 2)
  next
    case False
    then obtain s where s: "run_threads p True sched \<lparr>ss_world = w4, ss_reader = None, ss_input = True\<rparr> = Some s"
        "w' = terminal_restore p (cl_close_notify p (ss_world s)) saved"
      using assms(2) by (cases r1; cases b; cases r4)
        (auto simp: run_attach_def 1 2 3 4 session_end_def bind_eq_Some_conv)
    have "attr (cl_close_notify p (ss_world s)) = attr w3"
      using attr_threads [OF assms(1) s(1)] term_lawsD(14) [OF assms(1)] a4 by simp
    from attr_terminal [OF assms(1) 3 this] show ?thesis
      using s(2) a1 a2 by simp
  qed
qed

section \<open>A concrete client\<close>

text \<open>A stream read two bytes at a time, an output that takes two bytes at a time, a raw-capable terminal.\<close>

record desk_client =
  dc_stream :: bytes
  dc_out :: bytes
  dc_sent :: "bytes list"
  dc_attr :: termios
  dc_notified :: bool

definition desk_read :: "desk_client \<Rightarrow> nat \<Rightarrow> desk_client \<times> bytes io_result" where
  "desk_read w n = (case dribble (dc_stream w) n of (s, r) \<Rightarrow> (w\<lparr>dc_stream := s\<rparr>, r))"

definition desk_stdout :: "desk_client \<Rightarrow> bytes \<Rightarrow> desk_client \<times> nat io_result" where
  "desk_stdout w b = (w\<lparr>dc_out := dc_out w @ take 2 b\<rparr>, Inr (min 2 (length b)))"

definition demo_client :: "desk_client client_ops" where
  "demo_client = \<lparr>
     cl_connect = (\<lambda>w x. (w, Inr ())),
     cl_read = desk_read,
     cl_write = (\<lambda>w b. (w\<lparr>dc_sent := dc_sent w @ [b]\<rparr>, Inr (length b))),
     cl_stdout = desk_stdout,
     cl_stdin = (\<lambda>w n. (w, Inr [])),
     cl_poll = (\<lambda>w. (w, Inr (False, dc_notified w))),
     cl_take_winch = (\<lambda>w. (w, False)),
     cl_install_winch = (\<lambda>w. w),
     cl_default_winch = (\<lambda>w. w),
     cl_notify = (\<lambda>w. w\<lparr>dc_notified := True\<rparr>),
     cl_close_notify = (\<lambda>w. w),
     cl_isatty = (\<lambda>w. True),
     cl_tcgetattr = (\<lambda>w. (w, Inr (dc_attr w))),
     cl_tcsetattr = (\<lambda>w t. (w\<lparr>dc_attr := t\<rparr>, Inr ())),
     cl_cfmakeraw = (\<lambda>t. t\<lparr>tm_lflag := 0\<rparr>),
     cl_winsize = (\<lambda>w. Some (24, 80)),
     cl_pipe2 = (\<lambda>w. (w, Inr ())),
     cl_print = (\<lambda>w x. w),
     cl_socket = (\<lambda>w. (w, Inr 3)),
     cl_bind = (\<lambda>w fd. (w, Inr ())),
     cl_connect_dgram = (\<lambda>w fd x. (w, Inr ())),
     cl_send = (\<lambda>w fd b. (w, Inr (length b))),
     cl_peek = (\<lambda>w fd. (w, Inr 0)),
     cl_recv = (\<lambda>w fd n. (w, Inr [])),
     cl_recvmsg = (\<lambda>w fd b. (w, Inr b)),
     cl_read_pipe = (\<lambda>w fd n. (w, Inr [])),
     cl_close = (\<lambda>w fd. w),
     cl_request_json = (\<lambda>r. [0]),
     cl_winsize_json = (\<lambda>s. [1]),
     cl_parse_run = (\<lambda>b. Some (True, None, None)),
     cl_parse_exit = (\<lambda>b. case b of [c] \<Rightarrow> Some (int (unat c)) | _ \<Rightarrow> None),
     cl_parse_logs = (\<lambda>b. None),
     cl_parse_error = (\<lambda>b. None),
     cl_parse_list = (\<lambda>b. None),
     cl_parse_kill = (\<lambda>b. None),
     cl_parse_pid = (\<lambda>b. None)\<rparr>"

definition desk_world :: "bytes \<Rightarrow> desk_client" where
  "desk_world stream = \<lparr>dc_stream = stream, dc_out = [], dc_sent = [],
     dc_attr = \<lparr>tm_iflag = 1, tm_oflag = 5, tm_cflag = 0, tm_lflag = 0x8a3b\<rparr>, dc_notified = False\<rparr>"

lemma demo_client_reader: "stream_reader (cl_read demo_client) dc_stream"
proof -
  have "\<exists>s' k. 0 < k \<and> k \<le> n \<and> k \<le> length (dc_stream w) \<and>
      cl_read demo_client w n = (s', Inr (take k (dc_stream w))) \<and> dc_stream s' = drop k (dc_stream w)"
    if pos: "0 < n \<and> dc_stream w \<noteq> []" for w n
  proof -
    obtain s' k where k: "0 < k \<and> k \<le> n \<and> k \<le> length (dc_stream w) \<and>
        dribble (dc_stream w) n = (s', Inr (take k (dc_stream w))) \<and> s' = drop k (dc_stream w)"
      using dribble_stream [unfolded stream_reader_def, rule_format, OF pos] by (elim exE)
    then show ?thesis
      by (intro exI [of _ "w\<lparr>dc_stream := s'\<rparr>"] exI [of _ k]) (simp add: demo_client_def desk_read_def)
  qed
  then show ?thesis
    unfolding stream_reader_def by (intro allI impI)
qed

lemma demo_client_sink: "sink demo_client dc_stream dc_out"
  unfolding sink_def
proof (intro conjI allI impI)
  fix w and data :: bytes assume "data \<noteq> []"
  then show "\<exists>w' k. 0 < k \<and> k \<le> length data \<and> cl_stdout demo_client w data = (w', Inr k) \<and>
      dc_out w' = dc_out w @ take k data \<and> dc_stream w' = dc_stream w"
    by (intro exI [of _ "w\<lparr>dc_out := dc_out w @ take 2 data\<rparr>"] exI [of _ "min 2 (length data)"])
      (simp add: demo_client_def desk_stdout_def min_def)
qed (simp add: demo_client_def desk_read_def split: prod.splits)

lemma desk_world_simps [simp]: "dc_stream (desk_world s) = s" "dc_out (desk_world s) = []" "dc_sent (desk_world s) = []"
  "\<not> dc_notified (desk_world s)"
  by (simp_all add: desk_world_def)

lemma demo_exit: "cl_parse_exit demo_client [c] = Some (int (unat c))"
  by (simp add: demo_client_def)

theorem client_reproduces_session_witness:
  "\<exists>w'. reader_loop demo_client (desk_world (session_stream [[104, 105, 33], [10]] [3])) = Some (cl_notify demo_client w', 3) \<and>
     dc_out w' = [104, 105, 33, 10] \<and> dc_stream w' = []"
  using client_reproduces_session [OF demo_client_reader demo_client_sink,
      of "desk_world (session_stream [[104, 105, 33], [10]] [3])" "[[104, 105, 33], [10]]" "[3]" "[]" 3]
  by (simp add: demo_exit)

theorem closed_input_spins_witness:
  "input_loop demo_client True (desk_world []) = None \<and>
   dc_sent (((fst \<circ> input_round demo_client True) ^^ 5) (desk_world [])) = []"
  using closed_input_spins [of "\<lambda>w. \<not> dc_notified w" demo_client dc_sent "desk_world []" True]
  by (simp add: demo_client_def [THEN arg_cong, of cl_poll])

lemma demo_client_terminal: "term_laws demo_client dc_attr"
  by (simp add: term_laws_def demo_client_def desk_read_def desk_stdout_def split: prod.splits)

definition desk_request :: run_request where
  "desk_request = \<lparr>rq_rootfs = None, rq_net_pid = None, rq_save = False, rq_command = [[115, 104]],
     rq_interactive = Some True, rq_tty = Some True, rq_no_init = False, rq_init_path = None\<rparr>"

definition desk_stream :: bytes where
  "desk_stream = build_frame 0x01 [0] @ session_stream [[104, 105]] [7]"

lemma desk_handshake:
  "\<exists>w. handshake demo_client (desk_world desk_stream) (Run desk_request) = (w, True) \<and> dc_stream w = session_stream [[104, 105]] [7]"
proof -
  define w0 where "w0 = (desk_world desk_stream)\<lparr>dc_sent := [build_frame 0x00 [0]]\<rparr>"
  have sent: "send_frame (cl_write demo_client) (desk_world desk_stream) 0x00 (cl_request_json demo_client (Run desk_request)) = (w0, Inr ())"
    by (simp add: send_frame_def demo_client_def w0_def)
  have "dc_stream w0 = build_frame 0x01 [0] @ session_stream [[104, 105]] [7]"
    by (simp add: w0_def desk_stream_def)
  then obtain w1 where "read_frame (cl_read demo_client) w0 = (w1, Inr (0x01, [0]))" "dc_stream w1 = session_stream [[104, 105]] [7]"
    using read_frame_stream [OF demo_client_reader, of w0 "0x01" "[0]"] by auto
  then show ?thesis
    using sent by (simp add: handshake_def) (simp add: demo_client_def)
qed

lemma desk_terminal: "\<exists>w t. terminal_setup demo_client w0 True True = (w, Some t) \<and> dc_stream w = dc_stream w0"
  by (simp add: terminal_setup_def set_raw_terminal_def io_then_def send_winsize_def send_frame_def demo_client_def Let_def)

lemma desk_threads:
  assumes "dc_stream w = session_stream [[104, 105]] [7]"
  shows "\<exists>w'. run_threads demo_client True [False, True, True, False] \<lparr>ss_world = w, ss_reader = None, ss_input = True\<rparr> =
    Some \<lparr>ss_world = w', ss_reader = Some 7, ss_input = False\<rparr>"
proof (cases "dc_notified w")
  case False
  have quiet: "input_round demo_client True w = (w, True)"
    using False by (simp add: input_round_def demo_client_def)
  obtain w1 where w1: "reader_round demo_client w = Some (w1, None)" "dc_stream w1 = session_stream [] [7]"
    using reader_round_data [OF demo_client_reader demo_client_sink, of w "[104, 105]" "session_stream [] [7]"] assms
    by (auto simp: session_stream_def)
  obtain w2 where w2: "reader_round demo_client w1 = Some (w2, Some 7)"
    using reader_round_exit [OF demo_client_reader demo_client_sink, of w1 "[7]" "[]" 7] w1(2)
    by (auto simp: session_stream_def demo_exit)
  have "input_round demo_client True (cl_notify demo_client w2) = (cl_notify demo_client w2, False)"
    by (simp add: input_round_def demo_client_def)
  then show ?thesis
    using quiet w1 w2 by (simp add: thread_turn_def)
next
  case True
  have stop: "input_round demo_client True w = (w, False)"
    using True by (simp add: input_round_def demo_client_def)
  obtain w1 where w1: "reader_round demo_client w = Some (w1, None)" "dc_stream w1 = session_stream [] [7]"
    using reader_round_data [OF demo_client_reader demo_client_sink, of w "[104, 105]" "session_stream [] [7]"] assms
    by (auto simp: session_stream_def)
  obtain w2 where w2: "reader_round demo_client w1 = Some (w2, Some 7)"
    using reader_round_exit [OF demo_client_reader demo_client_sink, of w1 "[7]" "[]" 7] w1(2)
    by (auto simp: session_stream_def demo_exit)
  then show ?thesis
    using stop w1 w2 by (simp add: thread_turn_def)
qed

theorem session_restores_terminal_witness:
  "\<exists>w'. run_attach demo_client (desk_world desk_stream) [] desk_request True True [False, True, True, False] = Some (w', ExitCode 7) \<and>
     dc_attr w' = dc_attr (desk_world desk_stream)"
proof -
  obtain w1 where 1: "handshake demo_client (desk_world desk_stream) (Run desk_request) = (w1, True)"
      "dc_stream w1 = session_stream [[104, 105]] [7]"
    using desk_handshake by blast
  obtain w2 t where 2: "terminal_setup demo_client w1 True True = (w2, Some t)" "dc_stream w2 = dc_stream w1"
    using desk_terminal by blast
  obtain w3 where 3: "run_threads demo_client True [False, True, True, False] \<lparr>ss_world = w2, ss_reader = None, ss_input = True\<rparr> =
      Some \<lparr>ss_world = w3, ss_reader = Some 7, ss_input = False\<rparr>"
    using desk_threads 1(2) 2(2) by metis
  have "cl_connect demo_client (desk_world desk_stream) [] = (desk_world desk_stream, Inr ())" "cl_pipe2 demo_client w2 = (w2, Inr ())"
    by (simp_all add: demo_client_def)
  then have "\<exists>w'. run_attach demo_client (desk_world desk_stream) [] desk_request True True [False, True, True, False] = Some (w', ExitCode 7)"
    using 1 2 3 by (simp add: run_attach_def session_end_def ensure_def del: run_threads.simps)
  then show ?thesis
    using session_restores_terminal [OF demo_client_terminal] by blast
qed

end
