(* ===== verification/Session_Output.thy ===== *)
theory Session_Output
  imports Container_Logs
begin

text \<open>
  What a client gets: the output drain of a session (\<^verbatim>\<open>on_session_output\<close>,
  \<^verbatim>\<open>on_session_data_header\<close>, \<^verbatim>\<open>on_session_data_payload\<close> in \<^verbatim>\<open>libs/core/src/daemon.rs\<close>) reads a
  piece, writes its frame in two operations, each resumed after a short write, and reads again. The bytes
  it puts on the stream of the client are exactly the frames of what it read, whatever else
  the daemon does in between.
\<close>

section \<open>The drain of a session\<close>

text \<open>The locals of the three stages of the drain of a session, and what of it is in flight.\<close>

fun output_local :: "nat \<Rightarrow> op_local \<Rightarrow> bool" where
  "output_local sid (LSessionOutputRead s) = (s = sid)"
| "output_local sid (LSessionDataHeader s fd header payload off) = (s = sid)"
| "output_local sid (LSessionDataPayload s fd payload off) = (s = sid)"
| "output_local sid _ = False"

definition in_chain :: "nat \<Rightarrow> (nat \<times> pending) list \<Rightarrow> (op_local \<times> io_request) list" where
  "in_chain sid ops = map (\<lambda>(i, p). (po_local p, po_req p)) (filter (\<lambda>(i, p). output_local sid (po_local p)) ops)"

definition chain :: "nat \<Rightarrow> 'w daemon \<Rightarrow> (op_local \<times> io_request) list" where
  "chain sid d = in_chain sid (d_ops d)"

lemma in_chain_simps [simp]:
  "in_chain sid [] = []"
  "in_chain sid (xs @ ys) = in_chain sid xs @ in_chain sid ys"
  "in_chain sid ((i, p) # xs) = (if output_local sid (po_local p) then [(po_local p, po_req p)] else []) @ in_chain sid xs"
  by (simp_all add: in_chain_def)

lemma chain_ops: "d_ops d' = d_ops d \<Longrightarrow> chain sid d' = chain sid d"
  by (simp add: chain_def)

lemma chain_frame [simp]:
  "chain sid (d\<lparr>d_world := w\<rparr>) = chain sid d"
  "chain sid (d\<lparr>d_next_op := n\<rparr>) = chain sid d"
  "chain sid (d\<lparr>d_next_pipe_id := pipe\<rparr>) = chain sid d"
  "chain sid (d\<lparr>d_next_session_id := m\<rparr>) = chain sid d"
  "chain sid (d\<lparr>d_sessions := ss\<rparr>) = chain sid d"
  "chain sid (d\<lparr>d_outputs := os\<rparr>) = chain sid d"
  "chain sid (d\<lparr>d_containers := cs\<rparr>) = chain sid d"
  "chain sid (d\<lparr>d_log_graveyard := gs\<rparr>) = chain sid d"
  "chain sid (emit e d) = chain sid d"
  "chain sid (upd_session d s f) = chain sid d"
  "chain sid (upd_container d q g) = chain sid d"
  "chain sid (store_session_op d s x op) = chain sid d"
  by (simp_all add: chain_def emit_def upd_session_def upd_container_def store_session_op_def)

lemma chain_close [simp]:
  "chain sid (close_fd k d fd) = chain sid d"
  "chain sid (close_if_open k d fd) = chain sid d"
  by (simp_all add: close_if_open_def close_fd_def)

lemma chain_close_fds [simp]: "chain sid (close_fds k d fds) = chain sid d"
  by (induction fds arbitrary: d) (simp_all add: close_fds_def)

lemma chain_pool_alloc: "pool_alloc k d n = Some (d', b) \<Longrightarrow> chain sid d' = chain sid d"
  by (auto simp: pool_alloc_def)

lemma chain_reply [simp]: "chain sid (reply_datagram k d sender r) = chain sid d"
  by (simp add: reply_datagram_def Let_def split: prod.splits)

lemma chain_frame_now [simp]: "chain sid (write_frame_now k d fd ty p) = chain sid d"
  by (simp add: write_frame_now_def Let_def split: prod.splits)

lemma submit_chain:
  assumes "submit k d req local cb = (d', r)"
  shows "chain sid d' = chain sid d @ (if r \<noteq> None \<and> output_local sid local then [(local, req)] else [])"
proof -
  obtain w x where x: "k_arm k (d_world d) req = (w, x)" by fastforce
  show ?thesis
    using assms x by (cases x) (auto simp: submit_def Let_def chain_def emit_def)
qed

lemma chain_submit_eq: "submit k d req local cb = (d', r) \<Longrightarrow> \<not> output_local sid local \<longrightarrow> chain sid d' = chain sid d"
  using submit_chain [of k d req local cb d' r sid] by auto

lemma chain_submit [simp]: "\<not> output_local sid local \<Longrightarrow> chain sid (fst (submit k d req local cb)) = chain sid d"
  using chain_submit_eq [of k d req local cb _ _ sid] by (metis prod.collapse)

lemma chain_cancel_op [simp]: "chain sid (cancel_op k d i) = chain sid d"
proof -
  have "in_chain sid (AList.map_entry i (po_cancel_update (\<lambda>_. True)) ops) = in_chain sid ops" for ops
    by (induction ops) auto
  then show ?thesis by (auto simp: cancel_op_def Let_def chain_def emit_def split: option.splits prod.splits)
qed

section \<open>What else the daemon does\<close>

lemma chain_close_session [simp]: "chain sid (close_session k d s) = chain sid d"
  by (auto simp: close_session_def Let_def split: option.splits)

lemma chain_session_frame: "arm_session_frame k d s fd ty p = Some d' \<Longrightarrow> chain sid d' = chain sid d"
  by (auto simp: arm_session_frame_def Let_def split_def bind_eq_Some_conv chain_pool_alloc)

lemma chain_on_session_frame: "on_session_frame k d l r = Some d' \<Longrightarrow> chain sid d' = chain sid d"
  by (auto simp: on_session_frame_def Let_def split: op_local.splits sum.splits if_splits)

lemma chain_maybe_finish: "maybe_finish_session k d s = Some d' \<Longrightarrow> chain sid d' = chain sid d"
  by (auto simp: maybe_finish_session_def Let_def dest!: chain_session_frame [where sid = sid] split: option.splits if_splits)

lemma chain_finish_output: "finish_session_output k d s = Some d' \<Longrightarrow> chain sid d' = chain sid d"
  by (auto simp: finish_session_output_def dest!: chain_maybe_finish [where sid = sid])

lemma chain_arm_output: "arm_session_output k d s = Some d' \<Longrightarrow> s \<noteq> sid \<longrightarrow> chain sid d' = chain sid d"
  by (auto simp: arm_session_output_def Let_def dest!: chain_finish_output [where sid = sid] chain_submit_eq [where sid = sid]
      split: prod.splits option.splits if_splits)

lemma chain_on_session_output:
  assumes "on_session_output k d l r = Some d'" shows "\<not> output_local sid l \<longrightarrow> chain sid d' = chain sid d"
proof -
  have armed: "s \<noteq> sid \<longrightarrow> chain sid d2 = chain sid d1"
    if "(case submit k d1 (WriteFixed fd hd) (LSessionDataHeader s fd hd bs 0) On_session_data_header of
          (d, None) \<Rightarrow> finish_session_output k d s | (d, Some op) \<Rightarrow> Some d) = Some d2" for d1 d2 fd hd s bs
    using that
    by (cases "submit k d1 (WriteFixed fd hd) (LSessionDataHeader s fd hd bs 0) On_session_data_header")
      (auto dest!: chain_finish_output [where sid = sid] chain_submit_eq [where sid = sid] split: option.splits)
  show ?thesis
    using assms
    by (auto simp: on_session_output_def Let_def bind_eq_Some_conv chain_pool_alloc
        dest!: chain_finish_output [where sid = sid] armed split: op_local.splits sum.splits option.splits if_splits)
qed

lemma chain_on_data_header: "on_session_data_header k d l r = Some d' \<Longrightarrow> \<not> output_local sid l \<longrightarrow> chain sid d' = chain sid d"
  by (auto simp: on_session_data_header_def Let_def dest!: chain_finish_output [where sid = sid]
      split: op_local.splits sum.splits if_splits)

lemma chain_on_data_payload: "on_session_data_payload k d l r = Some d' \<Longrightarrow> \<not> output_local sid l \<longrightarrow> chain sid d' = chain sid d"
  by (auto simp: on_session_data_payload_def Let_def dest!: chain_finish_output [where sid = sid] chain_arm_output [where sid = sid]
      split: op_local.splits sum.splits if_splits)

lemma chain_stdin [simp]: "chain sid (on_session_stdin k d l r) = chain sid d"
  by (auto simp: on_session_stdin_def Let_def split: op_local.splits sum.splits)

lemma chain_arm_stdin [simp]: "chain sid (arm_session_stdin k d s fd buf) = chain sid d"
  by (simp add: arm_session_stdin_def)

lemma chain_arm_read [simp]: "chain sid (arm_session_read k d s) = chain sid d"
  by (auto simp: arm_session_read_def split: option.splits prod.splits dest: chain_submit_eq [where sid = sid])

lemma chain_on_header [simp]: "chain sid (on_session_header k d l r) = chain sid d"
  by (auto simp: on_session_header_def Let_def split: op_local.splits sum.splits if_splits prod.splits option.splits
      dest!: chain_submit_eq [where sid = sid])

lemma chain_bury [simp]: "chain sid (bury d q info) = chain sid d"
  by (simp add: bury_def Let_def)

lemma chain_cleanup [simp]: "chain sid (cleanup_unless_saved k d info) = chain sid d"
  by (simp add: cleanup_unless_saved_def split: option.splits)

lemma chain_finish_drain [simp]: "chain sid (finish_drain k d q) = chain sid d"
  by (auto simp: finish_drain_def Let_def split: option.splits)

lemma chain_reap_container [simp]: "chain sid (reap_container k d q) = chain sid d"
  by (auto simp: reap_container_def Let_def split: option.splits)

lemma chain_reap_one [simp]: "chain sid (fst (reap_one k d q status)) = chain sid d"
  by (auto simp: reap_one_def Let_def split: option.splits)

lemma chain_reap_loop:
  assumes "reap_loop k d fin = Some r" shows "chain sid (fst r) = chain sid d"
proof (rule reap_loop.raw_induct [where P = "\<lambda>k d fin r. chain sid (fst r) = chain sid d", OF _ assms])
  fix f k d fin and r :: "'a daemon \<times> nat list"
  assume IH: "\<And>k d fin r. f k d fin = Some r \<Longrightarrow> chain sid (fst r) = chain sid d"
    and body: "(case k_wait4 k (d_world d) of
        (w, Inl e) \<Rightarrow> Some (d\<lparr>d_world := w\<rparr>, fin)
      | (w, Inr (pid, status)) \<Rightarrow>
          if 0 < pid then case reap_one k (d\<lparr>d_world := w\<rparr>) pid status of (d, sids) \<Rightarrow> f k d (fin @ sids)
          else Some (d\<lparr>d_world := w\<rparr>, fin)) = Some r"
  show "chain sid (fst r) = chain sid d"
    using body by (auto simp: split_def split: sum.splits if_splits dest!: IH)
qed

lemma chain_finish_sessions: "finish_sessions k d sids = Some d' \<Longrightarrow> chain sid d' = chain sid d"
  by (induction k d sids rule: finish_sessions.induct)
    (fastforce simp: bind_eq_Some_conv dest: chain_maybe_finish [where sid = sid])+

lemma chain_reap_children: "reap_children k d = Some d' \<Longrightarrow> chain sid d' = chain sid d"
  by (auto simp: reap_children_def bind_eq_Some_conv dest!: chain_reap_loop [where sid = sid] chain_finish_sessions [where sid = sid])

lemma chain_on_sigchld: "on_sigchld k d l r = Some d' \<Longrightarrow> chain sid d' = chain sid d"
  by (auto simp: on_sigchld_def arm_sigchld_def bind_eq_Some_conv dest!: chain_reap_children [where sid = sid]
      split: op_local.splits sum.splits if_splits option.splits prod.splits)

lemma chain_finish_container [simp]:
  "chain sid (finish_container_output k d q) = chain sid d"
  "chain sid (finish_container_pty_output k d q) = chain sid d"
  by (auto simp: finish_container_output_def finish_container_pty_output_def Let_def split: option.splits)

lemma chain_complete_write: "complete_write k d q pipe_id ok = Some d' \<Longrightarrow> chain sid d' = chain sid d"
  by (auto simp: complete_write_def bind_eq_Some_conv split: option.splits)

lemma chain_arm_follow_write: "arm_follow_write k d q pipe_id fd chunks = Some d' \<Longrightarrow> chain sid d' = chain sid d"
  by (auto simp: arm_follow_write_def dest!: chain_complete_write [where sid = sid] split: list.splits)

lemma chain_on_follow_write: "on_follow_write k d l r = Some d' \<Longrightarrow> chain sid d' = chain sid d"
  by (auto simp: on_follow_write_def Let_def dest!: chain_complete_write [where sid = sid] chain_arm_follow_write [where sid = sid]
      split: op_local.splits sum.splits if_splits)

lemma chain_arm_follow_writes: "arm_follow_writes k d q line ps = Some d' \<Longrightarrow> chain sid d' = chain sid d"
  by (induction k d q line ps rule: arm_follow_writes.induct)
    (fastforce simp: bind_eq_Some_conv dest: chain_arm_follow_write [where sid = sid])+

lemma chain_write_line: "write_line k d q line = Some d' \<Longrightarrow> chain sid d' = chain sid d"
  by (auto simp: write_line_def Let_def bind_eq_Some_conv dest!: chain_arm_follow_writes [where sid = sid] split: option.splits)

lemma chain_write_lines: "write_lines k d q lines = Some d' \<Longrightarrow> chain sid d' = chain sid d"
  by (induction k d q lines rule: write_lines.induct)
    (fastforce simp: bind_eq_Some_conv dest: chain_write_line [where sid = sid])+

lemma chain_container_output:
  "on_container_output k d l r = Some d' \<Longrightarrow> chain sid d' = chain sid d"
  "on_container_pty_output k d l r = Some d' \<Longrightarrow> chain sid d' = chain sid d"
  by (auto simp: on_container_output_def on_container_pty_output_def Let_def split_def bind_eq_Some_conv
      dest!: chain_write_lines [where sid = sid] split: op_local.splits sum.splits if_splits)

lemma chain_follow_attach: "follow_attach k d sender q backlog rfd wfd = Some d' \<Longrightarrow> chain sid d' = chain sid d"
  by (auto simp: follow_attach_def Let_def split_def bind_eq_Some_conv split: if_splits option.splits)

lemma chain_handle_follow: "handle_follow k d sender q = Some d' \<Longrightarrow> chain sid d' = chain sid d"
  by (cases "snd (k_pipe2 k (d_world d))")
    (auto simp: handle_follow_def split_def bind_eq_Some_conv split: option.splits dest!: chain_follow_attach [where sid = sid])

lemma chain_follow_send [simp]: "chain sid (on_follow_send k d l r) = chain sid d"
  by (simp add: on_follow_send_def split: op_local.splits)

lemma chain_signal [simp]:
  "chain sid (signal_drop k d s) = chain sid d"
  "chain sid (signal_signal k d s) = chain sid d"
  "chain sid (close_pair k d p) = chain sid d"
  by (simp_all add: signal_drop_def signal_signal_def close_pair_def Let_def split_def)

lemma chain_close_pair_opt [simp]: "chain sid (close_pair_opt k d p) = chain sid d"
  by (simp add: close_pair_opt_def split: option.splits)

lemma chain_prepare [simp]:
  "chain sid (fst (join_ns k d q)) = chain sid d"
  "chain sid (fst (prepare_rootfs k d root)) = chain sid d"
  "chain sid (fst (prepare_death_pipe k d args)) = chain sid d"
  "chain sid (fst (setup_userns_maps k d q)) = chain sid d"
  by (simp_all add: join_ns_def prepare_rootfs_def prepare_death_pipe_def setup_userns_maps_def Let_def split_def
      split: sum.splits option.splits)

lemma chain_prepare_flags [simp]: "chain sid (fst (prepare_flags k d net)) = chain sid d"
  by (simp add: prepare_flags_def Let_def split_def split: sum.splits option.splits)

lemma chain_prepare_run [simp]: "chain sid (fst (prepare_run k d args)) = chain sid d"
  by (simp add: prepare_run_def Let_def split_def split: sum.splits)

lemma chain_setup_signal [simp]: "chain sid (fst (parent_setup_maps_and_signal k d q needs sig)) = chain sid d"
  by (simp add: parent_setup_maps_and_signal_def split_def split: sum.splits)

lemma chain_add_drain [simp]: "chain sid (add_drain d q) = chain sid d"
  by (simp add: add_drain_def)

lemma chain_arm_container_output [simp]:
  "chain sid (arm_container_output k d q) = chain sid d"
  "chain sid (arm_container_pty_output k d q) = chain sid d"
  by (simp_all add: arm_container_output_def arm_container_pty_output_def split: option.splits)

lemma chain_run [simp]:
  "chain sid (run_started k d sender save prep q log_read stdin_write ptm_fd death_write) = chain sid d"
  by (simp add: run_started_def Let_def split_def)

lemma chain_run_parent [simp]: "chain sid (run_parent k d sender save prep q log_pipe stdin_pipe pty) = chain sid d"
  by (simp add: run_parent_def Let_def split_def split: sum.splits option.splits)

lemma chain_run_clone [simp]: "chain sid (run_clone k d sender save prep log_pipe stdin_pipe pty) = chain sid d"
  by (auto simp: run_clone_def Let_def split: sum.splits prod.splits)

lemma chain_handle_run [simp]: "chain sid (handle_run k d sender args) = chain sid d"
  by (simp add: handle_run_def Let_def split_def split: sum.splits option.splits)

lemma chain_handle_kill [simp]: "chain sid (handle_kill k d sender q) = chain sid d"
  by (simp add: handle_kill_def split_def split: sum.splits)

lemma chain_handle_datagram: "handle_datagram k d sender q = Some d' \<Longrightarrow> chain sid d' = chain sid d"
  by (auto simp: handle_datagram_def handle_logs_def Let_def split_def bind_eq_Some_conv
      dest!: chain_handle_follow [where sid = sid] split: request.splits if_splits option.splits)

lemma chain_arm_datagram: "arm_datagram k d = Some d' \<Longrightarrow> chain sid d' = chain sid d"
  by (auto simp: arm_datagram_def Let_def bind_eq_Some_conv split: option.splits)

lemma chain_on_peek: "on_datagram_peek k d l r = Some d' \<Longrightarrow> chain sid d' = chain sid d"
  by (auto simp: on_datagram_peek_def dest!: chain_arm_datagram [where sid = sid] chain_submit_eq [where sid = sid]
      split: op_local.splits sum.splits prod.splits option.splits)

lemma chain_on_datagram: "on_datagram k d l r = Some d' \<Longrightarrow> chain sid d' = chain sid d"
  by (auto simp: on_datagram_def split_def bind_eq_Some_conv dest!: chain_handle_datagram [where sid = sid]
      chain_arm_datagram [where sid = sid] split: op_local.splits sum.splits if_splits option.splits)

lemma chain_on_accept [simp]: "chain sid (on_accept k d l r) = chain sid d"
  by (auto simp: on_accept_def arm_accept_def Let_def split: op_local.splits sum.splits)

lemma chain_attach_error [simp]: "chain sid (attach_error k d s fd m) = chain sid d"
  by (simp add: attach_error_def)

lemma chain_attach_started:
  "attach_started k d s fd save prep q log_read ptm_fd death = Some d' \<Longrightarrow> s \<noteq> sid \<longrightarrow> chain sid d' = chain sid d"
  by (auto simp: attach_started_def Let_def split_def bind_eq_Some_conv
      dest!: chain_session_frame [where sid = sid] chain_arm_output [where sid = sid])

lemma chain_attach_parent:
  "attach_parent k d s fd save prep q log_pipe pty = Some (d', go) \<Longrightarrow> s \<noteq> sid \<longrightarrow> chain sid d' = chain sid d"
  by (auto simp: attach_parent_def Let_def split_def bind_eq_Some_conv dest!: chain_attach_started [where sid = sid]
      split: sum.splits option.splits)

lemma chain_attach_clone:
  "attach_clone k d s fd save prep log_pipe pty = Some (d', go) \<Longrightarrow> s \<noteq> sid \<longrightarrow> chain sid d' = chain sid d"
  by (cases "k_clone3 k (d_world d) (pr_clone_flags prep)")
    (auto simp: attach_clone_def Let_def dest!: chain_attach_parent [where sid = sid] split: sum.splits option.splits)

lemma chain_run_attach: "handle_run_attach k d s q = Some (d', go) \<Longrightarrow> s \<noteq> sid \<longrightarrow> chain sid d' = chain sid d"
  by (auto simp: handle_run_attach_def Let_def split_def dest!: chain_attach_clone [where sid = sid]
      split: request.splits option.splits sum.splits if_splits)

lemma chain_handle_attach: "handle_attach k d s q = Some (d', go) \<Longrightarrow> s \<noteq> sid \<longrightarrow> chain sid d' = chain sid d"
  by (cases "k_pipe2 k (d_world d)")
    (auto simp: handle_attach_def Let_def bind_eq_Some_conv dest!: chain_session_frame [where sid = sid] chain_arm_output [where sid = sid]
      split: option.splits sum.splits)

text \<open>Only a request of the client, which is a frame of type 0, starts a drain.\<close>

lemma chain_dispatch: "dispatch_frame k d s ty p = Some (d', go) \<Longrightarrow> s \<noteq> sid \<or> ty \<noteq> 0 \<longrightarrow> chain sid d' = chain sid d"
  by (auto simp: dispatch_frame_def Let_def dest!: chain_run_attach [where sid = sid] chain_handle_attach [where sid = sid]
      split: if_splits option.splits request.splits)

fun request_local :: "nat \<Rightarrow> op_local \<Rightarrow> bool" where
  "request_local sid (LSessionPayload s ty acc need) = (s = sid \<and> ty = 0)"
| "request_local sid _ = False"

lemma chain_on_payload:
  "on_session_payload k d l r = Some d' \<Longrightarrow> \<not> request_local sid l \<longrightarrow> chain sid d' = chain sid d"
  by (auto simp: on_session_payload_def Let_def split_def bind_eq_Some_conv chain_pool_alloc
        dest!: chain_dispatch [where sid = sid] chain_submit_eq [where sid = sid]
        split: op_local.splits sum.splits if_splits option.splits prod.splits)

lemma chain_run_callback:
  assumes "run_callback k d cb l r = Some d'" "\<not> output_local sid l" "\<not> request_local sid l"
  shows "chain sid d' = chain sid d"
  using assms
  by (cases cb; cases r)
    (simp_all add: run_callback_def chain_on_follow_write chain_on_payload [THEN mp] chain_on_session_frame chain_on_data_header [THEN mp]
      chain_on_data_payload [THEN mp] chain_on_session_output [THEN mp] chain_on_sigchld chain_on_peek chain_on_datagram
      chain_container_output, auto)

section \<open>What is read and what is written\<close>

text \<open>
  The piece of output a delivery brings to the drain of \<open>sid\<close>, and what the completion of a write of the
  drain has put on the stream \<open>fd\<close>: the first \<open>n\<close> bytes of its request.
\<close>

definition piece_read :: "nat \<Rightarrow> 'w daemon \<Rightarrow> nat \<Rightarrow> op_result \<Rightarrow> bytes list" where
  "piece_read sid d i r =
     (case map_of (d_ops d) i of
        None \<Rightarrow> []
      | Some p \<Rightarrow>
          (case (po_local p, r) of
             (LSessionOutputRead s, BytesResult (Inr bs)) \<Rightarrow> if s = sid \<and> bs \<noteq> [] then [bs] else []
           | _ \<Rightarrow> []))"

definition piece_sent :: "nat \<Rightarrow> fd \<Rightarrow> 'w daemon \<Rightarrow> nat \<Rightarrow> op_result \<Rightarrow> bytes" where
  "piece_sent sid fd d i r =
     (case map_of (d_ops d) i of
        None \<Rightarrow> []
      | Some p \<Rightarrow>
          (case (po_req p, r) of
             (WriteFixed f data, CountResult (Inr n)) \<Rightarrow> if output_local sid (po_local p) \<and> f = fd then take n data else []
           | _ \<Rightarrow> []))"

fun pieces_read :: "'w kernel \<Rightarrow> nat \<Rightarrow> 'w daemon \<Rightarrow> (nat \<times> op_result) list \<Rightarrow> bytes list" where
  "pieces_read k sid d [] = []"
| "pieces_read k sid d ((i, r) # rs) =
     piece_read sid d i r @ (case deliver k d i r of None \<Rightarrow> [] | Some d' \<Rightarrow> pieces_read k sid d' rs)"

fun stream_sent :: "'w kernel \<Rightarrow> nat \<Rightarrow> fd \<Rightarrow> 'w daemon \<Rightarrow> (nat \<times> op_result) list \<Rightarrow> bytes" where
  "stream_sent k sid fd d [] = []"
| "stream_sent k sid fd d ((i, r) # rs) =
     piece_sent sid fd d i r @ (case deliver k d i r of None \<Rightarrow> [] | Some d' \<Rightarrow> stream_sent k sid fd d' rs)"

text \<open>
  A delivery that does not disturb the drain: it is not another request of this client, output is read
  while the session is open on the stream \<open>fd\<close>, and no write of the drain fails.
\<close>

definition served_step :: "nat \<Rightarrow> fd \<Rightarrow> 'w daemon \<Rightarrow> nat \<Rightarrow> op_result \<Rightarrow> bool" where
  "served_step sid fd d i r =
     (case map_of (d_ops d) i of
        None \<Rightarrow> True
      | Some p \<Rightarrow>
          \<not> request_local sid (po_local p) \<and>
          (if piece_read sid d i r = [] then True else session_stream_fd d sid = Some fd) \<and>
          (if output_local sid (po_local p) then (case r of CountResult (Inl e) \<Rightarrow> False | _ \<Rightarrow> True) else True))"

fun served :: "'w kernel \<Rightarrow> nat \<Rightarrow> fd \<Rightarrow> 'w daemon \<Rightarrow> (nat \<times> op_result) list \<Rightarrow> bool" where
  "served k sid fd d [] = True"
| "served k sid fd d ((i, r) # rs) =
     (served_step sid fd d i r \<and> (case deliver k d i r of None \<Rightarrow> True | Some d' \<Rightarrow> served k sid fd d' rs))"

text \<open>What a stage of the drain has still to write, and the request it has in flight.\<close>

fun unsent :: "op_local \<Rightarrow> bytes" where
  "unsent (LSessionDataHeader s fd header payload off) = drop off header @ payload"
| "unsent (LSessionDataPayload s fd payload off) = drop off payload"
| "unsent _ = []"

fun staged :: "fd \<Rightarrow> op_local \<Rightarrow> io_request \<Rightarrow> bool" where
  "staged fd (LSessionOutputRead s) req = (case req of WriteFixed f data \<Rightarrow> False | _ \<Rightarrow> True)"
| "staged fd (LSessionDataHeader s f header payload off) req = (f = fd \<and> req = WriteFixed fd (drop off header))"
| "staged fd (LSessionDataPayload s f payload off) req = (f = fd \<and> req = WriteFixed fd (drop off payload))"
| "staged fd _ req = False"

definition data_frames :: "bytes list \<Rightarrow> bytes" where
  "data_frames pieces = concat (map (build_frame 0x10) pieces)"

definition drain_state :: "nat \<Rightarrow> fd \<Rightarrow> 'w daemon \<Rightarrow> bytes list \<Rightarrow> bytes \<Rightarrow> bool" where
  "drain_state sid fd d pieces sent \<longleftrightarrow>
     (chain sid d = [] \<and> data_frames pieces = sent) \<or>
     (\<exists>l req. chain sid d = [(l, req)] \<and> staged fd l req \<and> data_frames pieces = sent @ unsent l)"

lemma drain_state_idle: "chain sid d = [] \<Longrightarrow> data_frames pieces = sent \<Longrightarrow> drain_state sid fd d pieces sent"
  by (simp add: drain_state_def)

lemma drain_state_armed:
  "chain sid d = [] \<Longrightarrow> submit k d req l cb = (d', Some i) \<Longrightarrow> output_local sid l \<Longrightarrow> staged fd l req \<Longrightarrow>
   data_frames pieces = sent @ unsent l \<Longrightarrow> drain_state sid fd d' pieces sent"
  using submit_chain [of k d req l cb d' "Some i" sid] by (simp add: drain_state_def)

lemma drain_state_resubmit:
  assumes "obliging k" "chain sid d = []" "output_local sid l" "staged fd l req" "data_frames pieces = sent @ unsent l"
  shows "drain_state sid fd (fst (submit k d req l cb)) pieces sent"
  using drain_state_armed [OF assms(2) _ assms(3-5), of k cb "fst (submit k d req l cb)"] obliging_submit [OF assms(1), of d req l cb]
  by (metis option.exhaust prod.collapse)

lemma drain_state_arm_output:
  assumes "arm_session_output k d sid = Some d'" "chain sid d = []" "data_frames pieces = sent"
  shows "drain_state sid fd d' pieces sent"
proof -
  let ?fd = "case get_session d sid of Some s \<Rightarrow> if 0 \<le> as_ptm_fd s then as_ptm_fd s else as_log_read_fd s | None \<Rightarrow> -1"
  show ?thesis
  proof (cases "?fd < 0")
    case True
    then have "finish_session_output k d sid = Some d'" using assms(1) by (simp add: arm_session_output_def Let_def)
    then show ?thesis using assms chain_finish_output [of k d sid d' sid] by (simp add: drain_state_idle)
  next
    case False
    obtain e r where e: "submit k d (ReadProvided ?fd 4096) (LSessionOutputRead sid) On_session_output = (e, r)"
      by fastforce
    then have "chain sid d' = chain sid e"
      using assms(1) False by (auto simp: arm_session_output_def Let_def split: option.splits)
    then show ?thesis
      using submit_chain [OF e, of sid] assms(2,3) by (auto simp: drain_state_def)
  qed
qed

section \<open>One delivery\<close>

lemma drain_on_read:
  assumes "on_session_output k d (LSessionOutputRead sid) (Inr bs) = Some d'" "obliging k" "chain sid d = []"
    and "data_frames pieces = sent" "bs \<noteq> []" "session_stream_fd d sid = Some fd"
  shows "drain_state sid fd d' (pieces @ [bs]) sent"
proof -
  let ?d = "store_session_op d sid SOutput None"
  let ?h = "[16] @ u16_to_le_bytes (length bs)"
  let ?l = "LSessionDataHeader sid fd ?h bs 0"
  have "session_stream_fd ?d sid = Some fd"
    using assms(6) by (auto simp: session_stream_fd_def store_session_op_def get_upd_session split: option.splits if_splits)
  then obtain e b where e: "pool_alloc k ?d 3 = Some (e, b)"
    "(case submit k e (WriteFixed fd ?h) ?l On_session_data_header of
       (d, None) \<Rightarrow> finish_session_output k d sid | (d, Some op) \<Rightarrow> Some d) = Some d'"
    using assms(1,5) by (auto simp: on_session_output_def Let_def bind_eq_Some_conv)
  obtain f r where f: "submit k e (WriteFixed fd ?h) ?l On_session_data_header = (f, r)" by fastforce
  then have "r \<noteq> None" using obliging_submit [OF assms(2)] by (metis snd_conv)
  then have d': "d' = f" "r = Some (the r)" using e(2) f by auto
  have "chain sid e = []" using chain_pool_alloc [OF e(1), of sid] assms(3) by simp
  moreover have "data_frames (pieces @ [bs]) = sent @ unsent ?l"
    using assms(4) by (simp add: data_frames_def build_frame_def)
  ultimately show ?thesis
    using drain_state_armed [of sid e k "WriteFixed fd ?h" ?l On_session_data_header f "the r" fd] f d' by simp
qed

lemma drain_on_header:
  assumes "on_session_data_header k d (LSessionDataHeader sid fd header payload off) (Inr n) = Some d'" "obliging k"
    and "chain sid d = []" "data_frames pieces = sent @ drop off header @ payload"
  shows "drain_state sid fd d' pieces (sent @ take n (drop off header))"
proof (cases "off + n < length header")
  case True
  then have "d' = fst (submit k d (WriteFixed fd (drop (off + n) header))
      (LSessionDataHeader sid fd header payload (off + n)) On_session_data_header)"
    using assms(1) by (simp add: on_session_data_header_def Let_def)
  moreover have "drop off header = take n (drop off header) @ drop (off + n) header"
    by (metis add.commute append_take_drop_id drop_drop)
  ultimately show ?thesis
    using drain_state_resubmit [OF assms(2,3), of "LSessionDataHeader sid fd header payload (off + n)" fd] assms(4) by simp
next
  case False
  then have "d' = fst (submit k d (WriteFixed fd payload) (LSessionDataPayload sid fd payload 0) On_session_data_payload)"
    using assms(1) by (simp add: on_session_data_header_def Let_def)
  then show ?thesis
    using drain_state_resubmit [OF assms(2,3), of "LSessionDataPayload sid fd payload 0" fd] assms(4) False by simp
qed

lemma drain_on_payload:
  assumes "on_session_data_payload k d (LSessionDataPayload sid fd payload off) (Inr n) = Some d'" "obliging k"
    and "chain sid d = []" "data_frames pieces = sent @ drop off payload"
  shows "drain_state sid fd d' pieces (sent @ take n (drop off payload))"
proof (cases "length payload \<le> off + n")
  case True
  then have "arm_session_output k d sid = Some d'"
    using assms(1) by (simp add: on_session_data_payload_def Let_def)
  then show ?thesis using drain_state_arm_output [OF _ assms(3)] assms(4) True by simp
next
  case False
  then have "d' = fst (submit k d (WriteFixed fd (drop (off + n) payload))
      (LSessionDataPayload sid fd payload (off + n)) On_session_data_payload)"
    using assms(1) by (simp add: on_session_data_payload_def Let_def)
  moreover have "drop off payload = take n (drop off payload) @ drop (off + n) payload"
    by (metis add.commute append_take_drop_id drop_drop)
  ultimately show ?thesis
    using drain_state_resubmit [OF assms(2,3), of "LSessionDataPayload sid fd payload (off + n)" fd] assms(4) by simp
qed

lemma chain_delete:
  assumes "keyed (d_ops d)" "map_of (d_ops d) i = Some p"
  shows "\<exists>xs ys. chain sid d = xs @ (if output_local sid (po_local p) then [(po_local p, po_req p)] else []) @ ys \<and>
    chain sid (d\<lparr>d_ops := AList.delete i (d_ops d)\<rparr>) = xs @ ys"
proof -
  obtain as bs where "d_ops d = as @ (i, p) # bs" "AList.delete i (d_ops d) = as @ bs"
    using delete_split [OF assms] by blast
  then show ?thesis
    by (intro exI [of _ "in_chain sid as"] exI [of _ "in_chain sid bs"]) (simp add: chain_def)
qed

lemma drain_stage:
  assumes "run_callback k d cb l r = Some d'" "op_typed cb l" "output_local sid l" "staged fd l req" "obliging k"
    and "chain sid d = []" "data_frames pieces = sent @ unsent l"
    and "\<And>bs. l = LSessionOutputRead sid \<Longrightarrow> r = BytesResult (Inr bs) \<Longrightarrow> bs \<noteq> [] \<Longrightarrow> session_stream_fd d sid = Some fd"
    and "\<And>e. r \<noteq> CountResult (Inl e)"
  shows "drain_state sid fd d'
    (pieces @ (case (l, r) of (LSessionOutputRead s, BytesResult (Inr bs)) \<Rightarrow> if s = sid \<and> bs \<noteq> [] then [bs] else [] | _ \<Rightarrow> []))
    (sent @ (case (req, r) of (WriteFixed f data, CountResult (Inr n)) \<Rightarrow> if output_local sid l \<and> f = fd then take n data else [] | _ \<Rightarrow> []))"
proof -
  consider (Read) "l = LSessionOutputRead sid" | (Header) header payload off where "l = LSessionDataHeader sid fd header payload off"
    | (Payload) payload off where "l = LSessionDataPayload sid fd payload off"
    using assms(3,4) by (cases l) auto
  then show ?thesis
  proof cases
    case Read
    then obtain res where r: "r = BytesResult res" "on_session_output k d l res = Some d'"
      using assms(1,2) by (cases r) (auto simp: run_callback_def)
    show ?thesis
    proof (cases "\<exists>bs. res = Inr bs \<and> bs \<noteq> []")
      case True
      then obtain bs where bs: "res = Inr bs" "bs \<noteq> []" by blast
      have "data_frames pieces = sent" using assms(7) Read by simp
      from drain_on_read [OF _ assms(5,6) this bs(2) assms(8) [OF Read _ bs(2)]] show ?thesis
        using r bs Read by (cases req) simp_all
    next
      case False
      then have "finish_session_output k (store_session_op d sid SOutput None) sid = Some d'"
        using r Read by (auto simp: on_session_output_def Let_def split: sum.splits if_splits)
      then have "chain sid d' = []" using chain_finish_output [where sid = sid] assms(6) by fastforce
      then show ?thesis using assms(7) Read False r(1)
        by (auto intro!: drain_state_idle split: io_request.splits sum.splits)
    qed
  next
    case Header
    then obtain n where r: "r = CountResult (Inr n)" "on_session_data_header k d l (Inr n) = Some d'"
      using assms(1,2,9) by (cases r) (auto simp: run_callback_def split: sum.splits, metis obj_sumE)
    then show ?thesis
      using drain_on_header [OF _ assms(5,6)] Header assms(4,7) by simp
  next
    case Payload
    then obtain n where r: "r = CountResult (Inr n)" "on_session_data_payload k d l (Inr n) = Some d'"
      using assms(1,2,9) by (cases r) (auto simp: run_callback_def split: sum.splits, metis obj_sumE)
    then show ?thesis
      using drain_on_payload [OF _ assms(5,6)] Payload assms(4,7) by simp
  qed
qed

lemma drain_deliver:
  assumes "deliver k d i r = Some d'" "dwf d" "obliging k" "served_step sid fd d i r" "drain_state sid fd d pieces sent"
  shows "drain_state sid fd d' (pieces @ piece_read sid d i r) (sent @ piece_sent sid fd d i r)"
proof -
  let ?d = "d\<lparr>d_ops := AList.delete i (d_ops d)\<rparr>"
  obtain p where p: "map_of (d_ops d) i = Some p" and run: "run_callback k ?d (po_cb p) (po_local p) r = Some d'"
    using assms(1) by (auto simp: deliver_def split: option.splits)
  have typed: "op_typed (po_cb p) (po_local p)" and keyed: "keyed (d_ops d)"
    using assms(2) map_of_SomeD [OF p] by (auto simp: dwf_def ops_ok_def)
  obtain xs ys where xy: "chain sid d = xs @ (if output_local sid (po_local p) then [(po_local p, po_req p)] else []) @ ys"
    "chain sid ?d = xs @ ys"
    using chain_delete [OF keyed p] by blast
  have served: "\<not> request_local sid (po_local p)"
    "piece_read sid d i r \<noteq> [] \<Longrightarrow> session_stream_fd d sid = Some fd"
    "output_local sid (po_local p) \<Longrightarrow> r \<noteq> CountResult (Inl e)" for e
    using assms(4) p by (auto simp: served_step_def split: if_splits)
  show ?thesis
  proof (cases "output_local sid (po_local p)")
    case False
    then have "piece_read sid d i r = []" "piece_sent sid fd d i r = []"
      using p by (auto simp: piece_read_def piece_sent_def split: op_local.splits op_result.splits sum.splits io_request.splits)
    moreover have "chain sid d' = chain sid d"
      using chain_run_callback [OF run False served(1)] xy False by simp
    ultimately show ?thesis using assms(5) by (simp add: drain_state_def)
  next
    case True
    then have "xs = []" "ys = []" "staged fd (po_local p) (po_req p)" "data_frames pieces = sent @ unsent (po_local p)"
      using xy(1) assms(5) by (auto simp: drain_state_def append_eq_Cons_conv)
    moreover have "session_stream_fd ?d sid = Some fd"
      if "po_local p = LSessionOutputRead sid" "r = BytesResult (Inr bs)" "bs \<noteq> []" for bs
      using served(2) p that by (simp add: piece_read_def session_stream_fd_def get_session_def)
    ultimately show ?thesis
      using drain_stage [OF run typed True _ assms(3), of fd "po_req p" pieces sent] xy(2) served(3) [OF True] p
      by (simp add: piece_read_def piece_sent_def)
  qed
qed

lemma drain_run:
  "deliver_all k d rs = Some d' \<Longrightarrow> dwf d \<Longrightarrow> obliging k \<Longrightarrow> served k sid fd d rs \<Longrightarrow> drain_state sid fd d pieces sent \<Longrightarrow>
   drain_state sid fd d' (pieces @ pieces_read k sid d rs) (sent @ stream_sent k sid fd d rs)"
proof (induction k d rs arbitrary: pieces sent rule: deliver_all.induct)
  case (2 k d i r rs)
  then obtain e where e: "deliver k d i r = Some e" "deliver_all k e rs = Some d'"
    by (auto simp: bind_eq_Some_conv)
  have "dwf e" using deliver_loops [OF e(1) 2(3)] by blast
  moreover have "served_step sid fd d i r" "served k sid fd e rs" using 2(5) e(1) by auto
  ultimately show ?case using 2(1) [OF e(1,2) _ 2(4) _ drain_deliver [OF e(1) 2(3,4) _ 2(6)]] e(1) by simp
qed simp

section \<open>The end of the output\<close>

text \<open>
  The flag \<open>as_drain_done\<close> of a session, without which the exit frame is not sent. Only the session's
  own drain sets it.
\<close>

definition drained :: "nat \<Rightarrow> 'w daemon \<Rightarrow> bool" where
  "drained sid d = (case get_session d sid of None \<Rightarrow> False | Some s \<Rightarrow> as_drain_done s)"

lemma drained_abs: "drained sid d = (case sp_live (sess_abs d) sid of None \<Rightarrow> False | Some f \<Rightarrow> sf_drained f)"
  by (simp add: drained_def sess_abs_def flags_of_def split: option.splits)

lemma drained_cong: "sess_abs d' = sess_abs d \<Longrightarrow> drained sid d' = drained sid d"
  by (simp add: drained_abs)

lemma drained_upd: "(\<And>s. as_drain_done (f s) = as_drain_done s) \<Longrightarrow> drained sid (upd_session d s f) = drained sid d"
  by (auto simp: drained_def get_upd_session split: option.splits)

lemma drained_upd_other: "s \<noteq> sid \<Longrightarrow> drained sid (upd_session d s f) = drained sid d"
  by (simp add: drained_def get_upd_session)

lemma drained_close: "drained sid (close_session k d s) \<Longrightarrow> drained sid d"
proof (cases "get_session d s")
  case (Some x)
  assume a: "drained sid (close_session k d s)"
  have "sess_abs (close_session k d s) = sess_abs (d\<lparr>d_sessions := AList.delete s (d_sessions d)\<rparr>)"
    using Some by (simp add: close_session_def Let_def split: option.splits)
  then have "drained sid (d\<lparr>d_sessions := AList.delete s (d_sessions d)\<rparr>)" using a drained_cong by blast
  then show ?thesis by (auto simp: drained_def get_session_def delete_conv' split: option.splits if_splits)
qed (simp add: close_session_def)

lemma drained_on_session_frame: "on_session_frame k d l r = Some d' \<Longrightarrow> drained sid d' \<Longrightarrow> drained sid d"
  by (auto simp: on_session_frame_def Let_def split: op_local.splits sum.splits if_splits
      dest: drained_close drained_cong [of "fst (submit _ _ _ _ _)", THEN iffD1, rotated])

lemma drained_maybe_finish:
  assumes "maybe_finish_session k d s = Some d'" shows "drained sid d' = drained sid d"
proof -
  have "drained sid d' = drained sid (emit (ExitFrame s) (upd_session d s (\<lambda>s. s\<lparr>as_exit_sent := True\<rparr>)))"
    if "arm_session_frame k (emit (ExitFrame s) (upd_session d s (\<lambda>s. s\<lparr>as_exit_sent := True\<rparr>))) s fd 2 p = Some d'" for fd p
    by (rule drained_cong) (rule abs_session_frame [OF that])
  moreover have "drained sid (emit (ExitFrame s) (upd_session d s (\<lambda>s. s\<lparr>as_exit_sent := True\<rparr>))) = drained sid d"
    using drained_upd [of "\<lambda>s. s\<lparr>as_exit_sent := True\<rparr>" sid d s] by (simp add: drained_def get_session_def emit_def)
  ultimately show ?thesis
    using assms by (auto simp: maybe_finish_session_def Let_def split: option.splits if_splits)
qed

lemma drained_finish_output: "finish_session_output k d s = Some d' \<Longrightarrow> s \<noteq> sid \<longrightarrow> drained sid d' = drained sid d"
  by (auto simp: finish_session_output_def dest!: drained_maybe_finish [where sid = sid] simp: drained_upd_other)

lemma drained_submit: "submit k d req l cb = (d', r) \<Longrightarrow> drained sid d' = drained sid d"
  by (intro drained_cong) (rule abs_submit)

lemma drained_store [simp]: "drained sid (store_session_op d s x op) = drained sid d"
  by (intro drained_cong) simp

lemma drained_arm_output: "arm_session_output k d s = Some d' \<Longrightarrow> s \<noteq> sid \<longrightarrow> drained sid d' = drained sid d"
  by (auto simp: arm_session_output_def Let_def dest!: drained_finish_output [where sid = sid] drained_submit [where sid = sid]
      split: prod.splits option.splits if_splits)

lemma drained_fst_submit [simp]: "drained sid (fst (submit k d req l cb)) = drained sid d"
  by (intro drained_cong) simp

text \<open>The drain of a session: its callbacks leave the flag alone as long as they go on.\<close>

lemma arm_output_ends:
  assumes "arm_session_output k d s = Some d'" "chain sid d = []"
  shows "chain sid d' = [] \<or> drained sid d' = drained sid d"
proof (cases "(case get_session d s of Some s \<Rightarrow> if 0 \<le> as_ptm_fd s then as_ptm_fd s else as_log_read_fd s | None \<Rightarrow> -1) < 0")
  case True
  then have "finish_session_output k d s = Some d'" using assms(1) by (simp add: arm_session_output_def Let_def)
  then show ?thesis using chain_finish_output [where sid = sid] assms(2) by fastforce
next
  case False
  then show ?thesis
    using assms(1) by (auto simp: arm_session_output_def Let_def dest!: drained_submit [where sid = sid]
        split: prod.splits option.splits)
qed

lemma on_session_output_ends:
  assumes "on_session_output k d l r = Some d'" "chain sid d = []"
  shows "chain sid d' = [] \<or> drained sid d' = drained sid d"
proof -
  have fin: "chain sid e = []" if "finish_session_output k d1 s = Some e" "chain sid d1 = []" for d1 s e
    using chain_finish_output [OF that(1), of sid] that(2) by simp
  have armed: "chain sid d2 = [] \<or> drained sid d2 = drained sid d1"
    if "(case submit k d1 (WriteFixed fd hd) (LSessionDataHeader s fd hd bs 0) On_session_data_header of
          (d, None) \<Rightarrow> finish_session_output k d s | (d, Some op) \<Rightarrow> Some d) = Some d2" "chain sid d1 = []" for d1 d2 fd hd s bs
  proof (cases "submit k d1 (WriteFixed fd hd) (LSessionDataHeader s fd hd bs 0) On_session_data_header")
    case (Pair e r)
    then show ?thesis
      using that submit_chain [OF Pair, of sid] drained_submit [OF Pair, of sid] fin [of e s d2] by (cases r) auto
  qed
  have "drained sid e = drained sid d1" if "pool_alloc k d1 n = Some (e, b)" for d1 e n b
    by (intro drained_cong abs_pool_alloc [OF that])
  then show ?thesis
    using assms chain_pool_alloc [where sid = sid]
    by (fastforce simp: on_session_output_def Let_def bind_eq_Some_conv dest: armed dest: fin
        split: op_local.splits sum.splits option.splits if_splits)
qed

lemma on_data_ends:
  "on_session_data_header k d l r = Some d' \<Longrightarrow> chain sid d = [] \<Longrightarrow> chain sid d' = [] \<or> drained sid d' = drained sid d"
  "on_session_data_payload k d l r = Some d' \<Longrightarrow> chain sid d = [] \<Longrightarrow> chain sid d' = [] \<or> drained sid d' = drained sid d"
  by (auto simp: on_session_data_header_def on_session_data_payload_def Let_def
      dest: chain_finish_output [where sid = sid] arm_output_ends [where sid = sid]
      split: op_local.splits sum.splits if_splits)

text \<open>
  Everything else does not set it. Stated over the abstract sessions, so that what leaves them alone is
  covered by the lemmas of the session protocol.
\<close>

definition unset :: "nat \<Rightarrow> sess_spec \<Rightarrow> sess_spec \<Rightarrow> bool" where
  "unset sid a b \<longleftrightarrow> ((case sp_live b sid of None \<Rightarrow> False | Some f \<Rightarrow> sf_drained f) \<longrightarrow>
     (case sp_live a sid of None \<Rightarrow> False | Some f \<Rightarrow> sf_drained f))"

lemma unset_drained: "unset sid (sess_abs d) (sess_abs d') \<longleftrightarrow> (drained sid d' \<longrightarrow> drained sid d)"
  by (simp add: unset_def drained_abs)

lemma unset_refl [simp]: "unset sid a a"
  by (simp add: unset_def)

lemma unset_trans: "unset sid a b \<Longrightarrow> unset sid b c \<Longrightarrow> unset sid a c"
  by (auto simp: unset_def)

lemma unset_close: "unset sid (sess_abs d) (sess_abs (close_session k d s))"
  using drained_close [of sid k d s] by (simp add: unset_drained)

lemma unset_maybe_finish: "maybe_finish_session k d s = Some d' \<Longrightarrow> unset sid (sess_abs d) (sess_abs d')"
  using drained_maybe_finish [of k d s d' sid] by (simp add: unset_drained)

lemma unset_finish_output: "finish_session_output k d s = Some d' \<Longrightarrow> s \<noteq> sid \<Longrightarrow> unset sid (sess_abs d) (sess_abs d')"
  using drained_finish_output [of k d s d' sid] by (simp add: unset_drained)

lemma unset_arm_output: "arm_session_output k d s = Some d' \<Longrightarrow> s \<noteq> sid \<Longrightarrow> unset sid (sess_abs d) (sess_abs d')"
  using drained_arm_output [of k d s d' sid] by (simp add: unset_drained)

lemma unset_on_session_output:
  assumes "on_session_output k d l r = Some d'" "\<not> output_local sid l" shows "unset sid (sess_abs d) (sess_abs d')"
proof -
  have f: "unset sid (sess_abs d) (sess_abs d')"
    if "finish_session_output k d1 s = Some d'" "sess_abs d1 = sess_abs d" "s \<noteq> sid" for d1 s
    using unset_finish_output [OF that(1,3)] that(2) by simp
  show ?thesis using assms
    by (auto simp: on_session_output_def Let_def split_def bind_eq_Some_conv intro: f
        split: op_local.splits sum.splits option.splits if_splits dest!: abs_pool_alloc)
qed

lemma unset_on_data:
  "on_session_data_header k d l r = Some d' \<Longrightarrow> \<not> output_local sid l \<Longrightarrow> unset sid (sess_abs d) (sess_abs d')"
  "on_session_data_payload k d l r = Some d' \<Longrightarrow> \<not> output_local sid l \<Longrightarrow> unset sid (sess_abs d) (sess_abs d')"
  using unset_finish_output [of k d _ d' sid] unset_arm_output [of k d _ d' sid]
  by (auto simp: on_session_data_header_def on_session_data_payload_def Let_def split: op_local.splits sum.splits if_splits)

lemma unset_on_session_frame: "on_session_frame k d l r = Some d' \<Longrightarrow> unset sid (sess_abs d) (sess_abs d')"
  using unset_close by (auto simp: on_session_frame_def Let_def split: op_local.splits sum.splits if_splits)

lemma unset_on_accept: "unset sid (sess_abs d) (sess_abs (on_accept k d l r))"
proof -
  have "sess_abs (d\<lparr>d_next_session_id := d_next_session_id d + 1,
        d_sessions := AList.update (d_next_session_id d) (session_new fd) (d_sessions d)\<rparr>) =
      (sess_abs d)\<lparr>sp_live := (sp_live (sess_abs d))(sp_next (sess_abs d) \<mapsto> flags_new), sp_next := sp_next (sess_abs d) + 1\<rparr>" for fd
    by (auto simp: sess_abs_def get_session_def update_conv' flags_new_def flags_of_def session_new_def fun_eq_iff)
  then show ?thesis
    by (auto simp: on_accept_def Let_def unset_def flags_new_def split: op_local.splits sum.splits)
qed

lemma unset_on_header: "unset sid (sess_abs d) (sess_abs (on_session_header k d l r))"
  using unset_close [of sid d k]
  by (auto simp: on_session_header_def Let_def split: op_local.splits sum.splits if_splits prod.splits option.splits
      dest!: abs_submit)

lemma unset_reap_one: "unset sid (sess_abs d) (sess_abs (fst (reap_one k d q status)))"
proof -
  have "unset sid (sess_abs d) (sess_abs (upd_session d s (\<lambda>s. s\<lparr>as_child_exited := True, as_exit_code := c\<rparr>)))" for s c
    using drained_upd [of "\<lambda>s. s\<lparr>as_child_exited := True, as_exit_code := c\<rparr>" sid d s] by (simp add: unset_drained)
  then show ?thesis by (auto simp: reap_one_def Let_def split: option.splits)
qed

lemma unset_reap_loop:
  assumes "reap_loop k d fin = Some r" shows "unset sid (sess_abs d) (sess_abs (fst r))"
proof (rule reap_loop.raw_induct [where P = "\<lambda>k d fin r. unset sid (sess_abs d) (sess_abs (fst r))", OF _ assms])
  fix f k d fin and r :: "'a daemon \<times> nat list"
  assume IH: "\<And>k d fin r. f k d fin = Some r \<Longrightarrow> unset sid (sess_abs d) (sess_abs (fst r))"
    and body: "(case k_wait4 k (d_world d) of
        (w, Inl e) \<Rightarrow> Some (d\<lparr>d_world := w\<rparr>, fin)
      | (w, Inr (pid, status)) \<Rightarrow>
          if 0 < pid then case reap_one k (d\<lparr>d_world := w\<rparr>) pid status of (d, sids) \<Rightarrow> f k d (fin @ sids)
          else Some (d\<lparr>d_world := w\<rparr>, fin)) = Some r"
  have "unset sid (sess_abs d) (sess_abs (fst r))"
    if "f k d1 fin' = Some r" "d1 = fst (reap_one k (d\<lparr>d_world := w\<rparr>) pid status)" for d1 fin' w pid status
    using unset_trans [OF unset_reap_one [of sid "d\<lparr>d_world := w\<rparr>" k pid status]] IH [OF that(1)] that(2) by simp
  then show "unset sid (sess_abs d) (sess_abs (fst r))"
    using body by (auto simp: split_def split: sum.splits if_splits)
qed

lemma unset_finish_sessions: "finish_sessions k d sids = Some d' \<Longrightarrow> unset sid (sess_abs d) (sess_abs d')"
  by (induction k d sids rule: finish_sessions.induct)
    (auto simp: bind_eq_Some_conv dest: unset_maybe_finish intro: unset_trans)

lemma unset_reap_children: "reap_children k d = Some d' \<Longrightarrow> unset sid (sess_abs d) (sess_abs d')"
  by (force simp: reap_children_def bind_eq_Some_conv dest: unset_reap_loop unset_finish_sessions intro: unset_trans)

lemma unset_on_sigchld: "on_sigchld k d l r = Some d' \<Longrightarrow> unset sid (sess_abs d) (sess_abs d')"
  by (auto simp: on_sigchld_def bind_eq_Some_conv dest: unset_reap_children split: op_local.splits sum.splits if_splits)

lemma unset_attach_error: "sess_abs d1 = sess_abs d \<Longrightarrow> unset sid (sess_abs d) (sess_abs (attach_error k d1 s fd m))"
  unfolding attach_error_def using unset_close [of sid "write_frame_now k d1 fd 1 (k_json k (ErrorResponse False m))"] by simp

lemma unset_attach_started:
  "attach_started k d s fd save prep q log_read ptm_fd death = Some d' \<Longrightarrow> s \<noteq> sid \<Longrightarrow> unset sid (sess_abs d) (sess_abs d')"
  by (auto simp: attach_started_def Let_def split_def bind_eq_Some_conv dest!: abs_session_frame unset_arm_output)

lemma unset_attach_parent:
  assumes "attach_parent k d s fd save prep pid log_pipe pty = Some (d', go)" "s \<noteq> sid"
  shows "unset sid (sess_abs d) (sess_abs d')"
proof -
  have s: "unset sid (sess_abs d) (sess_abs d')"
    if "attach_started k d1 s fd save prep pid a b c = Some d'" "sess_abs d1 = sess_abs d" for d1 a b c
    using unset_attach_started [OF that(1) assms(2)] that(2) by simp
  show ?thesis using assms(1)
    by (auto simp: attach_parent_def Let_def split_def bind_eq_Some_conv intro!: unset_attach_error elim!: s
        split: sum.splits option.splits)
qed

lemma unset_attach_clone:
  assumes "attach_clone k d s fd save prep log_pipe pty = Some (d', go)" "s \<noteq> sid"
  shows "unset sid (sess_abs d) (sess_abs d')"
proof (cases "k_clone3 k (d_world d) (pr_clone_flags prep)")
  case (Pair w r)
  then show ?thesis using assms
    by (auto simp: attach_clone_def Let_def intro!: unset_attach_error dest!: unset_attach_parent
        split: sum.splits option.splits)
qed

lemma unset_run_attach:
  assumes "handle_run_attach k d s q = Some (d', go)" "s \<noteq> sid" shows "unset sid (sess_abs d) (sess_abs d')"
proof -
  have c: "unset sid (sess_abs d) (sess_abs d')"
    if "attach_clone k d1 s fd save prep lp pty = Some (d', go)" "sess_abs d1 = sess_abs d" for d1 fd save prep lp pty
    using unset_attach_clone [OF that(1) assms(2)] that(2) by simp
  show ?thesis using assms(1)
    by (auto simp: handle_run_attach_def Let_def split_def intro!: unset_attach_error elim!: c
        split: request.splits option.splits sum.splits if_splits)
qed

lemma unset_handle_attach:
  assumes "handle_attach k d s pid = Some (d', go)" "s \<noteq> sid" shows "unset sid (sess_abs d) (sess_abs d')"
proof -
  have c: "unset sid (sess_abs d) (sess_abs (close_session k d1 s))" if "sess_abs d1 = sess_abs d" for d1
    using unset_close [of sid d1 k s] that by simp
  have o: "unset sid (sess_abs d) (sess_abs d')"
    if "arm_session_output k d2 s = Some d'" "arm_session_frame k d1 s fd ty p = Some d2" "sess_abs d1 = sess_abs d"
    for d1 d2 fd ty p
    using unset_arm_output [OF that(1) assms(2)] abs_session_frame [OF that(2)] that(3) by simp
  show ?thesis using assms(1)
    by (cases "k_pipe2 k (d_world d)")
      (auto simp: handle_attach_def Let_def bind_eq_Some_conv intro!: c elim!: o split: option.splits sum.splits)
qed

lemma unset_dispatch:
  assumes "dispatch_frame k d s ty p = Some (d', go)" "s \<noteq> sid \<or> ty \<noteq> 0" shows "unset sid (sess_abs d) (sess_abs d')"
  using assms unset_run_attach [of k d s _ d' go sid] unset_handle_attach [of k d s _ d' go sid]
  by (auto simp: dispatch_frame_def Let_def split: if_splits option.splits request.splits)

lemma unset_on_payload:
  assumes "on_session_payload k d l r = Some d'" "\<not> request_local sid l" shows "unset sid (sess_abs d) (sess_abs d')"
proof -
  have c: "unset sid (sess_abs d) (sess_abs (close_session k d2 s))"
    "unset sid (sess_abs d) (sess_abs (arm_session_read k d2 s))"
    if "pool_alloc k (store_session_op d s SRead None) n = Some (d1, b)" "dispatch_frame k d1 s ty p = Some (d2, go)"
      "s \<noteq> sid \<or> ty \<noteq> 0" for d1 d2 b n s ty p go
    using unset_dispatch [OF that(2,3)] abs_pool_alloc [OF that(1)] unset_close [of sid d2 k s]
    by (auto intro: unset_trans)
  show ?thesis using assms unset_close [of sid d k]
    by (auto simp: on_session_payload_def Let_def split_def bind_eq_Some_conv intro: c
        split: op_local.splits sum.splits if_splits option.splits)
qed

lemma unset_run_callback:
  assumes "run_callback k d cb l r = Some d'" "\<not> output_local sid l" "\<not> request_local sid l"
  shows "unset sid (sess_abs d) (sess_abs d')"
proof -
  have same: "unset sid (sess_abs d) (sess_abs d')" if "sess_abs d' = sess_abs d"
    using that by simp
  show ?thesis
    using assms unset_on_accept [of sid d k l] unset_on_header [of sid d k l]
    by (cases cb; cases r)
      (auto simp: run_callback_def
        dest: abs_datagram_peek abs_on_datagram abs_on_follow_write abs_container_output
          unset_on_sigchld unset_on_payload unset_on_session_frame unset_on_data unset_on_session_output intro: same)
qed

text \<open>So the flag is set only when the drain has nothing in flight.\<close>

definition ends_drained :: "nat \<Rightarrow> 'w daemon \<Rightarrow> bool" where
  "ends_drained sid d \<longleftrightarrow> (drained sid d \<longrightarrow> chain sid d = [])"

lemma stage_ends:
  assumes "run_callback k d cb l r = Some d'" "op_typed cb l" "output_local sid l" "chain sid d = []"
  shows "chain sid d' = [] \<or> drained sid d' = drained sid d"
  using assms
  by (cases l; cases r)
    (auto simp: run_callback_def dest: on_session_output_ends [where sid = sid] on_data_ends [where sid = sid])

lemma ends_drained_deliver:
  assumes "deliver k d i r = Some d'" "dwf d" "served_step sid fd d i r" "ends_drained sid d" "length (chain sid d) \<le> 1"
  shows "ends_drained sid d'"
proof -
  let ?d = "d\<lparr>d_ops := AList.delete i (d_ops d)\<rparr>"
  obtain p where p: "map_of (d_ops d) i = Some p" and run: "run_callback k ?d (po_cb p) (po_local p) r = Some d'"
    using assms(1) by (auto simp: deliver_def split: option.splits)
  have typed: "op_typed (po_cb p) (po_local p)" and keyed: "keyed (d_ops d)"
    using assms(2) map_of_SomeD [OF p] by (auto simp: dwf_def ops_ok_def)
  obtain xs ys where xy: "chain sid d = xs @ (if output_local sid (po_local p) then [(po_local p, po_req p)] else []) @ ys"
    "chain sid ?d = xs @ ys"
    using chain_delete [OF keyed p] by blast
  have req: "\<not> request_local sid (po_local p)" using assms(3) p by (simp add: served_step_def)
  have same: "drained sid ?d = drained sid d" by (simp add: drained_def get_session_def)
  show ?thesis
  proof (cases "output_local sid (po_local p)")
    case True
    then have "chain sid ?d = []" "\<not> drained sid d" using xy assms(4,5) by (auto simp: ends_drained_def)
    then show ?thesis using stage_ends [OF run typed True] same by (auto simp: ends_drained_def)
  next
    case False
    then show ?thesis
      using chain_run_callback [OF run False req] unset_run_callback [OF run False req] xy assms(4) same
      by (simp add: ends_drained_def unset_drained)
  qed
qed

lemma drain_state_length: "drain_state sid fd d pieces sent \<Longrightarrow> length (chain sid d) \<le> 1"
  by (auto simp: drain_state_def)

lemma ends_drained_run:
  "deliver_all k d rs = Some d' \<Longrightarrow> dwf d \<Longrightarrow> obliging k \<Longrightarrow> served k sid fd d rs \<Longrightarrow> drain_state sid fd d pieces sent \<Longrightarrow>
   ends_drained sid d \<Longrightarrow> ends_drained sid d'"
proof (induction k d rs arbitrary: pieces sent rule: deliver_all.induct)
  case (2 k d i r rs)
  then obtain e where e: "deliver k d i r = Some e" "deliver_all k e rs = Some d'"
    by (auto simp: bind_eq_Some_conv)
  have s: "served_step sid fd d i r" "served k sid fd e rs" using 2(5) e(1) by auto
  have "dwf e" using deliver_loops [OF e(1) 2(3)] by blast
  from 2(1) [OF e(1,2) this 2(4) s(2) drain_deliver [OF e(1) 2(3,4) s(1) 2(6)]
      ends_drained_deliver [OF e(1) 2(3) s(1) 2(7) drain_state_length [OF 2(6)]]]
  show ?case .
qed simp

section \<open>The start of a drain\<close>

lemma submit_sessions [simp]: "d_sessions (fst (submit k d req l cb)) = d_sessions d"
proof -
  obtain w x where x: "k_arm k (d_world d) req = (w, x)" by fastforce
  then show ?thesis by (cases x) (auto simp: submit_def Let_def emit_def)
qed

lemma attach_started_chain:
  assumes "attach_started k d sid fd save prep q log_read ptm_fd death = Some d'" "obliging k" "chain sid d = []"
    and "get_session d sid \<noteq> None" "0 \<le> ptm_fd \<or> 0 \<le> log_read"
  shows "chain sid d' = [(LSessionOutputRead sid, ReadProvided (if 0 \<le> ptm_fd then ptm_fd else log_read) 4096)]"
proof -
  let ?out = "if 0 \<le> ptm_fd then ptm_fd else log_read"
  obtain w now where n: "k_now k (d_world d) = (w, now)" by fastforce
  let ?d = "upd_session (d\<lparr>d_world := w,
      d_containers := AList.update q (container_new q prep save now (-1) (-1) death) (d_containers d)\<rparr>) sid
      (\<lambda>s. s\<lparr>as_ptm_fd := ptm_fd, as_log_read_fd := log_read, as_container_pid := q\<rparr>)"
  obtain e where e: "arm_session_frame k ?d sid fd 1 (k_json k (RunResponse True (Some q) None)) = Some e"
    "arm_session_output k e sid = Some d'"
    using assms(1) n by (auto simp: attach_started_def Let_def bind_eq_Some_conv)
  have "d_sessions e = d_sessions ?d"
    using e(1) by (auto simp: arm_session_frame_def Let_def bind_eq_Some_conv pool_alloc_def split_def)
  then have "get_session e sid = get_session ?d sid" by (simp add: get_session_def)
  then obtain s where s: "get_session e sid = Some s" "as_ptm_fd s = ptm_fd" "as_log_read_fd s = log_read"
    using assms(4) by (auto simp: get_upd_session) (simp add: get_session_def)
  obtain f r where f: "submit k e (ReadProvided ?out 4096) (LSessionOutputRead sid) On_session_output = (f, r)" by fastforce
  then obtain j where "r = Some j" using obliging_submit [OF assms(2)] by (metis option.exhaust snd_conv)
  moreover have "chain sid e = []" using chain_session_frame [OF e(1), of sid] assms(3) by simp
  ultimately show ?thesis
    using e(2) s f submit_chain [OF f, of sid] assms(5) by (auto simp: arm_session_output_def Let_def split: if_splits)
qed

section \<open>Properties\<close>

lemma drain_start:
  "chain sid d = [(LSessionOutputRead sid, ReadProvided out 4096)] \<Longrightarrow> drain_state sid fd d [] []"
  by (simp add: drain_state_def data_frames_def)

lemma drained_at_start: "get_session d sid = Some s \<Longrightarrow> \<not> as_drain_done s \<Longrightarrow> ends_drained sid d"
  by (simp add: ends_drained_def drained_def)

lemma output_framed:
  assumes "dwf d" "obliging k" "chain sid d = [(LSessionOutputRead sid, ReadProvided out 4096)]"
    and "get_session d sid = Some s0" "\<not> as_drain_done s0" "deliver_all k d rs = Some d'" "served k sid fd d rs"
  shows "data_frames (pieces_read k sid d rs) = stream_sent k sid fd d rs @ concat (map (unsent \<circ> fst) (chain sid d'))"
    "length (chain sid d') \<le> 1" "get_session d' sid = Some s \<Longrightarrow> as_drain_done s \<Longrightarrow> chain sid d' = []"
proof -
  have state: "drain_state sid fd d' (pieces_read k sid d rs) (stream_sent k sid fd d rs)"
    using drain_run [OF assms(6,1,2,7) drain_start [OF assms(3)]] by simp
  then show "data_frames (pieces_read k sid d rs) = stream_sent k sid fd d rs @ concat (map (unsent \<circ> fst) (chain sid d'))"
    by (auto simp: drain_state_def)
  show "length (chain sid d') \<le> 1" by (rule drain_state_length [OF state])
  show "chain sid d' = []" if "get_session d' sid = Some s" "as_drain_done s"
    using ends_drained_run [OF assms(6,1,2,7) drain_start [OF assms(3)] drained_at_start [OF assms(4,5)]] that
    by (simp add: ends_drained_def drained_def)
qed

text \<open>
  C3. The stream of a client carries the output of its container. From the moment a session's drain is
  armed (as \<^verbatim>\<open>handle_run_attach\<close> leaves it, lemma \<open>attach_started_chain\<close>), deliver any completions in any
  order: pieces of output of any size, writes cut anywhere, other sessions, containers and requests. What
  the drain has put on the stream, together with what its one operation in flight still has to write, is
  exactly the concatenation of the data frames of the pieces read, in order. The flag \<open>as_drain_done\<close>,
  which the exit frame waits for, is set only when nothing is left to write. (The kernel refuses nothing;
  the client sends no second request on its session, its writes do not fail and the session is open
  whenever output is read.)
\<close>

theorem session_output_is_framed:
  assumes "dwf d" "obliging k" "chain sid d = [(LSessionOutputRead sid, ReadProvided out 4096)]"
    and "get_session d sid = Some s0" "\<not> as_drain_done s0" "deliver_all k d rs = Some d'" "served k sid fd d rs"
  shows "concat (map (build_frame 0x10) (pieces_read k sid d rs)) =
      stream_sent k sid fd d rs @ concat (map (unsent \<circ> fst) (chain sid d')) \<and>
    length (chain sid d') \<le> 1 \<and>
    (\<forall>s. get_session d' sid = Some s \<and> as_drain_done s \<longrightarrow> chain sid d' = [])"
  using output_framed [OF assms] by (simp add: data_frames_def)

text \<open>
  A session that is closed while its drain is writing: \<^verbatim>\<open>close_session\<close> cancels reads only. The header's
  completion then submits the payload to the closed descriptor, whatever that number names by then.
\<close>

lemma closed_session_goes_on_writing:
  assumes "get_session d sid = Some s" "as_stream_fd s = fd" "0 \<le> fd" "obliging k"
    and "map_of (d_ops d) i = Some \<lparr>po_req = q, po_local = LSessionDataHeader sid fd header payload off,
      po_cb = On_session_data_header, po_cancel = c\<rparr>"
    and "as_read_op s \<noteq> Some i" "as_output_op s \<noteq> Some i" "length header \<le> off + n"
  defines "e \<equiv> close_session k d sid"
  shows "\<exists>d' j. deliver k e i (CountResult (Inr n)) = Some d' \<and> get_session d' sid = None \<and>
    d_trace d' = d_trace e @ [Armed j (WriteFixed fd payload)] \<and> Closed fd \<in> set (d_trace e)"
proof -
  have other: "map_of (d_ops (cancel_op k x j)) i = map_of (d_ops x) i" if "j \<noteq> i" for x :: "'a daemon" and j
    using that by (auto simp: cancel_op_def emit_def Let_def map_of_map_entry split: option.splits prod.splits)
  have sess: "d_sessions (cancel_op k x j) = d_sessions x" for x :: "'a daemon" and j
    by (auto simp: cancel_op_def emit_def Let_def split: option.splits prod.splits)
  have "map_of (d_ops e) i = map_of (d_ops d) i" "Closed fd \<in> set (d_trace e)"
    using assms(1-3,6,7) other
    by (auto simp: e_def close_session_def close_if_open_def close_fd_def emit_def Let_def split: option.splits)
  moreover have "get_session e sid = None"
    using assms(1) sess by (auto simp: e_def close_session_def close_if_open_def close_fd_def emit_def Let_def get_session_def
        delete_conv' split: option.splits)
  moreover obtain w where "k_arm k (d_world e) (WriteFixed fd payload) = (w, Inr ())"
    using assms(4) by (metis obliging_def prod.exhaust_sel)
  ultimately show ?thesis
    using assms(5,8) by (auto simp: deliver_def run_callback_def on_session_data_header_def submit_def emit_def Let_def get_session_def)
qed

text \<open>A session that reads \<^verbatim>\<open>hi\<close>; the header takes two writes.\<close>

definition demo_drain_start :: "demo_world daemon" where
  "demo_drain_start = demo_start\<lparr>
     d_sessions := [(0, (session_new 50)\<lparr>as_log_read_fd := 60\<rparr>)], d_next_session_id := 1,
     d_ops := [(0, \<lparr>po_req = ReadProvided 60 4096, po_local = LSessionOutputRead 0, po_cb = On_session_output, po_cancel = False\<rparr>)],
     d_next_op := 1\<rparr>"

definition demo_drain_script :: "(nat \<times> op_result) list" where
  "demo_drain_script = [(0, BytesResult (Inr [104, 105])), (1, CountResult (Inr 2)), (2, CountResult (Inr 1)),
     (3, CountResult (Inr 2)), (4, BytesResult (Inr []))]"

lemmas demo_drain_defs =
  demo_drain_script_def demo_drain_start_def demo_start_def daemon_state_new_def session_new_def deliver_def run_callback_def
  on_session_output_def on_session_data_header_def on_session_data_payload_def arm_session_output_def finish_session_output_def
  maybe_finish_session_def get_session_def session_stream_fd_def upd_session_def store_session_op_def pool_alloc_def submit_def
  emit_def served_step_def piece_read_def piece_sent_def

lemma demo_drain_run:
  "\<exists>d'. deliver_all demo_kernel demo_drain_start demo_drain_script = Some d' \<and> chain 0 d' = [] \<and>
     (\<exists>s. get_session d' 0 = Some s \<and> as_drain_done s)"
  "served demo_kernel 0 50 demo_drain_start demo_drain_script"
  "pieces_read demo_kernel 0 demo_drain_start demo_drain_script = [[104, 105]]"
  "stream_sent demo_kernel 0 50 demo_drain_start demo_drain_script = build_frame 0x10 [104, 105]"
  by (simp_all add: demo_drain_defs chain_def build_frame_def u16_to_le_bytes_def Let_def)

lemma demo_drain_facts:
  "dwf demo_drain_start" "chain 0 demo_drain_start = [(LSessionOutputRead 0, ReadProvided 60 4096)]"
  "get_session demo_drain_start 0 = Some ((session_new 50)\<lparr>as_log_read_fd := 60\<rparr>)"
  "\<not> as_drain_done ((session_new 50)\<lparr>as_log_read_fd := 60\<rparr>)"
  by (simp_all add: demo_drain_start_def demo_start_def daemon_state_new_def dwf_def ops_ok_def sessions_ok_def containers_ok_def
      keyed_def chain_def get_session_def session_new_def)

theorem session_output_is_framed_witness:
  "\<exists>d'. deliver_all demo_kernel demo_drain_start demo_drain_script = Some d' \<and>
     build_frame 0x10 [104, 105] = stream_sent demo_kernel 0 50 demo_drain_start demo_drain_script @
       concat (map (unsent \<circ> fst) (chain 0 d')) \<and> chain 0 d' = []"
proof -
  obtain d' s where d': "deliver_all demo_kernel demo_drain_start demo_drain_script = Some d'"
    "get_session d' 0 = Some s" "as_drain_done s"
    using demo_drain_run(1) by blast
  show ?thesis
    using session_output_is_framed [OF demo_drain_facts(1) demo_obliging demo_drain_facts(2-4) d'(1) demo_drain_run(2)] d'
    by (simp add: demo_drain_run(3))
qed

end
