(* ===== verification/Attached_Output.thy ===== *)
theory Attached_Output
  imports Client_Safety Session_Output
begin

text \<open>
  An attached container from end to end: what the drain of the daemon (\<^verbatim>\<open>libs/core/src/daemon.rs\<close>) reads
  from the output of the container and what the client (\<^verbatim>\<open>src/main.rs\<close>) writes to its standard
  output.
\<close>



end
