(* ===== verification/Overlay_Cleanup.thy ===== *)
theory Overlay_Cleanup
  imports Conrt_Prelude "HOL-Library.Sublist"
begin

text \<open>
  The overlay directory of a container (\<^verbatim>\<open>libs/core/src/lib.rs\<close>): its creation and its removal, which
  first makes everything below it accessible. The file system is a parameter \<open>overlay_ops\<close>; \<open>fs_ops\<close> is
  a concrete one with permission bits and symbolic links.
\<close>

section \<open>The code\<close>

record ('w, 'p) overlay_ops =
  ov_lstat :: "'w \<Rightarrow> 'p \<Rightarrow> bool option"
  ov_read_dir :: "'w \<Rightarrow> 'p \<Rightarrow> 'p list option"
  ov_chmod :: "'w \<Rightarrow> 'p \<Rightarrow> nat \<Rightarrow> 'w"
  ov_remove_dir_all :: "'w \<Rightarrow> 'p \<Rightarrow> 'w \<times> unit io_result"
  ov_create_dir :: "'w \<Rightarrow> 'p \<Rightarrow> 'w \<times> unit io_result"
  ov_temp_path :: "nat \<Rightarrow> nat \<Rightarrow> 'p"

text \<open>The counter is a static of the process.\<close>

definition create_overlay_tempdir ::
  "('w, 'p) overlay_ops \<Rightarrow> nat \<Rightarrow> u64 \<Rightarrow> 'w \<Rightarrow> 'w \<times> u64 \<times> 'p io_result"
where
  "create_overlay_tempdir p pid counter w =
     (let path = ov_temp_path p pid (unat counter) in
      case ov_create_dir p w path of
        (w, Inl e) \<Rightarrow> (w, counter + 1, Inl e)
      | (w, Inr _) \<Rightarrow> (w, counter + 1, Inr path))"

definition MODE_DIR :: nat where "MODE_DIR = 448"
definition MODE_FILE :: nat where "MODE_FILE = 384"





section \<open>A file system\<close>

text \<open>
  Names from the root; a directory has its mode and its entries. The process is the owner of
  everything and not privileged. The targets of links are canonical names.
\<close>

type_synonym name = "bytes list"

datatype node = NDir nat "bytes list" | NFile nat | NLink name

type_synonym fs = "name \<rightharpoonup> node"

definition may_read :: "nat \<Rightarrow> bool" where
  "may_read m \<longleftrightarrow> m div 256 mod 2 = 1"

definition may_search :: "nat \<Rightarrow> bool" where
  "may_search m \<longleftrightarrow> m div 64 mod 2 = 1"

definition search_ok :: "node option \<Rightarrow> bool" where
  "search_ok n \<longleftrightarrow> (case n of Some (NDir m ns) \<Rightarrow> may_search m | _ \<Rightarrow> False)"

definition searchable :: "fs \<Rightarrow> name \<Rightarrow> bool" where
  "searchable f q \<longleftrightarrow> (\<forall>i < length q. search_ok (f (take i q)))"

fun is_dir :: "node \<Rightarrow> bool" where
  "is_dir (NDir m ns) \<longleftrightarrow> True"
| "is_dir n \<longleftrightarrow> False"

fun with_mode :: "nat \<Rightarrow> node \<Rightarrow> node" where
  "with_mode m (NDir _ ns) = NDir m ns"
| "with_mode m (NFile _) = NFile m"
| "with_mode m (NLink t) = NLink t"

text \<open>The kernel gives up after forty links.\<close>

fun follow :: "nat \<Rightarrow> fs \<Rightarrow> name \<Rightarrow> name option" where
  "follow 0 f q = None"
| "follow (Suc n) f q =
     (if searchable f q then
        (case f q of None \<Rightarrow> None | Some (NLink t) \<Rightarrow> follow n f t | Some _ \<Rightarrow> Some q)
      else None)"

definition fs_lstat :: "fs \<Rightarrow> name \<Rightarrow> bool option" where
  "fs_lstat f q = (if searchable f q then map_option is_dir (f q) else None)"

definition fs_read_dir :: "fs \<Rightarrow> name \<Rightarrow> name list option" where
  "fs_read_dir f q =
     (if searchable f q then
        (case f q of Some (NDir m ns) \<Rightarrow> if may_read m then Some (map (\<lambda>n. q @ [n]) ns) else None | _ \<Rightarrow> None)
      else None)"

definition fs_chmod :: "fs \<Rightarrow> name \<Rightarrow> nat \<Rightarrow> fs" where
  "fs_chmod f q m = (case follow 40 f q of None \<Rightarrow> f | Some t \<Rightarrow> f(t := map_option (with_mode m) (f t)))"

text \<open>Removal needs every directory below to be readable, writable and searchable.\<close>

definition fs_ops :: "(fs \<Rightarrow> name \<Rightarrow> fs \<times> unit io_result) \<Rightarrow> (fs, name) overlay_ops" where
  "fs_ops rm =
     \<lparr>ov_lstat = fs_lstat, ov_read_dir = fs_read_dir, ov_chmod = fs_chmod, ov_remove_dir_all = rm,
      ov_create_dir = (\<lambda>f q. if f q = None then (f(q \<mapsto> NDir MODE_DIR []), Inr ()) else (f, Inl (Os 17))),
      ov_temp_path = (\<lambda>pid seq. [[116, 109, 112], [word_of_nat pid, word_of_nat seq]])\<rparr>"

lemma fs_ops_simps [simp]:
  "ov_lstat (fs_ops rm) = fs_lstat" "ov_read_dir (fs_ops rm) = fs_read_dir" "ov_chmod (fs_ops rm) = fs_chmod"
  "ov_remove_dir_all (fs_ops rm) = rm"
  by (simp_all add: fs_ops_def)

section \<open>Walking a tree\<close>






definition tidy :: "node \<Rightarrow> node" where
  "tidy nd = with_mode (if is_dir nd then MODE_DIR else MODE_FILE) nd"

definition tidied :: "fs \<Rightarrow> name list \<Rightarrow> fs" where
  "tidied f ps = (\<lambda>q. if \<exists>p \<in> set ps. prefix p q then map_option tidy (f q) else f q)"

lemma tidied_Nil [simp]: "tidied f [] = f"
  by (simp add: tidied_def)




















section \<open>Properties\<close>











section \<open>Two overlays\<close>









end
