(* ===== verification/Daemon_Boot.thy ===== *)
theory Daemon_Boot
  imports Demo_Kernel Client
begin

text \<open>
  The start and the end of the daemon process (\<^verbatim>\<open>boot\<close>, \<^verbatim>\<open>setup_sigchld_fd\<close> and \<^verbatim>\<open>Daemon::run\<close> of
  \<^verbatim>\<open>libs/core/src/daemon.rs\<close>, \<^verbatim>\<open>run_daemon\<close> of \<^verbatim>\<open>src/main.rs\<close>): binding the two sockets, blocking the
  child signal, running until no operation is in flight, and the exit code. What the kernel offers at
  start is the record \<open>host_ops\<close>; values with a destructor are closed where Rust drops them.
\<close>

section \<open>The code\<close>

record 'w host_ops =
  h_parent :: "path \<Rightarrow> path option"
  h_create_dir_all :: "'w \<Rightarrow> path \<Rightarrow> 'w \<times> unit io_result"
  h_exists :: "'w \<Rightarrow> path \<Rightarrow> bool"
  h_remove_file :: "'w \<Rightarrow> path \<Rightarrow> 'w"
  h_bind_datagram :: "'w \<Rightarrow> path \<Rightarrow> 'w \<times> fd io_result"
  h_bind_stream :: "'w \<Rightarrow> path \<Rightarrow> 'w \<times> fd io_result"
  h_block_sigchld :: "'w \<Rightarrow> 'w \<times> unit io_result"
  h_signalfd :: "'w \<Rightarrow> 'w \<times> fd io_result"
  h_close :: "'w \<Rightarrow> fd \<Rightarrow> 'w"

definition setup_sigchld_fd :: "'w host_ops \<Rightarrow> 'w \<Rightarrow> 'w \<times> fd io_result" where
  "setup_sigchld_fd h w =
     (case h_block_sigchld h w of
        (w, Inl e) \<Rightarrow> (w, Inl e)
      | (w, Inr _) \<Rightarrow> h_signalfd h w)"

definition remove_stale :: "'w host_ops \<Rightarrow> 'w \<Rightarrow> path \<Rightarrow> 'w" where
  "remove_stale h w p = (if h_exists h w p then h_remove_file h w p else w)"

text \<open>The first half of \<^verbatim>\<open>boot\<close>: the three descriptors the loops are armed on.\<close>

definition boot_sockets :: "'w host_ops \<Rightarrow> 'w \<Rightarrow> path \<Rightarrow> ('w \<times> (fd \<times> fd \<times> fd) io_result) option" where
  "boot_sockets h w socket_path = do {
     dir \<leftarrow> h_parent h socket_path;
     Some
      (case h_create_dir_all h w dir of
         (w, Inl e) \<Rightarrow> (w, Inl e)
       | (w, Inr _) \<Rightarrow>
           (case h_bind_datagram h (remove_stale h w socket_path) socket_path of
              (w, Inl e) \<Rightarrow> (w, Inl e)
            | (w, Inr datagram_fd) \<Rightarrow>
                (let stream_path = socket_path @ DOT_STREAM in
                 case h_bind_stream h (remove_stale h w stream_path) stream_path of
                   (w, Inl e) \<Rightarrow> (h_close h w datagram_fd, Inl e)
                 | (w, Inr attach_listener_fd) \<Rightarrow>
                     (case setup_sigchld_fd h w of
                        (w, Inl e) \<Rightarrow> (h_close h (h_close h w attach_listener_fd) datagram_fd, Inl e)
                      | (w, Inr sigchld_fd) \<Rightarrow> (w, Inr (datagram_fd, attach_listener_fd, sigchld_fd))))))
   }"

text \<open>
  \<^verbatim>\<open>Daemon::run\<close>: \<^verbatim>\<open>block_on\<close> returns when no operation is in flight; \<open>rs\<close> are the completions
  delivered until then.
\<close>

definition daemon_main ::
  "'w host_ops \<Rightarrow> 'w kernel \<Rightarrow> 'w \<Rightarrow> path \<Rightarrow> (nat \<times> op_result) list \<Rightarrow> ('w daemon \<times> unit io_result) option"
where
  "daemon_main h k w socket_path rs = do {
     (w, fds) \<leftarrow> boot_sockets h w socket_path;
     d \<leftarrow> boot k (daemon_state_new w) fds;
     d \<leftarrow> deliver_all k d rs;
     ensure (d_ops d = []);
     Some (d, Inr ())
   }"

definition run_daemon ::
  "'w host_ops \<Rightarrow> 'w kernel \<Rightarrow> (nat \<times> op_result) list \<Rightarrow> 'w \<Rightarrow> path \<Rightarrow> ('w \<times> exit_code) option"
where
  "run_daemon h k rs w socket_path = do {
     (d, r) \<leftarrow> daemon_main h k w socket_path rs;
     Some (d_world d, case r of Inr _ \<Rightarrow> SUCCESS | Inl e \<Rightarrow> FAILURE)
   }"

section \<open>Descriptors\<close>

text \<open>What the kernel promises of descriptors: a fresh one is opened, closing one removes it.\<close>

definition newly_opened :: "('w \<Rightarrow> fd set) \<Rightarrow> 'w \<Rightarrow> 'w \<times> fd io_result \<Rightarrow> bool" where
  "newly_opened opened w x \<longleftrightarrow>
     (case x of (w', Inl e) \<Rightarrow> opened w' = opened w | (w', Inr fd) \<Rightarrow> fd \<notin> opened w \<and> opened w' = insert fd (opened w))"

definition host_laws :: "'w host_ops \<Rightarrow> ('w \<Rightarrow> fd set) \<Rightarrow> bool" where
  "host_laws h opened \<longleftrightarrow>
     (\<forall>w p. opened (fst (h_create_dir_all h w p)) = opened w) \<and>
     (\<forall>w p. opened (h_remove_file h w p) = opened w) \<and>
     (\<forall>w. opened (fst (h_block_sigchld h w)) = opened w) \<and>
     (\<forall>w fd. opened (h_close h w fd) = opened w - {fd}) \<and>
     (\<forall>w p. newly_opened opened w (h_bind_datagram h w p)) \<and>
     (\<forall>w p. newly_opened opened w (h_bind_stream h w p)) \<and>
     (\<forall>w. newly_opened opened w (h_signalfd h w))"

lemma failed_sigchld:
  assumes laws: "host_laws h opened" and "setup_sigchld_fd h w = (w', Inl e)"
  shows "opened w' = opened w"
proof (cases "h_block_sigchld h w")
  case (Pair w1 r)
  have "opened w1 = opened w" "newly_opened opened w1 (h_signalfd h w1)"
    using laws unfolding host_laws_def by (metis Pair fst_conv, blast)
  then show ?thesis
    using assms(2) Pair by (auto simp: setup_sigchld_fd_def newly_opened_def split: sum.splits)
qed

lemma failed_boot_closes:
  assumes laws: "host_laws h opened" and fail: "boot_sockets h w path = Some (w', Inl e)"
  shows "opened w' = opened w"
proof -
  have stale: "opened (remove_stale h v p) = opened v" for v p
    using laws by (simp add: host_laws_def remove_stale_def)
  have shut: "opened (h_close h v fd) = opened v - {fd}" for v fd
    using laws by (simp add: host_laws_def)
  obtain dir where dir: "h_parent h path = Some dir"
    using fail by (auto simp: boot_sockets_def bind_eq_Some_conv)
  obtain w1 r1 where c: "h_create_dir_all h w dir = (w1, r1)" by fastforce
  then have o1: "opened w1 = opened w" using laws by (metis fst_conv host_laws_def)
  obtain w2 r2 where d: "h_bind_datagram h (remove_stale h w1 path) path = (w2, r2)" by fastforce
  then have o2: "newly_opened opened (remove_stale h w1 path) (w2, r2)" using laws by (metis host_laws_def)
  let ?sp = "path @ DOT_STREAM"
  obtain w3 r3 where s: "h_bind_stream h (remove_stale h w2 ?sp) ?sp = (w3, r3)" by fastforce
  then have o3: "newly_opened opened (remove_stale h w2 ?sp) (w3, r3)" using laws by (metis host_laws_def)
  obtain w4 r4 where g: "setup_sigchld_fd h w3 = (w4, r4)" by fastforce
  show ?thesis
    using fail dir c d s g o1 o2 o3 stale shut failed_sigchld [OF laws, of w3 w4]
    by (auto simp: boot_sockets_def newly_opened_def Let_def split: sum.splits)
qed

section \<open>Properties\<close>

text \<open>
  A daemon that cannot start ends with the exit code of success: when a socket cannot be bound or the
  signal descriptor not be opened, \<^verbatim>\<open>boot\<close> only logs the error, so no loop is armed, \<^verbatim>\<open>block_on\<close> returns
  at once and \<^verbatim>\<open>Daemon::run\<close> reports no error. The descriptors opened before the failure are closed.
\<close>

theorem failed_boot_exits_success:
  assumes "host_laws h opened" "boot_sockets h w path = Some (w', Inl e)"
  shows "run_daemon h k [] w path = Some (w', SUCCESS) \<and> opened w' = opened w"
  using failed_boot_closes [OF assms] assms(2)
  by (simp add: run_daemon_def daemon_main_def boot_def daemon_state_new_def ensure_def)

text \<open>A host on which the stream socket cannot be bound.\<close>

definition busy_host :: "fd list host_ops" where
  "busy_host =
     \<lparr>h_parent = (\<lambda>p. Some []), h_create_dir_all = (\<lambda>w p. (w, Inr ())), h_exists = (\<lambda>w p. True),
      h_remove_file = (\<lambda>w p. w), h_bind_datagram = (\<lambda>w p. let fd = Max (set (2 # w)) + 1 in (fd # w, Inr fd)),
      h_bind_stream = (\<lambda>w p. (w, Inl (Os 98))), h_block_sigchld = (\<lambda>w. (w, Inr ())),
      h_signalfd = (\<lambda>w. (w, Inl (Os 24))), h_close = (\<lambda>w fd. filter (\<lambda>g. g \<noteq> fd) w)\<rparr>"

lemma busy_host_laws: "host_laws busy_host set"
proof -
  have "Max (insert 2 (set w)) + 1 \<notin> set w" for w :: "fd list"
    using Max_ge [of "insert 2 (set w)"] by (metis List.finite_set add_le_same_cancel1 finite.insertI insertCI not_one_le_zero)
  then show ?thesis
    by (auto simp: host_laws_def busy_host_def newly_opened_def Let_def)
qed

theorem failed_boot_exits_success_witness:
  "\<forall>k. run_daemon busy_host k [] [5] [47] = Some ([5], SUCCESS)"
proof -
  have "boot_sockets busy_host [5] [47] = Some ([5], Inl (Os 98))"
    by (simp add: boot_sockets_def busy_host_def remove_stale_def Let_def)
  from failed_boot_exits_success [OF busy_host_laws this] show ?thesis by blast
qed

end
