(* ===== verification/Syscalls.thy ===== *)
theory Syscalls
  imports Conrt_Prelude
begin

text \<open>
  The system call wrappers (\<^verbatim>\<open>libs/sys/src/lib.rs\<close>) and \<^verbatim>\<open>clone3_container\<close> of
  \<^verbatim>\<open>libs/core/src/lib.rs\<close>: how a return value becomes a result, the argument vector of a program, and
  bringing up the loopback interface. The kernel and the C library are the record \<open>sys_ops\<close>: a call
  gives its return value and what it wrote through its output pointer; a pointer is the bytes it
  points to.
\<close>

section \<open>Calls\<close>

type_synonym cstr = bytes

datatype sysno =
    SYS_read | SYS_write | SYS_close | SYS_pipe2 | SYS_sethostname | SYS_wait4 | SYS_clone3 | SYS_mount
  | SYS_pivot_root | SYS_umount2 | SYS_chdir | SYS_mkdir | SYS_rmdir | SYS_chroot
  | C_execvp | C_setsid | C_setns | C_dup2 | C_fcntl | C_sigprocmask | C_signalfd | C_socket | C_ioctl | C_close

datatype sysarg = ANum int | AStr "cstr option" | AIn bytes | AOut nat | AArgv "cstr option list"

record 'w sys_ops =
  sy_call :: "'w \<Rightarrow> sysno \<Rightarrow> sysarg list \<Rightarrow> 'w \<times> int \<times> bytes"
  sy_errno :: "'w \<Rightarrow> errno"

definition sys_ensure :: "'w sys_ops \<Rightarrow> 'w \<times> int \<times> bytes \<Rightarrow> 'w \<times> int io_result" where
  "sys_ensure p x = (case x of (w, ret, out) \<Rightarrow> (w, if ret < 0 then Inl (Os (sy_errno p w)) else Inr ret))"

definition syscall_unchecked :: "'w sys_ops \<Rightarrow> 'w \<Rightarrow> sysno \<Rightarrow> sysarg list \<Rightarrow> 'w \<times> int \<times> bytes" where
  "syscall_unchecked p w nr args = sy_call p w nr args"

definition syscall :: "'w sys_ops \<Rightarrow> 'w \<Rightarrow> sysno \<Rightarrow> sysarg list \<Rightarrow> 'w \<times> int io_result \<times> bytes" where
  "syscall p w nr args =
     (case syscall_unchecked p w nr args of
        (w, ret, out) \<Rightarrow> (w, if ret < 0 then Inl (Os (sy_errno p w)) else Inr ret, out))"

text \<open>\<^verbatim>\<open>.map(|_| ())\<close>.\<close>

definition unit_of :: "'w \<times> int io_result \<times> bytes \<Rightarrow> 'w \<times> unit io_result" where
  "unit_of x = (case x of (w, r, out) \<Rightarrow> (w, map_sum id (\<lambda>_. ()) r))"

definition result_of :: "'w \<times> int io_result \<times> bytes \<Rightarrow> 'w \<times> int io_result" where
  "result_of x = (case x of (w, r, out) \<Rightarrow> (w, r))"

text \<open>The bytes the kernel wrote replace the start of the caller's buffer.\<close>

definition filled :: "bytes \<Rightarrow> bytes \<Rightarrow> bytes" where
  "filled out buf = take (length buf) (out @ drop (length out) buf)"

definition sys_read :: "'w sys_ops \<Rightarrow> 'w \<Rightarrow> fd \<Rightarrow> bytes \<Rightarrow> 'w \<times> int io_result \<times> bytes" where
  "sys_read p w fd buf =
     (case syscall p w SYS_read [ANum fd, AOut (length buf)] of (w, r, out) \<Rightarrow> (w, r, filled out buf))"

text \<open>The value is seen as the bytes of its representation.\<close>

definition read_value :: "'w sys_ops \<Rightarrow> 'w \<Rightarrow> fd \<Rightarrow> bytes \<Rightarrow> 'w \<times> int io_result \<times> bytes" where
  "read_value p w fd buf =
     (case syscall p w SYS_read [ANum fd, AOut (length buf)] of (w, r, out) \<Rightarrow> (w, r, filled out buf))"

definition sys_write :: "'w sys_ops \<Rightarrow> 'w \<Rightarrow> fd \<Rightarrow> bytes \<Rightarrow> 'w \<times> int io_result" where
  "sys_write p w fd buf = result_of (syscall p w SYS_write [ANum fd, AIn buf])"

definition write_value :: "'w sys_ops \<Rightarrow> 'w \<Rightarrow> fd \<Rightarrow> bytes \<Rightarrow> 'w \<times> int io_result" where
  "write_value p w fd buf = result_of (syscall p w SYS_write [ANum fd, AIn buf])"

definition sys_close :: "'w sys_ops \<Rightarrow> 'w \<Rightarrow> fd \<Rightarrow> 'w" where
  "sys_close p w fd = fst (syscall_unchecked p w SYS_close [ANum fd])"

definition sys_pipe2 :: "'w sys_ops \<Rightarrow> 'w \<Rightarrow> bytes \<Rightarrow> int \<Rightarrow> 'w \<times> unit io_result \<times> bytes" where
  "sys_pipe2 p w pipefd flags =
     (case syscall p w SYS_pipe2 [AOut 8, ANum flags] of
        (w, r, out) \<Rightarrow> (w, map_sum id (\<lambda>_. ()) r, filled out pipefd))"

definition sethostname :: "'w sys_ops \<Rightarrow> 'w \<Rightarrow> bytes \<Rightarrow> 'w \<times> unit io_result" where
  "sethostname p w name = unit_of (syscall p w SYS_sethostname [AIn name, ANum (int (length name))])"

text \<open>The resource usage is a null pointer or an output; the caller's status is four bytes.\<close>

definition sys_wait4 ::
  "'w sys_ops \<Rightarrow> 'w \<Rightarrow> pid \<Rightarrow> bytes \<Rightarrow> int \<Rightarrow> bool \<Rightarrow> 'w \<times> pid io_result \<times> bytes"
where
  "sys_wait4 p w pid status options rusage =
     (case syscall p w SYS_wait4 [ANum pid, AOut 4, ANum options, if rusage then AOut 144 else AStr None] of
        (w, r, out) \<Rightarrow> (w, r, filled out status))"

definition mount ::
  "'w sys_ops \<Rightarrow> 'w \<Rightarrow> cstr option \<Rightarrow> cstr \<Rightarrow> cstr option \<Rightarrow> int \<Rightarrow> cstr option \<Rightarrow> 'w \<times> unit io_result"
where
  "mount p w source target fstype flags data =
     unit_of (syscall p w SYS_mount [AStr source, AStr (Some target), AStr fstype, ANum flags, AStr data])"

definition pivot_root :: "'w sys_ops \<Rightarrow> 'w \<Rightarrow> cstr \<Rightarrow> cstr \<Rightarrow> 'w \<times> unit io_result" where
  "pivot_root p w new_root put_old = unit_of (syscall p w SYS_pivot_root [AStr (Some new_root), AStr (Some put_old)])"

definition umount2 :: "'w sys_ops \<Rightarrow> 'w \<Rightarrow> cstr \<Rightarrow> int \<Rightarrow> 'w \<times> unit io_result" where
  "umount2 p w target flags = unit_of (syscall p w SYS_umount2 [AStr (Some target), ANum flags])"

definition chdir :: "'w sys_ops \<Rightarrow> 'w \<Rightarrow> cstr \<Rightarrow> 'w \<times> unit io_result" where
  "chdir p w path = unit_of (syscall p w SYS_chdir [AStr (Some path)])"

definition mkdir :: "'w sys_ops \<Rightarrow> 'w \<Rightarrow> cstr \<Rightarrow> int \<Rightarrow> 'w \<times> unit io_result" where
  "mkdir p w path mode = unit_of (syscall p w SYS_mkdir [AStr (Some path), ANum mode])"

definition rmdir :: "'w sys_ops \<Rightarrow> 'w \<Rightarrow> cstr \<Rightarrow> 'w \<times> unit io_result" where
  "rmdir p w path = unit_of (syscall p w SYS_rmdir [AStr (Some path)])"

definition chroot :: "'w sys_ops \<Rightarrow> 'w \<Rightarrow> cstr \<Rightarrow> 'w \<times> unit io_result" where
  "chroot p w path = unit_of (syscall p w SYS_chroot [AStr (Some path)])"

section \<open>Wrappers of the C library\<close>

definition libc_unit :: "'w sys_ops \<Rightarrow> 'w \<times> int \<times> bytes \<Rightarrow> 'w \<times> unit io_result" where
  "libc_unit p x = (case sys_ensure p x of (w, r) \<Rightarrow> (w, map_sum id (\<lambda>_. ()) r))"

definition sys_setsid :: "'w sys_ops \<Rightarrow> 'w \<Rightarrow> 'w \<times> pid io_result" where
  "sys_setsid p w = sys_ensure p (sy_call p w C_setsid [])"

definition setns :: "'w sys_ops \<Rightarrow> 'w \<Rightarrow> fd \<Rightarrow> int \<Rightarrow> 'w \<times> unit io_result" where
  "setns p w fd nstype = libc_unit p (sy_call p w C_setns [ANum fd, ANum nstype])"

definition dup2 :: "'w sys_ops \<Rightarrow> 'w \<Rightarrow> fd \<Rightarrow> fd \<Rightarrow> 'w \<times> unit io_result" where
  "dup2 p w oldfd newfd = libc_unit p (sy_call p w C_dup2 [ANum oldfd, ANum newfd])"

definition F_DUPFD_CLOEXEC :: int where "F_DUPFD_CLOEXEC = 1030"

definition dup :: "'w sys_ops \<Rightarrow> 'w \<Rightarrow> fd \<Rightarrow> 'w \<times> fd io_result" where
  "dup p w fd = sys_ensure p (sy_call p w C_fcntl [ANum fd, ANum F_DUPFD_CLOEXEC, ANum 0])"

text \<open>A signal set is its bytes; a missing one is a null pointer.\<close>

definition sigprocmask ::
  "'w sys_ops \<Rightarrow> 'w \<Rightarrow> int \<Rightarrow> bytes option \<Rightarrow> bytes option \<Rightarrow> 'w \<times> unit io_result \<times> bytes option"
where
  "sigprocmask p w how newset oldset =
     (case sy_call p w C_sigprocmask
             [ANum how, case newset of None \<Rightarrow> AStr None | Some s \<Rightarrow> AIn s,
              case oldset of None \<Rightarrow> AStr None | Some s \<Rightarrow> AOut (length s)] of
        (w, ret, out) \<Rightarrow>
          (case libc_unit p (w, ret, out) of (w, r) \<Rightarrow> (w, r, map_option (filled out) oldset)))"

definition signalfd :: "'w sys_ops \<Rightarrow> 'w \<Rightarrow> fd \<Rightarrow> bytes \<Rightarrow> int \<Rightarrow> 'w \<times> fd io_result" where
  "signalfd p w fd newset flags = sys_ensure p (sy_call p w C_signalfd [ANum fd, AIn newset, ANum flags])"

section \<open>Programs and processes\<close>

text \<open>
  \<^verbatim>\<open>Argv\<close>: a null-terminated vector. Its transmutes rely on \<^verbatim>\<open>Option<CString>\<close> having the representation of
  \<^verbatim>\<open>CString\<close>; turning a null back into a \<^verbatim>\<open>CString\<close> is undefined behaviour.
\<close>

type_synonym argv = "cstr option list"

definition argv_new :: "cstr list \<Rightarrow> argv" where
  "argv_new command = map Some command @ [None]"

definition argv_as_slice :: "argv \<Rightarrow> argv" where
  "argv_as_slice args = args"

definition argv_into_inner :: "argv \<Rightarrow> cstr option list" where
  "argv_into_inner args = args"

text \<open>
  \<^verbatim>\<open>assert!(self.args.pop().is_none())\<close>: \<^verbatim>\<open>pop\<close> wraps the element it takes off, so its result is the outer
  \<^const>\<open>None\<close> for an empty vector only, not for one that ends in a null.
\<close>

definition argv_pop :: "argv \<Rightarrow> argv \<times> cstr option option" where
  "argv_pop args = (if args = [] then ([], None) else (butlast args, Some (last args)))"

definition argv_into_command :: "argv \<Rightarrow> cstr list option" where
  "argv_into_command args = (case argv_pop args of (args, popped) \<Rightarrow> do {
     ensure (popped = None);
     those args
   })"

text \<open>The program is the first element; \<^verbatim>\<open>execvp\<close> of the C library needs a string there. It returns on failure only.\<close>

definition sys_execvp :: "'w sys_ops \<Rightarrow> 'w \<Rightarrow> argv \<Rightarrow> ('w \<times> io_error) option" where
  "sys_execvp p w argv = do {
     first \<leftarrow> idx argv 0;
     file \<leftarrow> first;
     (case sy_call p w C_execvp [AStr (Some file), AArgv argv] of
        (w, ret, out) \<Rightarrow> Some (w, Os (sy_errno p w)))
   }"

definition EXIT_SIGCHLD :: int where "EXIT_SIGCHLD = 17"

record clone_args =
  cl_flags :: u64
  cl_pidfd :: u64
  cl_child_tid :: u64
  cl_parent_tid :: u64
  cl_exit_signal :: u64
  cl_stack :: u64
  cl_stack_size :: u64
  cl_tls :: u64
  cl_set_tid :: u64
  cl_set_tid_size :: u64
  cl_cgroup :: u64

definition u64_bytes :: "u64 \<Rightarrow> bytes" where
  "u64_bytes v = map (\<lambda>i. ucast (drop_bit (8 * i) v)) [0..<8]"

definition clone_args_bytes :: "clone_args \<Rightarrow> bytes" where
  "clone_args_bytes a =
     concat (map u64_bytes [cl_flags a, cl_pidfd a, cl_child_tid a, cl_parent_tid a, cl_exit_signal a, cl_stack a,
       cl_stack_size a, cl_tls a, cl_set_tid a, cl_set_tid_size a, cl_cgroup a])"

definition clone3 :: "'w sys_ops \<Rightarrow> 'w \<Rightarrow> clone_args \<Rightarrow> 'w \<times> int io_result" where
  "clone3 p w args =
     result_of (syscall p w SYS_clone3 [AIn (clone_args_bytes args), ANum (int (length (clone_args_bytes args)))])"

text \<open>The flags are a C integer, widened with its sign; zero is the child, which gets no process id.\<close>

definition clone3_container :: "'w sys_ops \<Rightarrow> 'w \<Rightarrow> int \<Rightarrow> 'w \<times> pid option io_result" where
  "clone3_container p w flags =
     (let args = \<lparr>cl_flags = word_of_int flags, cl_pidfd = 0, cl_child_tid = 0, cl_parent_tid = 0,
                  cl_exit_signal = word_of_int EXIT_SIGCHLD, cl_stack = 0, cl_stack_size = 0, cl_tls = 0, cl_set_tid = 0,
                  cl_set_tid_size = 0, cl_cgroup = 0\<rparr>
      in case clone3 p w args of
           (w, Inl e) \<Rightarrow> (w, Inl e)
         | (w, Inr x) \<Rightarrow> (w, Inr (if x = 0 then None else Some (sint (word_of_int x :: 32 word)))))"

section \<open>The loopback interface\<close>

definition AF_INET :: int where "AF_INET = 2"
definition SOCK_DGRAM :: int where "SOCK_DGRAM = 2"
definition SIOCGIFFLAGS :: int where "SIOCGIFFLAGS = 0x8913"
definition SIOCSIFFLAGS :: int where "SIOCSIFFLAGS = 0x8914"
definition IFF_UP :: u16 where "IFF_UP = 1"

text \<open>\<^verbatim>\<open>ifreq\<close>: sixteen bytes of name, then a union of twenty-four bytes that starts with the flags.\<close>

definition ifreq_lo :: bytes where
  "ifreq_lo = [108, 111, 0] @ replicate 37 0"

definition ifr_flags :: "bytes \<Rightarrow> u16" where
  "ifr_flags ifr = ucast (ifr ! 16) OR push_bit 8 (ucast (ifr ! 17))"

definition set_ifr_flags :: "bytes \<Rightarrow> u16 \<Rightarrow> bytes" where
  "set_ifr_flags ifr v = ifr[16 := ucast v, 17 := ucast (drop_bit 8 v)]"

definition bring_up_lo :: "'w sys_ops \<Rightarrow> 'w \<Rightarrow> 'w \<times> unit io_result" where
  "bring_up_lo p w =
     (case sy_call p w C_socket [ANum AF_INET, ANum SOCK_DGRAM, ANum 0] of
        (w, fd, _) \<Rightarrow>
          (if fd < 0 then (w, Inl (Os (sy_errno p w)))
           else
             (case sy_call p w C_ioctl [ANum fd, ANum SIOCGIFFLAGS, AIn ifreq_lo, AOut (length ifreq_lo)] of
                (w, ret, out) \<Rightarrow>
                  (if ret < 0 then
                     (let e = sy_errno p w in (fst (sy_call p w C_close [ANum fd]), Inl (Os e)))
                   else
                     (let ifr = filled out ifreq_lo;
                          ifr = set_ifr_flags ifr (ifr_flags ifr OR IFF_UP)
                      in case sy_call p w C_ioctl [ANum fd, ANum SIOCSIFFLAGS, AIn ifr, AOut (length ifr)] of
                           (w, ret, out) \<Rightarrow>
                             (if ret < 0 then
                                (let e = sy_errno p w in (fst (sy_call p w C_close [ANum fd]), Inl (Os e)))
                              else (fst (sy_call p w C_close [ANum fd]), Inr ())))))))"

section \<open>Properties\<close>

text \<open>
  What the kernel promises for the calls of \<^const>\<open>bring_up_lo\<close>: a socket is fresh, closing removes a
  descriptor, and only the second control call changes the interface, to the flags it is given.
\<close>

definition socket_law :: "'w sys_ops \<Rightarrow> ('w \<Rightarrow> fd set) \<Rightarrow> ('w \<Rightarrow> u16) \<Rightarrow> bool" where
  "socket_law p opened flags \<longleftrightarrow>
     (\<forall>w args w' fd out. sy_call p w C_socket args = (w', fd, out) \<longrightarrow> flags w' = flags w \<and>
        (if fd < 0 then opened w' = opened w else fd \<notin> opened w \<and> opened w' = insert fd (opened w)))"

definition close_law :: "'w sys_ops \<Rightarrow> ('w \<Rightarrow> fd set) \<Rightarrow> ('w \<Rightarrow> u16) \<Rightarrow> bool" where
  "close_law p opened flags \<longleftrightarrow>
     (\<forall>w fd. opened (fst (sy_call p w C_close [ANum fd])) = opened w - {fd} \<and>
        flags (fst (sy_call p w C_close [ANum fd])) = flags w)"

definition get_flags_law :: "'w sys_ops \<Rightarrow> ('w \<Rightarrow> fd set) \<Rightarrow> ('w \<Rightarrow> u16) \<Rightarrow> bool" where
  "get_flags_law p opened flags \<longleftrightarrow>
     (\<forall>w fd ifr n w' ret out. sy_call p w C_ioctl [ANum fd, ANum SIOCGIFFLAGS, AIn ifr, AOut n] = (w', ret, out) \<longrightarrow>
        opened w' = opened w \<and> flags w' = flags w \<and> (ret < 0 \<or> (length out = n \<and> ifr_flags out = flags w)))"

definition set_flags_law :: "'w sys_ops \<Rightarrow> ('w \<Rightarrow> fd set) \<Rightarrow> ('w \<Rightarrow> u16) \<Rightarrow> bool" where
  "set_flags_law p opened flags \<longleftrightarrow>
     (\<forall>w fd ifr n w' ret out. sy_call p w C_ioctl [ANum fd, ANum SIOCSIFFLAGS, AIn ifr, AOut n] = (w', ret, out) \<longrightarrow>
        opened w' = opened w \<and> flags w' = (if ret < 0 then flags w else ifr_flags ifr))"

definition net_laws :: "'w sys_ops \<Rightarrow> ('w \<Rightarrow> fd set) \<Rightarrow> ('w \<Rightarrow> u16) \<Rightarrow> bool" where
  "net_laws p opened flags \<longleftrightarrow>
     socket_law p opened flags \<and> close_law p opened flags \<and> get_flags_law p opened flags \<and> set_flags_law p opened flags"

lemma ifr_flags_set: "length ifr = 40 \<Longrightarrow> ifr_flags (set_ifr_flags ifr v) = v"
  by (simp add: ifr_flags_def set_ifr_flags_def)
    (rule bit_word_eqI, auto simp: bit_simps)

lemma length_filled [simp]: "length (filled out buf) = length buf"
  by (simp add: filled_def)

lemma filled_all: "length out = length buf \<Longrightarrow> filled out buf = out"
  by (simp add: filled_def)

text \<open>
  \<^verbatim>\<open>bring_up_lo\<close> leaves no descriptor behind, whichever call fails; on success the interface is up and
  keeps its other flags, on failure its flags are as they were.
\<close>

theorem bring_up_lo_sound:
  assumes "net_laws p opened flags" "bring_up_lo p w = (w', r)"
  shows "opened w' = opened w \<and> flags w' = (if isl r then flags w else flags w OR IFF_UP)"
proof -
  obtain w1 fd o1 where s: "sy_call p w C_socket [ANum AF_INET, ANum SOCK_DGRAM, ANum 0] = (w1, fd, o1)"
    by (cases "sy_call p w C_socket [ANum AF_INET, ANum SOCK_DGRAM, ANum 0]") auto
  obtain w2 r2 out where g: "sy_call p w1 C_ioctl [ANum fd, ANum SIOCGIFFLAGS, AIn ifreq_lo, AOut (length ifreq_lo)] = (w2, r2, out)"
    by (cases "sy_call p w1 C_ioctl [ANum fd, ANum SIOCGIFFLAGS, AIn ifreq_lo, AOut (length ifreq_lo)]") auto
  let ?ifr = "set_ifr_flags (filled out ifreq_lo) (ifr_flags (filled out ifreq_lo) OR IFF_UP)"
  obtain w3 r3 o3 where u: "sy_call p w2 C_ioctl [ANum fd, ANum SIOCSIFFLAGS, AIn ?ifr, AOut (length ?ifr)] = (w3, r3, o3)"
    by (cases "sy_call p w2 C_ioctl [ANum fd, ANum SIOCSIFFLAGS, AIn ?ifr, AOut (length ?ifr)]") auto
  have f: "ifr_flags ?ifr = ifr_flags (filled out ifreq_lo) OR IFF_UP"
    by (rule ifr_flags_set) (simp add: ifreq_lo_def)
  have c: "opened (fst (sy_call p v C_close [ANum fd])) = opened v - {fd}" "flags (fst (sy_call p v C_close [ANum fd])) = flags v" for v
    using assms(1) by (simp_all add: net_laws_def close_law_def)
  have "flags w1 = flags w \<and> (if fd < 0 then opened w1 = opened w else fd \<notin> opened w \<and> opened w1 = insert fd (opened w))"
    using assms(1) s unfolding net_laws_def socket_law_def by blast
  then have s1: "flags w1 = flags w" "fd < 0 \<Longrightarrow> opened w1 = opened w" "\<not> fd < 0 \<Longrightarrow> opened w1 - {fd} = opened w"
    by (auto split: if_splits)
  have "opened w2 = opened w1 \<and> flags w2 = flags w1 \<and> (r2 < 0 \<or> (length out = length ifreq_lo \<and> ifr_flags out = flags w1))"
    using assms(1) g unfolding net_laws_def get_flags_law_def by blast
  then have g1: "opened w2 = opened w1" "flags w2 = flags w1" "\<not> r2 < 0 \<Longrightarrow> ifr_flags (filled out ifreq_lo) = flags w1"
    by (auto simp: filled_all)
  have u1: "opened w3 = opened w2" "flags w3 = (if r3 < 0 then flags w2 else ifr_flags ?ifr)"
    using assms(1) u unfolding net_laws_def set_flags_law_def by blast+
  consider "fd < 0" | "\<not> fd < 0" "r2 < 0" | "\<not> fd < 0" "\<not> r2 < 0" "r3 < 0" | "\<not> fd < 0" "\<not> r2 < 0" "\<not> r3 < 0"
    by blast
  then show ?thesis
  proof cases
    case 1
    then show ?thesis using assms(2) s s1 by (auto simp: bring_up_lo_def)
  next
    case 2
    then show ?thesis using assms(2) s g s1 g1 c by (auto simp: bring_up_lo_def Let_def)
  next
    case 3
    then show ?thesis using assms(2) s g u s1 g1 u1 c by (auto simp: bring_up_lo_def Let_def)
  next
    case 4
    then show ?thesis using assms(2) s g u s1 g1 u1 c f by (auto simp: bring_up_lo_def Let_def)
  qed
qed

text \<open>A kernel with a loopback interface that is down and has other flags set.\<close>

definition net_kernel :: "(fd list \<times> u16) sys_ops" where
  "net_kernel =
     \<lparr>sy_call = (\<lambda>(fds, fl) nr args.
        case (nr, args) of
          (C_socket, _) \<Rightarrow> let fd = Max (set (2 # fds)) + 1 in ((fd # fds, fl), fd, [])
        | (C_close, [ANum fd]) \<Rightarrow> ((filter (\<lambda>g. g \<noteq> fd) fds, fl), 0, [])
        | (C_ioctl, [ANum fd, ANum q, AIn ifr, AOut n]) \<Rightarrow>
            if q = SIOCSIFFLAGS then ((fds, ifr_flags ifr), 0, [])
            else if 18 \<le> n then ((fds, fl), 0, set_ifr_flags (replicate n 0) fl) else ((fds, fl), -1, [])
        | _ \<Rightarrow> ((fds, fl), 0, [])),
      sy_errno = (\<lambda>w. 22)\<rparr>"

lemma net_kernel_laws: "net_laws net_kernel (\<lambda>w. set (fst w)) snd"
proof -
  have fresh: "Max (insert 2 (set w)) + 1 \<notin> set w" for w :: "fd list"
    using Max_ge [of "insert 2 (set w)"] by (metis List.finite_set add_le_same_cancel1 finite.insertI insertCI not_one_le_zero)
  have pos: "\<not> Max (insert 2 (set w)) + 1 < 0" for w :: "fd list"
  proof -
    have "2 \<le> Max (insert 2 (set w))" by (rule Max_ge) simp_all
    then show ?thesis by linarith
  qed
  have "ifr_flags (set_ifr_flags (replicate n 0) v) = v" if "18 \<le> n" for n v
    using that by (simp add: ifr_flags_def set_ifr_flags_def) (rule bit_word_eqI, auto simp: bit_simps)
  then have "get_flags_law net_kernel (\<lambda>w. set (fst w)) snd"
    by (auto simp: get_flags_law_def net_kernel_def SIOCGIFFLAGS_def SIOCSIFFLAGS_def set_ifr_flags_def split: if_splits)
  moreover have "socket_law net_kernel (\<lambda>w. set (fst w)) snd"
    using fresh pos by (auto simp: socket_law_def net_kernel_def Let_def split: if_splits)
  moreover have "close_law net_kernel (\<lambda>w. set (fst w)) snd" "set_flags_law net_kernel (\<lambda>w. set (fst w)) snd"
    by (auto simp: close_law_def set_flags_law_def net_kernel_def)
  ultimately show ?thesis by (simp add: net_laws_def)
qed

theorem bring_up_lo_sound_witness:
  "\<exists>w' r. bring_up_lo net_kernel ([5], 8) = (w', r) \<and> set (fst w') = {5} \<and> snd w' = (if isl r then 8 else 8 OR IFF_UP)"
proof -
  obtain w' r where run: "bring_up_lo net_kernel ([5], 8) = (w', r)" by fastforce
  from bring_up_lo_sound [OF net_kernel_laws run] run show ?thesis by auto
qed

text \<open>
  The argument vector of a program is null-terminated, and cannot be turned back into the command: the
  assertion of \<^verbatim>\<open>into_command\<close> fails for every vector \<^verbatim>\<open>new\<close> makes. A program that has no name cannot be
  started: the first element of the vector is the null pointer that \<^verbatim>\<open>execvp\<close> would take for the name.
\<close>

lemma argv_into_command_panics:
  "last (argv_new c) = None \<and> argv_into_command (argv_new c) = None \<and> (sys_execvp p w (argv_new c) = None \<longleftrightarrow> c = [])"
  by (cases c) (auto simp: argv_new_def argv_pop_def argv_into_command_def sys_execvp_def idx_def ensure_def split: prod.splits)

end
