(* ===== verification/Spec2Isabelle.thy ===== *)
theory Spec2Isabelle
  imports View_Safety Mio_Safety Uring_Safety Buffer_Arena Ring_Lifecycle C_Strings Daemon_Invariants
    Follower_Lines Descriptor_Leaks Session_Frames Child_Safety Attached_Output Overlay_Cleanup Daemon_Boot Syscalls
begin

text \<open>
  A verification development for conrt, a container runtime: a daemon that starts Linux containers and
  relays their output, the command-line client that talks to it, and \<^verbatim>\<open>coio\<close>, the callback-driven
  completion runtime the daemon runs on. Paths are relative to \<^verbatim>\<open>src/\<close>.

  \<^bold>\<open>The program.\<close> A client sends a request (a JSON datagram, or a frame over a stream for an
  interactive session) to the daemon. The daemon is one thread: at boot it arms three operations
  (receive a datagram, accept a client, read the signal descriptor) on a \<^verbatim>\<open>Runtime\<close>, and everything else
  happens in the callbacks of completed operations, which arm further ones. The runtime keeps the
  operations in flight in slabs of slots and asks a \<^verbatim>\<open>Backend\<close> to carry them out: io_uring, or a
  readiness poller. With io_uring, buffers come from pools of slots tracked by borrow counts and are
  handed around as views. A container is a cloned child that waits for a start signal, builds its root
  filesystem and executes the command, under a small init unless told otherwise; its output is read by
  the daemon, cut into lines, cached, and written to followers and to an attached session.

  \<^bold>\<open>Conventions.\<close> They are stated in \<^theory_text>\<open>Conrt_Prelude\<close>. A panic (failed assertion, index out of
  range, overflow with checks on, \<^verbatim>\<open>expect\<close>) is \<^const>\<open>None\<close> of the option monad, an \<^verbatim>\<open>io::Result\<close> is a sum
  with the error on the left. A struct is a record, an enum a datatype, a bounded integer a word where
  its bits or its wrap-around matter and a natural or integer otherwise, with the bound in the
  definition. What is not in the repository (the kernel, the poller, the \<^verbatim>\<open>io_uring\<close> crate, the
  allocator, the JSON library, the terminal) is a record of functions over a world; theorems that rely
  on its documented behaviour name it as a hypothesis (\<open>ring_laws\<close>, \<open>host_laws\<close>, \<open>fd_laws\<close> and the like) and
  their witnesses instantiate it.

  \<^bold>\<open>Theories and sources.\<close>

  \<^item> \<^theory_text>\<open>Log_Cache\<close>, \<^theory_text>\<open>Log_Gateway\<close> (\<^verbatim>\<open>LogCache\<close>, \<^verbatim>\<open>LogGateway\<close>, \<^verbatim>\<open>AsyncPipeWriter\<close> of
    \<^verbatim>\<open>libs/core/src/daemon.rs\<close>): the ring buffer of lines against the specification \<^emph>\<open>the longest suffix
    that fits\<close>; one write in flight per follower. The locale \<open>line_store\<close> is what both offer.
  \<^item> \<^theory_text>\<open>Line_Drain\<close>, \<^theory_text>\<open>Frame_Codec\<close>, \<^theory_text>\<open>Msg_Headers\<close> (\<^verbatim>\<open>drain_lines\<close>, \<^verbatim>\<open>split_line\<close>; \<^verbatim>\<open>build_frame\<close>,
    \<^verbatim>\<open>read_frame\<close> of \<^verbatim>\<open>libs/core/src/lib.rs\<close>; \<^verbatim>\<open>Msg\<close> of \<^verbatim>\<open>libs/coio-uring/src/io.rs\<close>): line assembly is independent
    of how output is cut, frames round-trip over any delivery, control messages stay well-formed.
  \<^item> \<^theory_text>\<open>Size_Classes\<close>, \<^theory_text>\<open>Borrow_Tracker\<close>, \<^theory_text>\<open>Buffer_Slabs\<close>, \<^theory_text>\<open>Slab_Safety\<close>, \<^theory_text>\<open>Buffer_Views\<close>, \<^theory_text>\<open>View_Safety\<close>
    (\<^verbatim>\<open>libs/coio-uring/src\<close>: \<^verbatim>\<open>classes.rs\<close>, \<^verbatim>\<open>buf/tracker.rs\<close>, \<^verbatim>\<open>buf/fixed.rs\<close>, \<^verbatim>\<open>buf/provided.rs\<close>, \<^verbatim>\<open>buf/pool.rs\<close>,
    \<^verbatim>\<open>pools.rs\<close>, \<^verbatim>\<open>buf.rs\<close>): layout of the classes, borrow counts as a readers-writer discipline, the two
    slabs behind the locale \<open>slab\<close>, the descriptor ring shared with the kernel, and memory safety of
    the views as a state machine over all their operations.
  \<^item> \<^theory_text>\<open>Coio_Runtime\<close>, \<^theory_text>\<open>Op_Slabs\<close>, \<^theory_text>\<open>Runtime_Safety\<close>, \<^theory_text>\<open>Runtime_Delivery\<close>, \<^theory_text>\<open>Buffer_Arena\<close>, \<^theory_text>\<open>Io_Buffers\<close>
    (\<^verbatim>\<open>libs/coio-core/src\<close>: \<^verbatim>\<open>runtime.rs\<close>, \<^verbatim>\<open>io.rs\<close>, \<^verbatim>\<open>buf.rs\<close>): the runtime; the free stacks (locale
    \<open>free_stack\<close>); the invariant \<open>rt_inv\<close> over the maps of live slots and its preservation by every
    operation and by any callback; delivery of finished and of cancelled operations, handles, the
    event loop; the arena of erased buffers and what becomes of a caller's buffers.
  \<^item> \<^theory_text>\<open>Backend_Port\<close>, \<^theory_text>\<open>Mio_Backend\<close>, \<^theory_text>\<open>Mio_Safety\<close>, \<^theory_text>\<open>Uring_Backend\<close>, \<^theory_text>\<open>Uring_Safety\<close>, \<^theory_text>\<open>Ring_Lifecycle\<close>
    (\<^verbatim>\<open>backend.rs\<close>; \<^verbatim>\<open>libs/coio-mio/src\<close>; \<^verbatim>\<open>libs/coio-uring/src/uring.rs\<close>, \<^verbatim>\<open>io.rs\<close>): the contract between the
    runtime and a backend is the locale \<open>backend_port\<close>; the poller is an interpretation of it, the ring
    one under its documented laws; so no completion names a dead slot. The last theory is the order in
    which a ring runtime acquires and releases its resources.
  \<^item> \<^theory_text>\<open>Daemon_State\<close>, \<^theory_text>\<open>Daemon_Sessions\<close>, \<^theory_text>\<open>Daemon_Containers\<close>, \<^theory_text>\<open>Daemon_Requests\<close>, \<^theory_text>\<open>Daemon_Attach\<close>,
    \<^theory_text>\<open>Daemon_Boot\<close> (\<^verbatim>\<open>libs/core/src/daemon.rs\<close>): data, attach sessions, follow writes and output drains,
    reaping, requests, starting a container, the loops and the start of the process. A state is a
    daemon with its operations in flight; \<open>deliver\<close> runs the callback of one completed operation.
  \<^item> \<^theory_text>\<open>Demo_Kernel\<close>, \<^theory_text>\<open>Session_Protocol\<close>, \<^theory_text>\<open>Daemon_Invariants\<close>: a kernel to evaluate scripts against; the abstract
    session machine every run of the daemon refines; the invariants of the whole daemon (typed operations,
    keyed tables, three live loops).
  \<^item> \<^theory_text>\<open>Container_Logs\<close>, \<^theory_text>\<open>Follower_Lines\<close>, \<^theory_text>\<open>Session_Output\<close>, \<^theory_text>\<open>Session_Frames\<close>,
    \<^theory_text>\<open>Shared_Descriptor\<close>, \<^theory_text>\<open>Descriptor_Leaks\<close>: the three data paths through the daemon
    end to end, from what a container prints to the answer to \<^verbatim>\<open>logs\<close> and to the stream of an attached
    client, both under any interleaving, and from the bytes of a client to the input of its container,
    with the places where bytes are lost; a descriptor with two owners, and one with none.
  \<^item> \<^theory_text>\<open>Container_Child\<close>, \<^theory_text>\<open>Child_Safety\<close>, \<^theory_text>\<open>Overlay_Cleanup\<close> (\<^verbatim>\<open>daemon.rs\<close>, \<^verbatim>\<open>lib.rs\<close>, \<^verbatim>\<open>pty.rs\<close>, \<^verbatim>\<open>interprocess.rs\<close>): the child's
    side of a container as a list of kernel calls, its start signal, root filesystem, init and exit
    code; the overlay directory and its removal over a file system with modes and links.
  \<^item> \<^theory_text>\<open>Client\<close>, \<^theory_text>\<open>Client_Safety\<close> (\<^verbatim>\<open>src/main.rs\<close>): every subcommand; the two threads of a session under
    an arbitrary schedule. \<^theory_text>\<open>Attached_Output\<close> joins the daemon's stream to the client's reader.
  \<^item> \<^theory_text>\<open>Syscalls\<close>, \<^theory_text>\<open>C_Strings\<close> (\<^verbatim>\<open>libs/sys/src/lib.rs\<close>, \<^verbatim>\<open>libs/cstring/src/lib.rs\<close>): the system call wrappers and
    owned C strings over an explicit heap.

  \<^bold>\<open>Loops and bounds.\<close> A loop that may not end is a \<^theory_text>\<open>partial_function (option)\<close>: the event loop, the
  eviction loops of the cache, frame reading, the init, the client's reader. Where a theorem says such a
  loop returns, its conclusion is an equation with \<^const>\<open>Some\<close>. Threads are interleaved by a list of
  booleans, one per turn. Symbolic links are followed at most 40 times, as the kernel does. Slot and
  block indices are below \<open>2 ^ 32\<close>, operation ids below \<open>2 ^ 62\<close>, borrow counts are signed 32-bit,
  descriptor ring positions wrap at 16 bits, payload lengths at 16 bits.

  \<^bold>\<open>Not modelled.\<close> Test modules, integration tests and examples; the facade crate and re-exports; JSON
  encoding and decoding (a pair of functions of the kernel record); command-line parsing and log
  messages; formatting and debug output; memory contents (the bytes behind a view are a
  parameter of the two functions that read them). \<^verbatim>\<open>RefMut\<close>, \<^verbatim>\<open>SliceMut\<close> and \<^verbatim>\<open>MsgMut\<close> have the representation and
  the code of \<^verbatim>\<open>Ref\<close>, \<^verbatim>\<open>Slice\<close> and \<^verbatim>\<open>Msg\<close> and share their definitions, with the kind of borrow as an
  argument where they differ.
\<close>

end
